(* ===== verification/Prelude.thy ===== *)
theory Prelude
  imports Main "HOL-Library.Word" "HOL-Library.AList" "HOL-Library.Multiset"
begin

text \<open>
  Shared vocabulary of the development.

  \<^item> Python exceptions are values: a computation that may raise has type \<open>'e + 'a\<close>, with
    \<open>Inl\<close> the exception; \<open>rbind\<close> is sequencing and \<open>cat\<close> is the \<open>message += ...\<close>
    idiom of the encoders.
  \<^item> A Python generator is \<open>'y list \<times> ('e + 'a)\<close>: the items it yields, in order, and how
    it ends; \<open>gbind\<close>, \<open>yield\<close> and \<open>glift\<close> compose them.
  \<^item> A Python \<open>dict\<close> is an association list in insertion order; \<open>dict_set\<close> and
    \<open>dict_del\<close> are the updates that keep that order.
  \<^item> \<open>py_slice\<close> is \<open>data[i:j]\<close> with Python's rules for negative and too large bounds.
  \<^item> \<open>suffix_at\<close> says what is left to read at a cursor; the locale \<open>wire_format\<close> is the
    contract between a writer and the reader of the same field, and carries the loops that
    read a counted array of such fields.
  \<^item> The locale \<open>step_machine\<close> is the contract of a component that reacts to events: an
    invariant that the initial states have and every handler keeps.
\<close>

section \<open>Collections of facts\<close>

named_theorems res_simps \<open>equations of the result and generator combinators\<close>
named_theorems wire_enc \<open>what a successful encoder has written\<close>
named_theorems wire_dec \<open>what a reader returns in front of an encoded field\<close>

section \<open>Bytes and results\<close>

type_synonym byte = "8 word"
type_synonym bytes = "byte list"

definition rbind :: "'e + 'a \<Rightarrow> ('a \<Rightarrow> 'e + 'b) \<Rightarrow> 'e + 'b" where
  "rbind m f = (case m of Inl e \<Rightarrow> Inl e | Inr x \<Rightarrow> f x)"

lemma rbind_Inl [simp, res_simps]: "rbind (Inl e) f = Inl e"
  by (simp add: rbind_def)

lemma rbind_Inr [simp, res_simps]: "rbind (Inr x) f = f x"
  by (simp add: rbind_def)

lemma rbind_eq_Inr: "rbind m f = Inr y \<longleftrightarrow> (\<exists>x. m = Inr x \<and> f x = Inr y)"
  by (cases m) auto

lemma rbind_eq_Inl: "rbind m f = Inl e \<longleftrightarrow> m = Inl e \<or> (\<exists>x. m = Inr x \<and> f x = Inl e)"
  by (cases m) auto

lemma rbind_cong [fundef_cong]:
  "m = m' \<Longrightarrow> (\<And>x. m' = Inr x \<Longrightarrow> f x = f' x) \<Longrightarrow> rbind m f = rbind m' f'"
  by (cases m') auto

text \<open>The encoders append pieces in order; the first piece that raises ends the encoding.\<close>

fun cat :: "('e + 'b list) list \<Rightarrow> 'e + 'b list" where
  "cat [] = Inr []"
| "cat (m # ms) = rbind m (\<lambda>b. rbind (cat ms) (\<lambda>bs. Inr (b @ bs)))"

lemma cat_Nil_eq_Inr [wire_enc]: "cat [] = Inr bs \<longleftrightarrow> bs = []"
  by auto

lemma cat_Cons_eq_Inr [wire_enc]:
  "cat (m # ms) = Inr bs \<longleftrightarrow> (\<exists>b bs'. m = Inr b \<and> cat ms = Inr bs' \<and> bs = b @ bs')"
  by (auto simp: rbind_eq_Inr)

lemma cat_append: "cat (ms @ ns) = rbind (cat ms) (\<lambda>b. rbind (cat ns) (\<lambda>bs. Inr (b @ bs)))"
proof (induction ms)
  case Nil
  then show ?case by (cases "cat ns") auto
next
  case (Cons m ms)
  then show ?case by (cases m; cases "cat ms"; cases "cat ns") auto
qed

section \<open>Generators\<close>

type_synonym ('y, 'e, 'a) gen = "'y list \<times> ('e + 'a)"

definition glift :: "'e + 'a \<Rightarrow> ('y, 'e, 'a) gen" where
  "glift m = ([], m)"

definition yield :: "'y \<Rightarrow> 'a \<Rightarrow> ('y, 'e, 'a) gen" where
  "yield y a = ([y], Inr a)"

definition gbind :: "('y, 'e, 'a) gen \<Rightarrow> ('a \<Rightarrow> ('y, 'e, 'b) gen) \<Rightarrow> ('y, 'e, 'b) gen" where
  "gbind g f = (case g of (ys, Inl e) \<Rightarrow> (ys, Inl e)
                        | (ys, Inr a) \<Rightarrow> (case f a of (zs, r) \<Rightarrow> (ys @ zs, r)))"

lemma gbind_simps [simp, res_simps]:
  "gbind (ys, Inl e) f = (ys, Inl e)"
  "gbind (ys, Inr a) f = (ys @ fst (f a), snd (f a))"
  by (simp_all add: gbind_def split: prod.splits)

lemma gbind_glift [simp, res_simps]:
  "gbind (glift (Inr a)) f = f a"
  "gbind (glift (Inl e)) f = ([], Inl e)"
  by (simp_all add: glift_def)

lemma gbind_cong [fundef_cong]:
  "g = g' \<Longrightarrow> (\<And>ys x. g' = (ys, Inr x) \<Longrightarrow> f x = f' x) \<Longrightarrow> gbind g f = gbind g' f'"
  by (cases g'; cases "snd g'") (auto simp: gbind_def)

text \<open>\<open>for _i in range(n)\<close> around a body that yields and moves the cursor.\<close>

fun gfor :: "nat \<Rightarrow> ('s \<Rightarrow> ('y, 'e, 's) gen) \<Rightarrow> 's \<Rightarrow> ('y, 'e, 's) gen" where
  "gfor 0 body s = ([], Inr s)"
| "gfor (Suc n) body s = gbind (body s) (gfor n body)"

text \<open>\<open>for _i in range(n)\<close> around a body that reads one item and appends it to a list.\<close>

fun read_n :: "nat \<Rightarrow> (int \<Rightarrow> 'e + 'a \<times> int) \<Rightarrow> int \<Rightarrow> 'e + 'a list \<times> int" where
  "read_n 0 rd cur = Inr ([], cur)"
| "read_n (Suc n) rd cur =
     rbind (rd cur) (\<lambda>(x, cur). rbind (read_n n rd cur) (\<lambda>(xs, cur). Inr (x # xs, cur)))"

lemma read_n_length: "read_n n rd cur = Inr (xs, cur') \<Longrightarrow> length xs = n"
  by (induction n arbitrary: cur xs) (auto simp: rbind_eq_Inr)

section \<open>Dictionaries in insertion order\<close>

type_synonym ('k, 'v) dict = "('k \<times> 'v) list"

abbreviation dict_get :: "('k, 'v) dict \<Rightarrow> 'k \<Rightarrow> 'v option" where
  "dict_get d k \<equiv> map_of d k"

abbreviation dict_set :: "'k \<Rightarrow> 'v \<Rightarrow> ('k, 'v) dict \<Rightarrow> ('k, 'v) dict" where
  "dict_set k v d \<equiv> AList.update k v d"

abbreviation dict_del :: "'k \<Rightarrow> ('k, 'v) dict \<Rightarrow> ('k, 'v) dict" where
  "dict_del k d \<equiv> AList.delete k d"

abbreviation dict_keys :: "('k, 'v) dict \<Rightarrow> 'k list" where
  "dict_keys d \<equiv> map fst d"

abbreviation dict_values :: "('k, 'v) dict \<Rightarrow> 'v list" where
  "dict_values d \<equiv> map snd d"

definition dict_ok :: "('k, 'v) dict \<Rightarrow> bool" where
  "dict_ok d \<longleftrightarrow> distinct (dict_keys d)"

lemma dict_ok_Nil [simp]: "dict_ok []"
  by (simp add: dict_ok_def)

lemma dict_ok_set [simp, intro]: "dict_ok d \<Longrightarrow> dict_ok (dict_set k v d)"
  by (simp add: dict_ok_def distinct_update)

lemma dict_ok_del [simp, intro]: "dict_ok d \<Longrightarrow> dict_ok (dict_del k d)"
  by (simp add: dict_ok_def distinct_delete)

lemma dict_get_set: "dict_get (dict_set k v d) k' = (if k' = k then Some v else dict_get d k')"
  by (simp add: update_conv')

lemma dict_get_del: "dict_get (dict_del k d) k' = (if k' = k then None else dict_get d k')"
  by (simp add: delete_conv')

lemma dict_set_new: "k \<notin> set (dict_keys d) \<Longrightarrow> dict_set k v d = d @ [(k, v)]"
  by (induction d) auto

lemma dict_keys_set:
  "dict_keys (dict_set k v d) = (if k \<in> set (dict_keys d) then dict_keys d else dict_keys d @ [k])"
  by (induction d) auto

lemma dict_get_in: "dict_ok d \<Longrightarrow> (k, v) \<in> set d \<longleftrightarrow> dict_get d k = Some v"
  by (simp add: dict_ok_def)

lemma dict_set_mid: "k \<notin> set (dict_keys pre) \<Longrightarrow> dict_set k v (pre @ (k, r) # post) = pre @ (k, v) # post"
  by (induction pre) auto

lemma dict_del_mid: "dict_ok (pre @ (k, r) # post) \<Longrightarrow> dict_del k (pre @ (k, r) # post) = pre @ post"
proof -
  assume ok: "dict_ok (pre @ (k, r) # post)"
  have no: "dict_del k xs = xs" if "k \<notin> set (dict_keys xs)" for xs
    using that by (induction xs) (auto simp: AList.delete_eq)
  show ?thesis using ok no [of pre] no [of post] by (auto simp: dict_ok_def AList.delete_eq)
qed

lemma dict_get_split:
  assumes "dict_ok d" "dict_get d k = Some r"
  obtains pre post where "d = pre @ (k, r) # post" "k \<notin> set (dict_keys pre)"
proof -
  from assms(2) have "(k, r) \<in> set d" by (rule map_of_SomeD)
  then obtain pre post where "d = pre @ (k, r) # post" by (meson split_list)
  with that assms(1) show thesis by (auto simp: dict_ok_def)
qed

section \<open>Slices and cursors\<close>

definition py_bound :: "int \<Rightarrow> int \<Rightarrow> int" where
  "py_bound n i = (if i < 0 then max 0 (n + i) else min i n)"

definition py_slice :: "'a list \<Rightarrow> int \<Rightarrow> int \<Rightarrow> 'a list" where
  "py_slice xs i j =
     (let n = int (length xs); a = nat (py_bound n i); b = nat (py_bound n j)
      in take (b - a) (drop a xs))"

lemma py_slice_nonneg:
  assumes "0 \<le> i" "i \<le> j"
  shows "py_slice xs i j = take (nat (j - i)) (drop (nat i) xs)"
proof (cases "j \<le> int (length xs)")
  case True
  with assms show ?thesis
    by (simp add: py_slice_def py_bound_def Let_def nat_diff_distrib)
next
  case False
  have "take (length xs - nat i) (drop (nat i) xs) = drop (nat i) xs" by simp
  with False assms show ?thesis
    by (auto simp: py_slice_def py_bound_def Let_def min_def)
qed

lemma py_slice_length:
  "0 \<le> i \<Longrightarrow> i \<le> j \<Longrightarrow> j \<le> int (length xs) \<Longrightarrow> int (length (py_slice xs i j)) = j - i"
  by (simp add: py_slice_nonneg)

text \<open>What remains to be read at a cursor that lies inside the data.\<close>

definition suffix_at :: "'a list \<Rightarrow> int \<Rightarrow> 'a list \<Rightarrow> bool" where
  "suffix_at data cur rest \<longleftrightarrow>
     0 \<le> cur \<and> cur \<le> int (length data) \<and> drop (nat cur) data = rest"

lemma suffix_at_start [simp, intro]: "suffix_at data 0 data"
  by (simp add: suffix_at_def)

lemma suffix_at_length: "suffix_at data cur rest \<Longrightarrow> int (length data) = cur + int (length rest)"
  by (auto simp: suffix_at_def)

lemma suffix_at_nonneg: "suffix_at data cur rest \<Longrightarrow> 0 \<le> cur"
  by (simp add: suffix_at_def)

lemma suffix_at_slice:
  assumes "suffix_at data cur (bs @ rest)"
  shows "py_slice data cur (cur + int (length bs)) = bs"
  using assms by (simp add: suffix_at_def py_slice_nonneg)

lemma suffix_at_slice_take:
  assumes "suffix_at data cur rest" "0 \<le> n"
  shows "py_slice data cur (cur + n) = take (nat n) rest"
  using assms by (simp add: suffix_at_def py_slice_nonneg)

lemma suffix_at_advance:
  assumes "suffix_at data cur (bs @ rest)"
  shows "suffix_at data (cur + int (length bs)) rest"
proof -
  from assms have c: "0 \<le> cur" and d: "drop (nat cur) data = bs @ rest"
    and len: "int (length data) = cur + int (length (bs @ rest))"
    using suffix_at_length [OF assms] by (simp_all add: suffix_at_def)
  have "drop (nat (cur + int (length bs))) data = drop (length bs) (drop (nat cur) data)"
    using c by (simp add: nat_add_distrib add.commute)
  with c d len show ?thesis by (simp add: suffix_at_def)
qed

section \<open>The contract between a writer and a reader\<close>

text \<open>
  A writer and a reader agree when reading at a cursor in front of what the writer produced gives
  \<open>view\<close> of the value and moves the cursor behind it. A counted array of such fields is then
  read back by the counted loop.
\<close>

locale wire_view =
  fixes enc :: "'a \<Rightarrow> 'e + bytes"
    and dec :: "bytes \<Rightarrow> int \<Rightarrow> 'e + 'v \<times> int"
    and view :: "'a \<Rightarrow> 'v"
  assumes dec_view:
    "enc x = Inr bs \<Longrightarrow> suffix_at data cur (bs @ rest) \<Longrightarrow>
     dec data cur = Inr (view x, cur + int (length bs))"
begin

lemma dec_view_seq:
  "cat (map enc xs) = Inr bs \<Longrightarrow> suffix_at data cur (bs @ rest) \<Longrightarrow>
   read_n (length xs) (dec data) cur = Inr (map view xs, cur + int (length bs))"
proof (induction xs arbitrary: bs cur)
  case Nil
  then show ?case by simp
next
  case (Cons x xs)
  from Cons.prems(1) obtain b bs' where b: "enc x = Inr b" and bs': "cat (map enc xs) = Inr bs'"
    and bs: "bs = b @ bs'" by (auto simp: rbind_eq_Inr)
  from Cons.prems(2) bs have s1: "suffix_at data cur (b @ (bs' @ rest))" by simp
  from dec_view [OF b s1] Cons.IH [OF bs' suffix_at_advance [OF s1]] show ?case by (simp add: bs)
qed

end

text \<open>A field format gives the value itself back.\<close>

locale wire_format = wire_view enc dec "\<lambda>x. x"
  for enc :: "'a \<Rightarrow> 'e + bytes" and dec :: "bytes \<Rightarrow> int \<Rightarrow> 'e + 'a \<times> int"
begin

lemmas dec_enc = dec_view

lemma dec_enc_seq:
  "cat (map enc xs) = Inr bs \<Longrightarrow> suffix_at data cur (bs @ rest) \<Longrightarrow>
   read_n (length xs) (dec data) cur = Inr (xs, cur + int (length bs))"
  using dec_view_seq by simp

text \<open>Two values with the same encoding are equal: nothing is lost on the wire.\<close>

lemma enc_inj: "enc x = Inr bs \<Longrightarrow> enc y = Inr bs \<Longrightarrow> x = y"
proof -
  assume x: "enc x = Inr bs" and y: "enc y = Inr bs"
  have s: "suffix_at bs 0 (bs @ [])" by simp
  from dec_enc [OF x s] dec_enc [OF y s] show "x = y" by simp
qed

end

section \<open>Components that react to events\<close>

text \<open>
  A component is a set of initial states and a step relation whose labels are the events it
  handles; \<open>reach\<close> are the states some sequence of events leads to.
\<close>

inductive reach :: "('s \<Rightarrow> bool) \<Rightarrow> ('s \<Rightarrow> 'l \<Rightarrow> 's \<Rightarrow> bool) \<Rightarrow> 's \<Rightarrow> bool"
  for initial step where
  reach_init: "initial s \<Longrightarrow> reach initial step s"
| reach_step: "reach initial step s \<Longrightarrow> step s l t \<Longrightarrow> reach initial step t"

locale step_machine =
  fixes initial :: "'s \<Rightarrow> bool"
    and step :: "'s \<Rightarrow> 'l \<Rightarrow> 's \<Rightarrow> bool"
    and invar :: "'s \<Rightarrow> bool"
  assumes invar_init: "initial s \<Longrightarrow> invar s"
    and invar_step: "invar s \<Longrightarrow> step s l t \<Longrightarrow> invar t"
begin

lemma reach_invar: "reach initial step s \<Longrightarrow> invar s"
  by (induction rule: reach.induct) (auto intro: invar_init invar_step)

end

end
