(* ===== verification/Common.thy ===== *)
theory Common
  imports Prelude
begin

text \<open>
  The shared definitions of \<open>afkak/common.py\<close>: constants, the request and response tuples,
  the exception hierarchy, the table of broker error codes, \<open>raise_for_errno\<close> and
  \<open>_pretty_errno\<close>.

  Text strings are lists of Unicode code points (\<open>pystr\<close>). An exception is a value of
  \<open>exn\<close>: the classes of \<open>common.py\<close>, Twisted's own \<open>CancelledError\<close> and the Python
  exceptions the modelled code can raise. Exception messages are not modelled, except for
  the fields that code reads back (the error number, \<open>request_sent\<close>).
\<close>

section \<open>Constants\<close>

type_synonym pystr = "nat list"

text \<open>A text literal, as its code points.\<close>

definition str_lit :: "string \<Rightarrow> pystr" where
  "str_lit s = map of_char s"

definition DefaultKafkaPort :: int where "DefaultKafkaPort = 9092"
definition OFFSET_EARLIEST :: int where "OFFSET_EARLIEST = - 2"
definition OFFSET_LATEST :: int where "OFFSET_LATEST = - 1"
definition OFFSET_NOT_COMMITTED :: int where "OFFSET_NOT_COMMITTED = - 1"
definition OFFSET_COMMITTED :: int where "OFFSET_COMMITTED = - 101"
definition TIMESTAMP_INVALID :: int where "TIMESTAMP_INVALID = - 1"
definition KAFKA_SUCCESS :: int where "KAFKA_SUCCESS = 0"
definition PRODUCER_ACK_NOT_REQUIRED :: int where "PRODUCER_ACK_NOT_REQUIRED = 0"
definition PRODUCER_ACK_LOCAL_WRITE :: int where "PRODUCER_ACK_LOCAL_WRITE = 1"
definition PRODUCER_ACK_ALL_REPLICAS :: int where "PRODUCER_ACK_ALL_REPLICAS = - 1"
definition CODEC_NONE :: int where "CODEC_NONE = 0"
definition CODEC_GZIP :: int where "CODEC_GZIP = 1"
definition CODEC_SNAPPY :: int where "CODEC_SNAPPY = 2"
definition CODEC_LZ4 :: int where "CODEC_LZ4 = 3"

lemmas codec_defs = CODEC_NONE_def CODEC_GZIP_def CODEC_SNAPPY_def CODEC_LZ4_def

section \<open>Broker errors\<close>

text \<open>
  One constructor per subclass of \<open>BrokerResponseError\<close> that has an \<open>errno\<close>; the class
  attributes \<open>errno\<close>, \<open>message\<close> and \<open>retriable\<close> are functions of the class, and
  \<open>errnos\<close> is the table \<open>BrokerResponseError.errnos\<close>.
\<close>

datatype (plugins only: code size) broker_error =
    UnknownError | OffsetOutOfRangeError | CorruptMessage | UnknownTopicOrPartitionError |
    InvalidFetchRequestError | LeaderNotAvailableError | NotLeaderForPartitionError |
    RequestTimedOutError | BrokerNotAvailableError | ReplicaNotAvailableError |
    MessageSizeTooLargeError | StaleControllerEpochError | OffsetMetadataTooLargeError |
    NetworkException | CoordinatorLoadInProgress | CoordinatorNotAvailable | NotCoordinator |
    InvalidTopic | RecordListTooLarge | NotEnoughReplicas | NotEnoughReplicasAfterAppend |
    InvalidRequiredAcks | IllegalGeneration | InconsistentGroupProtocol | InvalidGroupId |
    UnknownMemberId | InvalidSessionTimeout | RebalanceInProgress | InvalidCommitOffsetSize |
    TopicAuthorizationFailed | GroupAuthorizationFailed | ClusterAuthorizationFailed |
    InvalidTimestamp | UnsupportedSaslMechanism | IllegalSaslState | UnsupportedVersion |
    TopicAlreadyExists | InvalidPartitions | InvalidReplicationFactor |
    InvalidReplicaAssignment | InvalidConfig | NotController | InvalidRequest |
    UnsupportedForMessageFormat | PolicyViolation | OutOfOrderSequenceNumber |
    DuplicateSequenceNumber | InvalidProducerEpoch | InvalidTxnState |
    InvalidProducerIdMapping | InvalidTransactionTimeout | ConcurrentTransactions |
    TransactionCoordinatorFenced | TransactionalIdAuthorizationFailed | SecurityDisabled |
    OperationNotAttempted | KafkaStorageError | LogDirNotFound | SaslAuthenticationFailed |
    UnknownProducerId | ReassignmentInProgress | DelegationTokenAuthDisabled |
    DelegationTokenNotFound | DelegationTokenOwnerMismatch | DelegationTokenRequestNotAllowed |
    DelegationTokenAuthorizationFailed | DelegationTokenExpired | InvalidPrincipalType |
    NonEmptyGroup | GroupIdNotFound | FetchSessionIdNotFound | InvalidFetchSessionEpoch |
    ListenerNotFound

primrec errno_of :: "broker_error \<Rightarrow> int" where
  "errno_of UnknownError = - 1"
| "errno_of OffsetOutOfRangeError = 1"
| "errno_of CorruptMessage = 2"
| "errno_of UnknownTopicOrPartitionError = 3"
| "errno_of InvalidFetchRequestError = 4"
| "errno_of LeaderNotAvailableError = 5"
| "errno_of NotLeaderForPartitionError = 6"
| "errno_of RequestTimedOutError = 7"
| "errno_of BrokerNotAvailableError = 8"
| "errno_of ReplicaNotAvailableError = 9"
| "errno_of MessageSizeTooLargeError = 10"
| "errno_of StaleControllerEpochError = 11"
| "errno_of OffsetMetadataTooLargeError = 12"
| "errno_of NetworkException = 13"
| "errno_of CoordinatorLoadInProgress = 14"
| "errno_of CoordinatorNotAvailable = 15"
| "errno_of NotCoordinator = 16"
| "errno_of InvalidTopic = 17"
| "errno_of RecordListTooLarge = 18"
| "errno_of NotEnoughReplicas = 19"
| "errno_of NotEnoughReplicasAfterAppend = 20"
| "errno_of InvalidRequiredAcks = 21"
| "errno_of IllegalGeneration = 22"
| "errno_of InconsistentGroupProtocol = 23"
| "errno_of InvalidGroupId = 24"
| "errno_of UnknownMemberId = 25"
| "errno_of InvalidSessionTimeout = 26"
| "errno_of RebalanceInProgress = 27"
| "errno_of InvalidCommitOffsetSize = 28"
| "errno_of TopicAuthorizationFailed = 29"
| "errno_of GroupAuthorizationFailed = 30"
| "errno_of ClusterAuthorizationFailed = 31"
| "errno_of InvalidTimestamp = 32"
| "errno_of UnsupportedSaslMechanism = 33"
| "errno_of IllegalSaslState = 34"
| "errno_of UnsupportedVersion = 35"
| "errno_of TopicAlreadyExists = 36"
| "errno_of InvalidPartitions = 37"
| "errno_of InvalidReplicationFactor = 38"
| "errno_of InvalidReplicaAssignment = 39"
| "errno_of InvalidConfig = 40"
| "errno_of NotController = 41"
| "errno_of InvalidRequest = 42"
| "errno_of UnsupportedForMessageFormat = 43"
| "errno_of PolicyViolation = 44"
| "errno_of OutOfOrderSequenceNumber = 45"
| "errno_of DuplicateSequenceNumber = 46"
| "errno_of InvalidProducerEpoch = 47"
| "errno_of InvalidTxnState = 48"
| "errno_of InvalidProducerIdMapping = 49"
| "errno_of InvalidTransactionTimeout = 50"
| "errno_of ConcurrentTransactions = 51"
| "errno_of TransactionCoordinatorFenced = 52"
| "errno_of TransactionalIdAuthorizationFailed = 53"
| "errno_of SecurityDisabled = 54"
| "errno_of OperationNotAttempted = 55"
| "errno_of KafkaStorageError = 56"
| "errno_of LogDirNotFound = 57"
| "errno_of SaslAuthenticationFailed = 58"
| "errno_of UnknownProducerId = 59"
| "errno_of ReassignmentInProgress = 60"
| "errno_of DelegationTokenAuthDisabled = 61"
| "errno_of DelegationTokenNotFound = 62"
| "errno_of DelegationTokenOwnerMismatch = 63"
| "errno_of DelegationTokenRequestNotAllowed = 64"
| "errno_of DelegationTokenAuthorizationFailed = 65"
| "errno_of DelegationTokenExpired = 66"
| "errno_of InvalidPrincipalType = 67"
| "errno_of NonEmptyGroup = 68"
| "errno_of GroupIdNotFound = 69"
| "errno_of FetchSessionIdNotFound = 70"
| "errno_of InvalidFetchSessionEpoch = 71"
| "errno_of ListenerNotFound = 72"

primrec message_of :: "broker_error \<Rightarrow> string" where
  "message_of UnknownError = ''UNKNOWN_SERVER_ERROR''"
| "message_of OffsetOutOfRangeError = ''OFFSET_OUT_OF_RANGE''"
| "message_of CorruptMessage = ''CORRUPT_MESSAGE''"
| "message_of UnknownTopicOrPartitionError = ''UNKNOWN_TOPIC_OR_PARTITION''"
| "message_of InvalidFetchRequestError = ''INVALID_FETCH_SIZE''"
| "message_of LeaderNotAvailableError = ''LEADER_NOT_AVAILABLE''"
| "message_of NotLeaderForPartitionError = ''NOT_LEADER_FOR_PARTITION''"
| "message_of RequestTimedOutError = ''REQUEST_TIMED_OUT''"
| "message_of BrokerNotAvailableError = ''BROKER_NOT_AVAILABLE''"
| "message_of ReplicaNotAvailableError = ''REPLICA_NOT_AVAILABLE''"
| "message_of MessageSizeTooLargeError = ''MESSAGE_SIZE_TOO_LARGE''"
| "message_of StaleControllerEpochError = ''STALE_CONTROLLER_EPOCH''"
| "message_of OffsetMetadataTooLargeError = ''OFFSET_METADATA_TOO_LARGE''"
| "message_of NetworkException = ''NETWORK_EXCEPTION''"
| "message_of CoordinatorLoadInProgress = ''COORDINATOR_LOAD_IN_PROGRESS''"
| "message_of CoordinatorNotAvailable = ''COORDINATOR_NOT_AVAILABLE''"
| "message_of NotCoordinator = ''NOT_COORDINATOR''"
| "message_of InvalidTopic = ''INVALID_TOPIC_EXCEPTION''"
| "message_of RecordListTooLarge = ''RECORD_LIST_TOO_LARGE''"
| "message_of NotEnoughReplicas = ''NOT_ENOUGH_REPLICAS''"
| "message_of NotEnoughReplicasAfterAppend = ''NOT_ENOUGH_REPLICAS_AFTER_APPEND''"
| "message_of InvalidRequiredAcks = ''INVALID_REQUIRED_ACKS''"
| "message_of IllegalGeneration = ''ILLEGAL_GENERATION''"
| "message_of InconsistentGroupProtocol = ''INCONSISTENT_GROUP_PROTOCOL''"
| "message_of InvalidGroupId = ''INVALID_GROUP_ID''"
| "message_of UnknownMemberId = ''UNKNOWN_MEMBER_ID''"
| "message_of InvalidSessionTimeout = ''INVALID_SESSION_TIMEOUT''"
| "message_of RebalanceInProgress = ''REBALANCE_IN_PROGRESS''"
| "message_of InvalidCommitOffsetSize = ''INVALID_COMMIT_OFFSET_SIZE''"
| "message_of TopicAuthorizationFailed = ''TOPIC_AUTHORIZATION_FAILED''"
| "message_of GroupAuthorizationFailed = ''GROUP_AUTHORIZATION_FAILED''"
| "message_of ClusterAuthorizationFailed = ''CLUSTER_AUTHORIZATION_FAILED''"
| "message_of InvalidTimestamp = ''INVALID_TIMESTAMP''"
| "message_of UnsupportedSaslMechanism = ''UNSUPPORTED_SASL_MECHANISM''"
| "message_of IllegalSaslState = ''ILLEGAL_SASL_STATE''"
| "message_of UnsupportedVersion = ''UNSUPPORTED_VERSION''"
| "message_of TopicAlreadyExists = ''TOPIC_ALREADY_EXISTS''"
| "message_of InvalidPartitions = ''INVALID_PARTITIONS''"
| "message_of InvalidReplicationFactor = ''INVALID_REPLICATION_FACTOR''"
| "message_of InvalidReplicaAssignment = ''INVALID_REPLICA_ASSIGNMENT''"
| "message_of InvalidConfig = ''INVALID_CONFIG''"
| "message_of NotController = ''NOT_CONTROLLER''"
| "message_of InvalidRequest = ''INVALID_REQUEST''"
| "message_of UnsupportedForMessageFormat = ''UNSUPPORTED_FOR_MESSAGE_FORMAT''"
| "message_of PolicyViolation = ''POLICY_VIOLATION''"
| "message_of OutOfOrderSequenceNumber = ''OUT_OF_ORDER_SEQUENCE_NUMBER''"
| "message_of DuplicateSequenceNumber = ''DUPLICATE_SEQUENCE_NUMBER''"
| "message_of InvalidProducerEpoch = ''INVALID_PRODUCER_EPOCH''"
| "message_of InvalidTxnState = ''INVALID_TXN_STATE''"
| "message_of InvalidProducerIdMapping = ''INVALID_PRODUCER_ID_MAPPING''"
| "message_of InvalidTransactionTimeout = ''INVALID_TRANSACTION_TIMEOUT''"
| "message_of ConcurrentTransactions = ''CONCURRENT_TRANSACTIONS''"
| "message_of TransactionCoordinatorFenced = ''TRANSACTION_COORDINATOR_FENCED''"
| "message_of TransactionalIdAuthorizationFailed = ''TRANSACTIONAL_ID_AUTHORIZATION_FAILED''"
| "message_of SecurityDisabled = ''SECURITY_DISABLED''"
| "message_of OperationNotAttempted = ''OPERATION_NOT_ATTEMPTED''"
| "message_of KafkaStorageError = ''KAFKA_STORAGE_ERROR''"
| "message_of LogDirNotFound = ''LOG_DIR_NOT_FOUND''"
| "message_of SaslAuthenticationFailed = ''SASL_AUTHENTICATION_FAILED''"
| "message_of UnknownProducerId = ''UNKNOWN_PRODUCER_ID''"
| "message_of ReassignmentInProgress = ''REASSIGNMENT_IN_PROGRESS''"
| "message_of DelegationTokenAuthDisabled = ''DELEGATION_TOKEN_AUTH_DISABLED''"
| "message_of DelegationTokenNotFound = ''DELEGATION_TOKEN_NOT_FOUND''"
| "message_of DelegationTokenOwnerMismatch = ''DELEGATION_TOKEN_OWNER_MISMATCH''"
| "message_of DelegationTokenRequestNotAllowed = ''DELEGATION_TOKEN_REQUEST_NOT_ALLOWED''"
| "message_of DelegationTokenAuthorizationFailed = ''DELEGATION_TOKEN_AUTHORIZATION_FAILED''"
| "message_of DelegationTokenExpired = ''DELEGATION_TOKEN_EXPIRED''"
| "message_of InvalidPrincipalType = ''INVALID_PRINCIPAL_TYPE''"
| "message_of NonEmptyGroup = ''NON_EMPTY_GROUP''"
| "message_of GroupIdNotFound = ''GROUP_ID_NOT_FOUND''"
| "message_of FetchSessionIdNotFound = ''FETCH_SESSION_ID_NOT_FOUND''"
| "message_of InvalidFetchSessionEpoch = ''INVALID_FETCH_SESSION_EPOCH''"
| "message_of ListenerNotFound = ''LISTENER_NOT_FOUND''"

definition retriable_of :: "broker_error \<Rightarrow> bool" where
  "retriable_of c \<longleftrightarrow> c \<in> set [
     CorruptMessage, UnknownTopicOrPartitionError, LeaderNotAvailableError,
     NotLeaderForPartitionError, RequestTimedOutError, NetworkException,
     CoordinatorLoadInProgress, CoordinatorNotAvailable, NotCoordinator, NotEnoughReplicas,
     NotEnoughReplicasAfterAppend, NotController, KafkaStorageError, FetchSessionIdNotFound,
     InvalidFetchSessionEpoch, ListenerNotFound]"

definition errnos :: "(int, broker_error) dict" where
  "errnos = [
     (- 1, UnknownError), (1, OffsetOutOfRangeError), (2, CorruptMessage),
     (3, UnknownTopicOrPartitionError), (4, InvalidFetchRequestError),
     (5, LeaderNotAvailableError), (6, NotLeaderForPartitionError), (7, RequestTimedOutError),
     (8, BrokerNotAvailableError), (9, ReplicaNotAvailableError),
     (10, MessageSizeTooLargeError), (11, StaleControllerEpochError),
     (12, OffsetMetadataTooLargeError), (13, NetworkException), (14, CoordinatorLoadInProgress),
     (15, CoordinatorNotAvailable), (16, NotCoordinator), (17, InvalidTopic),
     (18, RecordListTooLarge), (19, NotEnoughReplicas), (20, NotEnoughReplicasAfterAppend),
     (21, InvalidRequiredAcks), (22, IllegalGeneration), (23, InconsistentGroupProtocol),
     (24, InvalidGroupId), (25, UnknownMemberId), (26, InvalidSessionTimeout),
     (27, RebalanceInProgress), (28, InvalidCommitOffsetSize), (29, TopicAuthorizationFailed),
     (30, GroupAuthorizationFailed), (31, ClusterAuthorizationFailed), (32, InvalidTimestamp),
     (33, UnsupportedSaslMechanism), (34, IllegalSaslState), (35, UnsupportedVersion),
     (36, TopicAlreadyExists), (37, InvalidPartitions), (38, InvalidReplicationFactor),
     (39, InvalidReplicaAssignment), (40, InvalidConfig), (41, NotController),
     (42, InvalidRequest), (43, UnsupportedForMessageFormat), (44, PolicyViolation),
     (45, OutOfOrderSequenceNumber), (46, DuplicateSequenceNumber), (47, InvalidProducerEpoch),
     (48, InvalidTxnState), (49, InvalidProducerIdMapping), (50, InvalidTransactionTimeout),
     (51, ConcurrentTransactions), (52, TransactionCoordinatorFenced),
     (53, TransactionalIdAuthorizationFailed), (54, SecurityDisabled),
     (55, OperationNotAttempted), (56, KafkaStorageError), (57, LogDirNotFound),
     (58, SaslAuthenticationFailed), (59, UnknownProducerId), (60, ReassignmentInProgress),
     (61, DelegationTokenAuthDisabled), (62, DelegationTokenNotFound),
     (63, DelegationTokenOwnerMismatch), (64, DelegationTokenRequestNotAllowed),
     (65, DelegationTokenAuthorizationFailed), (66, DelegationTokenExpired),
     (67, InvalidPrincipalType), (68, NonEmptyGroup), (69, GroupIdNotFound),
     (70, FetchSessionIdNotFound), (71, InvalidFetchSessionEpoch), (72, ListenerNotFound)]"

text \<open>The exceptions of the modelled code.\<close>

datatype exn =
    BrokerResponse broker_error
  | BrokerResponseOther int
  | ClientError | RestartError | RestopError | DuplicateRequestError
  | KafkaUnavailableError | LeaderUnavailableError | PartitionUnavailableError
  | FailedPayloadsError
  | BufferUnderflowError | ChecksumError | ConsumerFetchSizeTooSmall | ProtocolError
  | UnsupportedCodecError | CancelledError "bool option" | InvalidConsumerGroupError
  | NoResponseError | OperationInProgress
  | NeedTopicPartitions "pystr list"
  | TwistedCancelledError | AlreadyCalledError | AlreadyCancelledError | ConnectionDone
  | TypeError | ValueError | KeyError | IndexError | AssertionError | AttributeError
  | ZeroDivisionError | StopIteration | NotImplementedError | UnicodeError | StructError
  | OtherError

abbreviation InvalidMessageError :: exn where
  "InvalidMessageError \<equiv> BrokerResponse CorruptMessage"

type_synonym 'a result = "exn + 'a"

text \<open>\<open>isinstance(e, KafkaError)\<close>, the class hierarchy of \<open>common.py\<close>.\<close>

fun is_KafkaError :: "exn \<Rightarrow> bool" where
  "is_KafkaError e =
     (case e of
        BrokerResponse _ \<Rightarrow> True | BrokerResponseOther _ \<Rightarrow> True
      | ClientError \<Rightarrow> True | RestartError \<Rightarrow> True | RestopError \<Rightarrow> True
      | DuplicateRequestError \<Rightarrow> True | KafkaUnavailableError \<Rightarrow> True
      | LeaderUnavailableError \<Rightarrow> True | PartitionUnavailableError \<Rightarrow> True
      | FailedPayloadsError \<Rightarrow> True | BufferUnderflowError \<Rightarrow> True | ChecksumError \<Rightarrow> True
      | ConsumerFetchSizeTooSmall \<Rightarrow> True | ProtocolError \<Rightarrow> True
      | UnsupportedCodecError \<Rightarrow> True | CancelledError _ \<Rightarrow> True
      | InvalidConsumerGroupError \<Rightarrow> True | NoResponseError \<Rightarrow> True
      | OperationInProgress \<Rightarrow> True
      | _ \<Rightarrow> False)"

definition raise_for_errno :: "int \<Rightarrow> unit result" where
  "raise_for_errno errno =
     (if errno = 0 then Inr ()
      else (case dict_get errnos errno of
              None \<Rightarrow> Inl (BrokerResponseOther errno)
            | Some subcls \<Rightarrow> Inl (BrokerResponse subcls)))"

text \<open>The error number and the \<open>retriable\<close> flag an exception object carries.\<close>

fun exn_errno :: "exn \<Rightarrow> int option" where
  "exn_errno (BrokerResponse c) = Some (errno_of c)"
| "exn_errno (BrokerResponseOther n) = Some n"
| "exn_errno _ = None"

fun exn_retriable :: "exn \<Rightarrow> bool" where
  "exn_retriable (BrokerResponse c) = retriable_of c"
| "exn_retriable _ = False"

text \<open>\<open>'{:d}'.format(n)\<close>.\<close>

fun show_nat :: "nat \<Rightarrow> string" where
  "show_nat n = (if n < 10 then [char_of (48 + n)]
                 else show_nat (n div 10) @ [char_of (48 + n mod 10)])"

declare show_nat.simps [simp del]

definition show_int :: "int \<Rightarrow> string" where
  "show_int i = (if i < 0 then CHR ''-'' # show_nat (nat (- i)) else show_nat (nat i))"

definition pretty_errno :: "int \<Rightarrow> string" where
  "pretty_errno errno =
     (let message = (if errno = 0 then ''no error''
                     else (case dict_get errnos errno of
                             None \<Rightarrow> ''unknown error''
                           | Some cls \<Rightarrow> message_of cls))
      in show_int errno @ '' ('' @ message @ '')'')"

section \<open>The table of error codes\<close>

lemma dict_ok_errnos: "dict_ok errnos"
  by (simp add: dict_ok_def errnos_def)

lemma errnos_sound: "(e, c) \<in> set errnos \<Longrightarrow> errno_of c = e \<and> e \<noteq> 0"
  by (auto simp: errnos_def)

lemma errnos_complete: "(errno_of c, c) \<in> set errnos"
  by (cases c) (simp_all add: errnos_def)

lemma errnos_lookup: "dict_get errnos e = Some c \<longleftrightarrow> errno_of c = e"
  using errnos_sound errnos_complete dict_get_in [OF dict_ok_errnos] by metis

lemma errno_of_inj: "errno_of c = errno_of d \<longleftrightarrow> c = d"
  using errnos_lookup by (metis option.inject)

lemma errno_of_nonzero: "errno_of c \<noteq> 0"
  using errnos_sound [OF errnos_complete] by blast

text \<open>
  The table of broker errors is a bijection between its codes and the exception classes, and
  \<open>raise_for_errno\<close> follows it: 0 is success, a known code raises the class that carries this
  code, and any other code raises a plain \<open>BrokerResponseError\<close> with the code attached.
\<close>

theorem raise_for_errno_spec:
  "(raise_for_errno n = Inr () \<longleftrightarrow> n = 0) \<and>
   (raise_for_errno n = Inl e \<longleftrightarrow> n \<noteq> 0 \<and> exn_errno e = Some n \<and>
      ((\<exists>c. errno_of c = n) \<longleftrightarrow> (\<exists>c. e = BrokerResponse c)))"
proof (cases "dict_get errnos n")
  case None
  then have "\<nexists>c. errno_of c = n" using errnos_lookup by (metis option.distinct(1))
  with None show ?thesis by (cases e) (auto simp: raise_for_errno_def)
next
  case (Some c)
  then have "errno_of c = n" by (simp add: errnos_lookup)
  with Some errno_of_nonzero [of c] show ?thesis
    by (cases e) (auto simp: raise_for_errno_def errno_of_inj)
qed

end
