(* ===== verification/Wire.thy ===== *)
theory Wire
  imports Common
begin

text \<open>
  The wire primitives of \<open>afkak/_util.py\<close> and the parts of the Python standard library they
  use: \<open>struct.pack\<close> and \<open>struct.unpack\<close> for big-endian formats, and the ASCII and UTF-8
  codecs.

  Cursors are integers and slices follow Python, so the readers behave as the code does on
  hostile input too: a negative length other than \<open>-1\<close> passes the underflow test and moves
  the cursor backwards (see \<open>read_short_bytes_negative\<close>).
\<close>

section \<open>The struct module\<close>

text \<open>A format character is a signedness and a width in bytes.\<close>

definition struct_code :: "char \<Rightarrow> (bool \<times> nat) option" where
  "struct_code c =
     (if c = CHR ''h'' then Some (True, 2)
      else if c = CHR ''i'' then Some (True, 4)
      else if c = CHR ''q'' then Some (True, 8)
      else if c = CHR ''B'' then Some (False, 1)
      else if c = CHR ''I'' then Some (False, 4)
      else None)"

fun struct_codes :: "string \<Rightarrow> (bool \<times> nat) list result" where
  "struct_codes [] = Inr []"
| "struct_codes (c # cs) =
     (case struct_code c of
        None \<Rightarrow> Inl StructError
      | Some k \<Rightarrow> rbind (struct_codes cs) (\<lambda>ks. Inr (k # ks)))"

text \<open>Only the big-endian prefixes \<open>>\<close> and \<open>!\<close> occur in the code.\<close>

definition parse_fmt :: "string \<Rightarrow> (bool \<times> nat) list result" where
  "parse_fmt fmt =
     (case fmt of
        c # cs \<Rightarrow> if c = CHR ''>'' \<or> c = CHR ''!'' then struct_codes cs else Inl StructError
      | [] \<Rightarrow> Inl StructError)"

text \<open>\<open>'>%di' % n\<close>: a repeat count; a negative count is a malformed format.\<close>

definition fmt_repeat :: "int \<Rightarrow> char \<Rightarrow> string result" where
  "fmt_repeat n c = (if n < 0 then Inl StructError else Inr (CHR ''>'' # replicate (nat n) c))"

definition codes_size :: "(bool \<times> nat) list \<Rightarrow> nat" where
  "codes_size ks = sum_list (map snd ks)"

definition calcsize :: "string \<Rightarrow> int result" where
  "calcsize fmt = rbind (parse_fmt fmt) (\<lambda>ks. Inr (int (codes_size ks)))"

fun be_bytes :: "nat \<Rightarrow> int \<Rightarrow> bytes" where
  "be_bytes 0 n = []"
| "be_bytes (Suc w) n = be_bytes w (n div 256) @ [word_of_int n]"

definition be_val :: "bytes \<Rightarrow> int" where
  "be_val bs = foldl (\<lambda>a b. a * 256 + uint b) 0 bs"

definition code_fits :: "bool \<times> nat \<Rightarrow> int \<Rightarrow> bool" where
  "code_fits k n =
     (case k of (True, w) \<Rightarrow> - (2 ^ (8 * w - 1)) \<le> n \<and> n < 2 ^ (8 * w - 1)
              | (False, w) \<Rightarrow> 0 \<le> n \<and> n < 2 ^ (8 * w))"

definition pack_code :: "bool \<times> nat \<Rightarrow> int \<Rightarrow> bytes result" where
  "pack_code k n = (if code_fits k n then Inr (be_bytes (snd k) n) else Inl StructError)"

definition unpack_code :: "bool \<times> nat \<Rightarrow> bytes \<Rightarrow> int" where
  "unpack_code k bs =
     (let u = be_val bs
      in case k of (True, w) \<Rightarrow> (if u < 2 ^ (8 * w - 1) then u else u - 2 ^ (8 * w))
                 | (False, w) \<Rightarrow> u)"

fun pack_codes :: "(bool \<times> nat) list \<Rightarrow> int list \<Rightarrow> bytes result" where
  "pack_codes [] [] = Inr []"
| "pack_codes (k # ks) (v # vs) =
     rbind (pack_code k v) (\<lambda>b. rbind (pack_codes ks vs) (\<lambda>bs. Inr (b @ bs)))"
| "pack_codes _ _ = Inl StructError"

fun unpack_codes :: "(bool \<times> nat) list \<Rightarrow> bytes \<Rightarrow> int list" where
  "unpack_codes [] bs = []"
| "unpack_codes (k # ks) bs =
     unpack_code k (take (snd k) bs) # unpack_codes ks (drop (snd k) bs)"

definition struct_pack :: "string \<Rightarrow> int list \<Rightarrow> bytes result" where
  "struct_pack fmt vs = rbind (parse_fmt fmt) (\<lambda>ks. pack_codes ks vs)"

definition struct_unpack :: "string \<Rightarrow> bytes \<Rightarrow> int list result" where
  "struct_unpack fmt bs =
     rbind (parse_fmt fmt)
       (\<lambda>ks. if length bs = codes_size ks then Inr (unpack_codes ks bs) else Inl StructError)"

section \<open>Text codecs\<close>

definition b8 :: "nat \<Rightarrow> byte" where
  "b8 n = of_nat n"

definition ascii_encode :: "pystr \<Rightarrow> bytes result" where
  "ascii_encode s = (if \<forall>c\<in>set s. c < 128 then Inr (map b8 s) else Inl UnicodeError)"

definition ascii_decode :: "bytes \<Rightarrow> pystr result" where
  "ascii_decode bs = (if \<forall>b\<in>set bs. unat b < 128 then Inr (map unat bs) else Inl UnicodeError)"

definition utf8_char :: "nat \<Rightarrow> bytes result" where
  "utf8_char c =
     (if c < 0x80 then Inr [b8 c]
      else if c < 0x800 then Inr [b8 (0xC0 + c div 64), b8 (0x80 + c mod 64)]
      else if 0xD800 \<le> c \<and> c < 0xE000 then Inl UnicodeError
      else if c < 0x10000 then
        Inr [b8 (0xE0 + c div 4096), b8 (0x80 + c div 64 mod 64), b8 (0x80 + c mod 64)]
      else if c < 0x110000 then
        Inr [b8 (0xF0 + c div 262144), b8 (0x80 + c div 4096 mod 64),
             b8 (0x80 + c div 64 mod 64), b8 (0x80 + c mod 64)]
      else Inl UnicodeError)"

definition utf8_encode :: "pystr \<Rightarrow> bytes result" where
  "utf8_encode s = cat (map utf8_char s)"

definition is_cont :: "byte \<Rightarrow> bool" where
  "is_cont b \<longleftrightarrow> 0x80 \<le> unat b \<and> unat b < 0xC0"

fun utf8_decode :: "bytes \<Rightarrow> pystr result" where
  "utf8_decode [] = Inr []"
| "utf8_decode (b0 # bs) =
     (let c0 = unat b0
      in if c0 < 0x80 then rbind (utf8_decode bs) (\<lambda>s. Inr (c0 # s))
         else if c0 < 0xC2 then Inl UnicodeError
         else if c0 < 0xE0 then
           (case bs of
              b1 # bs1 \<Rightarrow>
                if is_cont b1 then
                  rbind (utf8_decode bs1) (\<lambda>s. Inr (((c0 - 0xC0) * 64 + (unat b1 - 0x80)) # s))
                else Inl UnicodeError
            | _ \<Rightarrow> Inl UnicodeError)
         else if c0 < 0xF0 then
           (case bs of
              b1 # b2 # bs2 \<Rightarrow>
                let c = (c0 - 0xE0) * 4096 + (unat b1 - 0x80) * 64 + (unat b2 - 0x80)
                in if is_cont b1 \<and> is_cont b2 \<and> 0x800 \<le> c \<and> \<not> (0xD800 \<le> c \<and> c < 0xE000)
                   then rbind (utf8_decode bs2) (\<lambda>s. Inr (c # s))
                   else Inl UnicodeError
            | _ \<Rightarrow> Inl UnicodeError)
         else if c0 < 0xF5 then
           (case bs of
              b1 # b2 # b3 # bs3 \<Rightarrow>
                let c = (c0 - 0xF0) * 262144 + (unat b1 - 0x80) * 4096
                        + (unat b2 - 0x80) * 64 + (unat b3 - 0x80)
                in if is_cont b1 \<and> is_cont b2 \<and> is_cont b3 \<and> 0x10000 \<le> c \<and> c < 0x110000
                   then rbind (utf8_decode bs3) (\<lambda>s. Inr (c # s))
                   else Inl UnicodeError
            | _ \<Rightarrow> Inl UnicodeError)
         else Inl UnicodeError)"

section \<open>afkak._util\<close>

text \<open>An argument whose Python type the code inspects.\<close>

datatype pyobj = PyNone | PyStr pystr | PyBytes bytes | PyByteArray bytes | PyOther

definition coerce_topic :: "pyobj \<Rightarrow> pystr result" where
  "coerce_topic topic =
     (case topic of
        PyStr s \<Rightarrow> if length s < 1 then Inl ValueError
                   else if length s > 249 then Inl ValueError
                   else Inr s
      | _ \<Rightarrow> Inl TypeError)"

definition coerce_consumer_group :: "pyobj \<Rightarrow> pystr result" where
  "coerce_consumer_group g =
     (case g of
        PyStr s \<Rightarrow> Inr s
      | PyBytes b \<Rightarrow> utf8_decode b
      | _ \<Rightarrow> Inl TypeError)"

definition coerce_client_id :: "pyobj \<Rightarrow> bytes result" where
  "coerce_client_id c =
     (case c of
        PyStr s \<Rightarrow> utf8_encode s
      | PyBytes b \<Rightarrow> Inr b
      | _ \<Rightarrow> Inl TypeError)"

definition write_int_string :: "bytes option \<Rightarrow> bytes result" where
  "write_int_string s =
     (case s of
        None \<Rightarrow> struct_pack ''>i'' [- 1]
      | Some b \<Rightarrow> cat [struct_pack ''>i'' [int (length b)], Inr b])"

definition write_short_bytes :: "pyobj \<Rightarrow> bytes result" where
  "write_short_bytes b =
     (case b of
        PyNone \<Rightarrow> struct_pack ''>h'' [- 1]
      | PyBytes bs \<Rightarrow>
          if length bs > 32767 then Inl StructError
          else cat [struct_pack ''>h'' [int (length bs)], Inr bs]
      | _ \<Rightarrow> Inl TypeError)"

definition write_short_ascii :: "pyobj \<Rightarrow> bytes result" where
  "write_short_ascii s =
     (case s of
        PyNone \<Rightarrow> struct_pack ''>h'' [- 1]
      | PyStr t \<Rightarrow> rbind (ascii_encode t) (\<lambda>b. write_short_bytes (PyBytes b))
      | _ \<Rightarrow> Inl TypeError)"

definition write_short_text :: "pyobj \<Rightarrow> bytes result" where
  "write_short_text s =
     (case s of
        PyNone \<Rightarrow> struct_pack ''>h'' [- 1]
      | PyStr t \<Rightarrow> rbind (utf8_encode t) (\<lambda>b. write_short_bytes (PyBytes b))
      | _ \<Rightarrow> Inl TypeError)"

text \<open>\<open>struct.unpack\<close> of a one-character format into a single variable.\<close>

definition unpack_one :: "string \<Rightarrow> bytes \<Rightarrow> int result" where
  "unpack_one fmt bs =
     rbind (struct_unpack fmt bs) (\<lambda>vs. case vs of [v] \<Rightarrow> Inr v | _ \<Rightarrow> Inl ValueError)"

definition read_short_bytes :: "bytes \<Rightarrow> int \<Rightarrow> (bytes option \<times> int) result" where
  "read_short_bytes data cur =
     (if int (length data) < cur + 2 then Inl BufferUnderflowError
      else rbind (unpack_one ''>h'' (py_slice data cur (cur + 2))) (\<lambda>strlen.
        if strlen = - 1 then Inr (None, cur + 2)
        else let cur = cur + 2
             in if int (length data) < cur + strlen then Inl BufferUnderflowError
                else Inr (Some (py_slice data cur (cur + strlen)), cur + strlen)))"

definition read_short_ascii :: "bytes \<Rightarrow> int \<Rightarrow> (pystr \<times> int) result" where
  "read_short_ascii data cur =
     rbind (read_short_bytes data cur) (\<lambda>(b, cur).
       case b of None \<Rightarrow> Inl AttributeError
               | Some b \<Rightarrow> rbind (ascii_decode b) (\<lambda>s. Inr (s, cur)))"

definition read_short_text :: "bytes \<Rightarrow> int \<Rightarrow> (pystr \<times> int) result" where
  "read_short_text data cur =
     rbind (read_short_bytes data cur) (\<lambda>(b, cur).
       case b of None \<Rightarrow> Inl AttributeError
               | Some b \<Rightarrow> rbind (utf8_decode b) (\<lambda>s. Inr (s, cur)))"

definition read_int_string :: "bytes \<Rightarrow> int \<Rightarrow> (bytes option \<times> int) result" where
  "read_int_string data cur =
     (if int (length data) < cur + 4 then Inl BufferUnderflowError
      else rbind (unpack_one ''>i'' (py_slice data cur (cur + 4))) (\<lambda>strlen.
        if strlen = - 1 then Inr (None, cur + 4)
        else let cur = cur + 4
             in if int (length data) < cur + strlen then Inl BufferUnderflowError
                else Inr (Some (py_slice data cur (cur + strlen)), cur + strlen)))"

definition relative_unpack :: "string \<Rightarrow> bytes \<Rightarrow> int \<Rightarrow> (int list \<times> int) result" where
  "relative_unpack fmt data cur =
     rbind (calcsize fmt) (\<lambda>size.
       if int (length data) < cur + size then Inl BufferUnderflowError
       else rbind (struct_unpack fmt (py_slice data cur (cur + size)))
              (\<lambda>out. Inr (out, cur + size)))"

text \<open>
  \<open>((a, b), cur) = relative_unpack(fmt, data, cur)\<close>: the tuple is unpacked into as many
  variables as the call has on its left, and a mismatch is a \<open>ValueError\<close>.
\<close>

definition relative_unpack1 :: "string \<Rightarrow> bytes \<Rightarrow> int \<Rightarrow> (int \<times> int) result" where
  "relative_unpack1 fmt data cur =
     rbind (relative_unpack fmt data cur)
       (\<lambda>(out, cur). case out of [a] \<Rightarrow> Inr (a, cur) | _ \<Rightarrow> Inl ValueError)"

definition relative_unpack2 :: "string \<Rightarrow> bytes \<Rightarrow> int \<Rightarrow> ((int \<times> int) \<times> int) result" where
  "relative_unpack2 fmt data cur =
     rbind (relative_unpack fmt data cur)
       (\<lambda>(out, cur). case out of [a, b] \<Rightarrow> Inr ((a, b), cur) | _ \<Rightarrow> Inl ValueError)"

definition relative_unpack3 :: "string \<Rightarrow> bytes \<Rightarrow> int \<Rightarrow> ((int \<times> int \<times> int) \<times> int) result" where
  "relative_unpack3 fmt data cur =
     rbind (relative_unpack fmt data cur)
       (\<lambda>(out, cur). case out of [a, b, c] \<Rightarrow> Inr ((a, b, c), cur) | _ \<Rightarrow> Inl ValueError)"

definition relative_unpack4 ::
    "string \<Rightarrow> bytes \<Rightarrow> int \<Rightarrow> ((int \<times> int \<times> int \<times> int) \<times> int) result" where
  "relative_unpack4 fmt data cur =
     rbind (relative_unpack fmt data cur)
       (\<lambda>(out, cur). case out of [a, b, c, d] \<Rightarrow> Inr ((a, b, c, d), cur) | _ \<Rightarrow> Inl ValueError)"

text \<open>
  \<open>out[t.topic][t.partition] = t\<close> for every payload: a dictionary of dictionaries in order
  of first appearance. The attribute accesses are the two function arguments.
\<close>

definition group_step ::
    "('p \<Rightarrow> 't) \<Rightarrow> ('p \<Rightarrow> int) \<Rightarrow> ('t, (int, 'p) dict) dict \<Rightarrow> 'p \<Rightarrow> ('t, (int, 'p) dict) dict" where
  "group_step topic part out t =
     (let inner = (case dict_get out (topic t) of None \<Rightarrow> [] | Some d \<Rightarrow> d)
      in dict_set (topic t) (dict_set (part t) t inner) out)"

definition group_by_topic_and_partition ::
    "('p \<Rightarrow> 't) \<Rightarrow> ('p \<Rightarrow> int) \<Rightarrow> 'p list \<Rightarrow> ('t, (int, 'p) dict) dict" where
  "group_by_topic_and_partition topic part ts = foldl (group_step topic part) [] ts"

section \<open>struct: packing and unpacking are inverse\<close>

lemma be_val_Nil [simp]: "be_val [] = 0"
  by (simp add: be_val_def)

lemma be_val_snoc [simp]: "be_val (bs @ [b]) = be_val bs * 256 + uint b"
  by (simp add: be_val_def)

lemma length_be_bytes [simp]: "length (be_bytes w n) = w"
  by (induction w arbitrary: n) auto

lemma be_bytes_numeral:
  "be_bytes (numeral k) n = be_bytes (pred_numeral k) (n div 256) @ [word_of_int n]"
  by (simp add: numeral_eq_Suc)

lemma uint_byte_of_int: "uint (word_of_int n :: byte) = n mod 256"
  by (simp add: uint_word_of_int)

lemma mod_256_Suc: "(n div 256 mod 256 ^ w) * 256 + n mod 256 = n mod (256 ^ Suc w)" for n :: int
proof -
  have "n mod (256 * 256 ^ w) = 256 * (n div 256 mod 256 ^ w) + n mod 256"
    by (rule zmod_zmult2_eq) simp
  then show ?thesis by (simp add: mult.commute)
qed

lemma be_val_be_bytes [simp]: "be_val (be_bytes w n) = n mod 256 ^ w"
proof (induction w arbitrary: n)
  case 0
  then show ?case by simp
next
  case (Suc w)
  then show ?case using mod_256_Suc [of n w] by (simp add: uint_byte_of_int)
qed

lemma be_val_range: "0 \<le> be_val bs \<and> be_val bs < 256 ^ length bs"
proof (induction bs rule: rev_induct)
  case Nil
  then show ?case by simp
next
  case (snoc b bs)
  have "uint b < 256" using uint_lt2p [of b] by simp
  with snoc show ?case by auto
qed

lemma be_bytes_be_val: "be_bytes (length bs) (be_val bs) = bs"
proof (induction bs rule: rev_induct)
  case Nil
  then show ?case by simp
next
  case (snoc b bs)
  have u: "0 \<le> uint b" "uint b < 256" using uint_lt2p [of b] by simp_all
  have "(be_val bs * 256 + uint b) div 256 = be_val bs" using u by simp
  moreover have "word_of_int (be_val bs * 256 + uint b) = b"
  proof -
    have "(word_of_int (be_val bs * 256 + uint b) :: byte) = word_of_int (uint b)"
      by (simp only: word_of_int_eq_iff take_bit_eq_mod) simp
    then show ?thesis by simp
  qed
  ultimately show ?case using snoc by simp
qed

lemma be_bytes_shift: "be_bytes w (n + k * 256 ^ w) = be_bytes w n"
proof -
  have "be_bytes w m = be_bytes w (m mod 256 ^ w)" for m
    using be_bytes_be_val [of "be_bytes w m"] by simp
  then show ?thesis by (metis mod_mult_self1)
qed

lemma two_256: "(2 :: int) ^ (8 * w) = 256 ^ w"
  by (simp add: power_mult)

lemma two_half: "0 < w \<Longrightarrow> (2 :: int) ^ (8 * w) = 2 * 2 ^ (8 * w - 1)"
  by (metis Suc_diff_1 mult_pos_pos power_Suc zero_less_numeral)

text \<open>A code of positive width is read back from what it packed, and conversely.\<close>

lemma unpack_pack_code:
  assumes "pack_code k n = Inr bs" "0 < snd k"
  shows "unpack_code k bs = n \<and> length bs = snd k"
proof -
  obtain sg w where k: "k = (sg, w)" by (cases k)
  from assms k have fits: "code_fits (sg, w) n" and bs: "bs = be_bytes w n" and w: "0 < w"
    by (auto simp: pack_code_def split: if_splits)
  note half = two_half [OF w]
  have "unpack_code (sg, w) (be_bytes w n) = n"
  proof (cases sg)
    case True
    show ?thesis
    proof (cases "n < 0")
      case neg: True
      have "n mod 2 ^ (8 * w) = (n + 2 ^ (8 * w)) mod 2 ^ (8 * w)" by simp
      also from fits True neg have "\<dots> = n + 2 ^ (8 * w)"
        using half by (intro mod_pos_pos_trivial) (auto simp: code_fits_def)
      finally have "n mod 2 ^ (8 * w) = n + 2 ^ (8 * w)" .
      with fits True half show ?thesis
        by (auto simp: unpack_code_def code_fits_def Let_def two_256)
    next
      case False
      with fits True have "n mod 2 ^ (8 * w) = n"
        using half by (intro mod_pos_pos_trivial) (auto simp: code_fits_def)
      with fits True show ?thesis
        by (auto simp: unpack_code_def code_fits_def Let_def two_256)
    qed
  next
    case False
    with fits show ?thesis by (auto simp: unpack_code_def code_fits_def Let_def two_256)
  qed
  with k bs show ?thesis by simp
qed

lemma pack_unpack_code:
  assumes "length bs = snd k" "0 < snd k"
  shows "pack_code k (unpack_code k bs) = Inr bs"
proof -
  obtain sg w where k: "k = (sg, w)" by (cases k)
  from assms k have len: "length bs = w" and w: "0 < w" by simp_all
  note half = two_half [OF w]
  have r: "0 \<le> be_val bs" "be_val bs < 2 ^ (8 * w)"
    using be_val_range [of bs] len by (auto simp: two_256)
  have low: "be_bytes w (be_val bs) = bs" using be_bytes_be_val [of bs] len by simp
  have high: "be_bytes w (be_val bs - 2 ^ (8 * w)) = bs"
    using be_bytes_shift [of w "be_val bs" "- 1"] low by (simp add: two_256)
  show ?thesis
    using r low high half by (cases sg) (auto simp: k pack_code_def unpack_code_def code_fits_def Let_def)
qed

lemma unpack_pack_codes:
  "pack_codes ks vs = Inr bs \<Longrightarrow> \<forall>k\<in>set ks. 0 < snd k \<Longrightarrow>
   unpack_codes ks (bs @ rest) = vs \<and> length bs = codes_size ks"
proof (induction ks vs arbitrary: bs rule: pack_codes.induct)
  case (2 k ks v vs)
  from "2.prems"(1) obtain b bs' where b: "pack_code k v = Inr b"
    and bs': "pack_codes ks vs = Inr bs'" and bs: "bs = b @ bs'"
    by (auto simp: rbind_eq_Inr)
  from unpack_pack_code [OF b] "2.prems"(2)
  have "unpack_code k b = v" "length b = snd k" by auto
  moreover have "unpack_codes ks (bs' @ rest) = vs \<and> length bs' = codes_size ks"
    using "2.IH" [OF b bs'] "2.prems"(2) by simp
  ultimately show ?case by (simp add: bs codes_size_def)
qed (auto simp: codes_size_def)

lemma pack_unpack_codes:
  "length bs = codes_size ks \<Longrightarrow> \<forall>k\<in>set ks. 0 < snd k \<Longrightarrow>
   pack_codes ks (unpack_codes ks bs) = Inr bs"
proof (induction ks arbitrary: bs)
  case (Cons k ks)
  have "pack_code k (unpack_code k (take (snd k) bs)) = Inr (take (snd k) bs)"
    using Cons.prems by (intro pack_unpack_code) (auto simp: codes_size_def)
  moreover have "pack_codes ks (unpack_codes ks (drop (snd k) bs)) = Inr (drop (snd k) bs)"
    using Cons.prems by (intro Cons.IH) (auto simp: codes_size_def)
  ultimately show ?case by simp
qed (simp add: codes_size_def)

lemma struct_codes_pos: "struct_codes cs = Inr ks \<Longrightarrow> \<forall>k\<in>set ks. 0 < snd k"
proof (induction cs arbitrary: ks)
  case (Cons c cs)
  then show ?case
    by (auto simp: rbind_eq_Inr struct_code_def split: option.splits if_splits)
qed simp

lemma parse_fmt_pos: "parse_fmt fmt = Inr ks \<Longrightarrow> \<forall>k\<in>set ks. 0 < snd k"
  using struct_codes_pos by (auto simp: parse_fmt_def split: list.splits if_splits)

lemma struct_pack_iff_unpack: "struct_pack fmt vs = Inr bs \<longleftrightarrow> struct_unpack fmt bs = Inr vs"
proof (cases "parse_fmt fmt")
  case (Inl e)
  then show ?thesis by (simp add: struct_pack_def struct_unpack_def)
next
  case (Inr ks)
  note pos = parse_fmt_pos [OF Inr]
  show ?thesis
    using unpack_pack_codes [OF _ pos, of vs bs "[]"] pack_unpack_codes [OF _ pos, of bs]
    by (auto simp: Inr struct_pack_def struct_unpack_def)
qed

lemma struct_pack_size: "struct_pack fmt vs = Inr bs \<Longrightarrow> calcsize fmt = Inr (int (length bs))"
  by (auto simp: struct_pack_iff_unpack struct_unpack_def calcsize_def rbind_eq_Inr split: if_splits)

section \<open>Reading what was written\<close>

lemma relative_unpack_at:
  assumes "struct_pack fmt vs = Inr bs" "suffix_at data cur (bs @ rest)"
  shows "relative_unpack fmt data cur = Inr (vs, cur + int (length bs))"
proof -
  have "struct_unpack fmt bs = Inr vs" using assms(1) by (simp add: struct_pack_iff_unpack)
  moreover have "\<not> int (length data) < cur + int (length bs)"
    using suffix_at_length [OF assms(2)] by simp
  ultimately show ?thesis
    by (simp add: relative_unpack_def struct_pack_size [OF assms(1)] suffix_at_slice [OF assms(2)])
qed

lemma relative_unpack1_at [wire_dec]:
  "struct_pack fmt [a] = Inr bs \<Longrightarrow> suffix_at data cur (bs @ rest) \<Longrightarrow>
   relative_unpack1 fmt data cur = Inr (a, cur + int (length bs))"
  by (simp add: relative_unpack1_def relative_unpack_at)

lemma relative_unpack2_at [wire_dec]:
  "struct_pack fmt [a, b] = Inr bs \<Longrightarrow> suffix_at data cur (bs @ rest) \<Longrightarrow>
   relative_unpack2 fmt data cur = Inr ((a, b), cur + int (length bs))"
  by (simp add: relative_unpack2_def relative_unpack_at)

lemma relative_unpack3_at [wire_dec]:
  "struct_pack fmt [a, b, c] = Inr bs \<Longrightarrow> suffix_at data cur (bs @ rest) \<Longrightarrow>
   relative_unpack3 fmt data cur = Inr ((a, b, c), cur + int (length bs))"
  by (simp add: relative_unpack3_def relative_unpack_at)

lemma relative_unpack4_at [wire_dec]:
  "struct_pack fmt [a, b, c, d] = Inr bs \<Longrightarrow> suffix_at data cur (bs @ rest) \<Longrightarrow>
   relative_unpack4 fmt data cur = Inr ((a, b, c, d), cur + int (length bs))"
  by (simp add: relative_unpack4_def relative_unpack_at)

lemma relative_unpack_short:
  assumes "suffix_at data cur rest" "calcsize fmt = Inr n" "int (length rest) < n"
  shows "relative_unpack fmt data cur = Inl BufferUnderflowError"
  using assms suffix_at_length [OF assms(1)] by (simp add: relative_unpack_def)

lemma unpack_one_pack: "struct_pack fmt [v] = Inr bs \<Longrightarrow> unpack_one fmt bs = Inr v"
  by (simp add: struct_pack_iff_unpack unpack_one_def)

lemma struct_pack_h: "struct_pack ''>h'' [n] = Inr bs \<Longrightarrow> length bs = 2"
  using struct_pack_size by (fastforce simp: calcsize_def parse_fmt_def struct_code_def codes_size_def)

lemma struct_pack_i: "struct_pack ''>i'' [n] = Inr bs \<Longrightarrow> length bs = 4"
  using struct_pack_size by (fastforce simp: calcsize_def parse_fmt_def struct_code_def codes_size_def)

section \<open>Text codecs\<close>

lemma unat_b8 [simp]: "n < 256 \<Longrightarrow> unat (b8 n) = n"
  by (simp add: b8_def unsigned_of_nat take_bit_nat_eq_self)

lemma ascii_decode_encode: "ascii_encode s = Inr bs \<Longrightarrow> ascii_decode bs = Inr s"
  by (force simp: ascii_encode_def ascii_decode_def intro: map_idI split: if_splits)

lemma base64_3: "c div 4096 * 4096 + c div 64 mod 64 * 64 + c mod 64 = (c :: nat)"
proof -
  have "c div 4096 = c div 64 div 64" by (simp add: div_mult2_eq [symmetric])
  moreover have "c div 64 div 64 * 64 + c div 64 mod 64 = c div 64" by (rule div_mult_mod_eq)
  moreover have "c div 64 * 64 + c mod 64 = c" by (rule div_mult_mod_eq)
  ultimately show ?thesis by linarith
qed

lemma base64_4:
  "c div 262144 * 262144 + c div 4096 mod 64 * 4096 + c div 64 mod 64 * 64 + c mod 64 = (c :: nat)"
proof -
  have "c div 262144 = c div 4096 div 64" by (simp add: div_mult2_eq [symmetric])
  moreover have "c div 4096 div 64 * 64 + c div 4096 mod 64 = c div 4096" by (rule div_mult_mod_eq)
  ultimately show ?thesis using base64_3 [of c] by linarith
qed

lemma utf8_decode_char:
  assumes "utf8_char c = Inr b"
  shows "utf8_decode (b @ bs) = rbind (utf8_decode bs) (\<lambda>s. Inr (c # s))"
proof -
  consider "c < 0x80" | "0x80 \<le> c" "c < 0x800"
    | "0x800 \<le> c" "c < 0x10000" "\<not> (0xD800 \<le> c \<and> c < 0xE000)"
    | "0x10000 \<le> c" "c < 0x110000"
    using assms by (fastforce simp: utf8_char_def split: if_splits)
  then show ?thesis
  proof cases
    case 1
    then show ?thesis using assms by (auto simp: utf8_char_def)
  next
    case 2
    from 2 assms have b: "b = [b8 (0xC0 + c div 64), b8 (0x80 + c mod 64)]"
      by (simp add: utf8_char_def)
    have "2 \<le> c div 64" "c div 64 < 32" using 2 by auto
    moreover have "c div 64 * 64 + c mod 64 = c" by simp
    ultimately show ?thesis by (simp add: b is_cont_def Let_def)
  next
    case 3
    from 3 assms have b: "b = [b8 (0xE0 + c div 4096), b8 (0x80 + c div 64 mod 64), b8 (0x80 + c mod 64)]"
      by (auto simp: utf8_char_def split: if_splits)
    have "c div 4096 < 16" using 3 by auto
    moreover have "c div 4096 * 4096 + c div 64 mod 64 * 64 + c mod 64 = c" by (rule base64_3)
    ultimately show ?thesis using 3 by (simp add: b is_cont_def Let_def)
  next
    case 4
    from 4 assms have b: "b = [b8 (0xF0 + c div 262144), b8 (0x80 + c div 4096 mod 64),
        b8 (0x80 + c div 64 mod 64), b8 (0x80 + c mod 64)]"
      by (simp add: utf8_char_def)
    have "c div 262144 < 5" using 4 by auto
    moreover have "c div 262144 * 262144 + c div 4096 mod 64 * 4096
        + c div 64 mod 64 * 64 + c mod 64 = c" by (rule base64_4)
    ultimately show ?thesis using 4 by (simp add: b is_cont_def Let_def)
  qed
qed

lemma utf8_decode_encode: "utf8_encode s = Inr bs \<Longrightarrow> utf8_decode bs = Inr s"
proof (induction s arbitrary: bs)
  case (Cons c s)
  then obtain b bs' where "utf8_char c = Inr b" "utf8_encode s = Inr bs'" "bs = b @ bs'"
    by (auto simp: utf8_encode_def rbind_eq_Inr)
  with Cons.IH show ?case by (simp add: utf8_decode_char)
qed (simp add: utf8_encode_def)

section \<open>Length-prefixed strings\<close>

text \<open>The \<open>None\<close>/\<open>bytes\<close> argument of the writers.\<close>

definition opt_bytes :: "bytes option \<Rightarrow> pyobj" where
  "opt_bytes b = (case b of None \<Rightarrow> PyNone | Some b \<Rightarrow> PyBytes b)"

interpretation short_bytes_fmt: wire_format "\<lambda>b. write_short_bytes (opt_bytes b)" read_short_bytes
proof
  fix b bs data cur rest
  assume w: "write_short_bytes (opt_bytes b) = Inr bs" and s: "suffix_at data cur (bs @ rest)"
  note len = suffix_at_length [OF s]
  show "read_short_bytes data cur = Inr (b, cur + int (length bs))"
  proof (cases b)
    case None
    with w have p: "struct_pack ''>h'' [- 1] = Inr bs" by (simp add: write_short_bytes_def opt_bytes_def)
    with None s len show ?thesis
      using suffix_at_slice [OF s] struct_pack_h [OF p]
      by (simp add: read_short_bytes_def unpack_one_pack)
  next
    case (Some x)
    with w obtain h where p: "struct_pack ''>h'' [int (length x)] = Inr h" and bs: "bs = h @ x"
      by (auto simp: write_short_bytes_def opt_bytes_def rbind_eq_Inr split: if_splits)
    from s bs have s': "suffix_at data cur (h @ (x @ rest))" by simp
    with p Some len bs show ?thesis
      using suffix_at_slice [OF s'] suffix_at_slice [OF suffix_at_advance [OF s']] struct_pack_h [OF p]
      by (simp add: read_short_bytes_def unpack_one_pack Let_def)
  qed
qed

interpretation int_string_fmt: wire_format write_int_string read_int_string
proof
  fix b bs data cur rest
  assume w: "write_int_string b = Inr bs" and s: "suffix_at data cur (bs @ rest)"
  note len = suffix_at_length [OF s]
  show "read_int_string data cur = Inr (b, cur + int (length bs))"
  proof (cases b)
    case None
    with w have p: "struct_pack ''>i'' [- 1] = Inr bs" by (simp add: write_int_string_def)
    with None s len show ?thesis
      using suffix_at_slice [OF s] struct_pack_i [OF p]
      by (simp add: read_int_string_def unpack_one_pack)
  next
    case (Some x)
    with w obtain h where p: "struct_pack ''>i'' [int (length x)] = Inr h" and bs: "bs = h @ x"
      by (auto simp: write_int_string_def rbind_eq_Inr)
    from s bs have s': "suffix_at data cur (h @ (x @ rest))" by simp
    with p Some len bs show ?thesis
      using suffix_at_slice [OF s'] suffix_at_slice [OF suffix_at_advance [OF s']] struct_pack_i [OF p]
      by (simp add: read_int_string_def unpack_one_pack Let_def)
  qed
qed

interpretation short_ascii_fmt: wire_format "\<lambda>s. write_short_ascii (PyStr s)" read_short_ascii
proof
  fix t bs data cur rest
  assume w: "write_short_ascii (PyStr t) = Inr bs" and s: "suffix_at data cur (bs @ rest)"
  from w obtain b where b: "ascii_encode t = Inr b" and "write_short_bytes (opt_bytes (Some b)) = Inr bs"
    by (auto simp: write_short_ascii_def opt_bytes_def rbind_eq_Inr)
  then have "read_short_bytes data cur = Inr (Some b, cur + int (length bs))"
    using s by (intro short_bytes_fmt.dec_enc)
  with b show "read_short_ascii data cur = Inr (t, cur + int (length bs))"
    by (simp add: read_short_ascii_def ascii_decode_encode)
qed

interpretation short_text_fmt: wire_format "\<lambda>s. write_short_text (PyStr s)" read_short_text
proof
  fix t bs data cur rest
  assume w: "write_short_text (PyStr t) = Inr bs" and s: "suffix_at data cur (bs @ rest)"
  from w obtain b where b: "utf8_encode t = Inr b" and "write_short_bytes (opt_bytes (Some b)) = Inr bs"
    by (auto simp: write_short_text_def opt_bytes_def rbind_eq_Inr)
  then have "read_short_bytes data cur = Inr (Some b, cur + int (length bs))"
    using s by (intro short_bytes_fmt.dec_enc)
  with b show "read_short_text data cur = Inr (t, cur + int (length bs))"
    by (simp add: read_short_text_def utf8_decode_encode)
qed

interpretation int32_fmt: wire_format "\<lambda>n. struct_pack ''>i'' [n]" "relative_unpack1 ''>i''"
  by unfold_locales (rule relative_unpack1_at)

interpretation int64_fmt: wire_format "\<lambda>n. struct_pack ''>q'' [n]" "relative_unpack1 ''>q''"
  by unfold_locales (rule relative_unpack1_at)

lemmas field_dec [wire_dec] =
  short_bytes_fmt.dec_enc int_string_fmt.dec_enc short_ascii_fmt.dec_enc short_text_fmt.dec_enc

section \<open>Hostile lengths\<close>

text \<open>
  A length prefix below \<open>-1\<close> is taken at face value: the underflow test cannot fail, the
  string is what Python's slice gives, and the cursor ends before the string's first byte.
\<close>

lemma read_short_bytes_negative:
  assumes "suffix_at data cur (h @ rest)" "struct_pack ''>h'' [n] = Inr h" "n < - 1"
  shows "read_short_bytes data cur = Inr (Some (py_slice data (cur + 2) (cur + 2 + n)), cur + 2 + n)"
  using assms suffix_at_slice [OF assms(1)] suffix_at_length [OF assms(1)]
  by (simp add: read_short_bytes_def struct_pack_h [OF assms(2)] unpack_one_pack Let_def)

text \<open>A string whose length is not negative lies inside the data, right behind its prefix.\<close>

lemma read_short_bytes_in_bounds:
  assumes "read_short_bytes data cur = Inr (Some b, cur')" "0 \<le> cur" "cur + 2 \<le> cur'"
  shows "cur' \<le> int (length data) \<and> b = py_slice data (cur + 2) cur' \<and>
         int (length b) = cur' - cur - 2"
  using assms py_slice_length [of "cur + 2" cur' data]
  by (auto simp: read_short_bytes_def rbind_eq_Inr Let_def split: if_splits)

section \<open>Grouping payloads\<close>

definition group_get :: "('t, (int, 'p) dict) dict \<Rightarrow> 't \<Rightarrow> int \<Rightarrow> 'p option" where
  "group_get d t p = (case dict_get d t of None \<Rightarrow> None | Some inner \<Rightarrow> dict_get inner p)"

definition group_ok :: "('t, (int, 'p) dict) dict \<Rightarrow> bool" where
  "group_ok d \<longleftrightarrow> dict_ok d \<and> (\<forall>t inner. (t, inner) \<in> set d \<longrightarrow> dict_ok inner \<and> inner \<noteq> [])"

lemma group_get_step:
  "group_get (group_step topic part d x) t p =
     (if t = topic x \<and> p = part x then Some x else group_get d t p)"
  by (auto simp: group_get_def group_step_def Let_def dict_get_set split: option.splits)

lemma group_ok_step: "group_ok d \<Longrightarrow> group_ok (group_step topic part d x)"
proof -
  assume ok: "group_ok d"
  define inner where "inner = (case dict_get d (topic x) of None \<Rightarrow> [] | Some i \<Rightarrow> i)"
  have d: "dict_ok d" using ok by (simp add: group_ok_def)
  have "dict_ok inner"
    using ok dict_get_in [OF d] by (auto simp: inner_def group_ok_def split: option.splits)
  then have "dict_ok (dict_set (part x) x inner)" by simp
  moreover have "dict_set (part x) x inner \<noteq> []" by (cases inner) auto
  moreover have "dict_ok (dict_set (topic x) (dict_set (part x) x inner) d)" using d by simp
  ultimately show ?thesis
    using ok dict_get_in [OF d] dict_get_in [of "dict_set (topic x) (dict_set (part x) x inner) d"]
    by (auto simp: group_ok_def group_step_def Let_def inner_def [symmetric] dict_get_set split: if_splits)
qed

lemma group_foldl:
  "group_ok d \<Longrightarrow> group_ok (foldl (group_step topic part) d ts) \<and>
   (\<forall>t p. group_get (foldl (group_step topic part) d ts) t p =
      (case map_of (rev (map (\<lambda>x. ((topic x, part x), x)) ts)) (t, p) of
         Some x \<Rightarrow> Some x | None \<Rightarrow> group_get d t p))"
proof (induction ts arbitrary: d)
  case (Cons x ts)
  have "group_ok (group_step topic part d x)" using Cons.prems by (rule group_ok_step)
  from Cons.IH [OF this] show ?case
    by (auto simp: group_get_step map_add_def split: option.splits)
qed simp

lemma map_of_find: "map_of (map (\<lambda>x. (k x, x)) xs) q = find (\<lambda>x. k x = q) xs"
  by (induction xs) auto

text \<open>The payload sent for a partition is the last one given for it.\<close>

definition last_payload :: "('p \<Rightarrow> 't) \<Rightarrow> ('p \<Rightarrow> int) \<Rightarrow> 'p list \<Rightarrow> 't \<Rightarrow> int \<Rightarrow> 'p option" where
  "last_payload topic part ts t p = find (\<lambda>x. topic x = t \<and> part x = p) (rev ts)"

lemma group_by_ok: "group_ok (group_by_topic_and_partition topic part ts)"
  using group_foldl [of "[]" topic part ts] by (simp add: group_by_topic_and_partition_def group_ok_def)

lemma group_by_get:
  "group_get (group_by_topic_and_partition topic part ts) t p = last_payload topic part ts t p"
proof -
  have "find (\<lambda>x. (topic x, part x) = (t, p)) (rev ts) = last_payload topic part ts t p"
    by (simp add: last_payload_def)
  then show ?thesis
    using group_foldl [of "[]" topic part ts] map_of_find [of "\<lambda>x. (topic x, part x)" "rev ts" "(t, p)"]
    by (simp add: group_by_topic_and_partition_def group_ok_def group_get_def rev_map split: option.splits)
qed

section \<open>Properties\<close>

text \<open>
  Short strings survive the wire: what \<open>write_short_text\<close> or \<open>write_short_ascii\<close> wrote for
  a string, wherever it stands in the data, the matching reader returns as that string, with the
  cursor right behind it; the text writer also accepts strings outside ASCII.
\<close>

theorem short_string_roundtrip:
  assumes "data = pre @ bs @ rest"
  shows "(write_short_text (PyStr s) = Inr bs \<longrightarrow>
            read_short_text data (int (length pre)) = Inr (s, int (length pre) + int (length bs))) \<and>
         (write_short_ascii (PyStr s) = Inr bs \<longrightarrow>
            read_short_ascii data (int (length pre)) = Inr (s, int (length pre) + int (length bs)) \<and>
            write_short_text (PyStr s) = Inr bs)"
proof -
  have s: "suffix_at data (int (length pre)) (bs @ rest)" by (simp add: assms suffix_at_def)
  have "utf8_encode s = Inr (map b8 s)" if "\<forall>c\<in>set s. c < 128"
    using that by (induction s) (auto simp: utf8_encode_def utf8_char_def)
  then have "write_short_text (PyStr s) = Inr bs" if "write_short_ascii (PyStr s) = Inr bs"
    using that by (auto simp: write_short_ascii_def write_short_text_def ascii_encode_def rbind_eq_Inr split: if_splits)
  then show ?thesis
    using short_text_fmt.dec_enc [OF _ s] short_ascii_fmt.dec_enc [OF _ s] by blast
qed

theorem short_string_roundtrip_witness:
  "read_short_text [9, 0, 3, 0xE2, 0x82, 0xAC, 7] 1 = Inr ([0x20AC], 6)"
proof -
  have "write_short_text (PyStr [0x20AC]) = Inr [0, 3, 0xE2, 0x82, 0xAC]"
    by (simp add: write_short_text_def write_short_bytes_def utf8_encode_def utf8_char_def b8_def
        struct_pack_def parse_fmt_def struct_code_def pack_code_def code_fits_def be_bytes_numeral)
  then show ?thesis
    using short_string_roundtrip [of "[9, 0, 3, 0xE2, 0x82, 0xAC, 7]" "[9]" "[0, 3, 0xE2, 0x82, 0xAC]" "[7]" "[0x20AC]"]
    by simp
qed

text \<open>
  A hostile length prefix is not refused: for any length below \<open>-1\<close> the underflow test of
  \<open>read_short_bytes\<close> passes, and the returned cursor lies before the end of the prefix it just
  read, so a reader can be sent backwards.
\<close>

theorem negative_length_moves_back:
  assumes "data = pre @ h @ rest" "struct_pack ''>h'' [n] = Inr h" "n < - 1"
  shows "\<exists>b cur'. read_short_bytes data (int (length pre)) = Inr (Some b, cur') \<and>
    cur' = int (length pre) + 2 + n \<and> cur' \<le> int (length pre)"
proof -
  have "suffix_at data (int (length pre)) (h @ rest)" by (simp add: assms(1) suffix_at_def)
  from read_short_bytes_negative [OF this assms(2,3)] assms(3) show ?thesis by simp
qed

theorem negative_length_moves_back_witness:
  "\<exists>b. read_short_bytes [1, 2, 0xFF, 0xFC] 2 = Inr (Some b, 0)"
proof -
  have "struct_pack ''>h'' [- 4] = Inr [0xFF, 0xFC]"
    by (simp add: struct_pack_def parse_fmt_def struct_code_def pack_code_def code_fits_def be_bytes_numeral)
  from negative_length_moves_back [of "[1, 2, 0xFF, 0xFC]" "[1, 2]" "[0xFF, 0xFC]" "[]" "- 4", OF _ this]
  show ?thesis by simp
qed

end
