(* ===== verification/Compression.thy ===== *)
theory Compression
  imports Wire
begin

unbundle bit_operations_syntax

text \<open>
  \<open>afkak/codec.py\<close>: gzip, Snappy, and the xerial block framing of Snappy streams.

  The compressors themselves are not part of the repository (\<open>snappy\<close> is an optional
  third-party package, \<open>gzip\<close> wraps the zlib library): they are fields of the environment
  \<open>codec_env\<close>, and theorems name what they need of them (\<open>snappy_inverse\<close>,
  \<open>gzip_inverse\<close>: decompressing what was compressed gives it back).
  The block loop of \<open>snappy_decode\<close> trusts the lengths in the data and may move backwards, so
  it is a partial function: \<open>None\<close> means that it does not return.
\<close>

section \<open>The environment\<close>

record codec_env =
  has_snappy :: bool
  snappy_compress :: "bytes \<Rightarrow> bytes"
  snappy_decompress :: "bytes \<Rightarrow> bytes result"
  gzip_compress :: "bytes \<Rightarrow> bytes"
  gzip_decompress :: "bytes \<Rightarrow> bytes result"

definition XERIAL_HEADER :: bytes where
  "XERIAL_HEADER = [0x82, 0x53, 0x4E, 0x41, 0x50, 0x50, 0x59, 0, 0, 0, 0, 1, 0, 0, 0, 1]"

text \<open>\<open>decompress\<close> undoes \<open>compress\<close>, and no Snappy stream starts with the xerial header.\<close>

definition snappy_inverse :: "codec_env \<Rightarrow> bool" where
  "snappy_inverse env \<longleftrightarrow>
     has_snappy env \<and> (\<forall>b. snappy_decompress env (snappy_compress env b) = Inr b)"

definition snappy_unframed :: "codec_env \<Rightarrow> bool" where
  "snappy_unframed env \<longleftrightarrow> (\<forall>b. take 16 (snappy_compress env b) \<noteq> XERIAL_HEADER)"

definition gzip_inverse :: "codec_env \<Rightarrow> bool" where
  "gzip_inverse env \<longleftrightarrow> (\<forall>b. gzip_decompress env (gzip_compress env b) = Inr b)"

section \<open>gzip\<close>

definition gzip_encode :: "codec_env \<Rightarrow> bytes \<Rightarrow> bytes" where
  "gzip_encode env payload = gzip_compress env payload"

text \<open>\<open>BytesIO(None)\<close> is an empty buffer.\<close>

definition gzip_decode :: "codec_env \<Rightarrow> bytes option \<Rightarrow> bytes result" where
  "gzip_decode env payload =
     gzip_decompress env (case payload of None \<Rightarrow> [] | Some b \<Rightarrow> b)"

section \<open>Snappy\<close>

text \<open>\<open>range(0, n, step)\<close>, which raises for a zero step.\<close>

definition py_range_step :: "int \<Rightarrow> int \<Rightarrow> int list result" where
  "py_range_step n step =
     (if step = 0 then Inl ValueError
      else if step < 0 then Inr []
      else Inr (map (\<lambda>k. int k * step) [0..<nat ((n + step - 1) div step)]))"

definition xerial_block :: "codec_env \<Rightarrow> bytes \<Rightarrow> bytes result" where
  "xerial_block env chunk =
     (let block = snappy_compress env chunk
      in cat [struct_pack ''!i'' [int (length block)], Inr block])"

definition snappy_encode :: "codec_env \<Rightarrow> bytes \<Rightarrow> bool \<Rightarrow> int \<Rightarrow> bytes result" where
  "snappy_encode env payload xerial_compatible xerial_blocksize =
     (if \<not> has_snappy env then Inl NotImplementedError
      else if xerial_compatible then
        rbind (py_range_step (int (length payload)) xerial_blocksize) (\<lambda>starts.
          cat (Inr XERIAL_HEADER #
               map (\<lambda>i. xerial_block env (py_slice payload i (i + xerial_blocksize))) starts))
      else Inr (snappy_compress env payload))"

text \<open>\<open>struct.unpack_from('!i', view, cursor)[0]\<close>: negative offsets count from the end.\<close>

definition unpack_from_i :: "bytes \<Rightarrow> int \<Rightarrow> int result" where
  "unpack_from_i view cursor =
     (let n = int (length view); c = (if cursor < 0 then n + cursor else cursor)
      in if c < 0 \<or> n < c + 4 then Inl StructError
         else unpack_one ''!i'' (py_slice view c (c + 4)))"

partial_function (option) snappy_blocks ::
    "codec_env \<Rightarrow> bytes \<Rightarrow> int \<Rightarrow> bytes \<Rightarrow> bytes result option" where
  "snappy_blocks env view cursor out =
     (if cursor < int (length view) then
        (case unpack_from_i view cursor of
           Inl e \<Rightarrow> Some (Inl e)
         | Inr block_size \<Rightarrow>
             (case snappy_decompress env (py_slice view (cursor + 4) (cursor + 4 + block_size)) of
                Inl e \<Rightarrow> Some (Inl e)
              | Inr b \<Rightarrow> snappy_blocks env view (cursor + 4 + block_size) (out @ b)))
      else Some (Inr out))"

definition snappy_decode :: "codec_env \<Rightarrow> bytes option \<Rightarrow> bytes result option" where
  "snappy_decode env payload =
     (if \<not> has_snappy env then Some (Inl NotImplementedError)
      else (case payload of
              None \<Rightarrow> Some (Inl AttributeError)
            | Some p \<Rightarrow>
                if take 16 p = XERIAL_HEADER then snappy_blocks env p 16 []
                else Some (snappy_decompress env p)))"

section \<open>The framing\<close>

lemma length_XERIAL_HEADER [simp]: "length XERIAL_HEADER = 16"
  by (simp add: XERIAL_HEADER_def)

lemma unpack_from_i_at:
  assumes "struct_pack ''!i'' [v] = Inr h" "suffix_at view cursor (h @ rest)"
  shows "unpack_from_i view cursor = Inr v"
proof -
  have "length h = 4"
    using struct_pack_size [OF assms(1)]
    by (simp add: calcsize_def parse_fmt_def struct_code_def codes_size_def)
  with assms suffix_at_length [OF assms(2)] suffix_at_slice [OF assms(2)] suffix_at_nonneg [OF assms(2)]
  show ?thesis by (simp add: unpack_from_i_def unpack_one_pack)
qed

lemma xerial_block_eq_Inr:
  "xerial_block env c = Inr b \<longleftrightarrow>
     (\<exists>h. struct_pack ''!i'' [int (length (snappy_compress env c))] = Inr h \<and>
          b = h @ snappy_compress env c)"
  by (auto simp: xerial_block_def Let_def rbind_eq_Inr)

text \<open>Reading a sequence of blocks returns the concatenation of the chunks, and returns.\<close>

lemma snappy_blocks_read:
  assumes "snappy_inverse env"
  shows "cat (map (xerial_block env) cs) = Inr bs \<Longrightarrow> suffix_at view cursor bs \<Longrightarrow>
         snappy_blocks env view cursor out = Some (Inr (out @ concat cs))"
proof (induction cs arbitrary: bs cursor out)
  case Nil
  then show ?case using suffix_at_length [OF Nil.prems(2)]
    by (simp add: snappy_blocks.simps)
next
  case (Cons c cs)
  let ?block = "snappy_compress env c"
  from Cons.prems(1) obtain h bs' where h: "struct_pack ''!i'' [int (length ?block)] = Inr h"
    and bs': "cat (map (xerial_block env) cs) = Inr bs'" and bs: "bs = h @ ?block @ bs'"
    by (auto simp: xerial_block_eq_Inr rbind_eq_Inr)
  from Cons.prems(2) bs have s: "suffix_at view cursor (h @ (?block @ bs'))" by simp
  have len4: "length h = 4"
    using struct_pack_size [OF h] by (simp add: calcsize_def parse_fmt_def struct_code_def codes_size_def)
  note s2 = suffix_at_advance [OF s] and s3 = suffix_at_advance [OF suffix_at_advance [OF s]]
  have "cursor < int (length view)" using suffix_at_length [OF s] len4 by simp
  moreover have "snappy_decompress env ?block = Inr c" using assms by (simp add: snappy_inverse_def)
  moreover have "snappy_blocks env view (cursor + 4 + int (length ?block)) (out @ c) =
      Some (Inr ((out @ c) @ concat cs))"
    using s3 len4 by (intro Cons.IH [OF bs']) simp
  ultimately show ?case
    using unpack_from_i_at [OF h s] suffix_at_slice [OF s2] len4
    by (subst snappy_blocks.simps) simp
qed

text \<open>The chunks of \<open>_chunker\<close> make up the payload.\<close>

lemma concat_slices:
  assumes "0 < k"
  shows "concat (map (\<lambda>i. take k (drop (i * k) xs)) [0..<n]) = take (n * k) xs"
proof (induction n)
  case (Suc n)
  have "take (n * k + k) xs = take (n * k) xs @ take k (drop (n * k) xs)" by (rule take_add)
  with Suc show ?case by (simp add: add.commute)
qed simp

lemma chunks_concat:
  assumes "py_range_step (int (length payload)) bs = Inr starts" "0 < bs"
  shows "concat (map (\<lambda>i. py_slice payload i (i + bs)) starts) = payload"
proof -
  define n where "n = nat ((int (length payload) + bs - 1) div bs)"
  have starts: "starts = map (\<lambda>k. int k * bs) [0..<n]"
    using assms by (auto simp: py_range_step_def n_def split: if_splits)
  have sl: "py_slice payload (int k * bs) (int k * bs + bs) = take (nat bs) (drop (k * nat bs) payload)" for k
    using assms(2) by (simp add: py_slice_nonneg nat_mult_distrib)
  have "concat (map (\<lambda>i. py_slice payload i (i + bs)) starts) = take (n * nat bs) payload"
    using concat_slices [of "nat bs" payload n] assms(2) by (simp add: starts comp_def sl)
  moreover have "length payload \<le> n * nat bs"
  proof -
    let ?m = "int (length payload) + bs - 1"
    have "?m div bs * bs + ?m mod bs = ?m" by (rule div_mult_mod_eq)
    moreover have "?m mod bs < bs" using assms(2) by simp
    ultimately have "int (length payload) \<le> ?m div bs * bs" by linarith
    moreover have "int n = ?m div bs" using assms(2) by (simp add: n_def pos_imp_zdiv_nonneg_iff)
    ultimately have "int (length payload) \<le> int n * bs" by simp
    then show ?thesis using assms(2)
      by (metis nat_int of_nat_le_iff of_nat_mult int_nat_eq less_imp_le)
  qed
  ultimately show ?thesis by simp
qed

text \<open>
  Whatever \<open>snappy_encode\<close> produced, in xerial blocks of any positive size or as one stream,
  \<open>snappy_decode\<close> terminates on it and returns the payload, provided that the Snappy library's
  \<open>decompress\<close> undoes its \<open>compress\<close> and that no stream it writes starts with the xerial
  header.
\<close>

theorem snappy_decode_encode:
  assumes "snappy_inverse env" "snappy_unframed env" "xerial \<longrightarrow> 0 < blocksize"
    and "snappy_encode env payload xerial blocksize = Inr out"
  shows "snappy_decode env (Some out) = Some (Inr payload)"
proof (cases xerial)
  case True
  with assms(1,4) obtain starts bs
    where starts: "py_range_step (int (length payload)) blocksize = Inr starts"
      and bs: "cat (map (xerial_block env) (map (\<lambda>i. py_slice payload i (i + blocksize)) starts)) = Inr bs"
      and out: "out = XERIAL_HEADER @ bs"
    by (auto simp: snappy_encode_def snappy_inverse_def rbind_eq_Inr comp_def)
  have "suffix_at out 16 bs" by (simp add: suffix_at_def out)
  from snappy_blocks_read [OF assms(1) bs this] chunks_concat [OF starts] assms(3) True
  have "snappy_blocks env out 16 [] = Some (Inr payload)" by simp
  with assms(1) show ?thesis by (simp add: snappy_decode_def snappy_inverse_def out)
next
  case False
  with assms show ?thesis
    by (auto simp: snappy_encode_def snappy_decode_def snappy_inverse_def snappy_unframed_def)
qed

text \<open>An environment whose compressor only marks its input.\<close>

definition marking_env :: codec_env where
  "marking_env = \<lparr>has_snappy = True,
     snappy_compress = (\<lambda>b. 0 # b), snappy_decompress = (\<lambda>b. Inr (tl b)),
     gzip_compress = (\<lambda>b. 1 # b), gzip_decompress = (\<lambda>b. Inr (tl b))\<rparr>"

lemma marking_env_laws: "snappy_inverse marking_env" "snappy_unframed marking_env" "gzip_inverse marking_env"
  by (simp_all add: marking_env_def snappy_inverse_def snappy_unframed_def gzip_inverse_def XERIAL_HEADER_def)

theorem snappy_decode_encode_witness:
  "snappy_decode marking_env (Some (XERIAL_HEADER @ [0, 0, 0, 3, 0, 10, 20, 0, 0, 0, 2, 0, 30])) =
     Some (Inr [10, 20, 30])"
proof -
  have "snappy_encode marking_env [10, 20, 30] True 2 =
      Inr (XERIAL_HEADER @ [0, 0, 0, 3, 0, 10, 20, 0, 0, 0, 2, 0, 30])" by code_simp
  then show ?thesis
    using snappy_decode_encode [OF marking_env_laws(1,2), of True 2 "[10, 20, 30]"] by simp
qed

end
