(* ===== verification/Checksum.thy ===== *)
theory Checksum
  imports Wire
begin

unbundle bit_operations_syntax

text \<open>
  \<open>zlib.crc32\<close>, the checksum of Kafka messages: the reflected CRC-32 with polynomial
  \<open>0xEDB88320\<close>, one bit at a time. Its step is injective in the register, so a change of a
  single byte of the input always changes the checksum.
\<close>

definition crc_bit :: "32 word \<Rightarrow> 32 word" where
  "crc_bit s = (if bit s 0 then drop_bit 1 s XOR 0xEDB88320 else drop_bit 1 s)"

definition crc_byte :: "32 word \<Rightarrow> byte \<Rightarrow> 32 word" where
  "crc_byte s b = (crc_bit ^^ 8) (s XOR ucast b)"

definition crc_run :: "bytes \<Rightarrow> 32 word" where
  "crc_run bs = NOT (foldl crc_byte 0xFFFFFFFF bs)"

text \<open>\<open>zlib.crc32(data) & 0xffffffff\<close>.\<close>

definition crc32 :: "bytes \<Rightarrow> int" where
  "crc32 bs = uint (crc_run bs)"

lemma crc32_range: "0 \<le> crc32 bs \<and> crc32 bs < 2 ^ 32"
  using uint_lt2p [of "crc_run bs"] by (simp add: crc32_def)

lemma word_xor_right_cancel: "a XOR c = b XOR c \<longleftrightarrow> a = b" for a b c :: "'a::len word"
  by (auto simp: bit_eq_iff bit_xor_iff)

lemma word_xor_left_cancel: "c XOR a = c XOR b \<longleftrightarrow> a = b" for a b c :: "'a::len word"
  by (auto simp: bit_eq_iff bit_xor_iff)

lemma crc_bit_top: "bit (crc_bit s) 31 \<longleftrightarrow> bit s 0"
proof -
  have "bit (0xEDB88320 :: 32 word) 31" by (simp add: bit_numeral_rec)
  moreover have "\<not> bit s 32" using bit_imp_le_length by fastforce
  ultimately show ?thesis by (auto simp: crc_bit_def bit_xor_iff bit_drop_bit_eq)
qed

lemma inj_crc_bit: "inj crc_bit"
proof (rule injI)
  fix s t :: "32 word"
  assume eq: "crc_bit s = crc_bit t"
  then have b0: "bit s 0 \<longleftrightarrow> bit t 0" by (metis crc_bit_top)
  with eq have d: "drop_bit 1 s = drop_bit 1 t"
    by (simp add: crc_bit_def word_xor_right_cancel split: if_splits)
  show "s = t"
  proof (rule bit_word_eqI)
    fix n
    show "bit s n \<longleftrightarrow> bit t n"
    proof (cases n)
      case 0
      with b0 show ?thesis by simp
    next
      case (Suc m)
      from d have "bit (drop_bit 1 s) m \<longleftrightarrow> bit (drop_bit 1 t) m" by simp
      with Suc show ?thesis by (simp add: bit_drop_bit_eq)
    qed
  qed
qed

lemma inj_crc_bits: "(crc_bit ^^ 8) s = (crc_bit ^^ 8) t \<longleftrightarrow> s = t"
  by (rule inj_eq) (rule inj_fn [OF inj_crc_bit])

lemma crc_byte_inj_state: "crc_byte s b = crc_byte t b \<longleftrightarrow> s = t"
  by (simp only: crc_byte_def inj_crc_bits word_xor_right_cancel)

lemma crc_byte_inj_byte: "crc_byte s a = crc_byte s b \<longleftrightarrow> a = b"
proof -
  have lt: "n < 8 \<and> n < 32" if "bit x n" for x :: byte and n
    using bit_imp_le_length [OF that] by simp
  have "(ucast a :: 32 word) = ucast b \<longleftrightarrow> a = b"
    by (auto simp: bit_eq_iff bit_ucast_iff dest: lt)
  then show ?thesis by (simp only: crc_byte_def inj_crc_bits word_xor_left_cancel)
qed

lemma crc_foldl_inj: "foldl crc_byte s bs = foldl crc_byte t bs \<longleftrightarrow> s = t"
  by (induction bs arbitrary: s t) (simp_all add: crc_byte_inj_state)

lemma crc32_single_byte: "a \<noteq> b \<Longrightarrow> crc32 (xs @ a # ys) \<noteq> crc32 (xs @ b # ys)"
  by (simp add: crc32_def crc_run_def crc_foldl_inj crc_byte_inj_byte word_uint_eq_iff [symmetric])

end
