(* ===== verification/Message_Set.thy ===== *)
theory Message_Set
  imports Compression Checksum
begin

unbundle bit_operations_syntax

text \<open>
  Messages and message sets: \<open>_encode_message\<close>, \<open>_encode_message_set\<close>,
  \<open>_decode_message\<close>, \<open>_decode_message_set_iter\<close> and the \<open>create_*\<close> functions of
  \<open>afkak/kafkacodec.py\<close>.

  Decoding is a generator that may not end on crafted data (a negative size moves the cursor
  backwards, and a compressed message may hold another one), so it is a partial function into
  generators: \<open>None\<close> is divergence, \<open>Some (items, r)\<close> the messages yielded and how the
  iteration ended.
\<close>

section \<open>Data\<close>

record message =
  msg_magic :: int
  msg_attributes :: int
  msg_key :: "bytes option"
  msg_value :: "bytes option"

record offset_and_message =
  oam_offset :: int
  oam_message :: message

text \<open>\<open>SendRequest\<close>; the deferred is an identifier.\<close>

record send_request =
  sr_topic :: pystr
  sr_key :: "bytes option"
  sr_messages :: "bytes option list"
  sr_deferred :: nat

type_synonym msg_gen = "(offset_and_message, exn, unit) gen"

definition ATTRIBUTE_CODEC_MASK :: int where "ATTRIBUTE_CODEC_MASK = 0x03"

section \<open>Encoding\<close>

definition encode_message :: "message \<Rightarrow> bytes result" where
  "encode_message message =
     (if msg_magic message = 0 then
        rbind (cat [struct_pack ''>BB'' [msg_magic message, msg_attributes message],
                    write_int_string (msg_key message),
                    write_int_string (msg_value message)])
          (\<lambda>msg. cat [struct_pack ''>I'' [crc32 msg], Inr msg])
      else Inl ProtocolError)"

fun encode_entries :: "message list \<Rightarrow> int \<Rightarrow> int \<Rightarrow> bytes result" where
  "encode_entries [] offset incr = Inr []"
| "encode_entries (message # messages) offset incr =
     rbind (encode_message message) (\<lambda>encoded_message.
       cat [struct_pack ''>qi'' [offset, int (length encoded_message)],
            Inr encoded_message,
            encode_entries messages (offset + incr) incr])"

definition encode_message_set :: "message list \<Rightarrow> int option \<Rightarrow> bytes result" where
  "encode_message_set messages offset =
     (case offset of None \<Rightarrow> encode_entries messages 0 0
                   | Some off \<Rightarrow> encode_entries messages off 1)"

section \<open>Decoding\<close>

text \<open>The part of \<open>_decode_message\<close> before the codec is looked at.\<close>

definition parse_message :: "bytes option \<Rightarrow> message result" where
  "parse_message msg =
     (case msg of
        None \<Rightarrow> Inl TypeError
      | Some data \<Rightarrow>
          rbind (relative_unpack3 ''>IBB'' data 0) (\<lambda>((crc, magic, att), cur).
            if crc \<noteq> crc32 (drop 4 data) then Inl ChecksumError
            else rbind (read_int_string data cur) (\<lambda>(key, cur).
                   rbind (read_int_string data cur) (\<lambda>(val, cur).
                     Inr \<lparr>msg_magic = magic, msg_attributes = att, msg_key = key, msg_value = val\<rparr>))))"

definition read_entry :: "bytes \<Rightarrow> int \<Rightarrow> (int \<times> message \<times> int) result" where
  "read_entry data cur =
     rbind (relative_unpack1 ''>q'' data cur) (\<lambda>(offset, cur).
       rbind (read_int_string data cur) (\<lambda>(msg, cur).
         rbind (parse_message msg) (\<lambda>m. Inr (offset, m, cur))))"

text \<open>The \<open>except BufferUnderflowError\<close> clause.\<close>

definition underflow_end :: "bool \<Rightarrow> exn \<Rightarrow> unit result" where
  "underflow_end read_message e =
     (if e = BufferUnderflowError then
        (if read_message then Inr () else Inl ConsumerFetchSizeTooSmall)
      else Inl e)"

partial_function (option) decode_message_set_from ::
    "codec_env \<Rightarrow> bytes \<Rightarrow> int \<Rightarrow> bool \<Rightarrow> msg_gen option" where
  "decode_message_set_from env data cur read_message =
     (if cur < int (length data) then
        (case read_entry data cur of
           Inl e \<Rightarrow> Some ([], underflow_end read_message e)
         | Inr (offset, m, cur') \<Rightarrow>
             Option.bind
               (let codec = msg_attributes m AND ATTRIBUTE_CODEC_MASK
                in if codec = CODEC_NONE then
                     Some ([\<lparr>oam_offset = offset, oam_message = m\<rparr>], Inr ())
                   else if codec = CODEC_GZIP then
                     (case gzip_decode env (msg_value m) of
                        Inl e \<Rightarrow> Some ([], Inl e)
                      | Inr gz \<Rightarrow> decode_message_set_from env gz 0 False)
                   else if codec = CODEC_SNAPPY then
                     Option.bind (snappy_decode env (msg_value m)) (\<lambda>r.
                       case r of
                         Inl e \<Rightarrow> Some ([], Inl e)
                       | Inr snp \<Rightarrow> decode_message_set_from env snp 0 False)
                   else Some ([], Inl ProtocolError))
               (\<lambda>(items, r).
                  case r of
                    Inl e \<Rightarrow> Some (items, underflow_end (read_message \<or> items \<noteq> []) e)
                  | Inr _ \<Rightarrow>
                      Option.bind (decode_message_set_from env data cur' (read_message \<or> items \<noteq> []))
                        (\<lambda>(rest, r). Some (items @ rest, r))))
      else Some ([], Inr ()))"

definition decode_message_set_iter :: "codec_env \<Rightarrow> bytes \<Rightarrow> msg_gen option" where
  "decode_message_set_iter env data = decode_message_set_from env data 0 False"

section \<open>Creating messages\<close>

definition create_message :: "bytes option \<Rightarrow> bytes option \<Rightarrow> message" where
  "create_message payload key =
     \<lparr>msg_magic = 0, msg_attributes = 0, msg_key = key, msg_value = payload\<rparr>"

definition create_gzip_message :: "codec_env \<Rightarrow> message list \<Rightarrow> message result" where
  "create_gzip_message env message_set =
     rbind (encode_message_set message_set None) (\<lambda>encoded.
       Inr \<lparr>msg_magic = 0, msg_attributes = CODEC_GZIP, msg_key = None,
            msg_value = Some (gzip_encode env encoded)\<rparr>)"

definition create_snappy_message :: "codec_env \<Rightarrow> message list \<Rightarrow> message result" where
  "create_snappy_message env message_set =
     rbind (encode_message_set message_set None) (\<lambda>encoded.
       rbind (snappy_encode env encoded False (32 * 1024)) (\<lambda>snapped.
         Inr \<lparr>msg_magic = 0, msg_attributes = CODEC_SNAPPY, msg_key = None,
              msg_value = Some snapped\<rparr>))"

definition request_messages :: "send_request list \<Rightarrow> message list" where
  "request_messages requests =
     concat (map (\<lambda>req. map (\<lambda>m. create_message m (sr_key req)) (sr_messages req)) requests)"

definition create_message_set :: "codec_env \<Rightarrow> send_request list \<Rightarrow> int \<Rightarrow> message list result" where
  "create_message_set env requests codec =
     (let msglist = request_messages requests
      in if codec = CODEC_NONE then Inr msglist
         else if codec = CODEC_GZIP then
           rbind (create_gzip_message env msglist) (\<lambda>m. Inr [m])
         else if codec = CODEC_SNAPPY then
           rbind (create_snappy_message env msglist) (\<lambda>m. Inr [m])
         else Inl UnsupportedCodecError)"

section \<open>One message\<close>

lemmas struct_unfold = struct_pack_def parse_fmt_def struct_code_def rbind_eq_Inr

lemma struct_pack_IBB:
  "struct_pack ''>I'' [c] = Inr bs \<Longrightarrow> struct_pack ''>BB'' [x, y] = Inr bs' \<Longrightarrow>
   struct_pack ''>IBB'' [c, x, y] = Inr (bs @ bs')"
  by (auto simp: struct_unfold)

lemma struct_pack_qi:
  "struct_pack ''>qi'' [a, b] = Inr bs \<longleftrightarrow>
     (\<exists>q i. struct_pack ''>q'' [a] = Inr q \<and> struct_pack ''>i'' [b] = Inr i \<and> bs = q @ i)"
  by (auto simp: struct_unfold)

lemma struct_pack_length_q: "struct_pack ''>q'' [n] = Inr bs \<Longrightarrow> length bs = 8"
  using struct_pack_size by (fastforce simp: calcsize_def parse_fmt_def struct_code_def codes_size_def)

lemma struct_pack_length_I: "struct_pack ''>I'' [n] = Inr bs \<Longrightarrow> length bs = 4"
  using struct_pack_size by (fastforce simp: calcsize_def parse_fmt_def struct_code_def codes_size_def)

lemma encode_message_eq_Inr:
  "encode_message m = Inr e \<longleftrightarrow>
     msg_magic m = 0 \<and>
     (\<exists>c bb k v. struct_pack ''>BB'' [0, msg_attributes m] = Inr bb \<and>
        write_int_string (msg_key m) = Inr k \<and> write_int_string (msg_value m) = Inr v \<and>
        struct_pack ''>I'' [crc32 (bb @ k @ v)] = Inr c \<and> e = c @ bb @ k @ v)"
  by (auto simp: encode_message_def rbind_eq_Inr)

lemma parse_message_encode:
  assumes "encode_message m = Inr e"
  shows "parse_message (Some e) = Inr m"
proof -
  from assms obtain c bb k v where magic: "msg_magic m = 0"
    and bb: "struct_pack ''>BB'' [0, msg_attributes m] = Inr bb"
    and k: "write_int_string (msg_key m) = Inr k" and v: "write_int_string (msg_value m) = Inr v"
    and c: "struct_pack ''>I'' [crc32 (bb @ k @ v)] = Inr c" and e: "e = c @ bb @ k @ v"
    by (auto simp: encode_message_eq_Inr)
  have s0: "suffix_at e 0 ((c @ bb) @ (k @ v))" by (simp add: e)
  note s1 = suffix_at_advance [OF s0]
  have s2: "suffix_at e (int (length (c @ bb)) + int (length k)) (v @ [])"
    using suffix_at_advance [OF s1] by simp
  have "relative_unpack3 ''>IBB'' e 0 = Inr ((crc32 (bb @ k @ v), 0, msg_attributes m), int (length (c @ bb)))"
    using relative_unpack3_at [OF struct_pack_IBB [OF c bb] s0] by simp
  moreover have "drop 4 e = bb @ k @ v" using struct_pack_length_I [OF c] by (simp add: e)
  moreover have "read_int_string e (int (length (c @ bb))) = Inr (msg_key m, int (length (c @ bb)) + int (length k))"
    using int_string_fmt.dec_enc [OF k] s1 by simp
  ultimately show ?thesis
    using int_string_fmt.dec_enc [OF v s2] magic by (simp add: parse_message_def)
qed

lemma message_header:
  assumes "6 \<le> length d"
  shows "\<exists>crc magic att. relative_unpack3 ''>IBB'' d 0 = Inr ((crc, magic, att), 6) \<and>
           struct_pack ''>I'' [crc] = Inr (take 4 d)"
proof -
  have six: "length (take 6 d) = 6" using assms by simp
  define vs where "vs = unpack_codes [(False, 4), (False, 1), (False, 1)] (take 6 d)"
  have "struct_unpack ''>IBB'' (take 6 d) = Inr vs"
    using six by (simp add: struct_unpack_def parse_fmt_def struct_code_def codes_size_def vs_def)
  moreover obtain a x y where vs: "vs = [a, x, y]" by (simp add: vs_def)
  ultimately have pk: "struct_pack ''>IBB'' [a, x, y] = Inr (take 6 d)"
    by (simp add: struct_pack_iff_unpack)
  then have "\<exists>c bb. struct_pack ''>I'' [a] = Inr c \<and> take 6 d = c @ bb"
    by (auto simp: struct_unfold) metis
  then obtain c bb where c: "struct_pack ''>I'' [a] = Inr c" and t: "take 6 d = c @ bb" by blast
  have "take 4 (take 6 d) = c" using struct_pack_length_I [OF c] t by simp
  then have "struct_pack ''>I'' [a] = Inr (take 4 d)" using c by simp
  moreover have "relative_unpack3 ''>IBB'' d 0 = Inr ((a, x, y), 6)"
    using relative_unpack3_at [OF pk, of d 0 "drop 6 d"] six by simp
  ultimately show ?thesis by blast
qed

text \<open>A changed byte is noticed: in the checksum itself or behind it.\<close>

lemma parse_message_corrupt:
  assumes e: "encode_message m = Inr e" "e = xs @ b # ys" and ne: "b' \<noteq> b"
  shows "parse_message (Some (xs @ b' # ys)) = Inl ChecksumError"
proof -
  let ?d = "xs @ b' # ys"
  from e(1) obtain c bb k v where bb: "struct_pack ''>BB'' [0, msg_attributes m] = Inr bb"
    and c: "struct_pack ''>I'' [crc32 (bb @ k @ v)] = Inr c" and ex: "e = c @ bb @ k @ v"
    by (auto simp: encode_message_eq_Inr)
  have lc: "length c = 4" by (rule struct_pack_length_I [OF c])
  have lb: "length bb = 2" using struct_pack_size [OF bb]
    by (simp add: calcsize_def parse_fmt_def struct_code_def codes_size_def)
  have len: "length ?d = length e" by (simp add: e(2))
  obtain crc magic att where up: "relative_unpack3 ''>IBB'' ?d 0 = Inr ((crc, magic, att), 6)"
    and crc: "struct_pack ''>I'' [crc] = Inr (take 4 ?d)"
    using message_header [of ?d] len lc lb ex by auto
  have "crc \<noteq> crc32 (drop 4 ?d)"
  proof (cases "length xs < 4")
    case True
    then have "drop 4 ?d = drop 4 e" using e(2) by (simp add: drop_Cons')
    then have d: "drop 4 ?d = bb @ k @ v" using ex lc by simp
    have "take 4 ?d \<noteq> c"
    proof
      assume "take 4 ?d = c"
      then have "take 4 ?d = take 4 e" using ex lc by simp
      then have "take 4 ?d ! length xs = take 4 e ! length xs" by simp
      then have "?d ! length xs = e ! length xs" using True by (simp only: nth_take)
      with ne e(2) show False by simp
    qed
    with crc c show ?thesis using d by auto
  next
    case False
    then have "drop 4 ?d = drop 4 xs @ b' # ys" "bb @ k @ v = drop 4 xs @ b # ys"
      using e(2) ex lc by (auto dest: arg_cong [of _ _ "drop 4"])
    then have diff: "crc32 (drop 4 ?d) \<noteq> crc32 (bb @ k @ v)"
      using crc32_single_byte [OF ne] by simp
    have "take 4 ?d = c" using False e(2) ex lc by (auto dest: arg_cong [of _ _ "take 4"])
    with crc c have "crc = crc32 (bb @ k @ v)"
      by (simp add: struct_pack_iff_unpack)
    with diff show ?thesis by simp
  qed
  with up show ?thesis by (simp add: parse_message_def)
qed

section \<open>Message sets\<close>

text \<open>What decoding yields for a list of uncompressed messages.\<close>

fun entry_items :: "message list \<Rightarrow> int \<Rightarrow> int \<Rightarrow> offset_and_message list" where
  "entry_items [] offset incr = []"
| "entry_items (m # ms) offset incr =
     \<lparr>oam_offset = offset, oam_message = m\<rparr> # entry_items ms (offset + incr) incr"

lemma entry_items_constant: "entry_items ms off 0 = map (\<lambda>m. \<lparr>oam_offset = off, oam_message = m\<rparr>) ms"
  by (induction ms) simp_all

lemma entry_items_nth:
  "i < length ms \<Longrightarrow> entry_items ms off incr ! i = \<lparr>oam_offset = off + int i * incr, oam_message = ms ! i\<rparr>"
proof (induction ms arbitrary: off i)
  case (Cons m ms)
  then show ?case by (cases i) (auto simp: algebra_simps)
qed simp

lemma length_entry_items [simp]: "length (entry_items ms off incr) = length ms"
  by (induction ms arbitrary: off) simp_all

definition plain :: "message \<Rightarrow> bool" where
  "plain m \<longleftrightarrow> msg_attributes m AND ATTRIBUTE_CODEC_MASK = CODEC_NONE"

lemma encode_entries_Cons:
  "encode_entries (m # ms) off incr = Inr bs \<longleftrightarrow>
     (\<exists>e h bs'. encode_message m = Inr e \<and> struct_pack ''>qi'' [off, int (length e)] = Inr h \<and>
        encode_entries ms (off + incr) incr = Inr bs' \<and> bs = h @ e @ bs')"
  by (auto simp: rbind_eq_Inr)

lemma read_entry_at:
  assumes "encode_message m = Inr e" "struct_pack ''>qi'' [off, int (length e)] = Inr h"
    and "suffix_at data cur (h @ e @ rest)"
  shows "read_entry data cur = Inr (off, m, cur + int (length h) + int (length e))"
proof -
  from assms(2) obtain q i where q: "struct_pack ''>q'' [off] = Inr q"
    and i: "struct_pack ''>i'' [int (length e)] = Inr i" and h: "h = q @ i"
    by (auto simp: struct_pack_qi)
  from assms(3) have s: "suffix_at data cur (q @ ((i @ e) @ rest))" by (simp add: h)
  have w: "write_int_string (Some e) = Inr (i @ e)" using i by (simp add: write_int_string_def)
  have "read_int_string data (cur + int (length q)) =
      Inr (Some e, cur + int (length q) + int (length (i @ e)))"
    by (rule int_string_fmt.dec_enc [OF w suffix_at_advance [OF s]])
  then show ?thesis
    using relative_unpack1_at [OF q s] parse_message_encode [OF assms(1)]
    by (simp add: read_entry_def h)
qed

lemma decode_step_plain:
  assumes "read_entry data cur = Inr (off, m, cur')" "plain m" "cur < int (length data)"
  shows "decode_message_set_from env data cur rm =
    Option.bind (decode_message_set_from env data cur' True)
      (\<lambda>(rest, r). Some (\<lparr>oam_offset = off, oam_message = m\<rparr> # rest, r))"
  using assms by (subst decode_message_set_from.simps) (simp add: plain_def Let_def case_prod_unfold)

lemma decode_entries:
  "encode_entries ms off incr = Inr bs \<Longrightarrow> list_all plain ms \<Longrightarrow> suffix_at data cur (bs @ rest) \<Longrightarrow>
   decode_message_set_from env data cur rm =
     Option.bind (decode_message_set_from env data (cur + int (length bs)) (rm \<or> ms \<noteq> []))
       (\<lambda>(items, r). Some (entry_items ms off incr @ items, r))"
proof (induction ms arbitrary: off bs cur rm)
  case Nil
  then show ?case by (cases "decode_message_set_from env data cur rm") auto
next
  case (Cons m ms)
  from Cons.prems(1) obtain e h bs' where e: "encode_message m = Inr e"
    and h: "struct_pack ''>qi'' [off, int (length e)] = Inr h"
    and bs': "encode_entries ms (off + incr) incr = Inr bs'" and bs: "bs = h @ e @ bs'"
    unfolding encode_entries_Cons by blast
  from Cons.prems(3) have s: "suffix_at data cur (h @ (e @ (bs' @ rest)))" by (simp add: bs)
  have lt: "cur < int (length data)"
    using suffix_at_length [OF s] e struct_pack_length_I by (fastforce simp: encode_message_eq_Inr)
  let ?cur = "cur + int (length h) + int (length e)"
  have s2: "suffix_at data ?cur (bs' @ rest)"
    by (rule suffix_at_advance [OF suffix_at_advance [OF s]])
  have step: "decode_message_set_from env data cur rm =
      Option.bind (decode_message_set_from env data ?cur True)
        (\<lambda>(rest, r). Some (\<lparr>oam_offset = off, oam_message = m\<rparr> # rest, r))"
    using decode_step_plain [OF read_entry_at [OF e h s] _ lt] Cons.prems(2) by simp
  have "decode_message_set_from env data ?cur True =
      Option.bind (decode_message_set_from env data (?cur + int (length bs')) True)
        (\<lambda>(items, r). Some (entry_items ms (off + incr) incr @ items, r))"
    using Cons.IH [OF bs' _ s2, of True] Cons.prems(2) by simp
  with step show ?case
    by (cases "decode_message_set_from env data (?cur + int (length bs')) True")
      (auto simp: bs add.assoc case_prod_unfold)
qed

lemma decode_at_end: "suffix_at data cur [] \<Longrightarrow> decode_message_set_from env data cur rm = Some ([], Inr ())"
  using suffix_at_length [of data cur "[]"] by (subst decode_message_set_from.simps) simp

lemma read_entry_truncated:
  assumes "encode_message m = Inr e" "struct_pack ''>qi'' [off, int (length e)] = Inr h"
    and "suffix_at data cur (take k (h @ e))" "k < length (h @ e)"
  shows "read_entry data cur = Inl BufferUnderflowError"
proof -
  from assms(2) obtain q i where q: "struct_pack ''>q'' [off] = Inr q"
    and i: "struct_pack ''>i'' [int (length e)] = Inr i" and h: "h = q @ i"
    by (auto simp: struct_pack_qi)
  note lq = struct_pack_length_q [OF q] and li = struct_pack_i [OF i]
  note len = suffix_at_length [OF assms(3)]
  show ?thesis
  proof (cases "k < 8")
    case True
    have "calcsize ''>q'' = Inr 8" by (simp add: calcsize_def parse_fmt_def struct_code_def codes_size_def)
    with True assms(3) have "relative_unpack ''>q'' data cur = Inl BufferUnderflowError"
      by (intro relative_unpack_short) auto
    then show ?thesis by (simp add: read_entry_def relative_unpack1_def)
  next
    case False
    with assms(3) have s: "suffix_at data cur (q @ take (k - 8) (i @ e))" by (simp add: h lq)
    note s2 = suffix_at_advance [OF s]
    have "read_int_string data (cur + 8) = Inl BufferUnderflowError"
    proof (cases "k < 12")
      case True
      with False len show ?thesis using assms(4) by (simp add: read_int_string_def h lq li)
    next
      case k12: False
      have s3: "suffix_at data (cur + 8) (i @ take (k - 12) e)" using s2 k12 by (simp add: lq li)
      have "int (length data) < cur + 12 + int (length e)"
        using len assms(4) by (simp add: h lq li)
      then show ?thesis
        using suffix_at_slice [OF s3] suffix_at_length [OF s3] li
        by (simp add: read_int_string_def unpack_one_pack [OF i] Let_def)
    qed
    then show ?thesis using relative_unpack1_at [OF q s] by (simp add: read_entry_def lq)
  qed
qed

lemma decode_truncated:
  assumes "encode_message m = Inr e" "struct_pack ''>qi'' [off, int (length e)] = Inr h"
    and "suffix_at data cur (take k (h @ e))" "0 < k" "k < length (h @ e)"
  shows "decode_message_set_from env data cur rm =
    Some ([], if rm then Inr () else Inl ConsumerFetchSizeTooSmall)"
proof -
  have "cur < int (length data)" using suffix_at_length [OF assms(3)] assms(4,5) by simp
  then show ?thesis
    using read_entry_truncated [OF assms(1,2,3,5)]
    by (subst decode_message_set_from.simps) (simp add: underflow_end_def)
qed

lemma decode_plain_set:
  assumes "encode_entries ms off incr = Inr bs" "list_all plain ms"
  shows "decode_message_set_from env bs 0 False = Some (entry_items ms off incr, Inr ())"
proof -
  have "suffix_at bs 0 (bs @ [])" by simp
  from decode_entries [OF assms this, of env False] suffix_at_advance [OF this] show ?thesis
    by (simp add: decode_at_end)
qed

lemma encode_entries_append:
  "encode_entries (ms @ ms') off incr =
     rbind (encode_entries ms off incr) (\<lambda>b.
       rbind (encode_entries ms' (off + int (length ms) * incr) incr) (\<lambda>b'. Inr (b @ b')))"
proof (induction ms arbitrary: off)
  case Nil
  then show ?case by (cases "encode_entries ms' off incr") auto
next
  case (Cons m ms)
  then show ?case
    by (cases "encode_message m"; cases "encode_entries ms (off + incr) incr")
      (auto simp: algebra_simps rbind_def split: sum.splits)
qed

text \<open>When encoding succeeds: magic 0, one attribute byte, sizes and offsets that fit.\<close>

definition encodable :: "message \<Rightarrow> bool" where
  "encodable m \<longleftrightarrow> msg_magic m = 0 \<and> 0 \<le> msg_attributes m \<and> msg_attributes m < 256 \<and>
     (case msg_key m of None \<Rightarrow> True | Some k \<Rightarrow> length k < 2 ^ 30) \<and>
     (case msg_value m of None \<Rightarrow> True | Some v \<Rightarrow> length v < 2 ^ 29)"

lemma write_int_string_total:
  "(case s of None \<Rightarrow> 0 | Some b \<Rightarrow> length b) < 2 ^ 31 \<Longrightarrow>
   \<exists>bs. write_int_string s = Inr bs \<and> length bs = 4 + (case s of None \<Rightarrow> 0 | Some b \<Rightarrow> length b)"
  by (auto simp: write_int_string_def struct_unfold pack_code_def code_fits_def split: option.splits)

lemma encode_message_total:
  assumes "encodable m"
  shows "\<exists>e. encode_message m = Inr e \<and> length e < 2 ^ 31"
proof -
  let ?n = "\<lambda>s. case s of None \<Rightarrow> 0 | Some b \<Rightarrow> length (b :: bytes)"
  from assms have n: "?n (msg_key m) < 2 ^ 30" "?n (msg_value m) < 2 ^ 29"
    by (auto simp: encodable_def split: option.splits)
  then obtain k v where k: "write_int_string (msg_key m) = Inr k" "length k = 4 + ?n (msg_key m)"
    and v: "write_int_string (msg_value m) = Inr v" "length v = 4 + ?n (msg_value m)"
    using write_int_string_total [of "msg_key m"] write_int_string_total [of "msg_value m"] by auto
  obtain bb where bb: "struct_pack ''>BB'' [0, msg_attributes m] = Inr bb" "length bb = 2"
    using assms by (auto simp: struct_unfold pack_code_def code_fits_def encodable_def)
  obtain c where c: "struct_pack ''>I'' [crc32 (bb @ k @ v)] = Inr c"
    using crc32_range [of "bb @ k @ v"] by (auto simp: struct_unfold pack_code_def code_fits_def)
  have "length (c @ bb @ k @ v) < 2 ^ 31"
    using struct_pack_length_I [OF c] bb(2) k(2) v(2) n by simp
  with assms k v bb c show ?thesis by (auto simp: encode_message_eq_Inr encodable_def)
qed

lemma encode_entries_total:
  assumes "list_all encodable ms" "0 \<le> off" "0 \<le> incr" "off + int (length ms) * incr < 2 ^ 62"
  shows "\<exists>bs. encode_entries ms off incr = Inr bs"
  using assms
proof (induction ms arbitrary: off)
  case (Cons m ms)
  then obtain e where e: "encode_message m = Inr e" "length e < 2 ^ 31"
    using encode_message_total by auto
  have "0 \<le> int (length ms) * incr" using Cons.prems(3) by simp
  moreover have "off + int (length (m # ms)) * incr = off + incr + int (length ms) * incr"
    by (simp add: distrib_right)
  ultimately have "off < 2 ^ 62" using Cons.prems(3,4) by linarith
  then obtain h where h: "struct_pack ''>qi'' [off, int (length e)] = Inr h"
    using e(2) Cons.prems(2) by (auto simp: struct_unfold pack_code_def code_fits_def)
  have "\<exists>bs. encode_entries ms (off + incr) incr = Inr bs"
    using Cons by (intro Cons.IH) (auto simp: algebra_simps)
  with e(1) h show ?case by (auto simp: encode_entries_Cons)
qed simp

section \<open>Properties\<close>

text \<open>The items a message set stands for: given offsets count up, without one they are all 0.\<close>

definition set_items :: "message list \<Rightarrow> int option \<Rightarrow> offset_and_message list" where
  "set_items ms offset =
     map (\<lambda>i. \<lparr>oam_offset = (case offset of None \<Rightarrow> 0 | Some off \<Rightarrow> off + int i), oam_message = ms ! i\<rparr>)
       [0..<length ms]"

lemma set_items_entries:
  "entry_items ms (case offset of None \<Rightarrow> 0 | Some off \<Rightarrow> off) (case offset of None \<Rightarrow> 0 | Some _ \<Rightarrow> 1) =
     set_items ms offset"
  by (rule nth_equalityI) (auto simp: set_items_def entry_items_nth split: option.splits)

lemma encode_message_set_entries:
  "encode_message_set ms offset =
     encode_entries ms (case offset of None \<Rightarrow> 0 | Some off \<Rightarrow> off)
       (case offset of None \<Rightarrow> 0 | Some _ \<Rightarrow> 1)"
  by (cases offset) (simp_all add: encode_message_set_def)

text \<open>
  Decoding the bytes of an encoded message set yields the same messages, none lost, added or
  reordered: with a starting offset they carry consecutive offsets, without one the offset 0. The
  iteration ends normally.
\<close>

theorem message_set_roundtrip:
  assumes "encode_message_set ms offset = Inr bs" "list_all plain ms"
  shows "decode_message_set_iter env bs = Some (set_items ms offset, Inr ())"
  using assms decode_plain_set set_items_entries
  by (metis decode_message_set_iter_def encode_message_set_entries)

text \<open>Two plain messages used as examples below.\<close>

definition sample_messages :: "message list" where
  "sample_messages = [create_message (Some [104, 105]) None, create_message None (Some [1])]"

lemma sample_messages_ok: "list_all plain sample_messages" "list_all encodable sample_messages"
  by (simp_all add: sample_messages_def plain_def encodable_def create_message_def
      ATTRIBUTE_CODEC_MASK_def CODEC_NONE_def)

theorem message_set_roundtrip_witness:
  "\<exists>bs. encode_message_set sample_messages (Some 41) = Inr bs \<and>
     decode_message_set_iter marking_env bs =
       Some ([\<lparr>oam_offset = 41, oam_message = create_message (Some [104, 105]) None\<rparr>,
              \<lparr>oam_offset = 42, oam_message = create_message None (Some [1])\<rparr>], Inr ())"
proof -
  obtain bs where "encode_message_set sample_messages (Some 41) = Inr bs"
    using encode_entries_total [OF sample_messages_ok(2), of 41 1]
    by (auto simp: encode_message_set_def sample_messages_def)
  from this message_set_roundtrip [OF this sample_messages_ok(1), of marking_env] show ?thesis
    by (simp add: set_items_def sample_messages_def)
qed

lemma truncated_set_decodes:
  assumes "encode_message_set ms offset = Inr bs" "list_all plain ms"
    and "encode_message_set (ms @ [m]) offset = Inr (bs @ e)" "0 < k" "k < length e"
  shows "decode_message_set_iter env (bs @ take k e) =
    Some (set_items ms offset, if ms = [] then Inl ConsumerFetchSizeTooSmall else Inr ())"
proof -
  let ?off = "case offset of None \<Rightarrow> 0 | Some off \<Rightarrow> off"
  let ?incr = "case offset of None \<Rightarrow> 0 | Some _ \<Rightarrow> 1"
  let ?data = "bs @ take k e"
  have enc: "encode_entries ms ?off ?incr = Inr bs"
    using assms(1) by (simp add: encode_message_set_entries)
  with assms(3) obtain x h where x: "encode_message m = Inr x"
    and h: "struct_pack ''>qi'' [?off + int (length ms) * ?incr, int (length x)] = Inr h" and e: "e = h @ x"
    unfolding encode_message_set_entries encode_entries_append
    by (auto simp: rbind_eq_Inr split: option.splits)
  have s: "suffix_at ?data 0 (bs @ take k (h @ x))" by (simp add: e)
  have tr: "decode_message_set_from env ?data (int (length bs)) (ms \<noteq> []) =
      Some ([], if ms \<noteq> [] then Inr () else Inl ConsumerFetchSizeTooSmall)"
    using decode_truncated [OF x h, of ?data "0 + int (length bs)" k] suffix_at_advance [OF s] assms(4,5) e by simp
  show ?thesis
    using decode_entries [OF enc assms(2) s, of env False] tr set_items_entries [of ms offset]
    by (simp add: decode_message_set_iter_def)
qed

text \<open>
  A response cut off in the middle of an entry, as the broker does at the size limit, yields
  exactly the complete messages before the cut and ends normally; when no complete message was
  there, it raises \<open>ConsumerFetchSizeTooSmall\<close>.
\<close>

theorem message_set_truncated:
  assumes "encode_message_set ms offset = Inr bs" "list_all plain ms"
    and "encode_message_set (ms @ [m]) offset = Inr (bs @ e)" "0 < k" "k < length e"
  shows "decode_message_set_iter env (bs @ take k e) =
    Some (set_items ms offset, if ms = [] then Inl ConsumerFetchSizeTooSmall else Inr ())"
  using assms by (rule truncated_set_decodes)

theorem message_set_truncated_witness:
  "\<exists>e. encode_message_set (butlast sample_messages) None = Inr e \<and>
     decode_message_set_iter marking_env (take 7 e) = Some ([], Inl ConsumerFetchSizeTooSmall)"
proof -
  let ?m = "create_message (Some [104, 105]) None"
  obtain e where e: "encode_message_set ([] @ [?m]) None = Inr ([] @ e)"
    using encode_entries_total [of "[?m]" 0 0] sample_messages_ok(2)
    by (auto simp: encode_message_set_def sample_messages_def)
  obtain x h where "struct_pack ''>qi'' [0, int (length x)] = Inr h" "e = h @ x"
    using e by (auto simp: encode_message_set_def rbind_eq_Inr)
  then have "7 < length e" using struct_pack_length_q by (fastforce simp: struct_pack_qi)
  with e message_set_truncated [of "[]" None "[]" ?m e 7 marking_env] show ?thesis
    by (simp add: encode_message_set_def sample_messages_def set_items_def)
qed

text \<open>
  C32. A message set in which one byte of a message (of its checksum or of what it covers) was
  changed yields the messages before it and then raises \<open>ChecksumError\<close>: a corrupt message is
  never delivered.
\<close>

theorem message_set_corrupt:
  assumes "encode_message_set ms offset = Inr bs" "list_all plain ms"
    and "encode_message m = Inr (xs @ b # ys)" "b' \<noteq> b"
    and "encode_message_set (ms @ [m]) offset = Inr (bs @ h @ xs @ b # ys)"
  shows "decode_message_set_iter env (bs @ h @ xs @ b' # ys @ rest) =
    Some (set_items ms offset, Inl ChecksumError)"
proof -
  let ?off = "case offset of None \<Rightarrow> 0 | Some off \<Rightarrow> off"
  let ?incr = "case offset of None \<Rightarrow> 0 | Some _ \<Rightarrow> 1"
  let ?x = "xs @ b' # ys"
  let ?data = "bs @ h @ xs @ b' # ys @ rest"
  have enc: "encode_entries ms ?off ?incr = Inr bs"
    using assms(1) by (simp add: encode_message_set_entries)
  with assms(3,5) have "struct_pack ''>qi'' [?off + int (length ms) * ?incr, int (length (xs @ b # ys))] = Inr h"
    unfolding encode_message_set_entries encode_entries_append
    by (auto simp: rbind_eq_Inr split: option.splits)
  then obtain q i where q: "struct_pack ''>q'' [?off + int (length ms) * ?incr] = Inr q"
    and i: "struct_pack ''>i'' [int (length ?x)] = Inr i" and h: "h = q @ i"
    by (auto simp: struct_pack_qi)
  have s: "suffix_at ?data 0 (bs @ (q @ ((i @ ?x) @ rest)))" by (simp add: h)
  note s1 = suffix_at_advance [OF s]
  have w: "write_int_string (Some ?x) = Inr (i @ ?x)" using i by (simp add: write_int_string_def)
  have "read_entry ?data (int (length bs)) = Inl ChecksumError"
    using relative_unpack1_at [OF q s1] int_string_fmt.dec_enc [OF w suffix_at_advance [OF s1]]
      parse_message_corrupt [OF assms(3) refl assms(4)]
    by (simp add: read_entry_def)
  moreover have "int (length bs) < int (length ?data)" by simp
  ultimately have "decode_message_set_from env ?data (int (length bs)) rm = Some ([], Inl ChecksumError)" for rm
    by (subst decode_message_set_from.simps) (simp add: underflow_end_def)
  then show ?thesis
    using decode_entries [OF enc assms(2) s, of env False] set_items_entries [of ms offset]
    by (simp add: decode_message_set_iter_def)
qed

theorem message_set_corrupt_witness:
  "\<exists>h c xs. encode_message_set [create_message None (Some [1])] None = Inr (h @ c # xs) \<and>
     length h = 12 \<and>
     decode_message_set_iter marking_env (h @ (c + 1) # xs) = Some ([], Inl ChecksumError)"
proof -
  let ?m = "create_message None (Some [1])"
  obtain bs where "encode_message_set ([] @ [?m]) None = Inr bs"
    using encode_entries_total [of "[?m]" 0 0] sample_messages_ok(2)
    by (auto simp: encode_message_set_def sample_messages_def)
  then obtain x h where x: "encode_message ?m = Inr x" and h: "struct_pack ''>qi'' [0, int (length x)] = Inr h"
    and bs: "encode_message_set ([] @ [?m]) None = Inr ([] @ h @ x)"
    by (auto simp: encode_message_set_def rbind_eq_Inr)
  obtain c xs where cx: "x = [] @ c # xs"
    using x struct_pack_length_I by (cases x) (fastforce simp: encode_message_eq_Inr)+
  have "length h = 12" using h struct_pack_length_q struct_pack_i by (fastforce simp: struct_pack_qi)
  moreover have "decode_message_set_iter marking_env ([] @ h @ [] @ (c + 1) # xs @ []) =
      Some (set_items [] None, Inl ChecksumError)"
    by (rule message_set_corrupt [OF _ _ x [unfolded cx] _ bs [unfolded cx]])
      (simp_all add: encode_message_set_def)
  ultimately show ?thesis using bs cx by (auto simp: set_items_def)
qed

lemma decode_single_compressed:
  assumes "encode_message_set [m] None = Inr bs"
    and "\<not> plain m" "msg_attributes m = CODEC_GZIP \<and> gzip_decode env (msg_value m) = Inr inner \<or>
         msg_attributes m = CODEC_SNAPPY \<and> snappy_decode env (msg_value m) = Some (Inr inner)"
    and "encode_entries ms 0 0 = Inr inner" "list_all plain ms"
  shows "decode_message_set_iter env bs = Some (entry_items ms 0 0, Inr ())"
proof -
  from assms(1) obtain e h where e: "encode_message m = Inr e"
    and h: "struct_pack ''>qi'' [0, int (length e)] = Inr h" and bs: "bs = h @ e"
    by (auto simp: encode_message_set_def rbind_eq_Inr)
  have s: "suffix_at bs 0 (h @ e @ [])" by (simp add: bs)
  have lt: "0 < int (length bs)"
    using bs e struct_pack_length_I by (fastforce simp: encode_message_eq_Inr)
  have "suffix_at bs (int (length h) + int (length e)) []"
    using suffix_at_advance [OF suffix_at_advance [OF s]] by simp
  note fin = decode_at_end [OF this] and rd = read_entry_at [OF e h s] and
    inn = decode_plain_set [OF assms(4,5), of env]
  show ?thesis
    unfolding decode_message_set_iter_def
    using assms(3) lt fin rd inn
    by (subst decode_message_set_from.simps)
      (auto simp: CODEC_NONE_def CODEC_GZIP_def CODEC_SNAPPY_def ATTRIBUTE_CODEC_MASK_def)
qed

lemma request_messages_plain: "list_all plain (request_messages requests)"
  by (auto simp: request_messages_def list_all_iff plain_def create_message_def
      ATTRIBUTE_CODEC_MASK_def CODEC_NONE_def)

lemma created_set_decodes:
  assumes "create_message_set env requests codec = Inr ms" "encode_message_set ms None = Inr bs"
    and "gzip_inverse env" "snappy_inverse env" "snappy_unframed env"
  shows "decode_message_set_iter env bs =
    Some (map (\<lambda>m. \<lparr>oam_offset = 0, oam_message = m\<rparr>) (request_messages requests), Inr ())"
proof -
  let ?ms = "request_messages requests"
  have pl: "list_all plain ?ms" by (rule request_messages_plain)
  consider (none) "codec = CODEC_NONE" "ms = ?ms"
    | (gzip) inner where "encode_entries ?ms 0 0 = Inr inner"
        "ms = [\<lparr>msg_magic = 0, msg_attributes = CODEC_GZIP, msg_key = None,
                 msg_value = Some (gzip_encode env inner)\<rparr>]"
    | (snappy) inner snapped where "encode_entries ?ms 0 0 = Inr inner"
        "snappy_encode env inner False (32 * 1024) = Inr snapped"
        "ms = [\<lparr>msg_magic = 0, msg_attributes = CODEC_SNAPPY, msg_key = None, msg_value = Some snapped\<rparr>]"
    using assms(1)
    by (auto simp: create_message_set_def Let_def create_gzip_message_def create_snappy_message_def
        encode_message_set_def rbind_eq_Inr split: if_splits)
  then show ?thesis
  proof cases
    case none
    with assms(2) pl decode_plain_set [of ?ms 0 0 bs env] show ?thesis
      by (simp add: encode_message_set_def decode_message_set_iter_def entry_items_constant)
  next
    case gzip
    then show ?thesis
      using decode_single_compressed [of _ bs env inner ?ms] assms(2,3) pl
      by (simp add: plain_def gzip_decode_def gzip_encode_def gzip_inverse_def entry_items_constant
          CODEC_GZIP_def CODEC_NONE_def ATTRIBUTE_CODEC_MASK_def)
  next
    case snappy
    have "snappy_decode env (Some snapped) = Some (Inr inner)"
      using snappy(2) assms(4,5)
      by (auto simp: snappy_encode_def snappy_decode_def snappy_inverse_def snappy_unframed_def)
    with snappy show ?thesis
      using decode_single_compressed [of _ bs env inner ?ms] assms(2) pl
      by (simp add: plain_def entry_items_constant
          CODEC_SNAPPY_def CODEC_NONE_def ATTRIBUTE_CODEC_MASK_def)
  qed
qed

text \<open>
  C2. What the producer packs with \<open>create_message_set\<close> under any codec arrives: for plain,
  gzip and Snappy sets, decoding the encoded set yields the requests' messages in order, with the
  key of their request and the offset 0 that the broker replaces.
\<close>

theorem create_message_set_roundtrip:
  assumes "create_message_set env requests codec = Inr ms" "encode_message_set ms None = Inr bs"
    and "gzip_inverse env" "snappy_inverse env" "snappy_unframed env"
  shows "decode_message_set_iter env bs =
    Some (map (\<lambda>m. \<lparr>oam_offset = 0, oam_message = m\<rparr>) (request_messages requests), Inr ())"
  using assms by (rule created_set_decodes)

definition sample_requests :: "send_request list" where
  "sample_requests = [\<lparr>sr_topic = str_lit ''t'', sr_key = Some [7], sr_messages = [Some [1], None], sr_deferred = 0\<rparr>,
                      \<lparr>sr_topic = str_lit ''t'', sr_key = None, sr_messages = [Some [2]], sr_deferred = 1\<rparr>]"

theorem create_message_set_roundtrip_witness:
  "\<exists>ms bs. create_message_set marking_env sample_requests CODEC_SNAPPY = Inr ms \<and>
     length ms = 1 \<and> encode_message_set ms None = Inr bs \<and>
     decode_message_set_iter marking_env bs =
       Some ([\<lparr>oam_offset = 0, oam_message = create_message (Some [1]) (Some [7])\<rparr>,
              \<lparr>oam_offset = 0, oam_message = create_message None (Some [7])\<rparr>,
              \<lparr>oam_offset = 0, oam_message = create_message (Some [2]) None\<rparr>], Inr ())"
proof -
  let ?ms = "request_messages sample_requests"
  have rm: "?ms = [create_message (Some [1]) (Some [7]), create_message None (Some [7]), create_message (Some [2]) None]"
    by (simp add: request_messages_def sample_requests_def)
  let ?w = "\<lambda>b. \<lparr>msg_magic = 0, msg_attributes = CODEC_SNAPPY, msg_key = None, msg_value = Some b\<rparr>"
  have small: "length bs < 200" if "encode_entries ?ms 0 0 = Inr bs" for bs
    using that struct_pack_length_q struct_pack_length_I struct_pack_i
    by (auto simp: rm create_message_def encode_entries_Cons encode_message_eq_Inr struct_pack_qi
        write_int_string_def rbind_eq_Inr struct_unfold pack_code_def split: if_splits)
  have "list_all encodable ?ms" by (simp add: rm create_message_def encodable_def)
  then obtain inner where inner: "encode_entries ?ms 0 0 = Inr inner"
    using encode_entries_total [of ?ms 0 0] by auto
  have "encodable (?w (0 # inner))" using small [OF inner] by (simp add: encodable_def CODEC_SNAPPY_def)
  then obtain bs where bs: "encode_message_set [?w (0 # inner)] None = Inr bs"
    using encode_entries_total [of "[?w (0 # inner)]" 0 0] by (auto simp: encode_message_set_def)
  have c: "create_message_set marking_env sample_requests CODEC_SNAPPY = Inr [?w (0 # inner)]"
    using inner by (simp add: create_message_set_def Let_def create_snappy_message_def snappy_encode_def
        encode_message_set_def marking_env_def CODEC_SNAPPY_def CODEC_NONE_def CODEC_GZIP_def)
  from create_message_set_roundtrip [OF c bs marking_env_laws(3,1,2)] c bs show ?thesis
    by (auto simp: rm)
qed

end
