(* ===== verification/Broker_Log.thy ===== *)
theory Broker_Log
  imports Message_Set
begin

text \<open>
  What a broker stores and sends, as the specification of \<open>KafkaCodec._decode_message_set_iter\<close> in \<open>afkak/kafkacodec.py\<close>: entries with
  arbitrary offsets, each a message or a compressed message that wraps others, of which the last may be cut off. The
  theorem \<open>log_decodes\<close> says what decoding yields for such a message set. \<open>Requests\<close>, \<open>Responses\<close> and \<open>Fetch_Path\<close> build on it.
\<close>

section \<open>Entries\<close>

fun encode_log :: "(int \<times> message) list \<Rightarrow> bytes result" where
  "encode_log [] = Inr []"
| "encode_log ((offset, m) # es) =
     rbind (encode_message m) (\<lambda>e. cat [struct_pack ''>qi'' [offset, int (length e)], Inr e, encode_log es])"

text \<open>An entry: a message with its offset, or a compressed message with the entries that it wraps.\<close>

datatype stored = Single int message | Wrapped int message "(int \<times> message) list"

fun stored_entry :: "stored \<Rightarrow> int \<times> message" where
  "stored_entry (Single off m) = (off, m)"
| "stored_entry (Wrapped off m inner) = (off, m)"

definition as_item :: "int \<times> message \<Rightarrow> offset_and_message" where
  "as_item x = \<lparr>oam_offset = fst x, oam_message = snd x\<rparr>"

fun stored_items :: "stored \<Rightarrow> offset_and_message list" where
  "stored_items (Single off m) = [as_item (off, m)]"
| "stored_items (Wrapped off m inner) = map as_item inner"

definition log_items :: "stored list \<Rightarrow> offset_and_message list" where
  "log_items ss = concat (map stored_items ss)"

lemma log_items_simps [simp]: "log_items [] = []" "log_items (x # ss) = stored_items x @ log_items ss"
  by (simp_all add: log_items_def)

text \<open>Decompressing the value of a message gives these bytes.\<close>

definition unwraps :: "codec_env \<Rightarrow> message \<Rightarrow> bytes \<Rightarrow> bool" where
  "unwraps env m b \<longleftrightarrow>
     (let codec = msg_attributes m AND ATTRIBUTE_CODEC_MASK
      in codec = CODEC_GZIP \<and> gzip_decode env (msg_value m) = Inr b \<or>
         codec = CODEC_SNAPPY \<and> snappy_decode env (msg_value m) = Some (Inr b))"

fun stored_ok :: "codec_env \<Rightarrow> stored \<Rightarrow> bool" where
  "stored_ok env (Single off m) = plain m"
| "stored_ok env (Wrapped off m inner) =
     (list_all (plain \<circ> snd) inner \<and> (case encode_log inner of Inl e \<Rightarrow> False | Inr b \<Rightarrow> unwraps env m b))"

text \<open>The part of an entry before the cut; none, when the set was not cut.\<close>

definition cut_entry :: "bytes \<Rightarrow> bool" where
  "cut_entry rest \<longleftrightarrow> rest = [] \<or> (\<exists>off m e k. encode_log [(off, m)] = Inr e \<and> 0 < k \<and> k < length e \<and> rest = take k e)"

section \<open>Decoding\<close>

lemma encode_log_Cons:
  "encode_log ((off, m) # es) = Inr bs \<longleftrightarrow>
     (\<exists>e h bs'. encode_message m = Inr e \<and> struct_pack ''>qi'' [off, int (length e)] = Inr h \<and>
        encode_log es = Inr bs' \<and> bs = h @ e @ bs')"
  by (auto simp: rbind_eq_Inr)

text \<open>What the decoder makes of one stored entry.\<close>

definition decodes_to :: "codec_env \<Rightarrow> stored \<Rightarrow> bool" where
  "decodes_to env x \<longleftrightarrow>
     (case x of
        Single off m \<Rightarrow> plain m
      | Wrapped off m inner \<Rightarrow> \<exists>b. unwraps env m b \<and> decode_message_set_from env b 0 False = Some (map as_item inner, Inr ()))"

lemma decode_stored:
  assumes "read_entry data cur = Inr (off, m, cur')" "cur < int (length data)" "stored_entry x = (off, m)" "decodes_to env x"
  shows "decode_message_set_from env data cur rm =
    Option.bind (decode_message_set_from env data cur' (rm \<or> stored_items x \<noteq> []))
      (\<lambda>(rest, r). Some (stored_items x @ rest, r))"
proof (cases x)
  case (Single off' m')
  then show ?thesis using decode_step_plain [OF assms(1) _ assms(2)] assms(3,4) by (simp add: decodes_to_def as_item_def)
next
  case (Wrapped off' m' inner)
  with assms(3,4) obtain b where "unwraps env m b" "decode_message_set_from env b 0 False = Some (map as_item inner, Inr ())"
    by (auto simp: decodes_to_def)
  with assms(1,2) Wrapped show ?thesis
    by (subst decode_message_set_from.simps)
      (auto simp: unwraps_def Let_def CODEC_NONE_def CODEC_GZIP_def CODEC_SNAPPY_def case_prod_unfold)
qed

lemma decode_log_from:
  "encode_log (map stored_entry ss) = Inr bs \<Longrightarrow> list_all (decodes_to env) ss \<Longrightarrow> suffix_at data cur (bs @ rest) \<Longrightarrow>
   decode_message_set_from env data cur rm =
     Option.bind (decode_message_set_from env data (cur + int (length bs)) (rm \<or> log_items ss \<noteq> []))
       (\<lambda>(items, r). Some (log_items ss @ items, r))"
proof (induction ss arbitrary: bs cur rm)
  case Nil
  then show ?case by (cases "decode_message_set_from env data cur rm") auto
next
  case (Cons x ss)
  obtain off m where x: "stored_entry x = (off, m)" by force
  from Cons.prems(1) x obtain e h bs' where e: "encode_message m = Inr e"
    and h: "struct_pack ''>qi'' [off, int (length e)] = Inr h"
    and bs': "encode_log (map stored_entry ss) = Inr bs'" and bs: "bs = h @ e @ bs'"
    by (auto simp: encode_log_Cons simp del: encode_log.simps)
  from Cons.prems(3) have s: "suffix_at data cur (h @ (e @ (bs' @ rest)))" by (simp add: bs)
  have lt: "cur < int (length data)"
    using suffix_at_length [OF s] e struct_pack_length_I by (fastforce simp: encode_message_eq_Inr)
  let ?cur = "cur + int (length h) + int (length e)" and ?rm = "rm \<or> stored_items x \<noteq> []"
  have s2: "suffix_at data ?cur (bs' @ rest)" by (rule suffix_at_advance [OF suffix_at_advance [OF s]])
  have "decodes_to env x" "list_all (decodes_to env) ss" using Cons.prems(2) by simp_all
  with decode_stored [OF read_entry_at [OF e h s] lt x, of env rm] Cons.IH [OF bs' _ s2, of ?rm] show ?case
    by (cases "decode_message_set_from env data (?cur + int (length bs')) (?rm \<or> log_items ss \<noteq> [])")
      (auto simp: bs add.assoc case_prod_unfold)
qed

lemma decode_plain_log:
  assumes "encode_log es = Inr bs" "list_all (plain \<circ> snd) es"
  shows "decode_message_set_from env bs 0 False = Some (map as_item es, Inr ())"
proof -
  let ?ss = "map (\<lambda>(off, m). Single off m) es"
  have "map stored_entry ?ss = es" "log_items ?ss = map as_item es" by (induction es) auto
  moreover have "list_all (decodes_to env) ?ss" using assms(2) by (induction es) (auto simp: decodes_to_def)
  moreover have s: "suffix_at bs 0 (bs @ [])" by simp
  ultimately show ?thesis using decode_log_from [of ?ss bs env bs 0 "[]" False] suffix_at_advance [OF s] assms(1)
    by (simp add: decode_at_end)
qed

lemma stored_decodes: "stored_ok env x \<Longrightarrow> decodes_to env x"
  by (cases x) (auto simp: decodes_to_def split: sum.splits dest: decode_plain_log)

text \<open>
  Decoding a stored message set yields the messages that it holds, those in compressed entries in the place of the entry, with
  the offsets that the broker gave them. A cut entry at the end yields nothing; when no message comes before it,
  \<open>ConsumerFetchSizeTooSmall\<close> is raised, and otherwise the iteration ends normally.
\<close>

theorem log_decodes:
  assumes "encode_log (map stored_entry ss) = Inr bs" "list_all (stored_ok env) ss" "cut_entry rest"
  shows "decode_message_set_iter env (bs @ rest) =
    Some (log_items ss, if rest \<noteq> [] \<and> log_items ss = [] then Inl ConsumerFetchSizeTooSmall else Inr ())"
proof -
  have ok: "list_all (decodes_to env) ss" using assms(2) by (simp add: list_all_iff stored_decodes)
  have s: "suffix_at (bs @ rest) 0 (bs @ rest)" by simp
  note s1 = suffix_at_advance [OF s]
  have "decode_message_set_from env (bs @ rest) (int (length bs)) rm =
      Some ([], if rest \<noteq> [] \<and> \<not> rm then Inl ConsumerFetchSizeTooSmall else Inr ())" for rm
  proof (cases "rest = []")
    case True
    then show ?thesis using s1 by (simp add: decode_at_end)
  next
    case False
    with assms(3) obtain off m e k where k: "encode_log [(off, m)] = Inr e" "0 < k" "k < length e" "rest = take k e"
      by (auto simp: cut_entry_def)
    then obtain x h where x: "encode_message m = Inr x" "struct_pack ''>qi'' [off, int (length x)] = Inr h" "e = h @ x"
      by (auto simp: rbind_eq_Inr)
    have "suffix_at (bs @ rest) (0 + int (length bs)) (take k (h @ x))" using s1 k(4) x(3) by simp
    from decode_truncated [OF x(1,2) this k(2)] k(3) x(3) False show ?thesis by simp
  qed
  then show ?thesis
    using decode_log_from [OF assms(1) ok s, of False] by (simp add: decode_message_set_iter_def)
qed

section \<open>Message sets of the encoder\<close>

text \<open>What \<open>_encode_message_set\<close> writes without an offset is a log whose offsets are 0.\<close>

lemma encode_entries_log: "encode_entries ms off 0 = encode_log (map (\<lambda>m. (off, m)) ms)"
  by (induction ms) simp_all

lemma encoded_set_decodes:
  assumes "encode_message_set (map (snd \<circ> stored_entry) ss) None = Inr bs" "list_all (stored_ok env) ss"
    and "list_all (\<lambda>x. fst (stored_entry x) = 0) ss"
  shows "decode_message_set_iter env bs = Some (log_items ss, Inr ())"
proof -
  have "map (\<lambda>m. (0, m)) (map (snd \<circ> stored_entry) ss) = map stored_entry ss"
    using assms(3) by (induction ss) (auto simp: prod_eq_iff)
  then have "encode_log (map stored_entry ss) = Inr bs" using assms(1) by (simp only: encode_message_set_def encode_entries_log option.case)
  from log_decodes [OF this assms(2), of "[]"] show ?thesis by (simp add: cut_entry_def)
qed

section \<open>Examples\<close>

text \<open>When encoding a log succeeds, and how long it is.\<close>

definition message_size :: "message \<Rightarrow> nat" where
  "message_size m = (case msg_key m of None \<Rightarrow> 0 | Some k \<Rightarrow> length k) + (case msg_value m of None \<Rightarrow> 0 | Some v \<Rightarrow> length v)"

lemma encode_message_length:
  assumes "encode_message m = Inr e"
  shows "length e = 14 + message_size m"
proof -
  from assms obtain c bb k v where bb: "struct_pack ''>BB'' [0, msg_attributes m] = Inr bb"
    and k: "write_int_string (msg_key m) = Inr k" and v: "write_int_string (msg_value m) = Inr v"
    and c: "struct_pack ''>I'' [crc32 (bb @ k @ v)] = Inr c" and e: "e = c @ bb @ k @ v"
    by (auto simp: encode_message_eq_Inr)
  have w: "length b = 4 + (case x of None \<Rightarrow> 0 | Some y \<Rightarrow> length y)" if "write_int_string x = Inr b" for x b
    using that struct_pack_i by (auto simp: write_int_string_def rbind_eq_Inr split: option.splits)
  have "length bb = 2" using struct_pack_size [OF bb] by (simp add: calcsize_def parse_fmt_def struct_code_def codes_size_def)
  then show ?thesis using w [OF k] w [OF v] struct_pack_length_I [OF c] by (simp add: e message_size_def)
qed

lemma encode_log_total:
  "list_all (\<lambda>(off, m). encodable m \<and> 0 \<le> off \<and> off < 2 ^ 62) es \<Longrightarrow>
   \<exists>bs. encode_log es = Inr bs \<and> length bs = sum_list (map (\<lambda>(off, m). 26 + message_size m) es)"
proof (induction es)
  case (Cons x es)
  obtain off m where x: "x = (off, m)" by force
  from Cons.prems x obtain e where e: "encode_message m = Inr e" "length e < 2 ^ 31"
    using encode_message_total by auto
  then obtain h where h: "struct_pack ''>qi'' [off, int (length e)] = Inr h"
    using Cons.prems by (auto simp: x struct_unfold pack_code_def code_fits_def)
  then have "length h = 12" using struct_pack_length_q struct_pack_i by (fastforce simp: struct_pack_qi)
  with Cons e h show ?case by (auto simp: x encode_message_length)
qed simp

text \<open>A plain message, and a compressed one that wraps two.\<close>

definition sample_packed :: "(int \<times> message) list \<Rightarrow> message" where
  "sample_packed es =
     \<lparr>msg_magic = 0, msg_attributes = CODEC_GZIP, msg_key = None,
       msg_value = Some (gzip_encode marking_env (case encode_log es of Inl _ \<Rightarrow> [] | Inr b \<Rightarrow> b))\<rparr>"

definition sample_stored :: "int \<Rightarrow> int \<Rightarrow> int \<Rightarrow> stored list" where
  "sample_stored a b c =
     [Single a (create_message (Some [7]) None),
      Wrapped c (sample_packed (zip [b, c] sample_messages)) (zip [b, c] sample_messages)]"

lemma sample_stored_ok:
  assumes "0 \<le> a" "a < 2 ^ 62" "0 \<le> b" "b < 2 ^ 62" "0 \<le> c" "c < 2 ^ 62"
  shows "list_all (stored_ok marking_env) (sample_stored a b c)"
    and "\<exists>bs. encode_log (map stored_entry (sample_stored a b c)) = Inr bs \<and> length bs < 200"
proof -
  let ?es = "zip [b, c] sample_messages"
  have "list_all (\<lambda>(off, m). encodable m \<and> 0 \<le> off \<and> off < 2 ^ 62) ?es"
    using assms(3-6) sample_messages_ok(2) by (simp add: sample_messages_def)
  from encode_log_total [OF this] obtain bs where bs: "encode_log ?es = Inr bs" "length bs < 60"
    by (auto simp: sample_messages_def message_size_def create_message_def)
  have p: "sample_packed ?es = \<lparr>msg_magic = 0, msg_attributes = CODEC_GZIP, msg_key = None, msg_value = Some (1 # bs)\<rparr>"
    by (simp add: sample_packed_def bs(1) gzip_encode_def marking_env_def)
  have "list_all (plain \<circ> snd) ?es" using sample_messages_ok(1) by (simp add: sample_messages_def)
  then show "list_all (stored_ok marking_env) (sample_stored a b c)"
    by (simp add: sample_stored_def p bs(1) unwraps_def gzip_decode_def marking_env_def plain_def create_message_def
        ATTRIBUTE_CODEC_MASK_def CODEC_GZIP_def CODEC_NONE_def)
  have "list_all (\<lambda>(off, m). encodable m \<and> 0 \<le> off \<and> off < 2 ^ 62) (map stored_entry (sample_stored a b c))"
    using assms bs(2) by (simp add: sample_stored_def p encodable_def create_message_def CODEC_GZIP_def)
  from encode_log_total [OF this] bs(2)
  show "\<exists>bs. encode_log (map stored_entry (sample_stored a b c)) = Inr bs \<and> length bs < 200"
    by (auto simp: sample_stored_def p message_size_def create_message_def)
qed

lemma sample_stored_items:
  "log_items (sample_stored a b c) =
     [as_item (a, create_message (Some [7]) None), as_item (b, create_message (Some [104, 105]) None),
      as_item (c, create_message None (Some [1]))]"
  by (simp add: sample_stored_def sample_messages_def)

end
