(* ===== verification/Requests.thy ===== *)
theory Requests
  imports Broker_Log
begin

text \<open>
  Request encoding in \<open>afkak/kafkacodec.py\<close>: the API keys, the request header, the printed form
  of a request, and every \<open>encode_*_request\<close> method; the request tuples of \<open>afkak/common.py\<close>
  are records with prefixed field names.

  The four encoders that send payloads for partitions share one loop over the payloads grouped by
  topic and partition, \<open>encode_topics\<close>. The specification side is a request reader in the
  broker's position: \<open>parse_header\<close> for the envelope, and the locale \<open>topic_array\<close>, which
  states once that the grouped array is read back and is used here for requests and in
  \<open>Responses\<close> for replies.
\<close>

section \<open>API keys\<close>

definition PRODUCE_KEY :: int where "PRODUCE_KEY = 0"
definition FETCH_KEY :: int where "FETCH_KEY = 1"
definition OFFSET_KEY :: int where "OFFSET_KEY = 2"
definition METADATA_KEY :: int where "METADATA_KEY = 3"
definition OFFSET_COMMIT_KEY :: int where "OFFSET_COMMIT_KEY = 8"
definition OFFSET_FETCH_KEY :: int where "OFFSET_FETCH_KEY = 9"
definition CONSUMER_METADATA_KEY :: int where "CONSUMER_METADATA_KEY = 10"
definition FIND_COORDINATOR_KEY :: int where "FIND_COORDINATOR_KEY = 10"
definition JOIN_GROUP_KEY :: int where "JOIN_GROUP_KEY = 11"
definition HEARTBEAT_KEY :: int where "HEARTBEAT_KEY = 12"
definition LEAVE_GROUP_KEY :: int where "LEAVE_GROUP_KEY = 13"
definition SYNC_GROUP_KEY :: int where "SYNC_GROUP_KEY = 14"
definition DESCRIBE_GROUP_KEY :: int where "DESCRIBE_GROUP_KEY = 15"
definition LIST_GROUPS_KEY :: int where "LIST_GROUPS_KEY = 16"
definition SASL_HANDSHAKE_KEY :: int where "SASL_HANDSHAKE_KEY = 17"
definition API_VERSIONS_KEY :: int where "API_VERSIONS_KEY = 18"
definition CREATE_TOPICS_KEY :: int where "CREATE_TOPICS_KEY = 19"
definition DELETE_TOPICS_KEY :: int where "DELETE_TOPICS_KEY = 20"

lemmas key_defs = PRODUCE_KEY_def FETCH_KEY_def OFFSET_KEY_def METADATA_KEY_def
  OFFSET_COMMIT_KEY_def OFFSET_FETCH_KEY_def CONSUMER_METADATA_KEY_def FIND_COORDINATOR_KEY_def
  JOIN_GROUP_KEY_def HEARTBEAT_KEY_def LEAVE_GROUP_KEY_def SYNC_GROUP_KEY_def
  DESCRIBE_GROUP_KEY_def LIST_GROUPS_KEY_def SASL_HANDSHAKE_KEY_def API_VERSIONS_KEY_def
  CREATE_TOPICS_KEY_def DELETE_TOPICS_KEY_def

definition key_to_name :: "(int, string) dict" where
  "key_to_name =
    [(PRODUCE_KEY, ''Produce''), (FETCH_KEY, ''Fetch''), (OFFSET_KEY, ''ListOffsets''),
     (METADATA_KEY, ''Metadata''), (OFFSET_COMMIT_KEY, ''OffsetCommit''),
     (OFFSET_FETCH_KEY, ''OffsetFetch''), (FIND_COORDINATOR_KEY, ''FindCoordinator''),
     (JOIN_GROUP_KEY, ''JoinGroup''), (HEARTBEAT_KEY, ''Heartbeat''),
     (LEAVE_GROUP_KEY, ''LeaveGroup''), (SYNC_GROUP_KEY, ''SyncGroup''),
     (DESCRIBE_GROUP_KEY, ''DescribeGroup''), (LIST_GROUPS_KEY, ''ListGroups''),
     (SASL_HANDSHAKE_KEY, ''SaslHandshake''), (API_VERSIONS_KEY, ''ApiVersions''),
     (CREATE_TOPICS_KEY, ''CreateTopics''), (DELETE_TOPICS_KEY, ''DeleteTopics'')]"

definition key_name :: "int \<Rightarrow> string result" where
  "key_name key = (case dict_get key_to_name key of None \<Rightarrow> Inl KeyError | Some n \<Rightarrow> Inr n)"

section \<open>The printed form of a request\<close>

definition hex_digit :: "nat \<Rightarrow> char" where
  "hex_digit n = ''0123456789abcdef'' ! n"

definition hexlify :: "bytes \<Rightarrow> string" where
  "hexlify bs = concat (map (\<lambda>b. [hex_digit (unat b div 16), hex_digit (unat b mod 16)]) bs)"

text \<open>The format \<open>{:,d}\<close>: digits in groups of three.\<close>

fun show_commas :: "nat \<Rightarrow> string" where
  "show_commas n =
     (if n < 1000 then show_nat n
      else show_commas (n div 1000) @ '','' @
             (let r = show_nat (n mod 1000) in replicate (3 - length r) (CHR ''0'') @ r))"

declare show_commas.simps [simp del]

definition repr_request :: "bytes \<Rightarrow> string" where
  "repr_request request =
     (if length request < 8 then ''invalid request ('' @ hexlify request @ '')''
      else (case unpack_codes [(True, 2), (True, 2), (True, 4)] (take 8 request) of
              [key, version, correlation_id] \<Rightarrow>
                (case key_name key of
                   Inl _ \<Rightarrow> ''request key='' @ show_int key @ ''v'' @ show_int version
                     @ '' correlationId='' @ show_int correlation_id
                     @ '' ('' @ show_commas (length request) @ '' bytes)''
                 | Inr name \<Rightarrow> name @ ''Request'' @ show_int version
                     @ '' correlationId='' @ show_int correlation_id
                     @ '' ('' @ show_commas (length request) @ '' bytes)'')
            | _ \<Rightarrow> ''''))"

section \<open>Request tuples\<close>

record produce_request =
  prq_topic :: pystr
  prq_partition :: int
  prq_messages :: "message list"

record fetch_request =
  frq_topic :: pystr
  frq_partition :: int
  frq_offset :: int
  frq_max_bytes :: int

record offset_request =
  orq_topic :: pystr
  orq_partition :: int
  orq_time :: int
  orq_max_offsets :: int

record offset_commit_request =
  ocq_topic :: pystr
  ocq_partition :: int
  ocq_offset :: int
  ocq_timestamp :: int
  ocq_metadata :: pyobj

record offset_fetch_request =
  ofq_topic :: pystr
  ofq_partition :: int

record join_group_request_protocol =
  jgp_protocol_name :: pystr
  jgp_protocol_metadata :: "bytes option"

record join_group_request =
  jgq_group :: pystr
  jgq_session_timeout :: int
  jgq_member_id :: pystr
  jgq_protocol_type :: pystr
  jgq_group_protocols :: "join_group_request_protocol list"

record leave_group_request =
  lgq_group :: pystr
  lgq_member_id :: pystr

record heartbeat_request =
  hbq_group :: pystr
  hbq_generation_id :: int
  hbq_member_id :: pystr

record sync_group_request_member =
  sgm_member_id :: pystr
  sgm_member_metadata :: "bytes option"

record sync_group_request =
  sgq_group :: pystr
  sgq_generation_id :: int
  sgq_member_id :: pystr
  sgq_group_assignment :: "sync_group_request_member list"

section \<open>Encoders\<close>

definition encode_message_header :: "bytes \<Rightarrow> int \<Rightarrow> int \<Rightarrow> int \<Rightarrow> bytes result" where
  "encode_message_header client_id correlation_id request_key api_version =
     cat [struct_pack ''>hhih'' [request_key, api_version, correlation_id, int (length client_id)],
          Inr client_id]"

text \<open>The loop over topics, and over the partitions of a topic, around one item encoder.\<close>

definition encode_topic ::
    "(int \<times> 'p \<Rightarrow> bytes result) \<Rightarrow> pystr \<times> (int, 'p) dict \<Rightarrow> bytes result" where
  "encode_topic item tp =
     (case tp of (topic, topic_payloads) \<Rightarrow>
        cat (write_short_ascii (PyStr topic) #
             struct_pack ''>i'' [int (length topic_payloads)] # map item topic_payloads))"

definition encode_topics ::
    "(int \<times> 'p \<Rightarrow> bytes result) \<Rightarrow> (pystr, (int, 'p) dict) dict \<Rightarrow> bytes result" where
  "encode_topics item grouped_payloads = cat (map (encode_topic item) grouped_payloads)"

definition encode_produce_item :: "int \<times> produce_request \<Rightarrow> bytes result" where
  "encode_produce_item pp =
     (case pp of (part, payload) \<Rightarrow>
        rbind (encode_message_set (prq_messages payload) None) (\<lambda>msg_set.
          cat [struct_pack ''>ii'' [part, int (length msg_set)], Inr msg_set]))"

definition encode_produce_request ::
    "pyobj \<Rightarrow> int \<Rightarrow> produce_request list \<Rightarrow> int \<Rightarrow> int \<Rightarrow> bytes result" where
  "encode_produce_request client_id correlation_id payloads acks timeout =
     (case client_id of
        PyBytes cid \<Rightarrow>
          (let grouped_payloads = group_by_topic_and_partition prq_topic prq_partition payloads
           in cat [encode_message_header cid correlation_id PRODUCE_KEY 0,
                   struct_pack ''>hii'' [acks, timeout, int (length grouped_payloads)],
                   encode_topics encode_produce_item grouped_payloads])
      | _ \<Rightarrow> Inl TypeError)"

definition encode_fetch_item :: "int \<times> fetch_request \<Rightarrow> bytes result" where
  "encode_fetch_item pp =
     (case pp of (part, payload) \<Rightarrow>
        struct_pack ''>iqi'' [part, frq_offset payload, frq_max_bytes payload])"

definition encode_fetch_request ::
    "bytes \<Rightarrow> int \<Rightarrow> fetch_request list \<Rightarrow> int \<Rightarrow> int \<Rightarrow> bytes result" where
  "encode_fetch_request client_id correlation_id payloads max_wait_time min_bytes =
     (let grouped_payloads = group_by_topic_and_partition frq_topic frq_partition payloads
      in cat [encode_message_header client_id correlation_id FETCH_KEY 0,
              struct_pack ''>iiii'' [- 1, max_wait_time, min_bytes, int (length grouped_payloads)],
              encode_topics encode_fetch_item grouped_payloads])"

definition encode_offset_item :: "int \<times> offset_request \<Rightarrow> bytes result" where
  "encode_offset_item pp =
     (case pp of (part, payload) \<Rightarrow>
        struct_pack ''>iqi'' [part, orq_time payload, orq_max_offsets payload])"

definition encode_offset_request :: "bytes \<Rightarrow> int \<Rightarrow> offset_request list \<Rightarrow> bytes result" where
  "encode_offset_request client_id correlation_id payloads =
     (let grouped_payloads = group_by_topic_and_partition orq_topic orq_partition payloads
      in cat [encode_message_header client_id correlation_id OFFSET_KEY 0,
              struct_pack ''>ii'' [- 1, int (length grouped_payloads)],
              encode_topics encode_offset_item grouped_payloads])"

definition encode_metadata_request :: "bytes \<Rightarrow> int \<Rightarrow> pystr list \<Rightarrow> bytes result" where
  "encode_metadata_request client_id correlation_id topics =
     cat (encode_message_header client_id correlation_id METADATA_KEY 0 #
          struct_pack ''>i'' [int (length topics)] #
          map (\<lambda>topic. write_short_ascii (PyStr topic)) topics)"

definition encode_consumermetadata_request :: "bytes \<Rightarrow> int \<Rightarrow> pystr \<Rightarrow> bytes result" where
  "encode_consumermetadata_request client_id correlation_id consumer_group =
     cat [encode_message_header client_id correlation_id CONSUMER_METADATA_KEY 0,
          write_short_ascii (PyStr consumer_group)]"

definition encode_offset_commit_item :: "int \<times> offset_commit_request \<Rightarrow> bytes result" where
  "encode_offset_commit_item pp =
     (case pp of (part, payload) \<Rightarrow>
        cat [struct_pack ''>iqq'' [part, ocq_offset payload, ocq_timestamp payload],
             write_short_bytes (ocq_metadata payload)])"

definition encode_offset_commit_request ::
    "bytes \<Rightarrow> int \<Rightarrow> pystr \<Rightarrow> int \<Rightarrow> pyobj \<Rightarrow> offset_commit_request list \<Rightarrow> bytes result" where
  "encode_offset_commit_request client_id correlation_id grp group_generation_id consumer_id payloads =
     (if consumer_id = PyNone then Inl AssertionError
      else let grouped_payloads = group_by_topic_and_partition ocq_topic ocq_partition payloads
           in cat [encode_message_header client_id correlation_id OFFSET_COMMIT_KEY 1,
                   write_short_ascii (PyStr grp),
                   struct_pack ''>i'' [group_generation_id],
                   write_short_ascii consumer_id,
                   struct_pack ''>i'' [int (length grouped_payloads)],
                   encode_topics encode_offset_commit_item grouped_payloads])"

definition encode_offset_fetch_item :: "int \<times> offset_fetch_request \<Rightarrow> bytes result" where
  "encode_offset_fetch_item pp = struct_pack ''>i'' [fst pp]"

definition encode_offset_fetch_request ::
    "bytes \<Rightarrow> int \<Rightarrow> pystr \<Rightarrow> offset_fetch_request list \<Rightarrow> bytes result" where
  "encode_offset_fetch_request client_id correlation_id grp payloads =
     (let grouped_payloads = group_by_topic_and_partition ofq_topic ofq_partition payloads
      in cat [encode_message_header client_id correlation_id OFFSET_FETCH_KEY 1,
              write_short_ascii (PyStr grp),
              struct_pack ''>i'' [int (length grouped_payloads)],
              encode_topics encode_offset_fetch_item grouped_payloads])"

definition encode_join_group_request :: "bytes \<Rightarrow> int \<Rightarrow> join_group_request \<Rightarrow> bytes result" where
  "encode_join_group_request client_id correlation_id payload =
     cat ([encode_message_header client_id correlation_id JOIN_GROUP_KEY 0,
           write_short_text (PyStr (jgq_group payload)),
           struct_pack ''>i'' [jgq_session_timeout payload],
           write_short_text (PyStr (jgq_member_id payload)),
           write_short_text (PyStr (jgq_protocol_type payload)),
           struct_pack ''>i'' [int (length (jgq_group_protocols payload))]] @
          map (\<lambda>p. cat [write_short_ascii (PyStr (jgp_protocol_name p)),
                        write_int_string (jgp_protocol_metadata p)])
            (jgq_group_protocols payload))"

definition encode_join_group_protocol_metadata ::
    "int \<Rightarrow> pystr list \<Rightarrow> bytes option \<Rightarrow> bytes result" where
  "encode_join_group_protocol_metadata version subscriptions user_data =
     cat [struct_pack ''>hi'' [version, int (length subscriptions)],
          cat (map (\<lambda>s. write_short_text (PyStr s)) subscriptions),
          write_int_string user_data]"

definition encode_leave_group_request :: "bytes \<Rightarrow> int \<Rightarrow> leave_group_request \<Rightarrow> bytes result" where
  "encode_leave_group_request client_id correlation_id payload =
     cat [encode_message_header client_id correlation_id LEAVE_GROUP_KEY 0,
          write_short_text (PyStr (lgq_group payload)),
          write_short_text (PyStr (lgq_member_id payload))]"

definition encode_heartbeat_request :: "bytes \<Rightarrow> int \<Rightarrow> heartbeat_request \<Rightarrow> bytes result" where
  "encode_heartbeat_request client_id correlation_id payload =
     cat [encode_message_header client_id correlation_id HEARTBEAT_KEY 0,
          write_short_text (PyStr (hbq_group payload)),
          struct_pack ''>i'' [hbq_generation_id payload],
          write_short_text (PyStr (hbq_member_id payload))]"

definition encode_sync_group_request :: "bytes \<Rightarrow> int \<Rightarrow> sync_group_request \<Rightarrow> bytes result" where
  "encode_sync_group_request client_id correlation_id payload =
     cat ([encode_message_header client_id correlation_id SYNC_GROUP_KEY 0,
           write_short_text (PyStr (sgq_group payload)),
           struct_pack ''>i'' [sgq_generation_id payload],
           write_short_text (PyStr (sgq_member_id payload)),
           struct_pack ''>i'' [int (length (sgq_group_assignment payload))]] @
          map (\<lambda>a. cat [write_short_text (PyStr (sgm_member_id a)),
                        write_int_string (sgm_member_metadata a)])
            (sgq_group_assignment payload))"

definition encode_partition_list :: "pystr \<times> int list \<Rightarrow> bytes result" where
  "encode_partition_list tp =
     (case tp of (topic, partitions) \<Rightarrow>
        cat [write_short_ascii (PyStr topic),
             struct_pack (''>i'' @ replicate (length partitions) (CHR ''i''))
               (int (length partitions) # partitions)])"

definition encode_sync_group_member_assignment ::
    "int \<Rightarrow> (pystr, int list) dict \<Rightarrow> bytes option \<Rightarrow> bytes result" where
  "encode_sync_group_member_assignment version assignments user_data =
     cat [struct_pack ''>h'' [version],
          struct_pack ''>i'' [int (length assignments)],
          cat (map encode_partition_list assignments),
          write_int_string user_data]"

section \<open>The request envelope\<close>

text \<open>How a broker reads the envelope: key, version, correlation id, client id.\<close>

definition parse_header :: "bytes \<Rightarrow> ((int \<times> int \<times> int) \<times> bytes option \<times> int) result" where
  "parse_header req =
     rbind (relative_unpack3 ''>hhi'' req 0) (\<lambda>(ids, cur).
       rbind (read_short_bytes req cur) (\<lambda>(client_id, cur). Inr (ids, client_id, cur)))"

lemma struct_pack_hhih:
  "struct_pack ''>hhih'' [a, b, c, d] = Inr bs \<longleftrightarrow>
     (\<exists>x y. struct_pack ''>hhi'' [a, b, c] = Inr x \<and> struct_pack ''>h'' [d] = Inr y \<and> bs = x @ y)"
  by (auto simp: struct_unfold)

lemma struct_pack_hhi:
  "struct_pack ''>hhi'' [a, b, c] = Inr bs \<longleftrightarrow>
     (\<exists>x y. struct_pack ''>hh'' [a, b] = Inr x \<and> struct_pack ''>i'' [c] = Inr y \<and> bs = x @ y)"
  by (auto simp: struct_unfold)

lemma struct_pack_hh: "struct_pack ''>hh'' [a, b] = Inr bs \<Longrightarrow> length bs = 4"
  using struct_pack_size by (fastforce simp: calcsize_def parse_fmt_def struct_code_def codes_size_def)

lemma encode_message_header_eq_Inr:
  "encode_message_header client_id correlation_id key version = Inr bs \<longleftrightarrow>
     (\<exists>x y. struct_pack ''>hhi'' [key, version, correlation_id] = Inr x \<and>
            write_short_bytes (PyBytes client_id) = Inr y \<and> bs = x @ y)"
  by (auto simp: encode_message_header_def write_short_bytes_def struct_pack_hhih rbind_eq_Inr
      struct_unfold pack_code_def code_fits_def split: if_splits)

lemma parse_header_at:
  assumes "encode_message_header client_id correlation_id key version = Inr h"
  shows "parse_header (h @ body) = Inr ((key, version, correlation_id), Some client_id, int (length h))"
proof -
  from assms obtain x y where x: "struct_pack ''>hhi'' [key, version, correlation_id] = Inr x"
    and y: "write_short_bytes (opt_bytes (Some client_id)) = Inr y" and h: "h = x @ y"
    by (auto simp: encode_message_header_eq_Inr opt_bytes_def)
  have s: "suffix_at (h @ body) 0 (x @ (y @ body))" by (simp add: h)
  show ?thesis
    using relative_unpack3_at [OF x s] short_bytes_fmt.dec_enc [OF y suffix_at_advance [OF s]]
    by (simp add: parse_header_def h)
qed

text \<open>The bytes that \<open>KafkaBootstrapProtocol.request\<close> takes for the correlation id.\<close>

lemma header_correlation_slice:
  assumes "encode_message_header client_id correlation_id key version = Inr h"
  shows "struct_pack ''>i'' [correlation_id] = Inr (py_slice (h @ body) 4 8)"
proof -
  from assms obtain x y z where x: "struct_pack ''>hh'' [key, version] = Inr x"
    and y: "struct_pack ''>i'' [correlation_id] = Inr y" and h: "h = x @ y @ z"
    by (auto simp: encode_message_header_eq_Inr struct_pack_hhi)
  have s: "suffix_at (h @ body) 0 (x @ (y @ (z @ body)))" by (simp add: h)
  from suffix_at_slice [OF suffix_at_advance [OF s]] have "py_slice (h @ body) 4 8 = y"
    by (simp add: struct_pack_hh [OF x] struct_pack_i [OF y])
  with y show ?thesis by simp
qed

section \<open>Arrays grouped by topic\<close>

definition read_topic ::
    "(bytes \<Rightarrow> int \<Rightarrow> ('v \<times> int) result) \<Rightarrow> bytes \<Rightarrow> int \<Rightarrow> ((pystr \<times> 'v list) \<times> int) result" where
  "read_topic rd data cur =
     rbind (read_short_ascii data cur) (\<lambda>(topic, cur).
       rbind (relative_unpack1 ''>i'' data cur) (\<lambda>(n, cur).
         rbind (read_n (nat n) (rd data) cur) (\<lambda>(vs, cur). Inr ((topic, vs), cur))))"

text \<open>
  The contract of one entry of such an array: reading in front of an encoded entry gives
  \<open>view\<close> of it. The arrays of entries, per topic and over all topics, are then read back too.
\<close>

locale topic_array = wire_view item rd view
  for item :: "int \<times> 'p \<Rightarrow> bytes result"
    and rd :: "bytes \<Rightarrow> int \<Rightarrow> ('v \<times> int) result"
    and view :: "int \<times> 'p \<Rightarrow> 'v"
begin

lemma encode_topic_parts:
  assumes "encode_topic item (t, ps) = Inr bs" "suffix_at data cur (bs @ rest)"
  obtains cur1 cur2 where "read_short_ascii data cur = Inr (t, cur1)"
    "relative_unpack1 ''>i'' data cur1 = Inr (int (length ps), cur2)"
    "read_n (length ps) (rd data) cur2 = Inr (map view ps, cur + int (length bs))"
proof -
  from assms(1) obtain a n i where a: "write_short_ascii (PyStr t) = Inr a"
    and n: "struct_pack ''>i'' [int (length ps)] = Inr n" and i: "cat (map item ps) = Inr i"
    and bs: "bs = a @ n @ i"
    by (auto simp: encode_topic_def rbind_eq_Inr)
  from assms(2) have s: "suffix_at data cur (a @ (n @ (i @ rest)))" by (simp add: bs)
  note s1 = suffix_at_advance [OF s] and s2 = suffix_at_advance [OF suffix_at_advance [OF s]]
  show thesis
    using that [OF short_ascii_fmt.dec_enc [OF a s] relative_unpack1_at [OF n s1]]
      dec_view_seq [OF i s2] by (simp add: bs add.assoc)
qed

lemma read_topic_at:
  assumes "encode_topic item tp = Inr bs" "suffix_at data cur (bs @ rest)"
  shows "read_topic rd data cur = Inr ((fst tp, map view (snd tp)), cur + int (length bs))"
proof -
  obtain t ps where tp: "tp = (t, ps)" by force
  show ?thesis
    by (rule encode_topic_parts [OF assms(1) [unfolded tp] assms(2)]) (simp add: read_topic_def tp)
qed

lemma read_topics_at:
  "encode_topics item g = Inr bs \<Longrightarrow> suffix_at data cur (bs @ rest) \<Longrightarrow>
   read_n (length g) (read_topic rd data) cur =
     Inr (map (\<lambda>(t, ps). (t, map view ps)) g, cur + int (length bs))"
proof (induction g arbitrary: bs cur)
  case Nil
  then show ?case by (simp add: encode_topics_def)
next
  case (Cons tp g)
  from Cons.prems(1) obtain b bs' where b: "encode_topic item tp = Inr b"
    and bs': "encode_topics item g = Inr bs'" and bs: "bs = b @ bs'"
    by (auto simp: encode_topics_def rbind_eq_Inr)
  from Cons.prems(2) bs have s: "suffix_at data cur (b @ (bs' @ rest))" by simp
  from Cons.IH [OF bs' suffix_at_advance [OF s]] read_topic_at [OF b s] show ?case
    by (simp add: bs case_prod_unfold)
qed

end

interpretation fetch_items: topic_array encode_fetch_item
  "relative_unpack3 ''>iqi''" "\<lambda>(p, r). (p, frq_offset r, frq_max_bytes r)"
  by unfold_locales (auto simp: encode_fetch_item_def split: prod.splits intro: relative_unpack3_at)

interpretation offset_items: topic_array encode_offset_item
  "relative_unpack3 ''>iqi''" "\<lambda>(p, r). (p, orq_time r, orq_max_offsets r)"
  by unfold_locales (auto simp: encode_offset_item_def split: prod.splits intro: relative_unpack3_at)

interpretation offset_fetch_items: topic_array encode_offset_fetch_item
  "relative_unpack1 ''>i''" fst
  by unfold_locales (auto simp: encode_offset_fetch_item_def intro: relative_unpack1_at)

definition read_produce_entry :: "bytes \<Rightarrow> int \<Rightarrow> ((int \<times> bytes option) \<times> int) result" where
  "read_produce_entry data cur =
     rbind (relative_unpack1 ''>i'' data cur) (\<lambda>(p, cur).
       rbind (read_int_string data cur) (\<lambda>(m, cur). Inr ((p, m), cur)))"

interpretation produce_items: topic_array encode_produce_item read_produce_entry
  "\<lambda>(p, r). (p, case encode_message_set (prq_messages r) None of Inr m \<Rightarrow> Some m | Inl _ \<Rightarrow> None)"
proof
  fix x bs data cur rest
  assume it: "encode_produce_item x = Inr bs" and s: "suffix_at data cur (bs @ rest)"
  obtain p r where x: "x = (p, r)" by force
  from it obtain m a b where m: "encode_message_set (prq_messages r) None = Inr m"
    and a: "struct_pack ''>i'' [p] = Inr a" and b: "write_int_string (Some m) = Inr (b @ m)"
    and bs: "bs = a @ b @ m"
    by (auto simp: encode_produce_item_def x rbind_eq_Inr write_int_string_def struct_unfold)
  from s have s1: "suffix_at data cur (a @ ((b @ m) @ rest))" by (simp add: bs)
  from relative_unpack1_at [OF a s1] int_string_fmt.dec_enc [OF b suffix_at_advance [OF s1]]
  show "read_produce_entry data cur =
      Inr ((\<lambda>(p, r). (p, case encode_message_set (prq_messages r) None of Inr m \<Rightarrow> Some m | Inl _ \<Rightarrow> None)) x,
        cur + int (length bs))"
    by (simp add: read_produce_entry_def x m bs)
qed

definition read_commit_entry :: "bytes \<Rightarrow> int \<Rightarrow> ((int \<times> int \<times> int \<times> bytes option) \<times> int) result" where
  "read_commit_entry data cur =
     rbind (relative_unpack3 ''>iqq'' data cur) (\<lambda>((p, off, ts), cur).
       rbind (read_short_bytes data cur) (\<lambda>(m, cur). Inr ((p, off, ts, m), cur)))"

interpretation commit_items: topic_array encode_offset_commit_item read_commit_entry
  "\<lambda>(p, r). (p, ocq_offset r, ocq_timestamp r,
              case ocq_metadata r of PyBytes b \<Rightarrow> Some b | _ \<Rightarrow> None)"
proof
  fix x bs data cur rest
  assume it: "encode_offset_commit_item x = Inr bs" and s: "suffix_at data cur (bs @ rest)"
  obtain p r where x: "x = (p, r)" by force
  let ?m = "case ocq_metadata r of PyBytes b \<Rightarrow> Some b | _ \<Rightarrow> None"
  from it obtain a b where a: "struct_pack ''>iqq'' [p, ocq_offset r, ocq_timestamp r] = Inr a"
    and b: "write_short_bytes (ocq_metadata r) = Inr b" and bs: "bs = a @ b"
    by (auto simp: encode_offset_commit_item_def x rbind_eq_Inr)
  have b': "write_short_bytes (opt_bytes ?m) = Inr b"
    using b by (cases "ocq_metadata r") (simp_all add: opt_bytes_def write_short_bytes_def)
  from s have s1: "suffix_at data cur (a @ (b @ rest))" by (simp add: bs)
  from relative_unpack3_at [OF a s1] short_bytes_fmt.dec_enc [OF b' suffix_at_advance [OF s1]]
  show "read_commit_entry data cur =
      Inr ((\<lambda>(p, r). (p, ocq_offset r, ocq_timestamp r, case ocq_metadata r of PyBytes b \<Rightarrow> Some b | _ \<Rightarrow> None)) x,
        cur + int (length bs))"
    by (simp add: read_commit_entry_def x bs)
qed

section \<open>Requests as the broker reads them\<close>

text \<open>All requests the codec can encode, with their key and version.\<close>

datatype kafka_request =
    Produce "produce_request list" int int
  | Fetch "fetch_request list" int int
  | ListOffsets "offset_request list"
  | Metadata "pystr list"
  | FindCoordinator pystr
  | OffsetCommit pystr int pyobj "offset_commit_request list"
  | OffsetFetch pystr "offset_fetch_request list"
  | JoinGroup join_group_request
  | LeaveGroup leave_group_request
  | Heartbeat heartbeat_request
  | SyncGroup sync_group_request

fun encode_request :: "bytes \<Rightarrow> int \<Rightarrow> kafka_request \<Rightarrow> bytes result" where
  "encode_request cid c (Produce ps acks timeout) = encode_produce_request (PyBytes cid) c ps acks timeout"
| "encode_request cid c (Fetch ps w m) = encode_fetch_request cid c ps w m"
| "encode_request cid c (ListOffsets ps) = encode_offset_request cid c ps"
| "encode_request cid c (Metadata ts) = encode_metadata_request cid c ts"
| "encode_request cid c (FindCoordinator g) = encode_consumermetadata_request cid c g"
| "encode_request cid c (OffsetCommit g gen m ps) = encode_offset_commit_request cid c g gen m ps"
| "encode_request cid c (OffsetFetch g ps) = encode_offset_fetch_request cid c g ps"
| "encode_request cid c (JoinGroup p) = encode_join_group_request cid c p"
| "encode_request cid c (LeaveGroup p) = encode_leave_group_request cid c p"
| "encode_request cid c (Heartbeat p) = encode_heartbeat_request cid c p"
| "encode_request cid c (SyncGroup p) = encode_sync_group_request cid c p"

fun request_api :: "kafka_request \<Rightarrow> int \<times> int" where
  "request_api (Produce _ _ _) = (0, 0)"
| "request_api (Fetch _ _ _) = (1, 0)"
| "request_api (ListOffsets _) = (2, 0)"
| "request_api (Metadata _) = (3, 0)"
| "request_api (FindCoordinator _) = (10, 0)"
| "request_api (OffsetCommit _ _ _ _) = (8, 1)"
| "request_api (OffsetFetch _ _) = (9, 1)"
| "request_api (JoinGroup _) = (11, 0)"
| "request_api (LeaveGroup _) = (13, 0)"
| "request_api (Heartbeat _) = (12, 0)"
| "request_api (SyncGroup _) = (14, 0)"

lemmas encoder_defs = encode_produce_request_def encode_fetch_request_def encode_offset_request_def
  encode_metadata_request_def encode_consumermetadata_request_def encode_offset_commit_request_def
  encode_offset_fetch_request_def encode_join_group_request_def encode_leave_group_request_def
  encode_heartbeat_request_def encode_sync_group_request_def

lemma encode_request_header:
  "encode_request cid c r = Inr req \<Longrightarrow>
   \<exists>h body. encode_message_header cid c (fst (request_api r)) (snd (request_api r)) = Inr h \<and> req = h @ body"
  by (cases r) (auto simp: encoder_defs key_defs Let_def rbind_eq_Inr split: if_splits)

text \<open>The equations that evaluate an encoder on a concrete request.\<close>

lemmas wire_eval = encode_message_header_def str_lit_def write_short_text_def write_short_ascii_def
  write_short_bytes_def write_int_string_def utf8_encode_def utf8_char_def ascii_encode_def b8_def
  struct_pack_def parse_fmt_def struct_code_def pack_code_def code_fits_def be_bytes_numeral

text \<open>
  Every request the codec encodes starts with an envelope that a broker reads as the API key
  and version of that request, the caller's correlation id and client id; and bytes 4 to 8, by
  which the bootstrap protocol files the request, are the encoded correlation id.
\<close>

theorem request_envelope:
  assumes "encode_request cid c r = Inr req"
  shows "(\<exists>cur. parse_header req = Inr ((fst (request_api r), snd (request_api r), c), Some cid, cur)) \<and>
         struct_pack ''>i'' [c] = Inr (py_slice req 4 8)"
proof -
  from encode_request_header [OF assms] obtain h body
    where h: "encode_message_header cid c (fst (request_api r)) (snd (request_api r)) = Inr h"
      and req: "req = h @ body" by blast
  show ?thesis using parse_header_at [OF h] header_correlation_slice [OF h] by (simp add: req)
qed

theorem request_envelope_witness:
  "\<exists>cur. parse_header [0, 12, 0, 0, 0, 0, 1, 0, 0, 1, 65, 0, 1, 103, 0, 0, 0, 5, 0, 1, 109] =
     Inr ((12, 0, 256), Some [65], cur)"
proof -
  let ?r = "Heartbeat \<lparr>hbq_group = str_lit ''g'', hbq_generation_id = 5, hbq_member_id = str_lit ''m''\<rparr>"
  have "encode_request [65] 256 ?r = Inr [0, 12, 0, 0, 0, 0, 1, 0, 0, 1, 65, 0, 1, 103, 0, 0, 0, 5, 0, 1, 109]"
    by (simp add: encode_heartbeat_request_def HEARTBEAT_KEY_def wire_eval)
  from request_envelope [OF this] show ?thesis by simp
qed

text \<open>What a parsed array holds for one partition.\<close>

definition asked :: "(pystr \<times> (int \<times> 'v) list) list \<Rightarrow> pystr \<Rightarrow> int \<Rightarrow> 'v option" where
  "asked topics t p = (case map_of topics t of None \<Rightarrow> None | Some ps \<Rightarrow> map_of ps p)"

lemma map_of_view: "map_of (map (\<lambda>(p, r). (p, f p r)) ps) q = map_option (f q) (map_of ps q)"
  by (induction ps) auto

lemma asked_group:
  "asked (map (\<lambda>(t, ps). (t, map (\<lambda>(p, r). (p, f r)) ps)) g) t p = map_option f (group_get g t p)"
  using map_of_view [of "\<lambda>_ ps. map (\<lambda>(p, r). (p, f r)) ps" g t]
  by (cases "map_of g t") (auto simp: asked_def group_get_def map_of_view)

definition parse_fetch_request ::
    "bytes \<Rightarrow> ((int \<times> int \<times> int) \<times> (pystr \<times> (int \<times> int \<times> int) list) list) result" where
  "parse_fetch_request req =
     rbind (parse_header req) (\<lambda>(_, _, cur).
       rbind (relative_unpack4 ''>iiii'' req cur) (\<lambda>((replica, wait, min_bytes, n), cur).
         rbind (read_n (nat n) (read_topic (relative_unpack3 ''>iqi'') req) cur) (\<lambda>(topics, _).
           Inr ((replica, wait, min_bytes), topics))))"

text \<open>
  A fetch request, as the broker reads it, asks each topic once, and for each partition what
  the last \<open>FetchRequest\<close> given for that partition asked; a partition nobody gave is not asked.
  The replica id is that of a consumer, -1.
\<close>

theorem fetch_request_read:
  assumes "encode_fetch_request cid c payloads wait min_bytes = Inr req"
  shows "\<exists>topics. parse_fetch_request req = Inr ((- 1, wait, min_bytes), topics) \<and>
    distinct (map fst topics) \<and>
    (\<forall>t p. asked topics t p =
       map_option (\<lambda>r. (frq_offset r, frq_max_bytes r)) (last_payload frq_topic frq_partition payloads t p))"
proof -
  let ?g = "group_by_topic_and_partition frq_topic frq_partition payloads"
  let ?topics = "map (\<lambda>(t, ps). (t, map (\<lambda>(p, r). (p, frq_offset r, frq_max_bytes r)) ps)) ?g"
  from assms obtain h a b where h: "encode_message_header cid c FETCH_KEY 0 = Inr h"
    and a: "struct_pack ''>iiii'' [- 1, wait, min_bytes, int (length ?g)] = Inr a"
    and b: "encode_topics encode_fetch_item ?g = Inr b" and req: "req = h @ a @ b"
    by (auto simp: encode_fetch_request_def rbind_eq_Inr Let_def)
  have s: "suffix_at req 0 (h @ (a @ (b @ [])))" by (simp add: req)
  note s1 = suffix_at_advance [OF s] and s2 = suffix_at_advance [OF suffix_at_advance [OF s]]
  have "parse_fetch_request req = Inr ((- 1, wait, min_bytes), ?topics)"
    using parse_header_at [OF h, of "a @ b"] relative_unpack4_at [OF a s1] fetch_items.read_topics_at [OF b s2]
    by (simp add: parse_fetch_request_def req)
  moreover have "distinct (map fst ?topics)"
    using group_by_ok [of frq_topic frq_partition payloads]
    by (simp add: group_ok_def dict_ok_def comp_def case_prod_unfold)
  ultimately show ?thesis
    by (intro exI [of _ ?topics]) (simp add: asked_group group_by_get)
qed

definition sample_fetches :: "fetch_request list" where
  "sample_fetches =
     [\<lparr>frq_topic = str_lit ''t'', frq_partition = 1, frq_offset = 10, frq_max_bytes = 100\<rparr>,
      \<lparr>frq_topic = str_lit ''t'', frq_partition = 1, frq_offset = 20, frq_max_bytes = 200\<rparr>]"

theorem fetch_request_read_witness:
  "\<exists>req topics. encode_fetch_request [65] 7 sample_fetches 100 1 = Inr req \<and>
     parse_fetch_request req = Inr ((- 1, 100, 1), topics) \<and>
     asked topics (str_lit ''t'') 1 = Some (20, 200) \<and> asked topics (str_lit ''t'') 2 = None"
proof -
  have "\<exists>req. encode_fetch_request [65] 7 sample_fetches 100 1 = Inr req"
    by (simp add: encode_fetch_request_def sample_fetches_def FETCH_KEY_def group_by_topic_and_partition_def
        group_step_def Let_def encode_topics_def encode_topic_def encode_fetch_item_def wire_eval)
  then obtain req where "encode_fetch_request [65] 7 sample_fetches 100 1 = Inr req" by blast
  from this fetch_request_read [OF this] show ?thesis
    by (auto simp: last_payload_def sample_fetches_def)
qed

definition parse_produce_request ::
    "bytes \<Rightarrow> ((int \<times> int) \<times> (pystr \<times> (int \<times> bytes option) list) list) result" where
  "parse_produce_request req =
     rbind (parse_header req) (\<lambda>(_, _, cur).
       rbind (relative_unpack3 ''>hii'' req cur) (\<lambda>((acks, timeout, n), cur).
         rbind (read_n (nat n) (read_topic read_produce_entry req) cur) (\<lambda>(topics, _).
           Inr ((acks, timeout), topics))))"

lemma last_payload_in:
  assumes "last_payload topic part ts t p = Some r"
  shows "r \<in> set ts \<and> topic r = t \<and> part r = p"
proof -
  from assms obtain i where "i < length (rev ts)" "rev ts ! i = r" "topic r = t \<and> part r = p"
    by (auto simp: last_payload_def find_Some_iff)
  then have "r \<in> set (rev ts)" using nth_mem by blast
  with \<open>topic r = t \<and> part r = p\<close> show ?thesis by simp
qed

lemma cat_map_Inr: "cat (map f xs) = Inr bs \<Longrightarrow> x \<in> set xs \<Longrightarrow> \<exists>b. f x = Inr b"
  by (induction xs arbitrary: bs) (auto simp: rbind_eq_Inr)

lemma encode_topics_item_Inr:
  assumes "encode_topics item g = Inr bs" "group_get g t p = Some r"
  shows "\<exists>b. item (p, r) = Inr b"
proof -
  from assms(2) obtain ps where ps: "(t, ps) \<in> set g" "(p, r) \<in> set ps"
    by (auto simp: group_get_def split: option.splits dest: map_of_SomeD)
  from assms(1) ps(1) obtain b where "encode_topic item (t, ps) = Inr b"
    unfolding encode_topics_def by (blast dest: cat_map_Inr)
  then obtain b' where "cat (map item ps) = Inr b'"
    by (auto simp: encode_topic_def rbind_eq_Inr)
  from cat_map_Inr [OF this ps(2)] show ?thesis .
qed

text \<open>The message sets of a produce request, as they stand in it.\<close>

lemma produce_request_sets:
  assumes "encode_produce_request (PyBytes cid) c payloads acks timeout = Inr req"
  shows "\<exists>topics. parse_produce_request req = Inr ((acks, timeout), topics) \<and>
    distinct (map fst topics) \<and>
    (\<forall>t p. case last_payload prq_topic prq_partition payloads t p of
       None \<Rightarrow> asked topics t p = None
     | Some r \<Rightarrow> \<exists>ms. encode_message_set (prq_messages r) None = Inr ms \<and> asked topics t p = Some (Some ms))"
proof -
  let ?g = "group_by_topic_and_partition prq_topic prq_partition payloads"
  let ?f = "\<lambda>r. case encode_message_set (prq_messages r) None of Inr m \<Rightarrow> Some m | Inl _ \<Rightarrow> None"
  let ?topics = "map (\<lambda>(t, ps). (t, map (\<lambda>(p, r). (p, ?f r)) ps)) ?g"
  from assms obtain h a b where h: "encode_message_header cid c PRODUCE_KEY 0 = Inr h"
    and a: "struct_pack ''>hii'' [acks, timeout, int (length ?g)] = Inr a"
    and b: "encode_topics encode_produce_item ?g = Inr b" and req: "req = h @ a @ b"
    by (auto simp: encode_produce_request_def rbind_eq_Inr Let_def)
  have s: "suffix_at req 0 (h @ (a @ (b @ [])))" by (simp add: req)
  note s1 = suffix_at_advance [OF s] and s2 = suffix_at_advance [OF suffix_at_advance [OF s]]
  have "parse_produce_request req = Inr ((acks, timeout), ?topics)"
    using parse_header_at [OF h, of "a @ b"] relative_unpack3_at [OF a s1] produce_items.read_topics_at [OF b s2]
    by (simp add: parse_produce_request_def req)
  moreover have "distinct (map fst ?topics)"
    using group_by_ok [of prq_topic prq_partition payloads]
    by (simp add: group_ok_def dict_ok_def comp_def case_prod_unfold)
  moreover have "\<exists>ms. encode_message_set (prq_messages r) None = Inr ms \<and> asked ?topics t p = Some (Some ms)"
    if r: "last_payload prq_topic prq_partition payloads t p = Some r" for t p r
  proof -
    have g: "group_get ?g t p = Some r" using r by (simp add: group_by_get)
    from encode_topics_item_Inr [OF b g] obtain ms where "encode_message_set (prq_messages r) None = Inr ms"
      by (auto simp: encode_produce_item_def rbind_eq_Inr)
    with g show ?thesis by (simp add: asked_group)
  qed
  ultimately show ?thesis
    by (intro exI [of _ ?topics]) (auto simp: asked_group group_by_get split: option.splits)
qed

text \<open>
  C8. A produce request, as the broker reads it, carries the acknowledgement mode and timeout and,
  for each partition that a payload was given for and for no other, the encoded message set of the last \<open>ProduceRequest\<close> given for it. Decoding
  that set yields its messages: an uncompressed message as it is, and for a message compressed with gzip or Snappy those that
  it wraps, all with offset 0.
\<close>

theorem produce_request_read:
  assumes "encode_produce_request (PyBytes cid) c payloads acks timeout = Inr req"
  shows "\<exists>topics. parse_produce_request req = Inr ((acks, timeout), topics) \<and>
    distinct (map fst topics) \<and>
    (\<forall>t p. case last_payload prq_topic prq_partition payloads t p of
       None \<Rightarrow> asked topics t p = None
     | Some r \<Rightarrow> \<exists>ms. asked topics t p = Some (Some ms) \<and> encode_message_set (prq_messages r) None = Inr ms \<and>
         (\<forall>ss. prq_messages r = map (snd \<circ> stored_entry) ss \<and> list_all (\<lambda>x. fst (stored_entry x) = 0 \<and> stored_ok env x) ss \<longrightarrow>
            decode_message_set_iter env ms = Some (log_items ss, Inr ())))"
proof -
  from produce_request_sets [OF assms(1)] obtain topics where t: "parse_produce_request req = Inr ((acks, timeout), topics)"
    "distinct (map fst topics)"
    "\<And>t p. case last_payload prq_topic prq_partition payloads t p of
       None \<Rightarrow> asked topics t p = None
     | Some r \<Rightarrow> \<exists>ms. encode_message_set (prq_messages r) None = Inr ms \<and> asked topics t p = Some (Some ms)" by blast
  have dec: "decode_message_set_iter env ms = Some (log_items ss, Inr ())"
    if "encode_message_set msgs None = Inr ms" "msgs = map (snd \<circ> stored_entry) ss"
      "list_all (\<lambda>x. fst (stored_entry x) = 0 \<and> stored_ok env x) ss" for msgs ms ss
    using encoded_set_decodes [of ss ms env] that by (auto simp: list_all_iff)
  have "case last_payload prq_topic prq_partition payloads t p of
       None \<Rightarrow> asked topics t p = None
     | Some r \<Rightarrow> \<exists>ms. asked topics t p = Some (Some ms) \<and> encode_message_set (prq_messages r) None = Inr ms \<and>
         (\<forall>ss. prq_messages r = map (snd \<circ> stored_entry) ss \<and> list_all (\<lambda>x. fst (stored_entry x) = 0 \<and> stored_ok env x) ss \<longrightarrow>
            decode_message_set_iter env ms = Some (log_items ss, Inr ()))" for t p
    using t(3) [of t p] dec by (cases "last_payload prq_topic prq_partition payloads t p") fastforce+
  with t(1,2) show ?thesis by blast
qed

definition sample_produces :: "produce_request list" where
  "sample_produces = [\<lparr>prq_topic = str_lit ''t'', prq_partition = 0, prq_messages = map (snd \<circ> stored_entry) (sample_stored 0 0 0)\<rparr>]"

lemma sample_produces_encodes: "\<exists>req. encode_produce_request (PyBytes [65]) 7 sample_produces 1 1000 = Inr req"
proof -
  have eq: "map (\<lambda>m. (0, m)) (map (snd \<circ> stored_entry) (sample_stored 0 0 0)) = map stored_entry (sample_stored 0 0 0)"
    by (simp add: sample_stored_def)
  obtain ms where "encode_log (map stored_entry (sample_stored 0 0 0)) = Inr ms" "length ms < 200"
    using sample_stored_ok(2) [of 0 0 0] by auto
  then have "encode_message_set (map (snd \<circ> stored_entry) (sample_stored 0 0 0)) None = Inr ms" "length ms < 200"
    by (simp_all only: encode_message_set_def encode_entries_log option.case eq)
  then show ?thesis
    by (simp add: encode_produce_request_def sample_produces_def PRODUCE_KEY_def group_by_topic_and_partition_def
        group_step_def Let_def encode_topics_def encode_topic_def encode_produce_item_def wire_eval)
qed

theorem produce_request_read_witness:
  "\<exists>req topics ms. encode_produce_request (PyBytes [65]) 7 sample_produces 1 1000 = Inr req \<and>
     parse_produce_request req = Inr ((1, 1000), topics) \<and>
     asked topics (str_lit ''t'') 0 = Some (Some ms) \<and>
     decode_message_set_iter marking_env ms =
       Some ([as_item (0, create_message (Some [7]) None), as_item (0, create_message (Some [104, 105]) None),
              as_item (0, create_message None (Some [1]))], Inr ())"
proof -
  let ?r = "hd sample_produces"
  obtain req where req: "encode_produce_request (PyBytes [65]) 7 sample_produces 1 1000 = Inr req"
    using sample_produces_encodes by blast
  have lp: "last_payload prq_topic prq_partition sample_produces (str_lit ''t'') 0 = Some ?r"
    by (simp add: last_payload_def sample_produces_def)
  have ss: "prq_messages ?r = map (snd \<circ> stored_entry) (sample_stored 0 0 0)" by (simp add: sample_produces_def)
  have "list_all (\<lambda>x. fst (stored_entry x) = 0 \<and> stored_ok marking_env x) (sample_stored 0 0 0)"
    using sample_stored_ok(1) [of 0 0 0] by (simp add: sample_stored_def)
  with ss produce_request_read [OF req, of marking_env] obtain topics ms where
    "parse_produce_request req = Inr ((1, 1000), topics)" "asked topics (str_lit ''t'') 0 = Some (Some ms)"
    "decode_message_set_iter marking_env ms = Some (log_items (sample_stored 0 0 0), Inr ())"
    using lp by (fastforce split: option.splits)
  with req show ?thesis by (auto simp: sample_stored_items)
qed

definition parse_commit_request ::
    "bytes \<Rightarrow> (pystr \<times> int \<times> pystr \<times> (pystr \<times> (int \<times> int \<times> int \<times> bytes option) list) list) result" where
  "parse_commit_request req =
     rbind (parse_header req) (\<lambda>(_, _, cur).
       rbind (read_short_ascii req cur) (\<lambda>(grp, cur).
         rbind (relative_unpack1 ''>i'' req cur) (\<lambda>(generation, cur).
           rbind (read_short_ascii req cur) (\<lambda>(member, cur).
             rbind (relative_unpack1 ''>i'' req cur) (\<lambda>(n, cur).
               rbind (read_n (nat n) (read_topic read_commit_entry req) cur) (\<lambda>(topics, _).
                 Inr (grp, generation, member, topics)))))))"

text \<open>
  C25. An offset commit request, as the broker reads it, names the group, generation and member and
  commits, for each partition, the offset, timestamp and metadata of the last
  \<open>OffsetCommitRequest\<close> given for it.
\<close>

theorem commit_request_read:
  assumes "encode_offset_commit_request cid c grp generation (PyStr member) payloads = Inr req"
  shows "\<exists>topics. parse_commit_request req = Inr (grp, generation, member, topics) \<and>
    distinct (map fst topics) \<and>
    (\<forall>t p. asked topics t p =
       map_option (\<lambda>r. (ocq_offset r, ocq_timestamp r, case ocq_metadata r of PyBytes b \<Rightarrow> Some b | _ \<Rightarrow> None))
         (last_payload ocq_topic ocq_partition payloads t p))"
proof -
  let ?g = "group_by_topic_and_partition ocq_topic ocq_partition payloads"
  let ?f = "\<lambda>r. (ocq_offset r, ocq_timestamp r, case ocq_metadata r of PyBytes b \<Rightarrow> Some b | _ \<Rightarrow> None)"
  let ?topics = "map (\<lambda>(t, ps). (t, map (\<lambda>(p, r). (p, ?f r)) ps)) ?g"
  from assms obtain h g i m n b where h: "encode_message_header cid c OFFSET_COMMIT_KEY 1 = Inr h"
    and g: "write_short_ascii (PyStr grp) = Inr g" and i: "struct_pack ''>i'' [generation] = Inr i"
    and m: "write_short_ascii (PyStr member) = Inr m"
    and n: "struct_pack ''>i'' [int (length ?g)] = Inr n"
    and b: "encode_topics encode_offset_commit_item ?g = Inr b" and req: "req = h @ g @ i @ m @ n @ b"
    by (auto simp: encode_offset_commit_request_def rbind_eq_Inr Let_def)
  have s: "suffix_at req 0 (h @ (g @ (i @ (m @ (n @ (b @ []))))))" by (simp add: req)
  note s1 = suffix_at_advance [OF s]
  note s2 = suffix_at_advance [OF s1]
  note s3 = suffix_at_advance [OF s2]
  note s4 = suffix_at_advance [OF s3]
  note s5 = suffix_at_advance [OF s4]
  have "parse_commit_request req = Inr (grp, generation, member, ?topics)"
    using parse_header_at [OF h, of "g @ i @ m @ n @ b"] short_ascii_fmt.dec_enc [OF g s1]
      relative_unpack1_at [OF i s2] short_ascii_fmt.dec_enc [OF m s3] relative_unpack1_at [OF n s4]
      commit_items.read_topics_at [OF b s5]
    by (simp add: parse_commit_request_def req)
  moreover have "distinct (map fst ?topics)"
    using group_by_ok [of ocq_topic ocq_partition payloads]
    by (simp add: group_ok_def dict_ok_def comp_def case_prod_unfold)
  ultimately show ?thesis
    by (intro exI [of _ ?topics]) (simp add: asked_group group_by_get)
qed

definition sample_commits :: "offset_commit_request list" where
  "sample_commits =
     [\<lparr>ocq_topic = str_lit ''t'', ocq_partition = 3, ocq_offset = 41, ocq_timestamp = - 1, ocq_metadata = PyNone\<rparr>,
      \<lparr>ocq_topic = str_lit ''t'', ocq_partition = 3, ocq_offset = 42, ocq_timestamp = - 1, ocq_metadata = PyBytes [1]\<rparr>]"

theorem commit_request_read_witness:
  "\<exists>req topics. encode_offset_commit_request [65] 7 (str_lit ''g'') 2 (PyStr (str_lit ''m'')) sample_commits = Inr req \<and>
     parse_commit_request req = Inr (str_lit ''g'', 2, str_lit ''m'', topics) \<and>
     asked topics (str_lit ''t'') 3 = Some (42, - 1, Some [1])"
proof -
  have "\<exists>req. encode_offset_commit_request [65] 7 (str_lit ''g'') 2 (PyStr (str_lit ''m'')) sample_commits = Inr req"
    by (simp add: encode_offset_commit_request_def sample_commits_def OFFSET_COMMIT_KEY_def
        group_by_topic_and_partition_def group_step_def Let_def encode_topics_def encode_topic_def
        encode_offset_commit_item_def wire_eval)
  then obtain req where
    "encode_offset_commit_request [65] 7 (str_lit ''g'') 2 (PyStr (str_lit ''m'')) sample_commits = Inr req" by blast
  from this commit_request_read [OF this] show ?thesis
    by (auto simp: last_payload_def sample_commits_def)
qed

text \<open>
  The docstring of \<open>_ReprRequest\<close> prints this request with the correlation id 16; the code
  prints the one that was sent.
\<close>

lemma repr_request_docstring:
  "repr_request [0, 2, 0, 0, 0, 0, 0, 0xff] = ''ListOffsetsRequest0 correlationId=255 (8 bytes)''"
  by code_simp

end
