(* ===== verification/Responses.thy ===== *)
theory Responses
  imports Requests
begin

text \<open>
  Response decoding in \<open>afkak/kafkacodec.py\<close>: every \<open>decode_*\<close> method, the response tuples
  of \<open>afkak/common.py\<close> as records, and the decoders of the consumer group's embedded protocol.

  The five decoders of per-partition responses are generators around one loop, \<open>decode_topics\<close>;
  the others return a value. The specification side is the broker's encoding of each response,
  written with the verified field writers of \<open>Wire\<close>; the theorems say that decoding what the
  broker wrote gives it back.
\<close>

section \<open>Response tuples\<close>

record produce_response =
  prs_topic :: pystr
  prs_partition :: int
  prs_error :: int
  prs_offset :: int

text \<open>The messages of a fetch response are an iterator that is decoded when it is consumed.\<close>

record fetch_response =
  frs_topic :: pystr
  frs_partition :: int
  frs_error :: int
  frs_highwaterMark :: int
  frs_messages :: "msg_gen option"

record offset_response =
  ors_topic :: pystr
  ors_partition :: int
  ors_error :: int
  ors_offsets :: "int list"

record offset_commit_response =
  ocs_topic :: pystr
  ocs_partition :: int
  ocs_error :: int

record offset_fetch_response =
  ofs_topic :: pystr
  ofs_partition :: int
  ofs_offset :: int
  ofs_metadata :: "bytes option"
  ofs_error :: int

record consumer_metadata_response =
  cms_error :: int
  cms_node_id :: int
  cms_host :: pystr
  cms_port :: int

record broker_metadata =
  bm_node_id :: int
  bm_host :: pystr
  bm_port :: int

record partition_metadata =
  pm_topic :: pystr
  pm_partition :: int
  pm_partition_error_code :: int
  pm_leader :: int
  pm_replicas :: "int list"
  pm_isr :: "int list"

record topic_metadata =
  tm_topic :: pystr
  tm_topic_error_code :: int
  tm_partition_metadata :: "(int, partition_metadata) dict"

record join_group_protocol_metadata =
  jgm_version :: int
  jgm_subscriptions :: "pystr list"
  jgm_user_data :: "bytes option"

record join_group_response_member =
  jgr_member_id :: pystr
  jgr_member_metadata :: "bytes option"

record join_group_response =
  jgs_error :: int
  jgs_generation_id :: int
  jgs_group_protocol :: pystr
  jgs_leader_id :: pystr
  jgs_member_id :: pystr
  jgs_members :: "join_group_response_member list"

record sync_group_member_assignment =
  sga_version :: int
  sga_assignments :: "(pystr, int list) dict"
  sga_user_data :: "bytes option"

record sync_group_response =
  sgs_error :: int
  sgs_member_assignment :: "bytes option"

record heartbeat_response =
  hbs_error :: int

record leave_group_response =
  lgs_error :: int

section \<open>Decoders\<close>

definition MAX_BROKERS :: int where "MAX_BROKERS = 1024"

definition get_response_correlation_id :: "bytes \<Rightarrow> int result" where
  "get_response_correlation_id data =
     rbind (relative_unpack1 ''>i'' data 0) (\<lambda>(correlation_id, cur). Inr correlation_id)"

text \<open>
  \<open>for _i in range(num_topics)\<close> around \<open>for _i in range(num_partitions)\<close>: the entry reader
  \<open>rd\<close> and the tuple constructor \<open>mk\<close> are what differs between the decoders.
\<close>

definition decode_topic ::
    "(bytes \<Rightarrow> int \<Rightarrow> ('v \<times> int) result) \<Rightarrow> (pystr \<Rightarrow> 'v \<Rightarrow> 'r) \<Rightarrow> bytes \<Rightarrow> int \<Rightarrow> ('r, exn, int) gen" where
  "decode_topic rd mk data cur =
     gbind (glift (read_short_ascii data cur)) (\<lambda>(topic, cur).
       gbind (glift (relative_unpack1 ''>i'' data cur)) (\<lambda>(num_partitions, cur).
         gfor (nat num_partitions) (\<lambda>cur.
           gbind (glift (rd data cur)) (\<lambda>(v, cur). yield (mk topic v) cur)) cur))"

definition decode_topics ::
    "(bytes \<Rightarrow> int \<Rightarrow> ('v \<times> int) result) \<Rightarrow> (pystr \<Rightarrow> 'v \<Rightarrow> 'r) \<Rightarrow> bytes \<Rightarrow> int \<Rightarrow> int \<Rightarrow> ('r, exn, int) gen" where
  "decode_topics rd mk data num_topics cur = gfor (nat num_topics) (decode_topic rd mk data) cur"

definition decode_produce_response :: "bytes \<Rightarrow> (produce_response, exn, int) gen" where
  "decode_produce_response data =
     gbind (glift (relative_unpack2 ''>ii'' data 0)) (\<lambda>((correlation_id, num_topics), cur).
       decode_topics (relative_unpack3 ''>ihq'')
         (\<lambda>topic (part, err, offset).
            \<lparr>prs_topic = topic, prs_partition = part, prs_error = err, prs_offset = offset\<rparr>)
         data num_topics cur)"

definition read_fetch_part :: "bytes \<Rightarrow> int \<Rightarrow> (((int \<times> int \<times> int) \<times> bytes option) \<times> int) result" where
  "read_fetch_part data cur =
     rbind (relative_unpack3 ''>ihq'' data cur) (\<lambda>(v, cur).
       rbind (read_int_string data cur) (\<lambda>(message_set, cur). Inr ((v, message_set), cur)))"

definition message_set_iter :: "codec_env \<Rightarrow> bytes option \<Rightarrow> msg_gen option" where
  "message_set_iter env message_set =
     (case message_set of None \<Rightarrow> Some ([], Inl TypeError) | Some b \<Rightarrow> decode_message_set_iter env b)"

definition decode_fetch_response :: "codec_env \<Rightarrow> bytes \<Rightarrow> (fetch_response, exn, int) gen" where
  "decode_fetch_response env data =
     gbind (glift (relative_unpack2 ''>ii'' data 0)) (\<lambda>((correlation_id, num_topics), cur).
       decode_topics read_fetch_part
         (\<lambda>topic ((part, err, highwater_mark_offset), message_set).
            \<lparr>frs_topic = topic, frs_partition = part, frs_error = err,
             frs_highwaterMark = highwater_mark_offset, frs_messages = message_set_iter env message_set\<rparr>)
         data num_topics cur)"

definition read_offset_part :: "bytes \<Rightarrow> int \<Rightarrow> ((int \<times> int \<times> int list) \<times> int) result" where
  "read_offset_part data cur =
     rbind (relative_unpack3 ''>ihi'' data cur) (\<lambda>((part, err, num_offsets), cur).
       rbind (read_n (nat num_offsets) (relative_unpack1 ''>q'' data) cur) (\<lambda>(offsets, cur).
         Inr ((part, err, offsets), cur)))"

definition decode_offset_response :: "bytes \<Rightarrow> (offset_response, exn, int) gen" where
  "decode_offset_response data =
     gbind (glift (relative_unpack2 ''>ii'' data 0)) (\<lambda>((correlation_id, num_topics), cur).
       decode_topics read_offset_part
         (\<lambda>topic (part, err, offsets).
            \<lparr>ors_topic = topic, ors_partition = part, ors_error = err, ors_offsets = offsets\<rparr>)
         data num_topics cur)"

definition decode_offset_commit_response :: "bytes \<Rightarrow> (offset_commit_response, exn, int) gen" where
  "decode_offset_commit_response data =
     gbind (glift (relative_unpack1 ''>i'' data 0)) (\<lambda>(correlation_id, cur).
       gbind (glift (relative_unpack1 ''>i'' data cur)) (\<lambda>(num_topics, cur).
         decode_topics (relative_unpack2 ''>ih'')
           (\<lambda>topic (part, err). \<lparr>ocs_topic = topic, ocs_partition = part, ocs_error = err\<rparr>)
           data num_topics cur))"

definition read_offset_fetch_part ::
    "bytes \<Rightarrow> int \<Rightarrow> ((int \<times> int \<times> bytes option \<times> int) \<times> int) result" where
  "read_offset_fetch_part data cur =
     rbind (relative_unpack2 ''>iq'' data cur) (\<lambda>((part, offset), cur).
       rbind (read_short_bytes data cur) (\<lambda>(metadata, cur).
         rbind (relative_unpack1 ''>h'' data cur) (\<lambda>(err, cur).
           Inr ((part, offset, metadata, err), cur))))"

definition decode_offset_fetch_response :: "bytes \<Rightarrow> (offset_fetch_response, exn, int) gen" where
  "decode_offset_fetch_response data =
     gbind (glift (relative_unpack1 ''>i'' data 0)) (\<lambda>(correlation_id, cur).
       gbind (glift (relative_unpack1 ''>i'' data cur)) (\<lambda>(num_topics, cur).
         decode_topics read_offset_fetch_part
           (\<lambda>topic (part, offset, metadata, err).
              \<lparr>ofs_topic = topic, ofs_partition = part, ofs_offset = offset,
               ofs_metadata = metadata, ofs_error = err\<rparr>)
           data num_topics cur))"

definition read_broker :: "bytes \<Rightarrow> int \<Rightarrow> (broker_metadata \<times> int) result" where
  "read_broker data cur =
     rbind (relative_unpack1 ''>i'' data cur) (\<lambda>(nodeId, cur).
       rbind (read_short_ascii data cur) (\<lambda>(host, cur).
         rbind (relative_unpack1 ''>i'' data cur) (\<lambda>(port, cur).
           Inr (\<lparr>bm_node_id = nodeId, bm_host = host, bm_port = port\<rparr>, cur))))"

text \<open>\<open>relative_unpack('>%di' % n, data, cur)\<close>\<close>

definition unpack_ints :: "int \<Rightarrow> bytes \<Rightarrow> int \<Rightarrow> (int list \<times> int) result" where
  "unpack_ints n data cur = rbind (fmt_repeat n (CHR ''i'')) (\<lambda>fmt. relative_unpack fmt data cur)"

definition read_partition :: "pystr \<Rightarrow> bytes \<Rightarrow> int \<Rightarrow> (partition_metadata \<times> int) result" where
  "read_partition topic_name data cur =
     rbind (relative_unpack4 ''>hiii'' data cur) (\<lambda>((partition_error_code, part, leader, numReplicas), cur).
       rbind (unpack_ints numReplicas data cur) (\<lambda>(replicas, cur).
         rbind (relative_unpack1 ''>i'' data cur) (\<lambda>(num_isr, cur).
           rbind (unpack_ints num_isr data cur) (\<lambda>(isr, cur).
             Inr (\<lparr>pm_topic = topic_name, pm_partition = part,
                   pm_partition_error_code = partition_error_code, pm_leader = leader,
                   pm_replicas = replicas, pm_isr = isr\<rparr>, cur)))))"

text \<open>\<open>d[key(v)] = v\<close> for each item that was read, in order.\<close>

definition dict_from :: "('v \<Rightarrow> 'k) \<Rightarrow> 'v list \<Rightarrow> ('k, 'v) dict" where
  "dict_from key vs = foldl (\<lambda>d v. dict_set (key v) v d) [] vs"

definition read_topic_metadata :: "bytes \<Rightarrow> int \<Rightarrow> (topic_metadata \<times> int) result" where
  "read_topic_metadata data cur =
     rbind (relative_unpack1 ''>h'' data cur) (\<lambda>(topic_error, cur).
       rbind (read_short_ascii data cur) (\<lambda>(topic_name, cur).
         rbind (relative_unpack1 ''>i'' data cur) (\<lambda>(num_partitions, cur).
           rbind (read_n (nat num_partitions) (read_partition topic_name data) cur) (\<lambda>(ps, cur).
             Inr (\<lparr>tm_topic = topic_name, tm_topic_error_code = topic_error,
                   tm_partition_metadata = dict_from pm_partition ps\<rparr>, cur)))))"

definition decode_metadata_response ::
    "bytes \<Rightarrow> ((int, broker_metadata) dict \<times> (pystr, topic_metadata) dict) result" where
  "decode_metadata_response data =
     rbind (relative_unpack2 ''>ii'' data 0) (\<lambda>((correlation_id, numbrokers), cur).
       if numbrokers > MAX_BROKERS then Inl InvalidMessageError
       else rbind (read_n (nat numbrokers) (read_broker data) cur) (\<lambda>(bs, cur).
              rbind (relative_unpack1 ''>i'' data cur) (\<lambda>(num_topics, cur).
                rbind (read_n (nat num_topics) (read_topic_metadata data) cur) (\<lambda>(ts, cur).
                  Inr (dict_from bm_node_id bs, dict_from tm_topic ts)))))"

definition decode_consumermetadata_response :: "bytes \<Rightarrow> consumer_metadata_response result" where
  "decode_consumermetadata_response data =
     rbind (relative_unpack3 ''>ihi'' data 0) (\<lambda>((correlation_id, error_code, node_id), cur).
       rbind (read_short_ascii data cur) (\<lambda>(host, cur).
         rbind (relative_unpack1 ''>i'' data cur) (\<lambda>(port, cur).
           Inr \<lparr>cms_error = error_code, cms_node_id = node_id, cms_host = host, cms_port = port\<rparr>)))"

definition decode_join_group_protocol_metadata :: "bytes \<Rightarrow> join_group_protocol_metadata result" where
  "decode_join_group_protocol_metadata data =
     rbind (relative_unpack2 ''>hi'' data 0) (\<lambda>((version, num_subscriptions), cur).
       rbind (read_n (nat num_subscriptions) (read_short_text data) cur) (\<lambda>(subscriptions, cur).
         rbind (read_int_string data cur) (\<lambda>(user_data, cur).
           Inr \<lparr>jgm_version = version, jgm_subscriptions = subscriptions, jgm_user_data = user_data\<rparr>)))"

definition read_group_member :: "bytes \<Rightarrow> int \<Rightarrow> (join_group_response_member \<times> int) result" where
  "read_group_member data cur =
     rbind (read_short_text data cur) (\<lambda>(response_member_id, cur).
       rbind (read_int_string data cur) (\<lambda>(response_member_data, cur).
         Inr (\<lparr>jgr_member_id = response_member_id, jgr_member_metadata = response_member_data\<rparr>, cur)))"

definition decode_join_group_response :: "bytes \<Rightarrow> join_group_response result" where
  "decode_join_group_response data =
     rbind (relative_unpack3 ''>ihi'' data 0) (\<lambda>((correlation_id, err, generation_id), cur).
       rbind (read_short_text data cur) (\<lambda>(group_protocol, cur).
         rbind (read_short_text data cur) (\<lambda>(leader_id, cur).
           rbind (read_short_text data cur) (\<lambda>(member_id, cur).
             rbind (relative_unpack1 ''>i'' data cur) (\<lambda>(num_members, cur).
               rbind (read_n (nat num_members) (read_group_member data) cur) (\<lambda>(members, cur).
                 Inr \<lparr>jgs_error = err, jgs_generation_id = generation_id,
                      jgs_group_protocol = group_protocol, jgs_leader_id = leader_id,
                      jgs_member_id = member_id, jgs_members = members\<rparr>))))))"

definition decode_leave_group_response :: "bytes \<Rightarrow> leave_group_response result" where
  "decode_leave_group_response data =
     rbind (relative_unpack2 ''>ih'' data 0) (\<lambda>((correlation_id, err), cur). Inr \<lparr>lgs_error = err\<rparr>)"

definition decode_heartbeat_response :: "bytes \<Rightarrow> heartbeat_response result" where
  "decode_heartbeat_response data =
     rbind (relative_unpack2 ''>ih'' data 0) (\<lambda>((correlation_id, err), cur). Inr \<lparr>hbs_error = err\<rparr>)"

definition decode_sync_group_response :: "bytes \<Rightarrow> sync_group_response result" where
  "decode_sync_group_response data =
     rbind (relative_unpack2 ''>ih'' data 0) (\<lambda>((correlation_id, err), cur).
       rbind (read_int_string data cur) (\<lambda>(member_assignment, cur).
         Inr \<lparr>sgs_error = err, sgs_member_assignment = member_assignment\<rparr>))"

definition read_assignment :: "bytes \<Rightarrow> int \<Rightarrow> ((pystr \<times> int list) \<times> int) result" where
  "read_assignment data cur =
     rbind (read_short_ascii data cur) (\<lambda>(topic, cur).
       rbind (relative_unpack1 ''>i'' data cur) (\<lambda>(num_partitions, cur).
         rbind (unpack_ints num_partitions data cur) (\<lambda>(partitions, cur).
           Inr ((topic, partitions), cur))))"

definition decode_sync_group_member_assignment :: "bytes \<Rightarrow> sync_group_member_assignment result" where
  "decode_sync_group_member_assignment data =
     rbind (relative_unpack2 ''>hi'' data 0) (\<lambda>((version, num_assignments), cur).
       if version \<noteq> 0 then Inl ProtocolError
       else rbind (read_n (nat num_assignments) (read_assignment data) cur) (\<lambda>(ts, cur).
              rbind (read_int_string data cur) (\<lambda>(user_data, cur).
                Inr \<lparr>sga_version = version,
                     sga_assignments = foldl (\<lambda>d (topic, partitions). dict_set topic partitions d) [] ts,
                     sga_user_data = user_data\<rparr>)))"

section \<open>Generators over arrays\<close>

lemma gfor_read:
  "read_n n rd cur = Inr (vs, cur') \<Longrightarrow>
   gfor n (\<lambda>cur. gbind (glift (rd cur)) (\<lambda>(v, cur). yield (mk v) cur)) cur = (map mk vs, Inr cur')"
  by (induction n arbitrary: cur vs) (auto simp: rbind_eq_Inr yield_def)

context topic_array
begin

lemma decode_topics_at:
  "encode_topics item g = Inr bs \<Longrightarrow> suffix_at data cur (bs @ rest) \<Longrightarrow>
   decode_topics rd mk data (int (length g)) cur =
     (concat (map (\<lambda>(t, ps). map (mk t) (map view ps)) g), Inr (cur + int (length bs)))"
proof (induction g arbitrary: bs cur)
  case Nil
  then show ?case by (simp add: encode_topics_def decode_topics_def)
next
  case (Cons tp g)
  obtain t ps where tp: "tp = (t, ps)" by force
  from Cons.prems(1) obtain b bs' where b: "encode_topic item (t, ps) = Inr b"
    and bs': "encode_topics item g = Inr bs'" and bs: "bs = b @ bs'"
    by (auto simp: encode_topics_def rbind_eq_Inr tp)
  from Cons.prems(2) bs have s: "suffix_at data cur (b @ (bs' @ rest))" by simp
  have "decode_topic rd mk data cur = (map (mk t) (map view ps), Inr (cur + int (length b)))"
    by (rule encode_topic_parts [OF b s]) (simp add: decode_topic_def gfor_read)
  with Cons.IH [OF bs' suffix_at_advance [OF s]] show ?case
    by (simp add: decode_topics_def tp bs nat_add_distrib add.assoc)
qed

end

section \<open>The broker's encoding\<close>

text \<open>
  A per-partition response is the correlation id and an array grouped by topic; \<open>item\<close>
  encodes the entry of one partition.
\<close>

definition broker_response ::
    "(int \<times> 'p \<Rightarrow> bytes result) \<Rightarrow> int \<Rightarrow> (pystr \<times> (int \<times> 'p) list) list \<Rightarrow> bytes result" where
  "broker_response item c topics =
     cat [struct_pack ''>ii'' [c, int (length topics)], encode_topics item topics]"

definition produce_entry :: "int \<times> int \<times> int \<Rightarrow> bytes result" where
  "produce_entry x = (case x of (p, err, off) \<Rightarrow> struct_pack ''>ihq'' [p, err, off])"

text \<open>For a fetch the broker sends entries of its log, and the part of the next entry that was not cut.\<close>

definition fetch_entry :: "int \<times> int \<times> int \<times> stored list \<times> bytes \<Rightarrow> bytes result" where
  "fetch_entry x =
     (case x of (p, err, hw, ss, rest) \<Rightarrow>
        rbind (encode_log (map stored_entry ss)) (\<lambda>b.
          cat [struct_pack ''>ihq'' [p, err, hw], write_int_string (Some (b @ rest))]))"

definition offset_entry :: "int \<times> int \<times> int list \<Rightarrow> bytes result" where
  "offset_entry x =
     (case x of (p, err, offs) \<Rightarrow>
        cat [struct_pack ''>ihi'' [p, err, int (length offs)], cat (map (\<lambda>off. struct_pack ''>q'' [off]) offs)])"

definition commit_entry :: "int \<times> int \<Rightarrow> bytes result" where
  "commit_entry x = (case x of (p, err) \<Rightarrow> struct_pack ''>ih'' [p, err])"

definition offset_fetch_entry :: "int \<times> int \<times> bytes option \<times> int \<Rightarrow> bytes result" where
  "offset_fetch_entry x =
     (case x of (p, off, md, err) \<Rightarrow>
        cat [struct_pack ''>iq'' [p, off], write_short_bytes (opt_bytes md), struct_pack ''>h'' [err]])"

interpretation produce_parts: topic_array produce_entry "relative_unpack3 ''>ihq''" "\<lambda>x. x"
  by unfold_locales (auto simp: produce_entry_def intro: relative_unpack3_at)

interpretation commit_parts: topic_array commit_entry "relative_unpack2 ''>ih''" "\<lambda>x. x"
  by unfold_locales (auto simp: commit_entry_def intro: relative_unpack2_at)

definition wire_set :: "stored list \<Rightarrow> bytes \<Rightarrow> bytes option" where
  "wire_set ss rest = (case encode_log (map stored_entry ss) of Inr b \<Rightarrow> Some (b @ rest) | Inl _ \<Rightarrow> None)"

interpretation fetch_parts: topic_array fetch_entry read_fetch_part
  "\<lambda>(p, err, hw, ss, rest). ((p, err, hw), wire_set ss rest)"
proof
  fix x bs data cur tail
  assume it: "fetch_entry x = Inr bs" and s: "suffix_at data cur (bs @ tail)"
  obtain p err hw ss rest where x: "x = (p, err, hw, ss, rest)" by (cases x) auto
  from it obtain m a b where m: "encode_log (map stored_entry ss) = Inr m"
    and a: "struct_pack ''>ihq'' [p, err, hw] = Inr a"
    and b: "write_int_string (Some (m @ rest)) = Inr b" and bs: "bs = a @ b"
    by (auto simp: fetch_entry_def x rbind_eq_Inr)
  from s have s1: "suffix_at data cur (a @ (b @ tail))" by (simp add: bs)
  from relative_unpack3_at [OF a s1] int_string_fmt.dec_enc [OF b suffix_at_advance [OF s1]]
  show "read_fetch_part data cur =
      Inr ((\<lambda>(p, err, hw, ss, rest). ((p, err, hw), wire_set ss rest)) x, cur + int (length bs))"
    by (simp add: read_fetch_part_def x bs m wire_set_def)
qed

interpretation offset_parts: topic_array offset_entry read_offset_part "\<lambda>x. x"
proof
  fix x bs data cur rest
  assume it: "offset_entry x = Inr bs" and s: "suffix_at data cur (bs @ rest)"
  obtain p err offs where x: "x = (p, err, offs)" by (cases x) auto
  from it obtain a b where a: "struct_pack ''>ihi'' [p, err, int (length offs)] = Inr a"
    and b: "cat (map (\<lambda>off. struct_pack ''>q'' [off]) offs) = Inr b" and bs: "bs = a @ b"
    by (auto simp: offset_entry_def x rbind_eq_Inr)
  from s have s1: "suffix_at data cur (a @ (b @ rest))" by (simp add: bs)
  from relative_unpack3_at [OF a s1] int64_fmt.dec_enc_seq [OF b suffix_at_advance [OF s1]]
  show "read_offset_part data cur = Inr (x, cur + int (length bs))"
    by (simp add: read_offset_part_def x bs)
qed

interpretation offset_fetch_parts: topic_array offset_fetch_entry read_offset_fetch_part "\<lambda>x. x"
proof
  fix x bs data cur rest
  assume it: "offset_fetch_entry x = Inr bs" and s: "suffix_at data cur (bs @ rest)"
  obtain p off md err where x: "x = (p, off, md, err)" by (cases x) auto
  from it obtain a b d where a: "struct_pack ''>iq'' [p, off] = Inr a"
    and b: "write_short_bytes (opt_bytes md) = Inr b" and d: "struct_pack ''>h'' [err] = Inr d"
    and bs: "bs = a @ b @ d"
    by (auto simp: offset_fetch_entry_def x rbind_eq_Inr)
  from s have s1: "suffix_at data cur (a @ (b @ (d @ rest)))" by (simp add: bs)
  note s2 = suffix_at_advance [OF s1] and s3 = suffix_at_advance [OF suffix_at_advance [OF s1]]
  from relative_unpack2_at [OF a s1] short_bytes_fmt.dec_enc [OF b s2] relative_unpack1_at [OF d s3]
  show "read_offset_fetch_part data cur = Inr (x, cur + int (length bs))"
    by (simp add: read_offset_fetch_part_def x bs)
qed

text \<open>All items of a response, in wire order.\<close>

definition all_parts :: "(pystr \<Rightarrow> 'x \<Rightarrow> 'r) \<Rightarrow> (pystr \<times> 'x list) list \<Rightarrow> 'r list" where
  "all_parts mk topics = concat (map (\<lambda>(t, ps). map (mk t) ps) topics)"

lemma broker_response_parts:
  assumes "broker_response item c topics = Inr data"
  obtains a b where "struct_pack ''>ii'' [c, int (length topics)] = Inr a"
    "encode_topics item topics = Inr b" "suffix_at data 0 (a @ (b @ []))" "data = a @ b"
  using assms by (auto simp: broker_response_def rbind_eq_Inr)

lemma struct_pack_ii:
  "struct_pack ''>ii'' [a, b] = Inr bs \<longleftrightarrow>
     (\<exists>x y. struct_pack ''>i'' [a] = Inr x \<and> struct_pack ''>i'' [b] = Inr y \<and> bs = x @ y)"
  by (auto simp: struct_unfold)

text \<open>
  Decoding a produce response yields one tuple per partition the broker answered for, in its
  order, with the error code and offset the broker wrote, and ends normally.
\<close>

theorem produce_response_roundtrip:
  assumes "broker_response produce_entry c topics = Inr data"
  shows "decode_produce_response data =
    (all_parts (\<lambda>t (p, err, off). \<lparr>prs_topic = t, prs_partition = p, prs_error = err, prs_offset = off\<rparr>) topics,
     Inr (int (length data)))"
proof (rule broker_response_parts [OF assms])
  fix a b
  assume a: "struct_pack ''>ii'' [c, int (length topics)] = Inr a"
    and b: "encode_topics produce_entry topics = Inr b" and s: "suffix_at data 0 (a @ (b @ []))" and d: "data = a @ b"
  from relative_unpack2_at [OF a s] produce_parts.decode_topics_at [OF b suffix_at_advance [OF s]] show ?thesis
    by (simp add: decode_produce_response_def all_parts_def d case_prod_unfold)
qed

theorem produce_response_roundtrip_witness:
  "\<exists>data. broker_response produce_entry 9 [(str_lit ''t'', [(0, 0, 17), (1, 6, - 1)])] = Inr data \<and>
     decode_produce_response data =
       ([\<lparr>prs_topic = str_lit ''t'', prs_partition = 0, prs_error = 0, prs_offset = 17\<rparr>,
         \<lparr>prs_topic = str_lit ''t'', prs_partition = 1, prs_error = 6, prs_offset = - 1\<rparr>], Inr (int (length data)))"
proof -
  have "\<exists>data. broker_response produce_entry 9 [(str_lit ''t'', [(0, 0, 17), (1, 6, - 1)])] = Inr data"
    by (simp add: broker_response_def encode_topics_def encode_topic_def produce_entry_def wire_eval)
  then obtain data where
    "broker_response produce_entry 9 [(str_lit ''t'', [(0, 0, 17), (1, 6, - 1)])] = Inr data" by blast
  from this produce_response_roundtrip [OF this] show ?thesis by (simp add: all_parts_def)
qed

text \<open>How the iterator over a message set ends.\<close>

definition set_end :: "stored list \<Rightarrow> bytes \<Rightarrow> unit result" where
  "set_end ss rest = (if rest \<noteq> [] \<and> log_items ss = [] then Inl ConsumerFetchSizeTooSmall else Inr ())"

lemma fetch_response_decodes:
  assumes "broker_response fetch_entry c topics = Inr data"
    and "\<forall>t ps p err hw ss rest. (t, ps) \<in> set topics \<longrightarrow> (p, err, hw, ss, rest) \<in> set ps \<longrightarrow>
      list_all (stored_ok env) ss \<and> cut_entry rest"
  shows "decode_fetch_response env data =
    (all_parts (\<lambda>t (p, err, hw, ss, rest).
        \<lparr>frs_topic = t, frs_partition = p, frs_error = err, frs_highwaterMark = hw,
         frs_messages = Some (log_items ss, set_end ss rest)\<rparr>) topics,
     Inr (int (length data)))"
proof (rule broker_response_parts [OF assms(1)])
  fix a b
  assume a: "struct_pack ''>ii'' [c, int (length topics)] = Inr a"
    and b: "encode_topics fetch_entry topics = Inr b" and s: "suffix_at data 0 (a @ (b @ []))" and d: "data = a @ b"
  have it: "message_set_iter env (wire_set ss rest) = Some (log_items ss, set_end ss rest)"
    if "(t, ps) \<in> set topics" "(p, err, hw, ss, rest) \<in> set ps" for t ps p err hw ss rest
  proof -
    from cat_map_Inr [OF b [unfolded encode_topics_def] that(1)] obtain b' where "cat (map fetch_entry ps) = Inr b'"
      by (auto simp: encode_topic_def rbind_eq_Inr)
    from cat_map_Inr [OF this that(2)] obtain m where m: "encode_log (map stored_entry ss) = Inr m"
      by (auto simp: fetch_entry_def rbind_eq_Inr)
    have "list_all (stored_ok env) ss" "cut_entry rest" using assms(2) that by blast+
    from log_decodes [OF m this] m show ?thesis by (simp add: wire_set_def message_set_iter_def set_end_def)
  qed
  let ?mk = "\<lambda>t ((p, err, hw), ms). \<lparr>frs_topic = t, frs_partition = p, frs_error = err,
      frs_highwaterMark = hw, frs_messages = message_set_iter env ms\<rparr>"
  let ?view = "\<lambda>(p, err, hw, ss, rest). ((p, err, hw), wire_set ss rest)"
  have "concat (map (\<lambda>(t, ps). map (?mk t) (map ?view ps)) topics) =
      all_parts (\<lambda>t (p, err, hw, ss, rest). \<lparr>frs_topic = t, frs_partition = p, frs_error = err,
        frs_highwaterMark = hw, frs_messages = Some (log_items ss, set_end ss rest)\<rparr>) topics"
    unfolding all_parts_def map_map
    by (intro arg_cong [of _ _ concat] map_cong refl) (auto simp: it)
  then show ?thesis
    using relative_unpack2_at [OF a s] fetch_parts.decode_topics_at [OF b suffix_at_advance [OF s], of ?mk]
    by (simp add: decode_fetch_response_def d)
qed

text \<open>
  C9. Decoding a fetch response yields, per partition in the broker's order, the error code, the high-water mark and an
  iterator over the message set. The iterator yields the messages that the broker sent, uncompressed ones and those in
  messages compressed with gzip or Snappy, in the order and with the offsets of the broker's log; a last entry that the broker cut
  off is left out, and when nothing comes before it the iterator raises \<open>ConsumerFetchSizeTooSmall\<close>.
\<close>

theorem fetch_response_roundtrip:
  assumes "broker_response fetch_entry c topics = Inr data"
    and "\<forall>t ps p err hw ss rest. (t, ps) \<in> set topics \<longrightarrow> (p, err, hw, ss, rest) \<in> set ps \<longrightarrow>
      list_all (stored_ok env) ss \<and> cut_entry rest"
  shows "decode_fetch_response env data =
    (all_parts (\<lambda>t (p, err, hw, ss, rest).
        \<lparr>frs_topic = t, frs_partition = p, frs_error = err, frs_highwaterMark = hw,
         frs_messages = Some (log_items ss,
           if rest \<noteq> [] \<and> log_items ss = [] then Inl ConsumerFetchSizeTooSmall else Inr ())\<rparr>) topics,
     Inr (int (length data)))"
  using fetch_response_decodes [OF assms] by (simp only: set_end_def)

lemma sample_fetch_encodes:
  "\<exists>data. broker_response fetch_entry 9 [(str_lit ''t'', [(0, 0, 50, sample_stored 41 43 44, [])])] = Inr data"
proof -
  obtain ms where ms: "encode_log (map stored_entry (sample_stored 41 43 44)) = Inr ms" "length ms < 200"
    using sample_stored_ok(2) [of 41 43 44] by auto
  then show ?thesis
    by (simp add: broker_response_def encode_topics_def encode_topic_def fetch_entry_def wire_eval)
qed

theorem fetch_response_roundtrip_witness:
  "\<exists>data. broker_response fetch_entry 9 [(str_lit ''t'', [(0, 0, 50, sample_stored 41 43 44, [])])] = Inr data \<and>
     decode_fetch_response marking_env data =
       ([\<lparr>frs_topic = str_lit ''t'', frs_partition = 0, frs_error = 0, frs_highwaterMark = 50,
          frs_messages = Some ([as_item (41, create_message (Some [7]) None), as_item (43, create_message (Some [104, 105]) None),
            as_item (44, create_message None (Some [1]))], Inr ())\<rparr>], Inr (int (length data)))"
proof -
  obtain data where
    d: "broker_response fetch_entry 9 [(str_lit ''t'', [(0, 0, 50, sample_stored 41 43 44, [])])] = Inr data"
    using sample_fetch_encodes by blast
  from d fetch_response_roundtrip [OF d, of marking_env] sample_stored_ok(1) [of 41 43 44] show ?thesis
    by (simp add: all_parts_def cut_entry_def sample_stored_items)
qed

text \<open>
  Decoding an offset fetch response yields, per partition, the committed offset, the metadata
  and the error code the broker wrote.
\<close>

theorem offset_fetch_response_roundtrip:
  assumes "broker_response offset_fetch_entry c topics = Inr data"
  shows "decode_offset_fetch_response data =
    (all_parts (\<lambda>t (p, off, md, err).
       \<lparr>ofs_topic = t, ofs_partition = p, ofs_offset = off, ofs_metadata = md, ofs_error = err\<rparr>) topics,
     Inr (int (length data)))"
proof (rule broker_response_parts [OF assms])
  fix a b
  assume a: "struct_pack ''>ii'' [c, int (length topics)] = Inr a"
    and b: "encode_topics offset_fetch_entry topics = Inr b" and s: "suffix_at data 0 (a @ (b @ []))" and d: "data = a @ b"
  from a obtain x y where x: "struct_pack ''>i'' [c] = Inr x"
    and y: "struct_pack ''>i'' [int (length topics)] = Inr y" and xy: "a = x @ y"
    by (auto simp: struct_pack_ii)
  from s have s1: "suffix_at data 0 (x @ (y @ (b @ [])))" by (simp add: xy)
  from relative_unpack1_at [OF x s1] relative_unpack1_at [OF y suffix_at_advance [OF s1]]
    offset_fetch_parts.decode_topics_at [OF b suffix_at_advance [OF suffix_at_advance [OF s1]]]
  show ?thesis
    by (simp add: decode_offset_fetch_response_def all_parts_def d xy case_prod_unfold add.assoc)
qed

theorem offset_fetch_response_roundtrip_witness:
  "\<exists>data. broker_response offset_fetch_entry 9 [(str_lit ''t'', [(2, 55, None, 0)])] = Inr data \<and>
     decode_offset_fetch_response data =
       ([\<lparr>ofs_topic = str_lit ''t'', ofs_partition = 2, ofs_offset = 55, ofs_metadata = None, ofs_error = 0\<rparr>],
        Inr (int (length data)))"
proof -
  have "\<exists>data. broker_response offset_fetch_entry 9 [(str_lit ''t'', [(2, 55, None, 0)])] = Inr data"
    by (simp add: broker_response_def encode_topics_def encode_topic_def offset_fetch_entry_def
        opt_bytes_def wire_eval)
  then obtain data where
    "broker_response offset_fetch_entry 9 [(str_lit ''t'', [(2, 55, None, 0)])] = Inr data" by blast
  from this offset_fetch_response_roundtrip [OF this] show ?thesis by (simp add: all_parts_def)
qed

lemma offset_response_roundtrip:
  assumes "broker_response offset_entry c topics = Inr data"
  shows "decode_offset_response data =
    (all_parts (\<lambda>t (p, err, offs). \<lparr>ors_topic = t, ors_partition = p, ors_error = err, ors_offsets = offs\<rparr>) topics,
     Inr (int (length data)))"
proof (rule broker_response_parts [OF assms])
  fix a b
  assume a: "struct_pack ''>ii'' [c, int (length topics)] = Inr a"
    and b: "encode_topics offset_entry topics = Inr b" and s: "suffix_at data 0 (a @ (b @ []))" and d: "data = a @ b"
  from relative_unpack2_at [OF a s] offset_parts.decode_topics_at [OF b suffix_at_advance [OF s]] show ?thesis
    by (simp add: decode_offset_response_def all_parts_def d case_prod_unfold)
qed

lemma offset_commit_response_roundtrip:
  assumes "broker_response commit_entry c topics = Inr data"
  shows "decode_offset_commit_response data =
    (all_parts (\<lambda>t (p, err). \<lparr>ocs_topic = t, ocs_partition = p, ocs_error = err\<rparr>) topics,
     Inr (int (length data)))"
proof (rule broker_response_parts [OF assms])
  fix a b
  assume a: "struct_pack ''>ii'' [c, int (length topics)] = Inr a"
    and b: "encode_topics commit_entry topics = Inr b" and s: "suffix_at data 0 (a @ (b @ []))" and d: "data = a @ b"
  from a obtain x y where x: "struct_pack ''>i'' [c] = Inr x"
    and y: "struct_pack ''>i'' [int (length topics)] = Inr y" and xy: "a = x @ y"
    by (auto simp: struct_pack_ii)
  from s have s1: "suffix_at data 0 (x @ (y @ (b @ [])))" by (simp add: xy)
  from relative_unpack1_at [OF x s1] relative_unpack1_at [OF y suffix_at_advance [OF s1]]
    commit_parts.decode_topics_at [OF b suffix_at_advance [OF suffix_at_advance [OF s1]]]
  show ?thesis
    by (simp add: decode_offset_commit_response_def all_parts_def d xy case_prod_unfold add.assoc)
qed

section \<open>Arrays of integers\<close>

definition pack_ints :: "int list \<Rightarrow> bytes result" where
  "pack_ints vs = struct_pack (CHR ''>'' # replicate (length vs) (CHR ''i'')) vs"

lemma struct_codes_ints: "struct_codes (replicate n (CHR ''i'')) = Inr (replicate n (True, 4))"
  by (induction n) (simp_all add: struct_code_def)

lemma unpack_ints_at:
  "pack_ints vs = Inr bs \<Longrightarrow> suffix_at data cur (bs @ rest) \<Longrightarrow>
   unpack_ints (int (length vs)) data cur = Inr (vs, cur + int (length bs))"
  by (simp add: unpack_ints_def fmt_repeat_def pack_ints_def relative_unpack_at)

lemma struct_pack_counted:
  "struct_pack (''>i'' @ replicate (length vs) (CHR ''i'')) (n # vs) = Inr bs \<longleftrightarrow>
     (\<exists>x y. struct_pack ''>i'' [n] = Inr x \<and> pack_ints vs = Inr y \<and> bs = x @ y)"
  by (auto simp: pack_ints_def struct_unfold struct_codes_ints)

section \<open>Metadata responses\<close>

definition broker_entry :: "broker_metadata \<Rightarrow> bytes result" where
  "broker_entry b = cat [struct_pack ''>i'' [bm_node_id b], write_short_ascii (PyStr (bm_host b)),
     struct_pack ''>i'' [bm_port b]]"

interpretation broker_fmt: wire_format broker_entry read_broker
proof
  fix x bs data cur rest
  assume it: "broker_entry x = Inr bs" and s: "suffix_at data cur (bs @ rest)"
  from it obtain a b d where a: "struct_pack ''>i'' [bm_node_id x] = Inr a"
    and b: "write_short_ascii (PyStr (bm_host x)) = Inr b" and d: "struct_pack ''>i'' [bm_port x] = Inr d"
    and bs: "bs = a @ b @ d"
    by (auto simp: broker_entry_def rbind_eq_Inr)
  from s have s1: "suffix_at data cur (a @ (b @ (d @ rest)))" by (simp add: bs)
  note s2 = suffix_at_advance [OF s1] and s3 = suffix_at_advance [OF suffix_at_advance [OF s1]]
  from relative_unpack1_at [OF a s1] short_ascii_fmt.dec_enc [OF b s2] relative_unpack1_at [OF d s3]
  show "read_broker data cur = Inr (x, cur + int (length bs))"
    by (simp add: read_broker_def bs)
qed

text \<open>A partition as the broker describes it: number, error, leader, replicas, in-sync replicas.\<close>

type_synonym wire_partition = "int \<times> int \<times> int \<times> int list \<times> int list"

definition partition_entry :: "wire_partition \<Rightarrow> bytes result" where
  "partition_entry x =
     (case x of (p, err, leader, replicas, isr) \<Rightarrow>
        cat [struct_pack ''>hiii'' [err, p, leader, int (length replicas)], pack_ints replicas,
             struct_pack ''>i'' [int (length isr)], pack_ints isr])"

definition partition_view :: "pystr \<Rightarrow> wire_partition \<Rightarrow> partition_metadata" where
  "partition_view t x =
     (case x of (p, err, leader, replicas, isr) \<Rightarrow>
        \<lparr>pm_topic = t, pm_partition = p, pm_partition_error_code = err, pm_leader = leader,
         pm_replicas = replicas, pm_isr = isr\<rparr>)"

interpretation partition_fmt: wire_view partition_entry "read_partition t" "partition_view t" for t
proof
  fix x bs data cur rest
  assume it: "partition_entry x = Inr bs" and s: "suffix_at data cur (bs @ rest)"
  obtain p err leader replicas isr where x: "x = (p, err, leader, replicas, isr)" by (cases x) auto
  from it obtain a b d e where a: "struct_pack ''>hiii'' [err, p, leader, int (length replicas)] = Inr a"
    and b: "pack_ints replicas = Inr b" and d: "struct_pack ''>i'' [int (length isr)] = Inr d"
    and e: "pack_ints isr = Inr e" and bs: "bs = a @ b @ d @ e"
    by (auto simp: partition_entry_def x rbind_eq_Inr)
  from s have s1: "suffix_at data cur (a @ (b @ (d @ (e @ rest))))" by (simp add: bs)
  note s2 = suffix_at_advance [OF s1]
  note s3 = suffix_at_advance [OF s2]
  note s4 = suffix_at_advance [OF s3]
  from relative_unpack4_at [OF a s1] unpack_ints_at [OF b s2] relative_unpack1_at [OF d s3] unpack_ints_at [OF e s4]
  show "read_partition t data cur = Inr (partition_view t x, cur + int (length bs))"
    by (simp add: read_partition_def partition_view_def x bs add.assoc)
qed

type_synonym wire_topic = "int \<times> pystr \<times> wire_partition list"

definition topic_entry :: "wire_topic \<Rightarrow> bytes result" where
  "topic_entry x =
     (case x of (err, t, ps) \<Rightarrow>
        cat [struct_pack ''>h'' [err], write_short_ascii (PyStr t),
             struct_pack ''>i'' [int (length ps)], cat (map partition_entry ps)])"

definition topic_view :: "wire_topic \<Rightarrow> topic_metadata" where
  "topic_view x =
     (case x of (err, t, ps) \<Rightarrow>
        \<lparr>tm_topic = t, tm_topic_error_code = err,
         tm_partition_metadata = dict_from pm_partition (map (partition_view t) ps)\<rparr>)"

interpretation topic_fmt: wire_view topic_entry read_topic_metadata topic_view
proof
  fix x bs data cur rest
  assume it: "topic_entry x = Inr bs" and s: "suffix_at data cur (bs @ rest)"
  obtain err t ps where x: "x = (err, t, ps)" by (cases x) auto
  from it obtain a b d e where a: "struct_pack ''>h'' [err] = Inr a"
    and b: "write_short_ascii (PyStr t) = Inr b" and d: "struct_pack ''>i'' [int (length ps)] = Inr d"
    and e: "cat (map partition_entry ps) = Inr e" and bs: "bs = a @ b @ d @ e"
    by (auto simp: topic_entry_def x rbind_eq_Inr)
  from s have s1: "suffix_at data cur (a @ (b @ (d @ (e @ rest))))" by (simp add: bs)
  note s2 = suffix_at_advance [OF s1]
  note s3 = suffix_at_advance [OF s2]
  note s4 = suffix_at_advance [OF s3]
  from relative_unpack1_at [OF a s1] short_ascii_fmt.dec_enc [OF b s2] relative_unpack1_at [OF d s3]
    partition_fmt.dec_view_seq [OF e s4]
  show "read_topic_metadata data cur = Inr (topic_view x, cur + int (length bs))"
    by (simp add: read_topic_metadata_def topic_view_def x bs add.assoc)
qed

definition broker_metadata_response :: "int \<Rightarrow> broker_metadata list \<Rightarrow> wire_topic list \<Rightarrow> bytes result" where
  "broker_metadata_response c brokers topics =
     cat [struct_pack ''>ii'' [c, int (length brokers)], cat (map broker_entry brokers),
          struct_pack ''>i'' [int (length topics)], cat (map topic_entry topics)]"

text \<open>A dictionary built in order: distinct keys, and each key has the last value given for it.\<close>

lemma dict_from_foldl:
  "dict_ok d \<Longrightarrow> dict_ok (foldl (\<lambda>d v. dict_set (key v) v d) d vs) \<and>
   dict_get (foldl (\<lambda>d v. dict_set (key v) v d) d vs) k =
     (case find (\<lambda>v. key v = k) (rev vs) of None \<Rightarrow> dict_get d k | Some v \<Rightarrow> Some v)"
proof (induction vs rule: rev_induct)
  case (snoc v vs)
  then show ?case by (auto simp: dict_get_set)
qed simp

lemma dict_from_ok [simp]: "dict_ok (dict_from key vs)"
  by (simp add: dict_from_def dict_from_foldl [THEN conjunct1])

lemma dict_from_get: "dict_get (dict_from key vs) k = find (\<lambda>v. key v = k) (rev vs)"
  using dict_from_foldl [of "[]" key vs k] by (simp add: dict_from_def split: option.splits)

lemma metadata_decode:
  assumes "broker_metadata_response c brokers topics = Inr data"
  shows "decode_metadata_response data =
    (if length brokers > 1024 then Inl InvalidMessageError
     else Inr (dict_from bm_node_id brokers, dict_from tm_topic (map topic_view topics)))"
proof -
  from assms obtain a b d e where a: "struct_pack ''>ii'' [c, int (length brokers)] = Inr a"
    and b: "cat (map broker_entry brokers) = Inr b" and d: "struct_pack ''>i'' [int (length topics)] = Inr d"
    and e: "cat (map topic_entry topics) = Inr e" and data: "data = a @ b @ d @ e"
    by (auto simp: broker_metadata_response_def rbind_eq_Inr)
  have s1: "suffix_at data 0 (a @ (b @ (d @ (e @ []))))" by (simp add: data)
  note s2 = suffix_at_advance [OF s1]
  note s3 = suffix_at_advance [OF s2]
  note s4 = suffix_at_advance [OF s3]
  from relative_unpack2_at [OF a s1] broker_fmt.dec_enc_seq [OF b s2] relative_unpack1_at [OF d s3]
    topic_fmt.dec_view_seq [OF e s4]
  show ?thesis by (simp add: decode_metadata_response_def MAX_BROKERS_def)
qed

text \<open>
  C24. Decoding a metadata response gives the cluster the broker described: a response with up to
  \<open>MAX_BROKERS\<close> brokers decodes to the brokers by node id and the topics by name, with every
  partition's leader, replicas and error code; one with more brokers is refused.
\<close>

theorem metadata_response_roundtrip:
  assumes "broker_metadata_response c brokers topics = Inr data"
  shows "decode_metadata_response data =
    (if length brokers > 1024 then Inl InvalidMessageError
     else Inr (dict_from bm_node_id brokers, dict_from tm_topic (map topic_view topics)))"
  using assms by (rule metadata_decode)

definition sample_metadata :: "bytes result" where
  "sample_metadata = broker_metadata_response 1 [\<lparr>bm_node_id = 7, bm_host = str_lit ''h'', bm_port = 9092\<rparr>]
     [(0, str_lit ''t'', [(0, 0, 7, [7, 8], [7]), (1, 5, - 1, [], [])])]"

lemma sample_metadata_bytes: "\<exists>data. sample_metadata = Inr data"
  by (simp add: sample_metadata_def broker_metadata_response_def broker_entry_def topic_entry_def
      partition_entry_def pack_ints_def wire_eval)

theorem metadata_response_roundtrip_witness:
  "\<exists>data tms. sample_metadata = Inr data \<and>
     decode_metadata_response data =
       Inr ([(7, \<lparr>bm_node_id = 7, bm_host = str_lit ''h'', bm_port = 9092\<rparr>)], [(str_lit ''t'', tms)]) \<and>
     map_option pm_leader (dict_get (tm_partition_metadata tms) 0) = Some 7 \<and>
     map_option pm_partition_error_code (dict_get (tm_partition_metadata tms) 1) = Some 5"
proof -
  obtain data where d: "sample_metadata = Inr data" using sample_metadata_bytes by blast
  from metadata_response_roundtrip [OF d [unfolded sample_metadata_def]] d show ?thesis
    by (intro exI [of _ data] exI) (auto simp: dict_from_def topic_view_def partition_view_def)
qed

section \<open>Consumer group payloads\<close>

lemma join_metadata_decode:
  assumes "encode_join_group_protocol_metadata version subscriptions user_data = Inr data"
  shows "decode_join_group_protocol_metadata data =
    Inr \<lparr>jgm_version = version, jgm_subscriptions = subscriptions, jgm_user_data = user_data\<rparr>"
proof -
  from assms obtain a b d where a: "struct_pack ''>hi'' [version, int (length subscriptions)] = Inr a"
    and b: "cat (map (\<lambda>s. write_short_text (PyStr s)) subscriptions) = Inr b"
    and d: "write_int_string user_data = Inr d" and data: "data = a @ b @ d"
    by (auto simp: encode_join_group_protocol_metadata_def rbind_eq_Inr)
  have s1: "suffix_at data 0 (a @ (b @ (d @ [])))" by (simp add: data)
  note s2 = suffix_at_advance [OF s1] and s3 = suffix_at_advance [OF suffix_at_advance [OF s1]]
  from relative_unpack2_at [OF a s1] short_text_fmt.dec_enc_seq [OF b s2] int_string_fmt.dec_enc [OF d s3]
  show ?thesis by (simp add: decode_join_group_protocol_metadata_def)
qed

text \<open>
  A member's subscription survives the join: what \<open>encode_join_group_protocol_metadata\<close>
  writes, \<open>decode_join_group_protocol_metadata\<close> reads back, for any version, list of topics
  and user data.
\<close>

theorem join_metadata_roundtrip:
  assumes "encode_join_group_protocol_metadata version subscriptions user_data = Inr data"
  shows "decode_join_group_protocol_metadata data =
    Inr \<lparr>jgm_version = version, jgm_subscriptions = subscriptions, jgm_user_data = user_data\<rparr>"
  using assms by (rule join_metadata_decode)

theorem join_metadata_roundtrip_witness:
  "\<exists>data. encode_join_group_protocol_metadata 0 [[97], [0x20AC]] None = Inr data \<and>
     decode_join_group_protocol_metadata data =
       Inr \<lparr>jgm_version = 0, jgm_subscriptions = [[97], [0x20AC]], jgm_user_data = None\<rparr>"
proof -
  have "\<exists>data. encode_join_group_protocol_metadata 0 [[97], [0x20AC]] None = Inr data"
    by (simp add: encode_join_group_protocol_metadata_def wire_eval)
  with join_metadata_roundtrip show ?thesis by blast
qed

interpretation assignment_fmt: wire_format encode_partition_list read_assignment
proof
  fix x bs data cur rest
  assume it: "encode_partition_list x = Inr bs" and s: "suffix_at data cur (bs @ rest)"
  obtain t ps where x: "x = (t, ps)" by force
  from it obtain a n b where a: "write_short_ascii (PyStr t) = Inr a"
    and n: "struct_pack ''>i'' [int (length ps)] = Inr n" and b: "pack_ints ps = Inr b" and bs: "bs = a @ n @ b"
    using struct_pack_counted [of ps "int (length ps)"]
    by (auto simp: encode_partition_list_def x rbind_eq_Inr)
  from s have s1: "suffix_at data cur (a @ (n @ (b @ rest)))" by (simp add: bs)
  note s2 = suffix_at_advance [OF s1] and s3 = suffix_at_advance [OF suffix_at_advance [OF s1]]
  from short_ascii_fmt.dec_enc [OF a s1] relative_unpack1_at [OF n s2] unpack_ints_at [OF b s3]
  show "read_assignment data cur = Inr (x, cur + int (length bs))"
    by (simp add: read_assignment_def x bs add.assoc)
qed

lemma foldl_dict_set_distinct:
  "distinct (dict_keys (d @ ts)) \<Longrightarrow> foldl (\<lambda>d (k, v). dict_set k v d) d ts = d @ ts"
proof (induction ts arbitrary: d)
  case (Cons kv ts)
  obtain k v where kv: "kv = (k, v)" by force
  have "dict_set k v d = d @ [(k, v)]" using Cons.prems by (intro dict_set_new) (auto simp: kv)
  with Cons show ?case by (simp add: kv)
qed simp

lemma struct_pack_hi:
  "struct_pack ''>hi'' [a, b] = Inr bs \<longleftrightarrow>
     (\<exists>x y. struct_pack ''>h'' [a] = Inr x \<and> struct_pack ''>i'' [b] = Inr y \<and> bs = x @ y)"
  by (auto simp: struct_unfold)

lemma assignment_decode_version:
  assumes "encode_sync_group_member_assignment version assignments user_data = Inr data"
    and "dict_ok assignments"
  shows "decode_sync_group_member_assignment data =
    (if version = 0
     then Inr \<lparr>sga_version = 0, sga_assignments = assignments, sga_user_data = user_data\<rparr>
     else Inl ProtocolError)"
proof -
  from assms obtain v n b d where "struct_pack ''>h'' [version] = Inr v"
    "struct_pack ''>i'' [int (length assignments)] = Inr n"
    and b: "cat (map encode_partition_list assignments) = Inr b"
    and d: "write_int_string user_data = Inr d" and data: "data = (v @ n) @ b @ d"
    by (auto simp: encode_sync_group_member_assignment_def rbind_eq_Inr)
  then have a: "struct_pack ''>hi'' [version, int (length assignments)] = Inr (v @ n)"
    by (auto simp: struct_pack_hi)
  have s1: "suffix_at data 0 ((v @ n) @ (b @ (d @ [])))" by (simp add: data)
  note s2 = suffix_at_advance [OF s1] and s3 = suffix_at_advance [OF suffix_at_advance [OF s1]]
  from relative_unpack2_at [OF a s1] assignment_fmt.dec_enc_seq [OF b s2] int_string_fmt.dec_enc [OF d s3]
    foldl_dict_set_distinct [of "[]" assignments] assms(2)
  show ?thesis by (simp add: decode_sync_group_member_assignment_def dict_ok_def)
qed

lemma assignment_decode:
  "encode_sync_group_member_assignment 0 assignments user_data = Inr data \<Longrightarrow> dict_ok assignments \<Longrightarrow>
   decode_sync_group_member_assignment data =
     Inr \<lparr>sga_version = 0, sga_assignments = assignments, sga_user_data = user_data\<rparr>"
  by (simp add: assignment_decode_version)

text \<open>
  A member's assignment survives the sync: the leader's encoding of version 0 decodes to the
  same dictionary of topics and partitions, in the same order; an encoding with any other version
  is refused with \<open>ProtocolError\<close>.
\<close>

theorem assignment_roundtrip:
  assumes "encode_sync_group_member_assignment version assignments user_data = Inr data"
    and "dict_ok assignments"
  shows "decode_sync_group_member_assignment data =
    (if version = 0
     then Inr \<lparr>sga_version = 0, sga_assignments = assignments, sga_user_data = user_data\<rparr>
     else Inl ProtocolError)"
  using assms by (rule assignment_decode_version)

theorem assignment_roundtrip_witness:
  "\<exists>data. encode_sync_group_member_assignment 0 [(str_lit ''t'', [0, 2])] (Some [1]) = Inr data \<and>
     decode_sync_group_member_assignment data =
       Inr \<lparr>sga_version = 0, sga_assignments = [(str_lit ''t'', [0, 2])], sga_user_data = Some [1]\<rparr>"
proof -
  have "\<exists>data. encode_sync_group_member_assignment 0 [(str_lit ''t'', [0, 2])] (Some [1]) = Inr data"
    by (simp add: encode_sync_group_member_assignment_def encode_partition_list_def wire_eval)
  then obtain data where d: "encode_sync_group_member_assignment 0 [(str_lit ''t'', [0, 2])] (Some [1]) = Inr data"
    by blast
  from d assignment_roundtrip [OF d] show ?thesis by (simp add: dict_ok_def)
qed

text \<open>The correlation id of a response is what its first four bytes encode.\<close>

lemma response_correlation_slice:
  "get_response_correlation_id data = Inr c \<longleftrightarrow>
     4 \<le> length data \<and> struct_pack ''>i'' [c] = Inr (py_slice data 0 4)"
proof -
  have cs: "calcsize ''>i'' = Inr 4" by (simp add: calcsize_def parse_fmt_def struct_code_def codes_size_def)
  have "\<exists>v. struct_unpack ''>i'' (py_slice data 0 4) = Inr [v]" if "4 \<le> length data"
    using that by (simp add: py_slice_nonneg struct_unpack_def parse_fmt_def struct_code_def codes_size_def)
  then show ?thesis
    unfolding struct_pack_iff_unpack
    by (cases "4 \<le> length data")
      (auto simp: get_response_correlation_id_def relative_unpack1_def relative_unpack_def cs)
qed

end
