(* ===== verification/Bootstrap_Protocol.thy ===== *)
theory Bootstrap_Protocol
  imports Responses
begin

text \<open>
  \<open>KafkaBootstrapProtocol\<close> in \<open>afkak/_protocol.py\<close>: request and response over one connection,
  matched by the four bytes of the correlation id.

  The state is that of a connection after \<open>connectionMade\<close>: \<open>bp_pending\<close> is \<open>_pending\<close>,
  \<open>None\<close> once the connection is lost. Twisted's \<open>sendString\<close> may raise and is a parameter. The
  deferreds have no canceller, so a cancelled one stays in \<open>_pending\<close> and swallows the first
  result that comes for it; \<open>bp_cancelled\<close> holds those. As in \<open>Broker_Client\<close>, deferreds are
  numbered and the history of effects is part of the state.
\<close>

section \<open>State\<close>

datatype bp_effect =
    BSent nat bytes
  | BFired nat "bytes result"
  | BLose

record bootstrap =
  bp_pending :: "(bytes, nat) dict option"
  bp_failed :: "exn option"
  bp_cancelled :: "nat list"
  bp_next_d :: nat
  bp_log :: "bp_effect list"

definition MAX_LENGTH :: int where "MAX_LENGTH = 2 ^ 31 - 1"

definition bp_connectionMade :: bootstrap where
  "bp_connectionMade = \<lparr>bp_pending = Some [], bp_failed = None, bp_cancelled = [], bp_next_d = 0, bp_log = []\<rparr>"

definition bp_emit :: "bp_effect \<Rightarrow> bootstrap \<Rightarrow> bootstrap" where
  "bp_emit e s = s\<lparr>bp_log := bp_log s @ [e]\<rparr>"

text \<open>\<open>d.callback(x)\<close> and \<open>d.errback(x)\<close>: without effect on a cancelled deferred.\<close>

definition bp_fire :: "nat \<Rightarrow> bytes result \<Rightarrow> bootstrap \<Rightarrow> bootstrap" where
  "bp_fire d x s = (if d \<in> set (bp_cancelled s) then s else bp_emit (BFired d x) s)"

section \<open>Handlers\<close>

definition bp_stringReceived :: "bytes \<Rightarrow> bootstrap \<Rightarrow> bootstrap result" where
  "bp_stringReceived response s =
     (case bp_pending s of
        None \<Rightarrow> Inl AttributeError
      | Some pend \<Rightarrow>
          let correlation_id = py_slice response 0 4
          in case dict_get pend correlation_id of
               None \<Rightarrow> Inr (bp_emit BLose s)
             | Some d \<Rightarrow> Inr (bp_fire d (Inr response) (s\<lparr>bp_pending := Some (dict_del correlation_id pend)\<rparr>)))"

fun fire_all :: "nat list \<Rightarrow> bytes result \<Rightarrow> bootstrap \<Rightarrow> bootstrap" where
  "fire_all [] x s = s"
| "fire_all (d # ds) x s = fire_all ds x (bp_fire d x s)"

definition bp_connectionLost :: "exn \<Rightarrow> bootstrap \<Rightarrow> bootstrap result" where
  "bp_connectionLost reason s =
     (let s' = s\<lparr>bp_failed := Some reason, bp_pending := None\<rparr>
      in case bp_pending s of
           None \<Rightarrow> Inl AttributeError
         | Some pend \<Rightarrow> Inr (fire_all (dict_values pend) (Inl reason) s'))"

definition bp_lengthLimitExceeded :: "bootstrap \<Rightarrow> bootstrap" where
  "bp_lengthLimitExceeded s = bp_emit BLose s"

text \<open>\<open>fail(self._failed)\<close> returns a new deferred that has failed already.\<close>

definition bp_request :: "(bytes \<Rightarrow> exn option) \<Rightarrow> bytes \<Rightarrow> bootstrap \<Rightarrow> (nat \<times> bootstrap) result" where
  "bp_request sendString req s =
     (let d = bp_next_d s; s' = s\<lparr>bp_next_d := Suc d\<rparr>
      in case bp_failed s of
           Some reason \<Rightarrow> Inr (d, bp_emit (BFired d (Inl reason)) s')
         | None \<Rightarrow>
             (case bp_pending s of
                None \<Rightarrow> Inl TypeError
              | Some pend \<Rightarrow>
                  let correlation_id = py_slice req 4 8
                  in if dict_get pend correlation_id \<noteq> None then Inl AssertionError
                     else (case sendString req of
                             Some e \<Rightarrow> Inl e
                           | None \<Rightarrow> Inr (d, bp_emit (BSent d req)
                                       (s'\<lparr>bp_pending := Some (dict_set correlation_id d pend)\<rparr>)))))"

text \<open>A caller cancels a deferred that has not fired.\<close>

definition bp_cancel :: "nat \<Rightarrow> bootstrap \<Rightarrow> bootstrap" where
  "bp_cancel d s = (bp_emit (BFired d (Inl TwistedCancelledError)) s)\<lparr>bp_cancelled := d # bp_cancelled s\<rparr>"

section \<open>Events\<close>

datatype bp_event = BRequest bytes | BCancel nat | BReceived bytes | BLengthLimit | BLost exn

definition bp_open :: "bootstrap \<Rightarrow> nat list" where
  "bp_open s = (case bp_pending s of None \<Rightarrow> [] | Some pend \<Rightarrow> filter (\<lambda>d. d \<notin> set (bp_cancelled s)) (dict_values pend))"

inductive bp_step :: "(bytes \<Rightarrow> exn option) \<Rightarrow> bootstrap \<Rightarrow> bp_event \<Rightarrow> bootstrap \<Rightarrow> bool" for snd_str where
  bp_step_request: "bp_request snd_str req s = Inr (d, s') \<Longrightarrow> bp_step snd_str s (BRequest req) s'"
| bp_step_cancel: "d \<in> set (bp_open s) \<Longrightarrow> bp_step snd_str s (BCancel d) (bp_cancel d s)"
| bp_step_received: "bp_stringReceived data s = Inr s' \<Longrightarrow> bp_step snd_str s (BReceived data) s'"
| bp_step_limit: "bp_pending s \<noteq> None \<Longrightarrow> bp_step snd_str s BLengthLimit (bp_lengthLimitExceeded s)"
| bp_step_lost: "bp_connectionLost reason s = Inr s' \<Longrightarrow> bp_step snd_str s (BLost reason) s'"

inductive_cases bp_stepE: "bp_step snd_str s e s'"

section \<open>The invariant\<close>

fun is_bfire :: "nat \<Rightarrow> bp_effect \<Rightarrow> bool" where
  "is_bfire d (BFired d' r) = (d' = d)"
| "is_bfire d _ = False"

definition bfires :: "nat \<Rightarrow> bp_effect list \<Rightarrow> nat" where
  "bfires d es = length (filter (is_bfire d) es)"

lemma bfires_simps [simp]:
  "bfires d [] = 0" "bfires d (e # es) = (if is_bfire d e then 1 else 0) + bfires d es"
  "bfires d (es @ es') = bfires d es + bfires d es'"
  by (auto simp: bfires_def)

definition bp_inv :: "bootstrap \<Rightarrow> bool" where
  "bp_inv s \<longleftrightarrow>
     (\<forall>pend. bp_pending s = Some pend \<longrightarrow>
        dict_ok pend \<and> distinct (dict_values pend) \<and> (\<forall>d\<in>set (dict_values pend). d < bp_next_d s)) \<and>
     (bp_pending s = None \<longleftrightarrow> bp_failed s \<noteq> None) \<and>
     (\<forall>d\<in>set (bp_cancelled s). d < bp_next_d s) \<and>
     (\<forall>d. bfires d (bp_log s) = (if d < bp_next_d s \<and> d \<notin> set (bp_open s) then 1 else 0))"

lemma bp_inv_init: "bp_inv bp_connectionMade"
  by (simp add: bp_inv_def bp_connectionMade_def bp_open_def)

lemma fire_all_form:
  "fire_all ds x s = s\<lparr>bp_log := bp_log s @ map (\<lambda>d. BFired d x) (filter (\<lambda>d. d \<notin> set (bp_cancelled s)) ds)\<rparr>"
  by (induction ds arbitrary: s) (simp_all add: bp_fire_def bp_emit_def)

lemma bfires_fail: "distinct ds \<Longrightarrow> bfires d (map (\<lambda>d. BFired d x) ds) = (if d \<in> set ds then 1 else 0)"
  by (induction ds) auto

lemma bp_inv_lost:
  assumes "bp_inv s" "bp_connectionLost reason s = Inr s'"
  shows "bp_inv s'"
proof -
  from assms(2) obtain pend where p: "bp_pending s = Some pend"
    by (auto simp: bp_connectionLost_def Let_def split: option.splits)
  let ?ds = "filter (\<lambda>d. d \<notin> set (bp_cancelled s)) (dict_values pend)"
  have s': "s' = s\<lparr>bp_failed := Some reason, bp_pending := None, bp_log := bp_log s @ map (\<lambda>d. BFired d (Inl reason)) ?ds\<rparr>"
    using assms(2) p by (simp add: bp_connectionLost_def fire_all_form)
  have o: "bp_open s = ?ds" by (simp add: bp_open_def p)
  have "distinct ?ds" using assms(1) p by (simp add: bp_inv_def)
  from bfires_fail [OF this] have "bfires d (bp_log s') = (if d < bp_next_d s then 1 else 0)" for d
    using assms(1) p by (auto simp: bp_inv_def s' o)
  moreover have "bp_open s' = []" by (simp add: s' bp_open_def)
  ultimately show ?thesis using assms(1) by (simp add: bp_inv_def s')
qed

lemma bp_inv_received:
  assumes "bp_inv s" "bp_stringReceived data s = Inr s'"
  shows "bp_inv s'"
proof -
  from assms(2) obtain pend where p: "bp_pending s = Some pend"
    by (auto simp: bp_stringReceived_def split: option.splits)
  let ?k = "py_slice data 0 4"
  have ok: "dict_ok pend" and dist: "distinct (dict_values pend)" and lt: "\<forall>d\<in>set (dict_values pend). d < bp_next_d s"
    using assms(1) p by (simp_all add: bp_inv_def)
  show ?thesis
  proof (cases "dict_get pend ?k")
    case None
    then have "s' = bp_emit BLose s" using assms(2) p by (simp add: bp_stringReceived_def Let_def)
    with assms(1) show ?thesis by (simp add: bp_inv_def bp_emit_def bp_open_def)
  next
    case (Some d)
    from dict_get_split [OF ok Some] obtain pre post where sp: "pend = pre @ (?k, d) # post" by blast
    have del: "dict_del ?k pend = pre @ post" using dict_del_mid ok sp by metis
    let ?log = "bp_log s @ (if d \<in> set (bp_cancelled s) then [] else [BFired d (Inr data)])"
    have s': "s' = s\<lparr>bp_pending := Some (pre @ post), bp_log := ?log\<rparr>"
      using assms(2) p Some del by (auto simp: bp_stringReceived_def Let_def bp_fire_def bp_emit_def)
    have dd: "d \<notin> set (dict_values (pre @ post))" "d < bp_next_d s" using dist lt by (auto simp: sp)
    have "bfires x (bp_log s') = (if x < bp_next_d s' \<and> x \<notin> set (bp_open s') then 1 else 0)" for x
      using assms(1) dd p by (auto simp: bp_inv_def s' bp_open_def sp)
    moreover have "dict_ok (pre @ post)" using ok by (auto simp: dict_ok_def sp)
    ultimately show ?thesis using assms(1) dist lt p by (auto simp: bp_inv_def s' sp)
  qed
qed

lemma bp_inv_request:
  assumes "bp_inv s" "bp_request f req s = Inr (d, s')"
  shows "bp_inv s'"
proof (cases "bp_failed s")
  case (Some reason)
  then have "s' = bp_emit (BFired d (Inl reason)) (s\<lparr>bp_next_d := Suc d\<rparr>)" "d = bp_next_d s"
    using assms(2) by (auto simp: bp_request_def Let_def)
  moreover have "bp_pending s = None" using assms(1) Some by (simp add: bp_inv_def)
  ultimately show ?thesis using assms(1) by (auto simp: bp_inv_def bp_emit_def bp_open_def less_Suc_eq)
next
  case None
  let ?k = "py_slice req 4 8"
  from assms(2) None obtain pend where p: "bp_pending s = Some pend" and new: "dict_get pend ?k = None"
    and d: "d = bp_next_d s"
    and s': "s' = bp_emit (BSent d req) (s\<lparr>bp_next_d := Suc d, bp_pending := Some (dict_set ?k d pend)\<rparr>)"
    by (auto simp: bp_request_def Let_def split: option.splits if_splits)
  have app: "dict_set ?k d pend = pend @ [(?k, d)]"
    using new by (intro dict_set_new) (simp add: map_of_eq_None_iff)
  have lt: "\<forall>x\<in>set (dict_values pend). x < d" "\<forall>x\<in>set (bp_cancelled s). x < d"
    using assms(1) p d by (simp_all add: bp_inv_def)
  then have dn: "d \<notin> set (dict_values pend)" "d \<notin> set (bp_cancelled s)" by auto
  have f0: "bfires x (bp_log s) = (if x < d \<and> x \<notin> set (bp_open s) then 1 else 0)" for x
    using assms(1) d by (simp add: bp_inv_def)
  have o: "bp_open s' = bp_open s @ [d]" using dn by (simp add: bp_open_def s' bp_emit_def p app)
  have "bfires x (bp_log s') = (if x < bp_next_d s' \<and> x \<notin> set (bp_open s') then 1 else 0)" for x
    using f0 by (auto simp: o) (auto simp: s' bp_emit_def)
  moreover have "dict_ok (pend @ [(?k, d)]) \<and> distinct (dict_values (pend @ [(?k, d)])) \<and>
      (\<forall>x\<in>set (dict_values (pend @ [(?k, d)])). x < Suc d)"
    using assms(1) p new lt dn by (auto simp: bp_inv_def dict_ok_def map_of_eq_None_iff)
  moreover have "bp_pending s' = Some (pend @ [(?k, d)])" "bp_next_d s' = Suc d"
    "bp_failed s' = None" "bp_cancelled s' = bp_cancelled s"
    using None by (simp_all add: s' bp_emit_def app)
  ultimately show ?thesis using lt(2) by (simp add: bp_inv_def less_Suc_eq)
qed

lemma bp_inv_cancel:
  assumes "bp_inv s" "d \<in> set (bp_open s)"
  shows "bp_inv (bp_cancel d s)"
proof -
  from assms(2) obtain pend where p: "bp_pending s = Some pend" and d: "d \<in> set (dict_values pend)"
    by (cases "bp_pending s") (auto simp: bp_open_def)
  have lt: "d < bp_next_d s" using assms(1) p d by (auto simp: bp_inv_def)
  have f0: "bfires x (bp_log s) = (if x < bp_next_d s \<and> x \<notin> set (bp_open s) then 1 else 0)" for x
    using assms(1) by (simp add: bp_inv_def)
  have o: "set (bp_open (bp_cancel d s)) = set (bp_open s) - {d}"
    by (auto simp: bp_open_def bp_cancel_def bp_emit_def p)
  have "bfires x (bp_log (bp_cancel d s)) =
      (if x < bp_next_d (bp_cancel d s) \<and> x \<notin> set (bp_open (bp_cancel d s)) then 1 else 0)" for x
    using f0 lt assms(2) by (auto simp: o) (auto simp: bp_cancel_def bp_emit_def)
  with assms(1) lt show ?thesis by (simp add: bp_inv_def) (simp add: bp_cancel_def bp_emit_def)
qed

lemma bp_inv_limit: "bp_inv s \<Longrightarrow> bp_inv (bp_lengthLimitExceeded s)"
  by (simp add: bp_inv_def bp_lengthLimitExceeded_def bp_emit_def bp_open_def)

interpretation boot: step_machine "\<lambda>s. s = bp_connectionMade" "bp_step f" bp_inv for f
proof
  fix s
  assume "s = bp_connectionMade"
  then show "bp_inv s" by (simp add: bp_inv_init)
next
  fix s e s'
  assume "bp_inv s" "bp_step f s e s'"
  then show "bp_inv s'"
    by (elim bp_stepE) (auto intro: bp_inv_request bp_inv_cancel bp_inv_received bp_inv_limit bp_inv_lost)
qed

section \<open>Properties\<close>

abbreviation bp_reach :: "(bytes \<Rightarrow> exn option) \<Rightarrow> bootstrap \<Rightarrow> bool" where
  "bp_reach f \<equiv> reach (\<lambda>s. s = bp_connectionMade) (bp_step f)"

text \<open>
  C30. Over a bootstrap connection every deferred handed out fires exactly once, or is still open
  with the connection up: after the connection is lost nothing is left waiting, and later requests
  fail at once.
\<close>

theorem bootstrap_fires_once:
  assumes "bp_reach f s" "d < bp_next_d s"
  shows "bfires d (bp_log s) = (if d \<in> set (bp_open s) then 0 else 1) \<and>
    (bp_failed s \<noteq> None \<longrightarrow> bp_open s = [] \<and>
       (\<exists>reason t. bp_failed s = Some reason \<and> bp_request f req s = Inr (bp_next_d s, t) \<and>
          bp_log t = bp_log s @ [BFired (bp_next_d s) (Inl reason)]))"
proof -
  have inv: "bp_inv s" by (rule boot.reach_invar [OF assms(1)])
  have "bp_failed s \<noteq> None \<Longrightarrow> bp_open s = []" using inv by (auto simp: bp_inv_def bp_open_def)
  with inv assms(2) show ?thesis by (auto simp: bp_inv_def bp_request_def Let_def bp_emit_def)
qed

text \<open>While a request is pending it has the key that it was entered with, and no other.\<close>

lemma request_pending:
  assumes "bp_inv s" "bp_failed s = None" "bp_request f req s = Inr (d, s1)"
  shows "d \<in> set (bp_open s1)" "\<forall>pend k. bp_pending s1 = Some pend \<longrightarrow> (k, d) \<in> set pend \<longrightarrow> k = py_slice req 4 8" "d < bp_next_d s1"
proof -
  let ?k = "py_slice req 4 8"
  from assms(2,3) obtain pend where p: "bp_pending s = Some pend" and new: "dict_get pend ?k = None" and d: "d = bp_next_d s"
    and s1: "s1 = bp_emit (BSent d req) (s\<lparr>bp_next_d := Suc d, bp_pending := Some (dict_set ?k d pend)\<rparr>)"
    by (auto simp: bp_request_def Let_def split: option.splits if_splits)
  have app: "dict_set ?k d pend = pend @ [(?k, d)]" using new by (intro dict_set_new) (simp add: map_of_eq_None_iff)
  have "d \<notin> set (dict_values pend)" "d \<notin> set (bp_cancelled s)" using assms(1) p d by (auto simp: bp_inv_def)
  then show "d \<in> set (bp_open s1)" "\<forall>pend k. bp_pending s1 = Some pend \<longrightarrow> (k, d) \<in> set pend \<longrightarrow> k = ?k" "d < bp_next_d s1"
    by (force simp: s1 bp_emit_def bp_open_def app)+
qed

lemma own_key_step:
  assumes "bp_step f t e u" "\<forall>pend k'. bp_pending t = Some pend \<longrightarrow> (k', d) \<in> set pend \<longrightarrow> k' = k" "d < bp_next_d t"
  shows "(\<forall>pend k'. bp_pending u = Some pend \<longrightarrow> (k', d) \<in> set pend \<longrightarrow> k' = k) \<and> d < bp_next_d u"
  using assms
proof (cases rule: bp_step.cases)
  case (bp_step_request req d')
  have sub: "x \<in> set (dict_set k' v m) \<Longrightarrow> x = (k', v) \<or> x \<in> set m" for x k' v and m :: "(bytes, nat) dict"
    by (induction m) (auto split: if_splits)
  from bp_step_request assms(2,3) show ?thesis
    by (auto simp: bp_request_def Let_def bp_emit_def split: option.splits if_splits dest!: sub)
next
  case (bp_step_received data)
  have sub: "x \<in> set (dict_del k' m) \<Longrightarrow> x \<in> set m" for x k' and m :: "(bytes, nat) dict" by (induction m) (auto split: if_splits)
  from bp_step_received assms(2,3) show ?thesis
    by (auto simp: bp_stringReceived_def Let_def bp_emit_def bp_fire_def split: option.splits if_splits dest!: sub)
qed (auto simp: bp_cancel_def bp_emit_def bp_lengthLimitExceeded_def bp_connectionLost_def fire_all_form Let_def split: option.splits)

lemma own_key:
  assumes "reach (\<lambda>x. x = s1) (bp_step f) t" "bp_inv s1"
    and "\<forall>pend k'. bp_pending s1 = Some pend \<longrightarrow> (k', d) \<in> set pend \<longrightarrow> k' = k" "d < bp_next_d s1"
  shows "bp_inv t \<and> (\<forall>pend k'. bp_pending t = Some pend \<longrightarrow> (k', d) \<in> set pend \<longrightarrow> k' = k) \<and> d < bp_next_d t"
  using assms(1)
proof (induction rule: reach.induct)
  case (reach_step t e u)
  then show ?case using own_key_step boot.invar_step by blast
qed (use assms(2-4) in simp)

lemma open_key:
  assumes "bp_inv t" "\<forall>pend k'. bp_pending t = Some pend \<longrightarrow> (k', d) \<in> set pend \<longrightarrow> k' = k" "d \<in> set (bp_open t)"
  obtains pend where "bp_pending t = Some pend" "dict_get pend k = Some d" "d \<notin> set (bp_cancelled t)"
proof -
  from assms(3) obtain pend k' where p: "bp_pending t = Some pend" "(k', d) \<in> set pend" "d \<notin> set (bp_cancelled t)"
    by (cases "bp_pending t") (auto simp: bp_open_def)
  with assms(2) have "(k, d) \<in> set pend" by blast
  then have "dict_get pend k = Some d" using assms(1) p(1) dict_get_in [of pend] by (simp add: bp_inv_def)
  with p that show thesis by blast
qed

text \<open>A response with other bytes, and every event but a cancellation, a response and the loss of the connection, leaves it pending.\<close>

lemma other_response_pending:
  assumes "bp_pending s = Some pend" "dict_get pend k = Some d" "d \<notin> set (bp_cancelled s)" "py_slice resp 0 4 \<noteq> k" "bp_stringReceived resp s = Inr t"
  shows "d \<in> set (bp_open t)"
proof -
  have m: "(k, d) \<in> set pend" using assms(2) by (rule map_of_SomeD)
  then have "(k, d) \<in> set (dict_del (py_slice resp 0 4) pend)" using assms(4) by (auto simp: AList.delete_eq)
  with m assms(1,3,5) show ?thesis
    by (force simp: bp_stringReceived_def bp_emit_def Let_def bp_open_def bp_fire_def split: option.splits if_splits)
qed

lemma stays_pending:
  assumes "bp_step f t e u" "d \<in> set (bp_open t)" "d \<notin> set (bp_open u)" "bp_pending t = Some pend" "dict_get pend k = Some d"
    "d \<notin> set (bp_cancelled t)"
  shows "e = BCancel d \<or> (\<exists>x. e = BLost x) \<or> (\<exists>data. e = BReceived data \<and> py_slice data 0 4 = k)"
  using assms(1)
proof (cases rule: bp_step.cases)
  case (bp_step_request req d')
  have app: "dict_set j v pend = pend @ [(j, v)]" if "dict_get pend j = None" for j v
    using that by (intro dict_set_new) (simp add: map_of_eq_None_iff)
  have "bp_failed t \<noteq> None \<or> (\<exists>j v. bp_pending u = Some (pend @ [(j, v)]))" "bp_failed t \<noteq> None \<longrightarrow> bp_pending u = Some pend"
    "bp_cancelled u = bp_cancelled t"
    using bp_step_request(2) assms(4) app by (auto simp: bp_request_def Let_def bp_emit_def split: option.splits if_splits)
  moreover have "d \<in> set (dict_values pend)" using map_of_SomeD [OF assms(5)] by force
  ultimately have "d \<in> set (bp_open u)" using assms(6) by (force simp: bp_open_def)
  with assms(3) show ?thesis by blast
next
  case (bp_step_cancel d')
  then show ?thesis using assms(2-4) by (auto simp: bp_cancel_def bp_emit_def bp_open_def)
next
  case (bp_step_received data)
  then show ?thesis using other_response_pending [OF assms(4-6), of data u] assms(3) by blast
qed (use assms(2,3) in \<open>auto simp: bp_lengthLimitExceeded_def bp_emit_def bp_open_def\<close>)

definition boot_one :: bootstrap where
  "boot_one = \<lparr>bp_pending = Some [([0, 0, 0, 9], 0)], bp_failed = None, bp_cancelled = [],
     bp_next_d = 1, bp_log = [BSent 0 [0, 3, 0, 0, 0, 0, 0, 9]]\<rparr>"

lemma boot_one_reach: "bp_reach (\<lambda>_. None) boot_one"
proof -
  have "bp_request (\<lambda>_. None) [0, 3, 0, 0, 0, 0, 0, 9] bp_connectionMade = Inr (0, boot_one)"
    by (simp add: bp_request_def bp_connectionMade_def boot_one_def bp_emit_def py_slice_nonneg)
  then show ?thesis by (blast intro: reach_init reach_step bp_step_request)
qed

theorem bootstrap_fires_once_witness: "bfires 0 (bp_log boot_one) = 0"
  using bootstrap_fires_once [OF boot_one_reach, of 0] by (simp add: boot_one_def bp_open_def)

end
