(* ===== verification/Partitioner.thy ===== *)
theory Partitioner
  imports Wire
begin

unbundle bit_operations_syntax

text \<open>
  The partitioners of \<open>afkak/partitioner.py\<close>: the pure Python MurmurHash2, the round robin
  partitioner (its \<open>itertools.cycle\<close> is the list it cycles over and a position) and the
  hashed partitioner. The C hash of the optional \<open>pyhash\<close> package is a parameter.

  The locale \<open>partition_choice\<close> is what a producer relies on: a choice is one of the offered
  partitions and the partitioner stays usable.
\<close>

section \<open>MurmurHash2\<close>

definition murmur_m :: int where "murmur_m = 0x5bd1e995"
definition murmur_r :: nat where "murmur_r = 24"
definition mod32bits :: int where "mod32bits = 0xffffffff"
definition murmur_seed :: int where "murmur_seed = 0x9747b28c"

definition byte_at :: "bytes \<Rightarrow> nat \<Rightarrow> int" where
  "byte_at a i = uint (a ! i) AND 0xff"

text \<open>One iteration of the loop over four-byte groups.\<close>

definition murmur_body :: "bytes \<Rightarrow> int \<Rightarrow> nat \<Rightarrow> int" where
  "murmur_body byte_array h i =
     (let i4 = i * 4;
          k = byte_at byte_array (i4 + 0) + push_bit 8 (byte_at byte_array (i4 + 1)) +
              (push_bit 16 (byte_at byte_array (i4 + 2)) + push_bit 24 (byte_at byte_array (i4 + 3)));
          k = k AND mod32bits;
          k = k * murmur_m;
          k = k AND mod32bits;
          k = k XOR drop_bit murmur_r (k mod 0x100000000);
          k = k AND mod32bits;
          k = k * murmur_m;
          k = k AND mod32bits;
          h = h * murmur_m;
          h = h AND mod32bits;
          h = h XOR k
      in h AND mod32bits)"

text \<open>The last one to three bytes; \<open>length & ~3\<close> is the index of the first of them.\<close>

definition murmur_tail :: "bytes \<Rightarrow> int \<Rightarrow> int" where
  "murmur_tail byte_array h =
     (let n = length byte_array; base = n - n mod 4; extra_bytes = n mod 4;
          h = (if extra_bytes = 3
               then (h XOR push_bit 16 (byte_at byte_array (base + 2))) AND mod32bits else h);
          h = (if extra_bytes \<ge> 2
               then (h XOR push_bit 8 (byte_at byte_array (base + 1))) AND mod32bits else h)
      in if extra_bytes \<ge> 1
         then (((h XOR byte_at byte_array base) AND mod32bits) * murmur_m) AND mod32bits
         else h)"

definition murmur_final :: "int \<Rightarrow> int" where
  "murmur_final h =
     (let h = h XOR drop_bit 13 (h mod 0x100000000);
          h = h AND mod32bits;
          h = h * murmur_m;
          h = h AND mod32bits;
          h = h XOR drop_bit 15 (h mod 0x100000000)
      in h AND mod32bits)"

definition pure_murmur2 :: "pyobj \<Rightarrow> int \<Rightarrow> int result" where
  "pure_murmur2 arg seed =
     (case arg of
        PyByteArray byte_array \<Rightarrow>
          let len = length byte_array;
              h = seed XOR int len;
              h = foldl (murmur_body byte_array) h [0..<len div 4]
          in Inr (murmur_final (murmur_tail byte_array h))
      | _ \<Rightarrow> Inl TypeError)"

section \<open>The round robin partitioner\<close>

record round_robin =
  rr_partitions :: "int list"
  rr_cycle :: "int list"
  rr_pos :: nat

text \<open>\<open>next\<close> on an \<open>itertools.cycle\<close>.\<close>

definition cycle_next :: "round_robin \<Rightarrow> (int \<times> round_robin) result" where
  "cycle_next p =
     (if rr_cycle p = [] then Inl StopIteration
      else Inr (rr_cycle p ! rr_pos p,
                p\<lparr>rr_pos := (rr_pos p + 1) mod length (rr_cycle p)\<rparr>))"

text \<open>
  \<open>_set_partitions\<close>. The class attribute \<open>randomStart\<close> and the number \<open>randint\<close> draws
  are arguments; \<open>randint(0, -1)\<close> raises.
\<close>

definition rr_set_partitions ::
    "bool \<Rightarrow> nat \<Rightarrow> round_robin \<Rightarrow> int list \<Rightarrow> round_robin result" where
  "rr_set_partitions random_start draw p partitions =
     (if random_start \<and> partitions = [] then Inl ValueError
      else Inr (p\<lparr>rr_partitions := sort partitions,
                  rr_cycle := partitions,
                  rr_pos := (if random_start then draw mod length partitions else 0)\<rparr>))"

definition rr_init :: "bool \<Rightarrow> nat \<Rightarrow> int list \<Rightarrow> round_robin result" where
  "rr_init random_start draw partitions =
     rr_set_partitions random_start draw
       \<lparr>rr_partitions = partitions, rr_cycle = [], rr_pos = 0\<rparr> partitions"

definition rr_partition ::
    "bool \<Rightarrow> nat \<Rightarrow> round_robin \<Rightarrow> pyobj \<Rightarrow> int list \<Rightarrow> (int \<times> round_robin) result" where
  "rr_partition random_start draw p key partitions =
     rbind (if rr_partitions p \<noteq> partitions
            then rr_set_partitions random_start draw p partitions else Inr p)
       cycle_next"

section \<open>The hashed partitioner\<close>

text \<open>
  \<open>_hash\<close>: with the C implementation installed (\<open>Some f\<close>) the key is coerced to bytes and
  given to it, otherwise to a bytearray for \<open>pure_murmur2\<close>.
\<close>

definition hash_key :: "(bytes \<Rightarrow> int) option \<Rightarrow> pyobj \<Rightarrow> int result" where
  "hash_key c_murmur2 key =
     (case c_murmur2 of
        Some f \<Rightarrow>
          (case key of
             PyStr s \<Rightarrow> rbind (utf8_encode s) (\<lambda>b. Inr (f b))
           | PyByteArray b \<Rightarrow> Inr (f b)
           | PyBytes b \<Rightarrow> Inr (f b)
           | _ \<Rightarrow> Inl TypeError)
      | None \<Rightarrow>
          (case key of
             PyStr s \<Rightarrow> rbind (utf8_encode s) (\<lambda>b. pure_murmur2 (PyByteArray b) murmur_seed)
           | PyBytes b \<Rightarrow> pure_murmur2 (PyByteArray b) murmur_seed
           | PyByteArray b \<Rightarrow> pure_murmur2 (PyByteArray b) murmur_seed
           | _ \<Rightarrow> Inl TypeError))"

definition hashed_partition :: "(bytes \<Rightarrow> int) option \<Rightarrow> pyobj \<Rightarrow> int list \<Rightarrow> int result" where
  "hashed_partition c_murmur2 key partitions =
     rbind (hash_key c_murmur2 key) (\<lambda>h.
       if partitions = [] then Inl ZeroDivisionError
       else Inr (partitions ! nat ((h AND 0x7FFFFFFF) mod int (length partitions))))"

section \<open>MurmurHash2 on 32-bit words\<close>

text \<open>
  The published algorithm on machine words, by recursion over the input: every operation
  wraps at 32 bits by itself.
\<close>

type_synonym u32 = "32 word"

definition mm :: u32 where "mm = 0x5bd1e995"

definition mm_mix :: "u32 \<Rightarrow> u32" where
  "mm_mix k = (let k = k * mm; k = k XOR drop_bit 24 k in k * mm)"

fun mm_loop :: "bytes \<Rightarrow> u32 \<Rightarrow> u32" where
  "mm_loop (a # b # c # d # bs) h =
     mm_loop bs (h * mm XOR mm_mix (ucast a + push_bit 8 (ucast b) +
                                    (push_bit 16 (ucast c) + push_bit 24 (ucast d))))"
| "mm_loop [a, b, c] h = (h XOR push_bit 16 (ucast c) XOR push_bit 8 (ucast b) XOR ucast a) * mm"
| "mm_loop [a, b] h = (h XOR push_bit 8 (ucast b) XOR ucast a) * mm"
| "mm_loop [a] h = (h XOR ucast a) * mm"
| "mm_loop [] h = h"

definition murmur2_words :: "bytes \<Rightarrow> u32 \<Rightarrow> u32" where
  "murmur2_words bs seed =
     (let h = mm_loop bs (seed XOR of_nat (length bs));
          h = (h XOR drop_bit 13 h) * mm
      in h XOR drop_bit 15 h)"

text \<open>Masking is reduction modulo the word size, so every step commutes with \<open>word_of_int\<close>.\<close>

lemma mod32bits_mask: "mod32bits = mask 32"
  by (simp add: mod32bits_def mask_eq_exp_minus_1)

lemma and_mod32bits: "x AND mod32bits = take_bit 32 x"
  by (simp add: mod32bits_mask take_bit_eq_mask)

lemma mod_take_bit: "x mod 0x100000000 = take_bit 32 x" for x :: int
  by (simp add: take_bit_eq_mod)

lemma word_take_bit [simp]: "(word_of_int (take_bit 32 x) :: u32) = word_of_int x"
  by (simp add: word_of_int_eq_iff)

lemma word_drop_bit:
  "(word_of_int (drop_bit n (take_bit 32 x)) :: u32) = drop_bit n (word_of_int x)"
  by (rule bit_word_eqI) (auto simp: bit_word_of_int_iff bit_drop_bit_eq bit_take_bit_iff)

lemma word_byte_at [simp]: "(word_of_int (byte_at a i) :: u32) = ucast (a ! i)"
proof -
  have "byte_at a i = take_bit 8 (uint (a ! i))"
    by (simp add: byte_at_def take_bit_eq_mask mask_eq_exp_minus_1)
  also have "\<dots> = uint (a ! i)"
    by (rule take_bit_int_eq_self) (use uint_lt2p [of "a ! i"] in simp_all)
  finally show ?thesis by (simp only: ucast_eq)
qed

lemma word_murmur_m [simp]: "(word_of_int murmur_m :: u32) = mm"
  by (simp add: murmur_m_def mm_def)

lemmas murmur_word_simps =
  and_mod32bits mod_take_bit word_drop_bit of_int_xor_eq of_int_push_bit Let_def

definition chunk_word :: "bytes \<Rightarrow> nat \<Rightarrow> u32" where
  "chunk_word a i =
     ucast (a ! (i * 4 + 0)) + push_bit 8 (ucast (a ! (i * 4 + 1))) +
     (push_bit 16 (ucast (a ! (i * 4 + 2))) + push_bit 24 (ucast (a ! (i * 4 + 3))))"

lemma murmur_body_word:
  "(word_of_int (murmur_body a h i) :: u32) = word_of_int h * mm XOR mm_mix (chunk_word a i)"
  by (simp add: murmur_body_def murmur_word_simps mm_mix_def murmur_r_def chunk_word_def)

lemma murmur_final_word:
  "murmur_final h =
     uint (let h = (word_of_int h XOR drop_bit 13 (word_of_int h)) * mm in h XOR drop_bit 15 h :: u32)"
proof -
  have r: "murmur_final h = uint (word_of_int (murmur_final h) :: u32)"
    by (simp add: murmur_final_def and_mod32bits Let_def uint_word_of_int_eq)
  also have "(word_of_int (murmur_final h) :: u32) =
      (let h = (word_of_int h XOR drop_bit 13 (word_of_int h)) * mm in h XOR drop_bit 15 h)"
    by (simp add: murmur_final_def murmur_word_simps)
  finally show ?thesis .
qed

text \<open>The indexed loop followed by the tail is the recursion over the input.\<close>

lemma murmur_loop_words:
  "(word_of_int (murmur_tail bs (foldl (murmur_body bs) h [0..<length bs div 4])) :: u32) =
     mm_loop bs (word_of_int h)"
proof (induction bs "word_of_int h :: u32" arbitrary: h rule: mm_loop.induct)
  case (1 a b c d bs)
  let ?bs = "a # b # c # d # bs"
  have at: "byte_at ?bs (Suc i * 4 + j) = byte_at bs (i * 4 + j)" for i j
    by (simp add: byte_at_def)
  have shift: "murmur_body ?bs x (Suc i) = murmur_body bs x i" for x i
    by (simp only: murmur_body_def Let_def at)
  have "foldl (murmur_body ?bs) x (map Suc xs) = foldl (murmur_body bs) x xs" for x xs
    by (induction xs arbitrary: x) (simp_all add: shift)
  moreover have "[0..<length ?bs div 4] = 0 # map Suc [0..<length bs div 4]"
  proof -
    have "length ?bs div 4 = Suc (length bs div 4)" by simp
    then show ?thesis by (simp only:) (simp add: upt_conv_Cons map_Suc_upt del: upt_Suc)
  qed
  moreover have "murmur_tail ?bs x = murmur_tail bs x" for x
  proof -
    have l: "length ?bs mod 4 = length bs mod 4" by simp
    have b: "length ?bs - length bs mod 4 = Suc (Suc (Suc (Suc (length bs - length bs mod 4))))"
      by (simp add: Suc_diff_le)
    have at': "byte_at ?bs (Suc (Suc (Suc (Suc k))) + j) = byte_at bs (k + j)"
      "byte_at ?bs (Suc (Suc (Suc (Suc k)))) = byte_at bs k" for k j
      by (simp_all add: byte_at_def)
    show ?thesis by (simp only: murmur_tail_def Let_def l b at')
  qed
  moreover have "(word_of_int (murmur_body ?bs h 0) :: u32) =
      word_of_int h * mm XOR mm_mix (ucast a + push_bit 8 (ucast b) +
        (push_bit 16 (ucast c) + push_bit 24 (ucast d)))"
    by (simp add: murmur_body_word chunk_word_def)
  ultimately show ?case
    using "1.hyps" [of "murmur_body ?bs h 0"] by simp
qed (simp_all add: murmur_tail_def murmur_word_simps xor.assoc)

lemma pure_murmur2_is_murmur2_words:
  "pure_murmur2 (PyByteArray bs) seed = Inr (uint (murmur2_words bs (word_of_int seed)))"
proof -
  have "(word_of_int (seed XOR int (length bs)) :: u32) = word_of_int seed XOR of_nat (length bs)"
    by (simp add: of_int_xor_eq)
  then show ?thesis
    using murmur_loop_words [of bs "seed XOR int (length bs)"]
    by (simp add: pure_murmur2_def murmur_final_word murmur2_words_def Let_def)
qed

section \<open>What a producer relies on\<close>

text \<open>
  A partitioner is used through one operation. Whatever its key and whatever list of
  partitions it is offered, a choice it returns is one of them and leaves it usable.
\<close>

locale partition_choice =
  fixes pick :: "'s \<Rightarrow> pyobj \<Rightarrow> int list \<Rightarrow> (int \<times> 's) result"
    and usable :: "'s \<Rightarrow> bool"
  assumes pick_member: "usable s \<Longrightarrow> pick s key ps = Inr (p, s') \<Longrightarrow> p \<in> set ps"
    and pick_usable: "usable s \<Longrightarrow> pick s key ps = Inr (p, s') \<Longrightarrow> usable s'"
begin

text \<open>A producer that asks for one partition per request, with the list current at the time.\<close>

primrec pick_all :: "'s \<Rightarrow> (pyobj \<times> int list) list \<Rightarrow> (int list \<times> 's) result" where
  "pick_all s [] = Inr ([], s)"
| "pick_all s (r # rs) =
     rbind (pick s (fst r) (snd r)) (\<lambda>(p, s).
       rbind (pick_all s rs) (\<lambda>(ps, s). Inr (p # ps, s)))"

lemma pick_all_members:
  "usable s \<Longrightarrow> pick_all s rs = Inr (ps, s') \<Longrightarrow>
   usable s' \<and> list_all2 (\<lambda>p r. p \<in> set (snd r)) ps rs"
proof (induction rs arbitrary: s ps)
  case (Cons r rs)
  from Cons.prems(2) obtain p s1 ps' where c: "pick s (fst r) (snd r) = Inr (p, s1)"
    and r: "pick_all s1 rs = Inr (ps', s')" and ps: "ps = p # ps'"
    by (auto simp: rbind_eq_Inr)
  from pick_usable [OF Cons.prems(1) c] have "usable s1" .
  from Cons.IH [OF this r] pick_member [OF Cons.prems(1) c] ps show ?case by simp
qed simp

end

text \<open>The round robin state is usable when its cycle is an arrangement of its partitions.\<close>

definition rr_ok :: "round_robin \<Rightarrow> bool" where
  "rr_ok p \<longleftrightarrow> mset (rr_cycle p) = mset (rr_partitions p) \<and>
     sorted (rr_partitions p) \<and> (rr_cycle p \<noteq> [] \<longrightarrow> rr_pos p < length (rr_cycle p))"

lemma rr_set_partitions_ok: "rr_set_partitions rs draw p ps = Inr q \<Longrightarrow> rr_ok q \<and> rr_cycle q = ps"
  by (auto simp: rr_set_partitions_def rr_ok_def split: if_splits)

lemma rr_init_ok: "rr_init rs draw ps = Inr q \<Longrightarrow> rr_ok q"
  by (auto simp: rr_init_def dest: rr_set_partitions_ok)

lemma cycle_next_ok:
  "rr_ok p \<Longrightarrow> cycle_next p = Inr (x, q) \<Longrightarrow> rr_ok q \<and> x \<in> set (rr_cycle p)"
  by (auto simp: cycle_next_def rr_ok_def split: if_splits)

interpretation rr_choice: partition_choice "rr_partition random_start draw" rr_ok
proof
  fix s key ps p s'
  assume ok: "rr_ok s" and r: "rr_partition random_start draw s key ps = Inr (p, s')"
  from r obtain t where t: "t = s \<and> rr_partitions s = ps \<or> rr_set_partitions random_start draw s ps = Inr t"
    and n: "cycle_next t = Inr (p, s')"
    by (auto simp: rr_partition_def rbind_eq_Inr split: if_splits)
  from t ok have ok': "rr_ok t" and "set (rr_cycle t) = set ps"
    by (auto simp: rr_ok_def dest: rr_set_partitions_ok mset_eq_setD)
  with cycle_next_ok [OF ok' n] show "p \<in> set ps" and "rr_ok s'" by simp_all
qed

text \<open>The hashed partitioner keeps no state.\<close>

definition hashed_pick ::
    "(bytes \<Rightarrow> int) option \<Rightarrow> unit \<Rightarrow> pyobj \<Rightarrow> int list \<Rightarrow> (int \<times> unit) result" where
  "hashed_pick c_murmur2 s key ps = rbind (hashed_partition c_murmur2 key ps) (\<lambda>p. Inr (p, s))"

lemma hashed_partition_member: "hashed_partition c key ps = Inr p \<Longrightarrow> p \<in> set ps"
proof -
  assume "hashed_partition c key ps = Inr p"
  then obtain h where ne: "ps \<noteq> []" and p: "p = ps ! nat ((h AND 0x7FFFFFFF) mod int (length ps))"
    by (auto simp: hashed_partition_def rbind_eq_Inr split: if_splits)
  from ne have "nat ((h AND 0x7FFFFFFF) mod int (length ps)) < length ps"
    by (simp add: nat_less_iff)
  with p show ?thesis by simp
qed

interpretation hashed_choice: partition_choice "hashed_pick c_murmur2" "\<lambda>_. True"
  by unfold_locales (auto simp: hashed_pick_def rbind_eq_Inr dest: hashed_partition_member)

section \<open>Round robin is fair on sorted lists and stuck on unsorted ones\<close>

text \<open>The results of successive calls with the same list.\<close>

fun rr_calls ::
    "bool \<Rightarrow> nat \<Rightarrow> nat \<Rightarrow> round_robin \<Rightarrow> pyobj \<Rightarrow> int list \<Rightarrow> (int list \<times> round_robin) result" where
  "rr_calls rs draw 0 p key ps = Inr ([], p)"
| "rr_calls rs draw (Suc n) p key ps =
     rbind (rr_partition rs draw p key ps) (\<lambda>(x, p).
       rbind (rr_calls rs draw n p key ps) (\<lambda>(xs, p). Inr (x # xs, p)))"

definition rr_synced :: "int list \<Rightarrow> round_robin \<Rightarrow> bool" where
  "rr_synced ps p \<longleftrightarrow> rr_partitions p = ps \<and> rr_cycle p = ps \<and> rr_pos p < length ps"

lemma rr_init_synced:
  "sorted ps \<Longrightarrow> ps \<noteq> [] \<Longrightarrow> rr_init rs draw ps = Inr p \<Longrightarrow> rr_synced ps p"
  by (auto simp: rr_init_def rr_set_partitions_def rr_synced_def sorted_sort_id split: if_splits)

lemma rr_calls_cycle:
  "rr_synced ps p \<Longrightarrow>
   \<exists>q. rr_synced ps q \<and> rr_pos q = (rr_pos p + n) mod length ps \<and>
     rr_calls rs draw n p key ps = Inr (map (\<lambda>i. ps ! ((rr_pos p + i) mod length ps)) [0..<n], q)"
proof (induction n arbitrary: p)
  case 0
  then show ?case by (auto simp: rr_synced_def)
next
  case (Suc n)
  define q where "q = p\<lparr>rr_pos := Suc (rr_pos p) mod length ps\<rparr>"
  have step: "rr_partition rs draw p key ps = Inr (ps ! rr_pos p, q)"
    using Suc.prems by (auto simp: rr_partition_def cycle_next_def rr_synced_def q_def)
  have "rr_synced ps q"
    using Suc.prems by (auto simp: rr_synced_def q_def intro!: mod_less_divisor)
  from Suc.IH [OF this] obtain q' where "rr_synced ps q'"
    and "rr_pos q' = (rr_pos q + n) mod length ps"
    and "rr_calls rs draw n q key ps = Inr (map (\<lambda>i. ps ! ((rr_pos q + i) mod length ps)) [0..<n], q')"
    by blast
  moreover have "[0..<Suc n] = 0 # map Suc [0..<n]"
    by (simp add: upt_conv_Cons map_Suc_upt del: upt_Suc)
  ultimately show ?case
    using step Suc.prems by (auto simp: rr_synced_def q_def mod_add_left_eq simp del: upt_Suc)
qed

lemma map_rotate:
  "map (\<lambda>i. ps ! ((k + i) mod length ps)) [0..<length ps] = rotate k ps"
  by (rule nth_equalityI) (simp_all add: nth_rotate)

lemma mset_rotate: "mset (rotate k ps) = mset ps"
  by (simp add: rotate_drop_take) (metis append_take_drop_id mset_append union_commute)

text \<open>
  C40. The pure Python hash, computed on unbounded integers with explicit masks over an indexed
  loop, is MurmurHash2 on 32-bit words for every input and seed; in particular its value is
  that of a 32-bit unsigned word.
\<close>

theorem pure_murmur2_is_murmur2:
  "pure_murmur2 (PyByteArray bs) seed = Inr (uint (murmur2_words bs (word_of_int seed)))"
  by (rule pure_murmur2_is_murmur2_words)

text \<open>
  Without the C extension, the hashed partitioner sends a key to the partition at index
  (31 low bits of the MurmurHash2 of the key's UTF-8 bytes) modulo the number of partitions,
  whether the key is text, bytes or a bytearray; an empty list of partitions raises.
\<close>

theorem hashed_partition_spec:
  assumes "key = PyBytes b \<or> key = PyByteArray b \<or> (\<exists>s. key = PyStr s \<and> utf8_encode s = Inr b)"
  shows "hashed_partition None key ps =
    (if ps = [] then Inl ZeroDivisionError
     else Inr (ps ! (unat (take_bit 31 (murmur2_words b 0x9747b28c)) mod length ps)))"
proof -
  define w where "w = murmur2_words b 0x9747b28c"
  have "pure_murmur2 (PyByteArray b) murmur_seed = Inr (uint w)"
    by (simp add: pure_murmur2_is_murmur2_words murmur_seed_def w_def)
  then have "hash_key None key = Inr (uint w)"
    using assms by (auto simp: hash_key_def)
  moreover have "uint w AND 0x7FFFFFFF = int (unat (take_bit 31 w))"
  proof -
    have "uint w AND 0x7FFFFFFF = take_bit 31 (uint w)"
      by (simp add: take_bit_eq_mask mask_eq_exp_minus_1)
    also have "\<dots> = uint (take_bit 31 w)"
      by (simp add: unsigned_take_bit_eq)
    finally show ?thesis by simp
  qed
  ultimately show ?thesis
    by (simp add: hashed_partition_def w_def [symmetric] nat_mod_distrib)
qed

theorem hashed_partition_spec_witness:
  "hashed_partition None (PyStr (str_lit ''key'')) [7, 8, 9] =
     Inr ([7, 8, 9] ! (unat (take_bit 31 (murmur2_words [107, 101, 121] 0x9747b28c)) mod 3))"
proof -
  have "utf8_encode (str_lit ''key'') = Inr [107, 101, 121]" by code_simp
  then have h: "PyStr (str_lit ''key'') = PyBytes [107, 101, 121] \<or>
      PyStr (str_lit ''key'') = PyByteArray [107, 101, 121] \<or>
      (\<exists>s. PyStr (str_lit ''key'') = PyStr s \<and> utf8_encode s = Inr [107, 101, 121])" by blast
  show ?thesis using hashed_partition_spec [OF h, of "[7, 8, 9]"] by simp
qed



text \<open>
  The comparison in \<open>partition\<close> is against the sorted list while the cycle is over the list
  as given. When the caller's list is not sorted, every call rebuilds the cycle, so with
  \<open>randomStart\<close> unset every call returns the first partition of the list.
\<close>

theorem round_robin_unsorted_stuck:
  assumes "\<not> sorted ps" "sorted (rr_partitions p)"
  shows "\<exists>q. rr_calls False 0 n p key ps = Inr (replicate n (hd ps), q) \<and> sorted (rr_partitions q)"
  using assms(2)
proof (induction n arbitrary: p)
  case (Suc n)
  have ne: "ps \<noteq> []" "rr_partitions p \<noteq> ps" using assms(1) Suc.prems by auto
  then obtain q where step: "rr_partition False 0 p key ps = Inr (hd ps, q)" and q: "sorted (rr_partitions q)"
    by (auto simp: rr_partition_def rr_set_partitions_def cycle_next_def hd_conv_nth)
  from Suc.IH [OF q] step show ?case by auto
qed simp

theorem round_robin_unsorted_stuck_witness:
  "\<exists>q. rr_calls False 0 3 \<lparr>rr_partitions = [1, 2], rr_cycle = [2, 1], rr_pos = 0\<rparr> PyNone [2, 1]
      = Inr ([2, 2, 2], q) \<and> sorted (rr_partitions q)"
  using round_robin_unsorted_stuck
    [of "[2, 1]" "\<lparr>rr_partitions = [1, 2], rr_cycle = [2, 1], rr_pos = 0\<rparr>" 3 PyNone]
  by (simp add: numeral_3_eq_3)

end
