(* ===== verification/Broker_Client.thy ===== *)
theory Broker_Client
  imports Complex_Main Responses
begin

text \<open>
  \<open>_KafkaBrokerClient\<close> in \<open>afkak/brokerclient.py\<close>: the queue of requests to one broker, over
  connections that come and go.

  The state \<open>broker_client\<close> has the attributes of the class; its queue \<open>requests\<close> is the
  ordered dictionary keyed by correlation id. Every handler is a function on that state, and what
  it does to the outside (bytes sent, deferreds fired, connections started or dropped) is appended
  to the history \<open>bc_log\<close>. Deferreds are numbered in the order in which they are handed out.
  Twisted supplies \<open>sendString\<close>, which may raise, and the caller the retry policy: both are
  fields of \<open>broker_env\<close>. A callback that calls the client again does so in a later event.

  The inductive relation \<open>bc_step\<close> says which events can happen: callers may make and cancel
  requests at any time; a connection attempt succeeds or fails once, while it is pending; responses
  and the loss of a connection come from the connection that is up. It is an instance of the locale
  \<open>step_machine\<close>, and the properties are about every state it reaches.
\<close>

section \<open>State\<close>

record request_state =
  rq_correlationId :: int
  rq_request :: bytes
  rq_expectResponse :: bool
  rq_d :: nat
  rq_queued :: rat
  rq_sent :: "rat option"
  rq_cancelled :: "rat option"

text \<open>The deferred in \<open>self.connector\<close>: a connection attempt, the delay before the next one, or one that was cancelled.\<close>

datatype connector = Attempt | Waiting | Dead

datatype bc_effect =
    Sent nat nat bytes
  | Fired nat "bytes option result"
  | LoseConnection nat
  | Connecting pystr int
  | RetryIn rat
  | ConnectorCancelled
  | DownFired

record broker_client =
  bc_node_id :: int
  bc_host :: pystr
  bc_port :: int
  bc_connector :: "connector option"
  bc_proto :: "nat option"
  bc_requests :: "(int, request_state) dict"
  bc_dDown :: "bool option"
  bc_failures :: nat
  bc_next_d :: nat
  bc_log :: "bc_effect list"

record broker_env =
  be_sendString :: "bytes \<Rightarrow> exn option"
  be_retryPolicy :: "nat \<Rightarrow> rat"

definition bc_init :: "broker_metadata \<Rightarrow> broker_client" where
  "bc_init md = \<lparr>bc_node_id = bm_node_id md, bc_host = bm_host md, bc_port = bm_port md,
     bc_connector = None, bc_proto = None, bc_requests = [], bc_dDown = None,
     bc_failures = 0, bc_next_d = 0, bc_log = []\<rparr>"

definition emit :: "bc_effect \<Rightarrow> broker_client \<Rightarrow> broker_client" where
  "emit e s = s\<lparr>bc_log := bc_log s @ [e]\<rparr>"

section \<open>Handlers\<close>

definition bc_updateMetadata :: "broker_metadata \<Rightarrow> broker_client \<Rightarrow> broker_client result" where
  "bc_updateMetadata new s =
     (if bc_node_id s \<noteq> bm_node_id new then Inl ValueError
      else Inr (s\<lparr>bc_node_id := bm_node_id new, bc_host := bm_host new, bc_port := bm_port new\<rparr>))"

definition bc_connected :: "broker_client \<Rightarrow> bool" where
  "bc_connected s \<longleftrightarrow> bc_proto s \<noteq> None"

text \<open>\<open>tryConnect\<close> and \<open>_connect\<close>.\<close>

definition try_connect :: "broker_client \<Rightarrow> broker_client" where
  "try_connect s = emit (Connecting (bc_host s) (bc_port s)) (s\<lparr>bc_connector := Some Attempt\<rparr>)"

definition bc_connect :: "broker_client \<Rightarrow> broker_client" where
  "bc_connect s = try_connect (s\<lparr>bc_failures := 0\<rparr>)"

definition sendRequest :: "broker_env \<Rightarrow> rat \<Rightarrow> nat \<Rightarrow> request_state \<Rightarrow> broker_client \<Rightarrow> broker_client" where
  "sendRequest env now conn tReq s =
     (let s = s\<lparr>bc_requests := dict_set (rq_correlationId tReq) (tReq\<lparr>rq_sent := Some now\<rparr>) (bc_requests s)\<rparr>
      in case be_sendString env (rq_request tReq) of
           Some e \<Rightarrow>
             emit (Fired (rq_d tReq) (Inl e))
               (s\<lparr>bc_requests := dict_del (rq_correlationId tReq) (bc_requests s)\<rparr>)
         | None \<Rightarrow>
             let s = emit (Sent conn (rq_d tReq) (rq_request tReq)) s
             in if \<not> rq_expectResponse tReq then
                  emit (Fired (rq_d tReq) (Inr None))
                    (s\<lparr>bc_requests := dict_del (rq_correlationId tReq) (bc_requests s)\<rparr>)
                else s)"

definition bc_makeRequest ::
    "broker_env \<Rightarrow> rat \<Rightarrow> int \<Rightarrow> bytes \<Rightarrow> bool \<Rightarrow> broker_client \<Rightarrow> (nat \<times> broker_client) result" where
  "bc_makeRequest env now correlationId request expectResponse s =
     (if dict_get (bc_requests s) correlationId \<noteq> None then Inl DuplicateRequestError
      else
        let d = bc_next_d s; s = s\<lparr>bc_next_d := Suc d\<rparr>
        in if bc_dDown s \<noteq> None then Inr (d, emit (Fired d (Inl ClientError)) s)
           else
             let tReq = \<lparr>rq_correlationId = correlationId, rq_request = request,
                         rq_expectResponse = expectResponse, rq_d = d, rq_queued = now,
                         rq_sent = None, rq_cancelled = None\<rparr>;
                 s = s\<lparr>bc_requests := dict_set correlationId tReq (bc_requests s)\<rparr>
             in Inr (d, case bc_proto s of
                          Some conn \<Rightarrow> sendRequest env now conn tReq s
                        | None \<Rightarrow> if bc_connector s = None then bc_connect s else s))"

definition bc_disconnect :: "broker_client \<Rightarrow> broker_client" where
  "bc_disconnect s = (case bc_proto s of None \<Rightarrow> s | Some conn \<Rightarrow> emit (LoseConnection conn) s)"

text \<open>The loop \<open>while self.requests: self.requests.popitem(True)\<close>: the youngest request first.\<close>

definition fail_requests :: "broker_client \<Rightarrow> broker_client" where
  "fail_requests s =
     s\<lparr>bc_requests := [],
       bc_log := bc_log s @ map (\<lambda>r. Fired (rq_d r) (Inl ClientError))
                   (filter (\<lambda>r. rq_cancelled r = None) (rev (dict_values (bc_requests s))))\<rparr>"

definition bc_close :: "broker_client \<Rightarrow> broker_client result" where
  "bc_close s =
     (if bc_dDown s \<noteq> None then Inl AssertionError
      else Inr (fail_requests
        (case bc_proto s of
           Some conn \<Rightarrow> emit (LoseConnection conn) (s\<lparr>bc_dDown := Some False\<rparr>)
         | None \<Rightarrow>
             (case bc_connector s of
                Some _ \<Rightarrow> emit DownFired (emit ConnectorCancelled
                            (s\<lparr>bc_dDown := Some True, bc_connector := Some Dead\<rparr>))
              | None \<Rightarrow> emit DownFired (s\<lparr>bc_dDown := Some True\<rparr>)))))"

definition bc_connectionLost :: "broker_client \<Rightarrow> broker_client" where
  "bc_connectionLost s =
     (let s = s\<lparr>bc_proto := None,
                bc_requests := map (\<lambda>(k, r). (k, r\<lparr>rq_sent := None\<rparr>))
                                 (filter (\<lambda>(k, r). rq_cancelled r = None) (bc_requests s))\<rparr>
      in if bc_dDown s \<noteq> None then emit DownFired (s\<lparr>bc_dDown := Some True\<rparr>)
         else if bc_requests s \<noteq> [] then bc_connect s
         else s)"

definition bc_handleResponse :: "bytes \<Rightarrow> broker_client \<Rightarrow> broker_client result" where
  "bc_handleResponse response s =
     rbind (get_response_correlation_id response) (\<lambda>correlationId.
       case dict_get (bc_requests s) correlationId of
         None \<Rightarrow> Inr s
       | Some tReq \<Rightarrow>
           let s = s\<lparr>bc_requests := dict_del correlationId (bc_requests s)\<rparr>
           in if rq_cancelled tReq \<noteq> None then Inr s
              else Inr (emit (Fired (rq_d tReq) (Inr (Some response))) s))"

fun send_all :: "broker_env \<Rightarrow> rat \<Rightarrow> nat \<Rightarrow> request_state list \<Rightarrow> broker_client \<Rightarrow> broker_client" where
  "send_all env now conn [] s = s"
| "send_all env now conn (tReq # tReqs) s =
     send_all env now conn tReqs (if rq_sent tReq = None then sendRequest env now conn tReq s else s)"

definition sendQueued :: "broker_env \<Rightarrow> rat \<Rightarrow> nat \<Rightarrow> broker_client \<Rightarrow> broker_client" where
  "sendQueued env now conn s = send_all env now conn (dict_values (bc_requests s)) s"

definition cancelRequest :: "rat \<Rightarrow> int \<Rightarrow> broker_client \<Rightarrow> broker_client result" where
  "cancelRequest now correlationId s =
     (case dict_get (bc_requests s) correlationId of
        None \<Rightarrow> Inl KeyError
      | Some tReq \<Rightarrow>
          if rq_sent tReq \<noteq> None then
            Inr (s\<lparr>bc_requests := dict_set correlationId (tReq\<lparr>rq_cancelled := Some now\<rparr>) (bc_requests s)\<rparr>)
          else Inr (s\<lparr>bc_requests := dict_del correlationId (bc_requests s)\<rparr>))"

definition abortRequest :: "int \<Rightarrow> exn \<Rightarrow> broker_client \<Rightarrow> broker_client result" where
  "abortRequest correlationId reason s =
     (case dict_get (bc_requests s) correlationId of
        None \<Rightarrow> Inl KeyError
      | Some tReq \<Rightarrow> Inr (emit (Fired (rq_d tReq) (Inl reason))
                          (s\<lparr>bc_requests := dict_del correlationId (bc_requests s)\<rparr>)))"

text \<open>The callbacks inside \<open>_connect\<close>.\<close>

definition cbConnect :: "broker_env \<Rightarrow> rat \<Rightarrow> nat \<Rightarrow> broker_client \<Rightarrow> broker_client" where
  "cbConnect env now conn s =
     (let s = s\<lparr>bc_failures := 0, bc_connector := None, bc_proto := Some conn\<rparr>
      in if bc_dDown s \<noteq> None then emit (LoseConnection conn) s else sendQueued env now conn s)"

definition ebConnect :: "broker_env \<Rightarrow> broker_client \<Rightarrow> broker_client" where
  "ebConnect env s =
     (if bc_dDown s \<noteq> None then s
      else let n = Suc (bc_failures s)
           in emit (RetryIn (be_retryPolicy env n)) (s\<lparr>bc_failures := n, bc_connector := Some Waiting\<rparr>))"

definition cbDelayed :: "broker_client \<Rightarrow> broker_client" where
  "cbDelayed s = try_connect s"

text \<open>
  \<open>d.cancel()\<close> on a deferred that has not fired: the canceller runs, and since it does not
  fire the deferred, Twisted fails it with \<open>CancelledError\<close>.
\<close>

definition cancel_deferred :: "rat \<Rightarrow> request_state \<Rightarrow> broker_client \<Rightarrow> broker_client result" where
  "cancel_deferred now r s =
     rbind (cancelRequest now (rq_correlationId r) s)
       (\<lambda>s. Inr (emit (Fired (rq_d r) (Inl TwistedCancelledError)) s))"

section \<open>Events\<close>

datatype bc_event =
    MakeRequest rat int bytes bool
  | CancelDeferred rat nat
  | UpdateMetadata broker_metadata
  | Disconnect
  | Close
  | ConnectOk rat nat
  | ConnectFail
  | RetryTimer
  | ConnectionLost
  | Response bytes

inductive bc_step :: "broker_env \<Rightarrow> broker_client \<Rightarrow> bc_event \<Rightarrow> broker_client \<Rightarrow> bool" for env where
  step_make: "bc_makeRequest env now c req ex s = Inr (d, s') \<Longrightarrow> bc_step env s (MakeRequest now c req ex) s'"
| step_cancel: "(k, r) \<in> set (bc_requests s) \<Longrightarrow> rq_cancelled r = None \<Longrightarrow>
    cancel_deferred now r s = Inr s' \<Longrightarrow> bc_step env s (CancelDeferred now (rq_d r)) s'"
| step_update: "bc_updateMetadata md s = Inr s' \<Longrightarrow> bc_step env s (UpdateMetadata md) s'"
| step_disconnect: "bc_step env s Disconnect (bc_disconnect s)"
| step_close: "bc_close s = Inr s' \<Longrightarrow> bc_step env s Close s'"
| step_connected: "bc_connector s = Some Attempt \<Longrightarrow> (\<forall>d b. Sent conn d b \<notin> set (bc_log s)) \<Longrightarrow>
    bc_step env s (ConnectOk now conn) (cbConnect env now conn s)"
| step_failed: "bc_connector s = Some Attempt \<Longrightarrow> bc_step env s ConnectFail (ebConnect env s)"
| step_timer: "bc_connector s = Some Waiting \<Longrightarrow> bc_step env s RetryTimer (cbDelayed s)"
| step_lost: "bc_proto s \<noteq> None \<Longrightarrow> bc_step env s ConnectionLost (bc_connectionLost s)"
| step_response: "bc_proto s \<noteq> None \<Longrightarrow> bc_handleResponse data s = Inr s' \<Longrightarrow> bc_step env s (Response data) s'"

inductive_cases bc_stepE: "bc_step env s e s'"

section \<open>The queue as a list\<close>

text \<open>What sending one request does.\<close>

definition send_effects :: "broker_env \<Rightarrow> nat \<Rightarrow> request_state \<Rightarrow> bc_effect list" where
  "send_effects env conn r =
     (case be_sendString env (rq_request r) of
        Some e \<Rightarrow> [Fired (rq_d r) (Inl e)]
      | None \<Rightarrow> Sent conn (rq_d r) (rq_request r) #
                 (if rq_expectResponse r then [] else [Fired (rq_d r) (Inr None)]))"

definition stays :: "broker_env \<Rightarrow> request_state \<Rightarrow> bool" where
  "stays env r \<longleftrightarrow> be_sendString env (rq_request r) = None \<and> rq_expectResponse r"

lemma sendRequest_mid:
  assumes "bc_requests s = pre @ (rq_correlationId r, r) # post" "dict_ok (bc_requests s)"
  shows "sendRequest env now conn r s =
    s\<lparr>bc_requests := pre @ (if stays env r then [(rq_correlationId r, r\<lparr>rq_sent := Some now\<rparr>)] else []) @ post,
      bc_log := bc_log s @ send_effects env conn r\<rparr>"
proof -
  let ?k = "rq_correlationId r"
  have k: "?k \<notin> set (dict_keys pre)" using assms by (auto simp: dict_ok_def)
  have "dict_ok (pre @ (?k, r\<lparr>rq_sent := Some now\<rparr>) # post)" using assms by (simp add: dict_ok_def)
  note del = dict_del_mid [OF this]
  show ?thesis
    by (simp add: sendRequest_def assms(1) dict_set_mid [OF k] del emit_def Let_def send_effects_def stays_def
        split: option.splits)
qed

definition sent_queue ::
    "broker_env \<Rightarrow> rat \<Rightarrow> (int, request_state) dict \<Rightarrow> (int, request_state) dict" where
  "sent_queue env now q =
     map (\<lambda>(k, r). (k, r\<lparr>rq_sent := Some now\<rparr>)) (filter (\<lambda>(k, r). stays env r) q)"

lemma send_all_queue:
  assumes "bc_requests s = pre @ q" "dict_ok (bc_requests s)"
    and "\<forall>(k, r)\<in>set q. rq_correlationId r = k \<and> rq_sent r = None"
  shows "send_all env now conn (dict_values q) s =
    s\<lparr>bc_requests := pre @ sent_queue env now q,
      bc_log := bc_log s @ concat (map (send_effects env conn) (dict_values q))\<rparr>"
  using assms
proof (induction q arbitrary: s pre)
  case Nil
  then show ?case by (simp add: sent_queue_def)
next
  case (Cons x q)
  obtain k r where x: "x = (k, r)" by force
  then have k: "rq_correlationId r = k" "rq_sent r = None" using Cons.prems(3) by auto
  let ?pre = "pre @ (if stays env r then [(k, r\<lparr>rq_sent := Some now\<rparr>)] else [])"
  let ?s = "s\<lparr>bc_requests := ?pre @ q, bc_log := bc_log s @ send_effects env conn r\<rparr>"
  have "sendRequest env now conn r s = ?s"
    using sendRequest_mid [of s pre r q env now conn] Cons.prems(1,2) by (simp add: x k)
  moreover have "dict_ok (?pre @ q)" using Cons.prems(1,2) by (auto simp: dict_ok_def x)
  ultimately show ?case
    using Cons.IH [of ?s ?pre] Cons.prems(3) by (simp add: x k sent_queue_def)
qed

section \<open>The invariant\<close>

fun is_fire :: "nat \<Rightarrow> bc_effect \<Rightarrow> bool" where
  "is_fire d (Fired d' r) = (d' = d)"
| "is_fire d _ = False"

definition fires :: "nat \<Rightarrow> bc_effect list \<Rightarrow> nat" where
  "fires d es = length (filter (is_fire d) es)"

fun is_send :: "nat \<Rightarrow> nat \<Rightarrow> bc_effect \<Rightarrow> bool" where
  "is_send c d (Sent c' d' b) = (c' = c \<and> d' = d)"
| "is_send c d _ = False"

definition sends :: "nat \<Rightarrow> nat \<Rightarrow> bc_effect list \<Rightarrow> nat" where
  "sends c d es = length (filter (is_send c d) es)"

definition downs :: "bc_effect list \<Rightarrow> nat" where
  "downs es = length (filter ((=) DownFired) es)"

lemma log_simps [simp]:
  "fires d [] = 0" "fires d (e # es) = (if is_fire d e then 1 else 0) + fires d es"
  "fires d (es @ es') = fires d es + fires d es'"
  "sends c d [] = 0" "sends c d (e # es) = (if is_send c d e then 1 else 0) + sends c d es"
  "sends c d (es @ es') = sends c d es + sends c d es'"
  "downs [] = 0" "downs (e # es) = (if e = DownFired then 1 else 0) + downs es"
  "downs (es @ es') = downs es + downs es'"
  by (auto simp: fires_def sends_def downs_def)

text \<open>The deferreds that wait for an answer.\<close>

definition pending :: "(int, request_state) dict \<Rightarrow> nat set" where
  "pending q = {rq_d r |k r. (k, r) \<in> set q \<and> rq_cancelled r = None}"

lemma pending_simps [simp]:
  "pending [] = {}"
  "pending ((k, r) # q) = (if rq_cancelled r = None then insert (rq_d r) (pending q) else pending q)"
  "pending (q @ q') = pending q \<union> pending q'"
  by (auto simp: pending_def)

definition queue_ok :: "broker_client \<Rightarrow> bool" where
  "queue_ok s \<longleftrightarrow> dict_ok (bc_requests s) \<and>
     sorted_wrt (<) (map (rq_d \<circ> snd) (bc_requests s)) \<and>
     (\<forall>(k, r)\<in>set (bc_requests s). rq_correlationId r = k \<and> rq_d r < bc_next_d s \<and>
        (rq_sent r = None \<longleftrightarrow> bc_proto s = None) \<and>
        (rq_cancelled r \<noteq> None \<longrightarrow> rq_sent r \<noteq> None))"

text \<open>Each deferred has fired once, unless it is pending.\<close>

definition fires_ok :: "broker_client \<Rightarrow> bool" where
  "fires_ok s \<longleftrightarrow>
     (\<forall>d. fires d (bc_log s) = (if d < bc_next_d s \<and> d \<notin> pending (bc_requests s) then 1 else 0))"

definition sends_ok :: "broker_client \<Rightarrow> bool" where
  "sends_ok s \<longleftrightarrow> (\<forall>c d. sends c d (bc_log s) \<le> 1 \<and> (bc_next_d s \<le> d \<longrightarrow> sends c d (bc_log s) = 0))"

text \<open>A waiting request has a connection, or one is under way; a closed client has no requests.\<close>

definition conn_ok :: "broker_client \<Rightarrow> bool" where
  "conn_ok s \<longleftrightarrow>
     (bc_requests s \<noteq> [] \<longrightarrow> bc_dDown s = None \<and>
        (bc_proto s \<noteq> None \<or> bc_connector s = Some Attempt \<or> bc_connector s = Some Waiting)) \<and>
     (bc_proto s \<noteq> None \<longrightarrow> bc_connector s = None) \<and>
     (bc_connector s = Some Dead \<longleftrightarrow> bc_dDown s \<noteq> None \<and> bc_connector s \<noteq> None) \<and>
     (bc_dDown s = Some False \<longrightarrow> bc_proto s \<noteq> None) \<and>
     (bc_dDown s = Some True \<longrightarrow> bc_proto s = None) \<and>
     downs (bc_log s) = (if bc_dDown s = Some True then 1 else 0)"

definition bc_inv :: "broker_client \<Rightarrow> bool" where
  "bc_inv s \<longleftrightarrow> queue_ok s \<and> fires_ok s \<and> sends_ok s \<and> conn_ok s"

lemmas bc_inv_defs = bc_inv_def queue_ok_def fires_ok_def sends_ok_def conn_ok_def

lemma bc_inv_init: "bc_inv (bc_init md)"
  by (simp add: bc_inv_defs bc_init_def)

text \<open>Handlers that touch neither the queue nor a deferred.\<close>

lemma bc_inv_frame:
  assumes "bc_inv s" "bc_requests s' = bc_requests s" "bc_next_d s' = bc_next_d s" "bc_proto s' = bc_proto s"
    and "bc_log s' = bc_log s @ es" "\<And>d. fires d es = 0" "\<And>c d. sends c d es = 0" "conn_ok s'"
  shows "bc_inv s'"
  using assms by (simp add: bc_inv_def queue_ok_def fires_ok_def sends_ok_def)

lemma bc_inv_conn: "bc_inv s \<Longrightarrow> conn_ok s"
  by (simp add: bc_inv_def)

lemma bc_inv_update:
  assumes "bc_inv s" "bc_updateMetadata md s = Inr s'"
  shows "bc_inv s'"
proof -
  from assms(2) have "s' = s\<lparr>bc_node_id := bm_node_id md, bc_host := bm_host md, bc_port := bm_port md\<rparr>"
    by (simp add: bc_updateMetadata_def split: if_splits)
  with assms(1) show ?thesis by (simp add: bc_inv_defs)
qed

lemma bc_inv_disconnect:
  assumes "bc_inv s"
  shows "bc_inv (bc_disconnect s)"
proof (cases "bc_proto s")
  case (Some c)
  show ?thesis
    by (rule bc_inv_frame [OF assms, of _ "[LoseConnection c]"])
      (use Some bc_inv_conn [OF assms] in \<open>auto simp: bc_disconnect_def emit_def conn_ok_def\<close>)
qed (use assms in \<open>simp add: bc_disconnect_def\<close>)

lemma bc_inv_failed:
  assumes "bc_inv s" "bc_connector s = Some Attempt"
  shows "bc_inv (ebConnect env s)"
  by (rule bc_inv_frame [OF assms(1), of _ "[RetryIn (be_retryPolicy env (Suc (bc_failures s)))]"])
    (use assms(2) bc_inv_conn [OF assms(1)] in \<open>auto simp: ebConnect_def emit_def Let_def conn_ok_def\<close>)

lemma bc_inv_timer:
  assumes "bc_inv s" "bc_connector s = Some Waiting"
  shows "bc_inv (cbDelayed s)"
  by (rule bc_inv_frame [OF assms(1), of _ "[Connecting (bc_host s) (bc_port s)]"])
    (use assms(2) bc_inv_conn [OF assms(1)] in \<open>auto simp: cbDelayed_def try_connect_def emit_def conn_ok_def\<close>)

text \<open>An entry is taken out of the queue, and its deferred fires unless it was cancelled before.\<close>

lemma queue_ok_remove:
  "queue_ok s \<Longrightarrow> bc_requests s = pre @ (k, r) # post \<Longrightarrow> queue_ok (s\<lparr>bc_requests := pre @ post\<rparr>)"
  by (auto simp: queue_ok_def dict_ok_def sorted_wrt_append)

lemma queue_ok_fresh:
  assumes "queue_ok s" "bc_requests s = pre @ (k, r) # post"
  shows "rq_d r \<notin> pending (pre @ post)" "rq_d r < bc_next_d s"
  using assms by (force simp: queue_ok_def pending_def sorted_wrt_append)+

lemma bc_inv_remove:
  assumes "bc_inv s" "bc_requests s = pre @ (k, r) # post"
  shows "rq_cancelled r = None \<Longrightarrow> bc_inv (emit (Fired (rq_d r) x) (s\<lparr>bc_requests := pre @ post\<rparr>))"
    and "rq_cancelled r \<noteq> None \<Longrightarrow> bc_inv (s\<lparr>bc_requests := pre @ post\<rparr>)"
  using queue_ok_fresh [of s pre k r post] queue_ok_remove [of s pre k r post] assms
  by (auto simp: bc_inv_def emit_def fires_ok_def sends_ok_def conn_ok_def queue_ok_def)

lemma bc_inv_response:
  assumes "bc_inv s" "bc_handleResponse data s = Inr s'"
  shows "bc_inv s'"
proof -
  from assms(2) obtain c where "get_response_correlation_id data = Inr c"
    by (auto simp: bc_handleResponse_def rbind_eq_Inr)
  with assms(2) have s': "s' = (case dict_get (bc_requests s) c of None \<Rightarrow> s | Some r \<Rightarrow>
      if rq_cancelled r \<noteq> None then s\<lparr>bc_requests := dict_del c (bc_requests s)\<rparr>
      else emit (Fired (rq_d r) (Inr (Some data))) (s\<lparr>bc_requests := dict_del c (bc_requests s)\<rparr>))"
    by (auto simp: bc_handleResponse_def Let_def split: option.splits if_splits)
  have ok: "dict_ok (bc_requests s)" using assms(1) by (simp add: bc_inv_def queue_ok_def)
  show ?thesis
  proof (cases "dict_get (bc_requests s) c")
    case None
    with s' assms(1) show ?thesis by simp
  next
    case (Some r)
    from dict_get_split [OF ok Some] obtain pre post where q: "bc_requests s = pre @ (c, r) # post" by blast
    then have "dict_del c (bc_requests s) = pre @ post" using dict_del_mid ok by metis
    then show ?thesis using s' Some bc_inv_remove [OF assms(1) q] by (auto split: if_splits)
  qed
qed

lemma bc_inv_cancel:
  assumes "bc_inv s" "(k, r) \<in> set (bc_requests s)" "rq_cancelled r = None" "cancel_deferred now r s = Inr s'"
  shows "bc_inv s'"
proof -
  have q: "queue_ok s" using assms(1) by (simp add: bc_inv_def)
  then have ok: "dict_ok (bc_requests s)" and kr: "rq_correlationId r = k"
    using assms(2) by (auto simp: queue_ok_def)
  from assms(2) ok have get: "dict_get (bc_requests s) k = Some r" by (simp add: dict_get_in)
  from dict_get_split [OF ok get] obtain pre post
    where sp: "bc_requests s = pre @ (k, r) # post" and k: "k \<notin> set (dict_keys pre)" by blast
  have del: "dict_del k (bc_requests s) = pre @ post" using dict_del_mid ok sp by metis
  show ?thesis
  proof (cases "rq_sent r")
    case None
    then have "s' = emit (Fired (rq_d r) (Inl TwistedCancelledError)) (s\<lparr>bc_requests := pre @ post\<rparr>)"
      using assms(4) del by (simp add: cancel_deferred_def cancelRequest_def kr get)
    with bc_inv_remove(1) [OF assms(1) sp assms(3)] show ?thesis by simp
  next
    case (Some t)
    let ?q = "pre @ (k, r\<lparr>rq_cancelled := Some now\<rparr>) # post"
    have s': "s' = emit (Fired (rq_d r) (Inl TwistedCancelledError)) (s\<lparr>bc_requests := ?q\<rparr>)"
      using assms(4) Some get dict_set_mid [OF k, of _ r post] by (simp add: cancel_deferred_def cancelRequest_def kr sp)
    have "queue_ok (s\<lparr>bc_requests := ?q\<rparr>)" using q Some by (auto simp: queue_ok_def dict_ok_def sp)
    then have "queue_ok s'" by (simp add: s' emit_def queue_ok_def)
    moreover have "fires_ok s'" "sends_ok s'"
      using assms(1,3) queue_ok_fresh [OF q sp] by (auto simp: s' emit_def bc_inv_def fires_ok_def sends_ok_def sp)
    moreover have "conn_ok s'" using bc_inv_conn [OF assms(1)] by (simp add: s' emit_def conn_ok_def sp)
    ultimately show ?thesis by (simp add: bc_inv_def)
  qed
qed

text \<open>Losing the connection drops the cancelled requests and keeps the others, unsent, in order.\<close>

definition unsent_queue :: "(int, request_state) dict \<Rightarrow> (int, request_state) dict" where
  "unsent_queue q = map (\<lambda>(k, r). (k, r\<lparr>rq_sent := None\<rparr>)) (filter (\<lambda>(k, r). rq_cancelled r = None) q)"

lemma unsent_queue_simps [simp]:
  "unsent_queue [] = []"
  "unsent_queue ((k, r) # q) =
     (if rq_cancelled r = None then [(k, r\<lparr>rq_sent := None\<rparr>)] else []) @ unsent_queue q"
  by (simp_all add: unsent_queue_def)

lemma pending_unsent: "pending (unsent_queue q) = pending q"
proof (induction q)
  case (Cons x q)
  then show ?case by (cases x) simp
qed simp

lemma queue_ok_unsent:
  assumes "queue_ok s"
  shows "queue_ok (s\<lparr>bc_proto := None, bc_requests := unsent_queue (bc_requests s)\<rparr>)"
proof -
  have keys: "dict_keys (unsent_queue q) = dict_keys (filter (\<lambda>(k, r). rq_cancelled r = None) q)" for q
    by (induction q) (auto simp: unsent_queue_def)
  have ds: "map (rq_d \<circ> snd) (unsent_queue q) = map (rq_d \<circ> snd) (filter (\<lambda>(k, r). rq_cancelled r = None) q)" for q
    by (induction q) (auto simp: unsent_queue_def)
  have "sorted_wrt (<) (map f (filter P q))" if "sorted_wrt (<) (map f q)" for f :: "_ \<Rightarrow> nat" and P q
    using that by (induction q) auto
  with assms show ?thesis
    by (auto simp: queue_ok_def dict_ok_def keys ds distinct_map_filter) (auto simp: unsent_queue_def)
qed

lemma bc_inv_lost:
  assumes "bc_inv s" "bc_proto s \<noteq> None"
  shows "bc_inv (bc_connectionLost s)"
proof -
  let ?q = "unsent_queue (bc_requests s)"
  let ?s = "s\<lparr>bc_proto := None, bc_requests := ?q\<rparr>"
  have q: "queue_ok ?s" using assms(1) by (simp add: bc_inv_def queue_ok_unsent)
  have f: "fires_ok ?s" "sends_ok ?s" using assms(1) by (simp_all add: bc_inv_def fires_ok_def sends_ok_def pending_unsent)
  have c: "conn_ok s" by (rule bc_inv_conn [OF assms(1)])
  consider (closing) "bc_dDown s \<noteq> None" | (again) "bc_dDown s = None" "?q \<noteq> []" | (idle) "bc_dDown s = None" "?q = []"
    by blast
  then show ?thesis
  proof cases
    case closing
    then have e: "bc_connectionLost s = emit DownFired (?s\<lparr>bc_dDown := Some True\<rparr>)"
      by (simp add: bc_connectionLost_def unsent_queue_def Let_def)
    have "bc_requests s = []" "bc_dDown s = Some False" "bc_connector s = None"
      using closing c assms(2) by (auto simp: conn_ok_def)
    with q f c show ?thesis
      by (simp add: e emit_def bc_inv_def queue_ok_def fires_ok_def sends_ok_def conn_ok_def unsent_queue_def)
  next
    case again
    then have e: "bc_connectionLost s = bc_connect ?s"
      by (simp add: bc_connectionLost_def unsent_queue_def Let_def)
    with q f c again show ?thesis
      by (simp add: e bc_connect_def try_connect_def emit_def bc_inv_def queue_ok_def fires_ok_def sends_ok_def conn_ok_def)
  next
    case idle
    then have e: "bc_connectionLost s = ?s" by (simp add: bc_connectionLost_def unsent_queue_def Let_def)
    with q f c idle assms(2) show ?thesis by (auto simp: e bc_inv_def conn_ok_def)
  qed
qed

text \<open>Closing fails every pending request, and sending settles those that leave the queue.\<close>

lemma pending_greater:
  "sorted_wrt (<) (map (rq_d \<circ> snd) ((k, r) # q)) \<Longrightarrow> d \<in> pending q \<Longrightarrow> rq_d r < d"
  by (auto simp: pending_def)

lemma fires_fail:
  "sorted_wrt (<) (map (rq_d \<circ> snd) q) \<Longrightarrow>
   fires d (map (\<lambda>r. Fired (rq_d r) x) (filter (\<lambda>r. rq_cancelled r = None) (rev (dict_values q)))) =
     (if d \<in> pending q then 1 else 0)"
proof (induction q)
  case (Cons y q)
  obtain k r where y: "y = (k, r)" by force
  have "rq_d r \<notin> pending q" using pending_greater [OF Cons.prems [unfolded y]] by blast
  with Cons show ?case by (auto simp: y)
qed simp

lemma sends_fail: "sends c d (map (\<lambda>r. Fired (rq_d r) x) rs) = 0"
  by (induction rs) simp_all

lemma downs_fail: "downs (map (\<lambda>r. Fired (rq_d r) x) rs) = 0"
  by (induction rs) simp_all

lemma bc_inv_close:
  assumes "bc_inv s" "bc_close s = Inr s'"
  shows "bc_inv s'"
proof -
  have q: "queue_ok s" and f: "fires_ok s" "sends_ok s" and c: "conn_ok s"
    using assms(1) by (simp_all add: bc_inv_def)
  have dn: "bc_dDown s = None" using assms(2) by (simp add: bc_close_def split: if_splits)
  define s1 where "s1 = (case bc_proto s of
      Some conn \<Rightarrow> emit (LoseConnection conn) (s\<lparr>bc_dDown := Some False\<rparr>)
    | None \<Rightarrow> (case bc_connector s of
        Some _ \<Rightarrow> emit DownFired (emit ConnectorCancelled (s\<lparr>bc_dDown := Some True, bc_connector := Some Dead\<rparr>))
      | None \<Rightarrow> emit DownFired (s\<lparr>bc_dDown := Some True\<rparr>)))"
  have s': "s' = fail_requests s1" using assms(2) dn by (simp add: bc_close_def s1_def)
  have same: "bc_requests s1 = bc_requests s" "bc_next_d s1 = bc_next_d s" "\<And>d. fires d (bc_log s1) = fires d (bc_log s)"
    "\<And>c d. sends c d (bc_log s1) = sends c d (bc_log s)"
    by (auto simp: s1_def emit_def split: option.splits)
  have lt: "d < bc_next_d s" if "d \<in> pending (bc_requests s)" for d
    using q that by (auto simp: queue_ok_def pending_def)
  have srt: "sorted_wrt (<) (map (rq_d \<circ> snd) (bc_requests s))" using q by (simp add: queue_ok_def)
  have "queue_ok s'" by (simp add: s' fail_requests_def queue_ok_def)
  moreover have "fires_ok s'"
    using f(1) lt by (auto simp: s' fail_requests_def fires_ok_def same fires_fail [OF srt])
  moreover have "sends_ok s'" using f(2) by (simp add: s' fail_requests_def sends_ok_def same sends_fail)
  moreover have "conn_ok s'"
    using c dn by (auto simp: s' fail_requests_def conn_ok_def s1_def emit_def downs_fail split: option.splits)
  ultimately show ?thesis by (simp add: bc_inv_def)
qed

lemma sent_queue_simps [simp]:
  "sent_queue env now [] = []"
  "sent_queue env now ((k, r) # q) =
     (if stays env r then [(k, r\<lparr>rq_sent := Some now\<rparr>)] else []) @ sent_queue env now q"
  by (simp_all add: sent_queue_def)

lemma pending_sent_subset: "pending (sent_queue env now q) \<subseteq> pending q"
proof (induction q)
  case (Cons y q)
  then show ?case by (cases y) auto
qed simp

lemma fires_send:
  "sorted_wrt (<) (map (rq_d \<circ> snd) q) \<Longrightarrow> \<forall>(k, r)\<in>set q. rq_cancelled r = None \<Longrightarrow>
   fires d (concat (map (send_effects env conn) (dict_values q))) =
     (if d \<in> pending q \<and> d \<notin> pending (sent_queue env now q) then 1 else 0)"
proof (induction q)
  case (Cons y q)
  obtain k r where y: "y = (k, r)" by force
  have gt: "rq_d r < d" if "d \<in> pending q" for d using pending_greater Cons.prems(1) that y by blast
  from Cons y have IH: "fires d (concat (map (send_effects env conn) (dict_values q))) =
     (if d \<in> pending q \<and> d \<notin> pending (sent_queue env now q) then 1 else 0)" by simp
  have "rq_d r \<notin> pending q" using gt by blast
  moreover have "rq_d r \<notin> pending (sent_queue env now q)" using gt pending_sent_subset by blast
  moreover have "rq_cancelled r = None" using Cons.prems(2) y by simp
  ultimately show ?case
    using IH by (auto simp: y send_effects_def [of env conn r] stays_def split: option.splits)
qed simp

lemma sends_send:
  "sorted_wrt (<) (map (rq_d \<circ> snd) q) \<Longrightarrow> \<forall>(k, r)\<in>set q. rq_cancelled r = None \<Longrightarrow>
   sends c d (concat (map (send_effects env conn) (dict_values q))) \<le> (if c = conn \<and> d \<in> pending q then 1 else 0)"
proof (induction q)
  case (Cons y q)
  obtain k r where y: "y = (k, r)" by force
  have gt: "rq_d r < d" if "d \<in> pending q" for d using pending_greater Cons.prems(1) that y by blast
  have "rq_d r \<notin> pending q" using gt by blast
  moreover have "rq_cancelled r = None" using Cons.prems(2) y by simp
  ultimately show ?case
    using Cons by (auto simp: y send_effects_def [of env conn r] split: option.splits if_splits)
qed simp

lemma downs_send: "downs (concat (map (send_effects env conn) rs)) = 0"
  by (induction rs) (auto simp: send_effects_def split: option.splits)

lemma queue_ok_sent:
  assumes "queue_ok s" "bc_proto s = None"
  shows "queue_ok (s\<lparr>bc_proto := Some conn, bc_requests := sent_queue env now (bc_requests s)\<rparr>)"
proof -
  have keys: "dict_keys (sent_queue env now q) = dict_keys (filter (\<lambda>(k, r). stays env r) q)" for q
    by (induction q) (auto simp: sent_queue_def)
  have ds: "map (rq_d \<circ> snd) (sent_queue env now q) = map (rq_d \<circ> snd) (filter (\<lambda>(k, r). stays env r) q)" for q
    by (induction q) (auto simp: sent_queue_def)
  have "sorted_wrt (<) (map f (filter P q))" if "sorted_wrt (<) (map f q)" for f :: "_ \<Rightarrow> nat" and P q
    using that by (induction q) auto
  with assms show ?thesis
    by (auto simp: queue_ok_def dict_ok_def keys ds distinct_map_filter) (auto simp: sent_queue_def)
qed

lemma cbConnect_queue:
  assumes "bc_inv s" "bc_connector s = Some Attempt"
  shows "cbConnect env now conn s =
    s\<lparr>bc_failures := 0, bc_connector := None, bc_proto := Some conn,
      bc_requests := sent_queue env now (bc_requests s),
      bc_log := bc_log s @ concat (map (send_effects env conn) (dict_values (bc_requests s)))\<rparr>"
proof -
  have c: "bc_dDown s = None" "bc_proto s = None" using assms by (auto simp: bc_inv_def conn_ok_def)
  let ?s = "s\<lparr>bc_failures := 0, bc_connector := None, bc_proto := Some conn\<rparr>"
  have q: "\<forall>(k, r)\<in>set (bc_requests s). rq_correlationId r = k \<and> rq_sent r = None" "dict_ok (bc_requests s)"
    using assms(1) c(2) by (auto simp: bc_inv_def queue_ok_def)
  have "sendQueued env now conn ?s = ?s\<lparr>bc_requests := sent_queue env now (bc_requests s),
      bc_log := bc_log s @ concat (map (send_effects env conn) (dict_values (bc_requests s)))\<rparr>"
    using send_all_queue [of ?s "[]" "bc_requests s" env now conn] q by (simp add: sendQueued_def)
  with c(1) show ?thesis by (simp add: cbConnect_def Let_def)
qed

lemma bc_inv_connected:
  assumes "bc_inv s" "bc_connector s = Some Attempt" "\<forall>d b. Sent conn d b \<notin> set (bc_log s)"
  shows "bc_inv (cbConnect env now conn s)"
proof -
  let ?s = "cbConnect env now conn s"
  note e = cbConnect_queue [OF assms(1,2), of env now conn]
  have q: "queue_ok s" and f: "fires_ok s" "sends_ok s" and c: "conn_ok s"
    using assms(1) by (simp_all add: bc_inv_def)
  have pn: "bc_proto s = None" "bc_dDown s = None" using c assms(2) by (auto simp: conn_ok_def)
  have srt: "sorted_wrt (<) (map (rq_d \<circ> snd) (bc_requests s))" using q by (simp add: queue_ok_def)
  have live: "\<forall>(k, r)\<in>set (bc_requests s). rq_cancelled r = None" using q pn(1) by (auto simp: queue_ok_def)
  have lt: "d < bc_next_d s" if "d \<in> pending (bc_requests s)" for d using q that by (auto simp: queue_ok_def pending_def)
  have fresh: "sends conn d (bc_log s) = 0" for d
    using assms(3) by (auto simp: sends_def filter_empty_conv elim!: is_send.elims)
  have "queue_ok ?s" using queue_ok_sent [OF q pn(1), where conn = conn and env = env and now = now] by (simp add: e queue_ok_def)
  moreover have "fires_ok ?s"
    using f(1) lt pending_sent_subset [of env now "bc_requests s"]
    by (auto simp: e fires_ok_def fires_send [OF srt live, of _ env conn now, simplified])
  moreover have "sends c d (bc_log ?s) \<le> 1 \<and> (bc_next_d ?s \<le> d \<longrightarrow> sends c d (bc_log ?s) = 0)" for c d
    using f(2) fresh sends_send [OF srt live, of c d env conn] lt [of d]
    by (cases "c = conn"; cases "d \<in> pending (bc_requests s)") (auto simp: e sends_ok_def)
  then have "sends_ok ?s" by (simp add: sends_ok_def)
  moreover have "conn_ok ?s" using c pn downs_send [of env conn "dict_values (bc_requests s)"] by (simp add: e conn_ok_def)
  ultimately show ?thesis by (simp add: bc_inv_def)
qed

lemma bc_inv_make:
  assumes "bc_inv s" "bc_makeRequest env now c req ex s = Inr (d, s')"
  shows "bc_inv s'"
proof -
  have q: "queue_ok s" and f: "fires_ok s" "sends_ok s" and cn: "conn_ok s"
    using assms(1) by (simp_all add: bc_inv_def)
  have new: "dict_get (bc_requests s) c = None" using assms(2) by (simp add: bc_makeRequest_def split: if_splits)
  let ?d = "bc_next_d s"
  let ?r = "\<lparr>rq_correlationId = c, rq_request = req, rq_expectResponse = ex, rq_d = ?d, rq_queued = now,
      rq_sent = None, rq_cancelled = None\<rparr>"
  have nk: "c \<notin> set (dict_keys (bc_requests s))" using new by (auto simp: map_of_eq_None_iff)
  have app: "dict_set c ?r (bc_requests s) = bc_requests s @ [(c, ?r)]" by (rule dict_set_new [OF nk])
  have lt: "d < ?d" if "d \<in> pending (bc_requests s)" for d using q that by (auto simp: queue_ok_def pending_def)
  have f0: "fires d (bc_log s) = (if d < ?d \<and> d \<notin> pending (bc_requests s) then 1 else 0)" for d
    using f(1) by (simp add: fires_ok_def)
  have s0: "sends c d (bc_log s) \<le> 1" "?d \<le> d \<Longrightarrow> sends c d (bc_log s) = 0" for c d
    using f(2) by (simp_all add: sends_ok_def)
  show ?thesis
  proof (cases "bc_dDown s")
    case (Some b)
    then have e: "s' = emit (Fired ?d (Inl ClientError)) (s\<lparr>bc_next_d := Suc ?d\<rparr>)" and "bc_requests s = []"
      using assms(2) new cn by (auto simp: bc_makeRequest_def Let_def conn_ok_def)
    with q f0 s0 cn show ?thesis
      by (simp add: e emit_def bc_inv_def queue_ok_def fires_ok_def sends_ok_def conn_ok_def)
  next
    case None
    let ?s = "s\<lparr>bc_next_d := Suc ?d, bc_requests := bc_requests s @ [(c, ?r)]\<rparr>"
    have ok: "dict_ok (bc_requests s @ [(c, ?r)])" using q nk by (auto simp: queue_ok_def dict_ok_def)
    have srt: "sorted_wrt (<) (map (rq_d \<circ> snd) (bc_requests s) @ [?d])"
      using q by (auto simp: queue_ok_def sorted_wrt_append)
    show ?thesis
    proof (cases "bc_proto s")
      case (Some conn)
      let ?t = "if stays env ?r then [(c, ?r\<lparr>rq_sent := Some now\<rparr>)] else []"
      have "s' = sendRequest env now conn ?r ?s"
        using assms(2) new None Some by (auto simp: bc_makeRequest_def Let_def app)
      then have e: "s' = ?s\<lparr>bc_requests := bc_requests s @ ?t, bc_log := bc_log s @ send_effects env conn ?r\<rparr>"
        using sendRequest_mid [of ?s "bc_requests s" ?r "[]" env now conn] ok by simp
      have "queue_ok s'" using q ok srt Some by (auto simp: e queue_ok_def dict_ok_def less_Suc_eq)
      moreover have "fires_ok s'"
        using f0 lt by (auto simp: e fires_ok_def send_effects_def stays_def less_Suc_eq split: option.splits)
      moreover have "sends_ok s'"
        using s0 by (auto simp: e sends_ok_def send_effects_def split: option.splits)
      moreover have "conn_ok s'"
        using cn None Some by (auto simp: e conn_ok_def send_effects_def split: option.splits)
      ultimately show ?thesis by (simp add: bc_inv_def)
    next
      case pn: None
      have e: "s' = (if bc_connector s = None then bc_connect ?s else ?s)"
        using assms(2) new None pn by (auto simp: bc_makeRequest_def Let_def app)
      have "queue_ok ?s" using q ok srt pn by (auto simp: queue_ok_def less_Suc_eq)
      moreover have "fires_ok ?s" using f0 lt by (auto simp: fires_ok_def less_Suc_eq)
      moreover have "sends_ok ?s" using s0 by (simp add: sends_ok_def)
      moreover have "conn_ok s'" using cn None pn
        by (auto simp: e conn_ok_def bc_connect_def try_connect_def emit_def) (metis connector.exhaust option.exhaust)
      ultimately show ?thesis
        by (auto simp: e bc_inv_def bc_connect_def try_connect_def emit_def queue_ok_def fires_ok_def sends_ok_def)
    qed
  qed
qed

interpretation broker: step_machine "\<lambda>s. \<exists>md. s = bc_init md" "bc_step env" bc_inv for env
proof
  fix s :: broker_client
  assume "\<exists>md. s = bc_init md"
  then show "bc_inv s" by (auto intro: bc_inv_init)
next
  fix s e s'
  assume "bc_inv s" "bc_step env s e s'"
  then show "bc_inv s'"
    by (elim bc_stepE)
      (auto intro: bc_inv_make bc_inv_cancel bc_inv_update bc_inv_disconnect bc_inv_close
         bc_inv_connected bc_inv_failed bc_inv_timer bc_inv_lost bc_inv_response)
qed

section \<open>Properties\<close>

abbreviation bc_reach :: "broker_env \<Rightarrow> broker_client \<Rightarrow> bool" where
  "bc_reach env \<equiv> reach (\<lambda>s. \<exists>md. s = bc_init md) (bc_step env)"

lemma bc_reach_inv: "bc_reach env s \<Longrightarrow> bc_inv s"
  by (rule broker.reach_invar)

text \<open>
  C1. No request is forgotten and none is answered twice: in every reachable state each deferred
  that was handed out has fired exactly once, or has not fired and its request is in the queue;
  and then the client is connected, or connecting, or waiting to connect again.
\<close>

theorem deferred_fires_once:
  assumes "bc_reach env s" "d < bc_next_d s"
  shows "(fires d (bc_log s) = 1 \<and> d \<notin> pending (bc_requests s)) \<or>
    (fires d (bc_log s) = 0 \<and> d \<in> pending (bc_requests s) \<and>
     (bc_connected s \<or> bc_connector s = Some Attempt \<or> bc_connector s = Some Waiting))"
proof -
  have inv: "bc_inv s" using assms(1) by (rule bc_reach_inv)
  then have "fires d (bc_log s) = (if d \<notin> pending (bc_requests s) then 1 else 0)"
    using assms(2) by (simp add: bc_inv_def fires_ok_def)
  moreover have "bc_requests s \<noteq> []" if "d \<in> pending (bc_requests s)" using that by auto
  ultimately show ?thesis
    using bc_inv_conn [OF inv] by (auto simp: conn_ok_def bc_connected_def split: if_splits)
qed

text \<open>An environment in which every send succeeds, and a first request made before connecting.\<close>

definition easy_env :: broker_env where
  "easy_env = \<lparr>be_sendString = (\<lambda>_. None), be_retryPolicy = (\<lambda>n. of_nat n)\<rparr>"

definition sample_broker :: broker_metadata where
  "sample_broker = \<lparr>bm_node_id = 1, bm_host = str_lit ''h'', bm_port = 9092\<rparr>"

definition one_queued :: broker_client where
  "one_queued = \<lparr>bc_node_id = 1, bc_host = str_lit ''h'', bc_port = 9092, bc_connector = Some Attempt,
     bc_proto = None,
     bc_requests = [(5, \<lparr>rq_correlationId = 5, rq_request = [1], rq_expectResponse = True, rq_d = 0,
                         rq_queued = 0, rq_sent = None, rq_cancelled = None\<rparr>)],
     bc_dDown = None, bc_failures = 0, bc_next_d = 1, bc_log = [Connecting (str_lit ''h'') 9092]\<rparr>"

lemma one_queued_reach: "bc_reach easy_env one_queued"
proof -
  have "bc_makeRequest easy_env 0 5 [1] True (bc_init sample_broker) = Inr (0, one_queued)"
    by (simp add: bc_makeRequest_def bc_init_def sample_broker_def one_queued_def bc_connect_def
        try_connect_def emit_def Let_def)
  then have "bc_step easy_env (bc_init sample_broker) (MakeRequest 0 5 [1] True) one_queued" by (rule step_make)
  then show ?thesis by (blast intro: reach_init reach_step)
qed

theorem deferred_fires_once_witness:
  "fires 0 (bc_log one_queued) = 0 \<and> 0 \<in> pending (bc_requests one_queued) \<and> bc_connector one_queued = Some Attempt"
  using deferred_fires_once [OF one_queued_reach, of 0] by (simp add: one_queued_def bc_connected_def)

text \<open>
  Each request is sent at most once per connection.
\<close>

theorem sent_once_per_connection:
  assumes "bc_reach env s"
  shows "sends conn d (bc_log s) \<le> 1"
  using bc_reach_inv [OF assms] by (simp add: bc_inv_def sends_ok_def)

theorem sent_once_per_connection_witness: "sends 0 0 (bc_log one_queued) \<le> 1"
  by (rule sent_once_per_connection [OF one_queued_reach])

text \<open>The requests in the queue, cancelled ones left out.\<close>

definition waiting :: "broker_client \<Rightarrow> request_state list" where
  "waiting s = filter (\<lambda>r. rq_cancelled r = None) (dict_values (bc_requests s))"

lemma dict_values_unsent:
  "dict_values (unsent_queue q) = map (\<lambda>r. r\<lparr>rq_sent := None\<rparr>) (filter (\<lambda>r. rq_cancelled r = None) (dict_values q))"
proof (induction q)
  case (Cons x q)
  then show ?case by (cases x) simp
qed simp

lemma send_effects_unsent [simp]: "send_effects env conn (r\<lparr>rq_sent := x\<rparr>) = send_effects env conn r"
  by (simp add: send_effects_def split: option.split)

text \<open>
  C7. Requests survive a lost connection: when a connection is lost and the next attempt succeeds,
  exactly the requests that were waiting, in the order in which they were made and none of the
  cancelled ones, are written to the new connection.
\<close>

theorem resent_in_order:
  assumes "bc_reach env s" "bc_proto s \<noteq> None" "waiting s \<noteq> []" "bc_dDown s = None"
    and "\<forall>d b. Sent conn d b \<notin> set (bc_log s)"
  shows "\<exists>s1 s2. bc_step env s ConnectionLost s1 \<and> bc_step env s1 (ConnectOk now conn) s2 \<and>
    bc_log s2 = bc_log s @ [Connecting (bc_host s) (bc_port s)] @ concat (map (send_effects env conn) (waiting s)) \<and>
    sorted_wrt (<) (map rq_d (waiting s))"
proof -
  have inv: "bc_inv s" by (rule bc_reach_inv [OF assms(1)])
  let ?s1 = "bc_connectionLost s"
  have "bc_requests s \<noteq> []" using assms(3) by (auto simp: waiting_def)
  have ne: "unsent_queue (bc_requests s) \<noteq> []"
    using assms(3) dict_values_unsent [of "bc_requests s"] by (auto simp: waiting_def)
  then have s1: "?s1 = bc_connect (s\<lparr>bc_proto := None, bc_requests := unsent_queue (bc_requests s)\<rparr>)"
    using assms(4) by (simp add: bc_connectionLost_def unsent_queue_def Let_def)
  have step1: "bc_step env s ConnectionLost ?s1" by (rule step_lost [OF assms(2)])
  have inv1: "bc_inv ?s1" by (rule bc_inv_lost [OF inv assms(2)])
  have at: "bc_connector ?s1 = Some Attempt" by (simp add: s1 bc_connect_def try_connect_def emit_def)
  have log1: "bc_log ?s1 = bc_log s @ [Connecting (bc_host s) (bc_port s)]"
    by (simp add: s1 bc_connect_def try_connect_def emit_def)
  then have fresh: "\<forall>d b. Sent conn d b \<notin> set (bc_log ?s1)" using assms(5) by simp
  have step2: "bc_step env ?s1 (ConnectOk now conn) (cbConnect env now conn ?s1)"
    by (rule step_connected [OF at fresh])
  have q1: "dict_values (bc_requests ?s1) = map (\<lambda>r. r\<lparr>rq_sent := None\<rparr>) (waiting s)"
    by (simp add: s1 bc_connect_def try_connect_def emit_def dict_values_unsent waiting_def)
  have "map (send_effects env conn) (dict_values (bc_requests ?s1)) = map (send_effects env conn) (waiting s)"
    unfolding q1 by simp
  then have "bc_log (cbConnect env now conn ?s1) =
      bc_log s @ [Connecting (bc_host s) (bc_port s)] @ concat (map (send_effects env conn) (waiting s))"
    by (simp add: cbConnect_queue [OF inv1 at] log1 del: map_map)
  moreover have "sorted_wrt (<) (map rq_d (waiting s))"
  proof -
    have "sorted_wrt (<) (map rq_d (filter P rs))" if "sorted_wrt (<) (map rq_d rs)" for P rs
      using that by (induction rs) auto
    moreover have "sorted_wrt (<) (map rq_d (dict_values (bc_requests s)))"
      using inv by (simp add: bc_inv_def queue_ok_def)
    ultimately show ?thesis unfolding waiting_def by blast
  qed
  ultimately show ?thesis using step1 step2 by blast
qed

definition one_sent :: broker_client where
  "one_sent = one_queued\<lparr>bc_connector := None, bc_proto := Some 0,
     bc_requests := [(5, \<lparr>rq_correlationId = 5, rq_request = [1], rq_expectResponse = True, rq_d = 0,
                          rq_queued = 0, rq_sent = Some 2, rq_cancelled = None\<rparr>)],
     bc_log := [Connecting (str_lit ''h'') 9092, Sent 0 0 [1]]\<rparr>"

lemma one_sent_reach: "bc_reach easy_env one_sent"
proof -
  have "cbConnect easy_env 2 0 one_queued = one_sent"
    by (simp add: cbConnect_def one_queued_def one_sent_def sendQueued_def sendRequest_def easy_env_def
        emit_def Let_def)
  moreover have "bc_step easy_env one_queued (ConnectOk 2 0) (cbConnect easy_env 2 0 one_queued)"
    by (rule step_connected) (simp_all add: one_queued_def)
  ultimately show ?thesis using one_queued_reach reach_step by metis
qed

theorem resent_in_order_witness:
  "\<exists>s1 s2. bc_step easy_env one_sent ConnectionLost s1 \<and> bc_step easy_env s1 (ConnectOk 3 1) s2 \<and>
     bc_log s2 = [Connecting (str_lit ''h'') 9092, Sent 0 0 [1], Connecting (str_lit ''h'') 9092, Sent 1 0 [1]]"
  using resent_in_order [OF one_sent_reach, of 1 3]
  by (simp add: one_sent_def one_queued_def waiting_def send_effects_def easy_env_def)

text \<open>
  C33. Responses go where they belong: a response whose correlation id is that of a queued request
  takes it out of the queue and fires its deferred, and no other, with the response; the deferred
  of a cancelled request is left alone; a response that matches nothing changes nothing.
\<close>

theorem response_routed:
  assumes "bc_reach env s" "bc_handleResponse data s = Inr s'"
  shows "\<exists>c. get_response_correlation_id data = Inr c \<and>
    (case dict_get (bc_requests s) c of
       None \<Rightarrow> s' = s
     | Some r \<Rightarrow> rq_correlationId r = c \<and> dict_get (bc_requests s') c = None \<and>
         pending (bc_requests s') = pending (bc_requests s) - {rq_d r} \<and>
         bc_log s' = bc_log s @ (if rq_cancelled r = None then [Fired (rq_d r) (Inr (Some data))] else []))"
proof -
  have inv: "bc_inv s" by (rule bc_reach_inv [OF assms(1)])
  then have q: "queue_ok s" by (simp add: bc_inv_def)
  then have ok: "dict_ok (bc_requests s)" by (simp add: queue_ok_def)
  from assms(2) obtain c where c: "get_response_correlation_id data = Inr c"
    by (auto simp: bc_handleResponse_def rbind_eq_Inr)
  show ?thesis
  proof (cases "dict_get (bc_requests s) c")
    case None
    with assms(2) c show ?thesis by (simp add: bc_handleResponse_def)
  next
    case (Some r)
    from dict_get_split [OF ok Some] obtain pre post where sp: "bc_requests s = pre @ (c, r) # post" by blast
    have del: "dict_del c (bc_requests s) = pre @ post" using dict_del_mid ok sp by metis
    have get: "dict_get (pre @ post) c = None" using dict_get_del [of c "bc_requests s" c] by (simp add: del)
    have "pending (pre @ post) = pending (bc_requests s) - {rq_d r}"
      using queue_ok_fresh(1) [OF q sp] by (auto simp: sp)
    moreover have "rq_correlationId r = c" using q by (auto simp: queue_ok_def sp)
    moreover have "s' = (if rq_cancelled r = None then emit (Fired (rq_d r) (Inr (Some data))) else id)
        (s\<lparr>bc_requests := pre @ post\<rparr>)"
      using assms(2) c Some del by (auto simp: bc_handleResponse_def Let_def split: if_splits)
    ultimately show ?thesis using c Some get by (auto simp: emit_def)
  qed
qed

theorem response_routed_witness:
  "\<exists>s'. bc_handleResponse [0, 0, 0, 5, 9] one_sent = Inr s' \<and>
     bc_log s' = bc_log one_sent @ [Fired 0 (Inr (Some [0, 0, 0, 5, 9]))] \<and> bc_requests s' = []"
proof -
  have c: "get_response_correlation_id [0, 0, 0, 5, 9] = Inr 5" by code_simp
  then obtain s' where s': "bc_handleResponse [0, 0, 0, 5, 9] one_sent = Inr s'" and "bc_requests s' = []"
    by (simp add: bc_handleResponse_def one_sent_def emit_def Let_def)
  with response_routed [OF one_sent_reach s'] c show ?thesis by (auto simp: one_sent_def)
qed

text \<open>A client that is going down stays so.\<close>

lemma down_stays: "bc_step env s e t \<Longrightarrow> bc_dDown s \<noteq> None \<Longrightarrow> bc_dDown t \<noteq> None"
proof (induction rule: bc_step.induct)
  case (step_make now c req ex s d s')
  then show ?case by (auto simp: bc_makeRequest_def Let_def emit_def split: if_splits)
next
  case (step_connected s conn now)
  then show ?case by (simp add: cbConnect_def Let_def emit_def)
qed (auto simp: cancel_deferred_def cancelRequest_def bc_updateMetadata_def bc_disconnect_def bc_close_def ebConnect_def cbDelayed_def
    try_connect_def bc_connectionLost_def bc_handleResponse_def emit_def rbind_eq_Inr Let_def split: if_splits option.splits)

lemma reach_after:
  assumes "bc_reach env s'" "reach (\<lambda>x. x = s') (bc_step env) t"
  shows "bc_reach env t" "bc_dDown s' \<noteq> None \<Longrightarrow> bc_dDown t \<noteq> None"
  using assms(2) by (induction rule: reach.induct) (use assms(1) in \<open>auto intro: reach_step dest: down_stays\<close>)

lemma closed_settled:
  assumes "bc_reach env t" "bc_dDown t \<noteq> None"
  shows "bc_requests t = []" "d < bc_next_d t \<Longrightarrow> fires d (bc_log t) = 1" "downs (bc_log t) = (if bc_proto t = None then 1 else 0)"
    "\<exists>u. bc_makeRequest env now c req ex t = Inr (bc_next_d t, u) \<and>
       bc_log u = bc_log t @ [Fired (bc_next_d t) (Inl ClientError)] \<and> bc_requests u = []"
proof -
  have inv: "bc_inv t" by (rule bc_reach_inv [OF assms(1)])
  show none: "bc_requests t = []" using bc_inv_conn [OF inv] assms(2) by (auto simp: conn_ok_def)
  with inv show "d < bc_next_d t \<Longrightarrow> fires d (bc_log t) = 1" by (simp add: bc_inv_def fires_ok_def)
  show "downs (bc_log t) = (if bc_proto t = None then 1 else 0)"
    using bc_inv_conn [OF inv] assms(2) by (cases "the (bc_dDown t)") (auto simp: conn_ok_def)
  show "\<exists>u. bc_makeRequest env now c req ex t = Inr (bc_next_d t, u) \<and>
       bc_log u = bc_log t @ [Fired (bc_next_d t) (Inl ClientError)] \<and> bc_requests u = []"
    using none assms(2) by (simp add: bc_makeRequest_def Let_def emit_def)
qed

text \<open>
  C34. Closing settles everything. \<open>close\<close> asks for the end of the connection when there is one; without one it
  cancels the connection attempt or the delay that is under way, and its deferred fires at once. It fails each pending request with
  \<open>ClientError\<close>, the youngest first. In every later state no request is queued, every deferred handed out has fired exactly once,
  further requests are refused with \<open>ClientError\<close>, a second \<open>close\<close> raises, and the deferred of \<open>close\<close> has fired exactly
  once if the connection is down, and not before.
\<close>

theorem close_settles:
  assumes "bc_reach env s" "bc_close s = Inr s'" "reach (\<lambda>x. x = s') (bc_step env) t"
  shows "bc_log s' = bc_log s @
      (case (bc_proto s, bc_connector s) of
         (Some conn, _) \<Rightarrow> [LoseConnection conn] | (None, Some _) \<Rightarrow> [ConnectorCancelled, DownFired] | (None, None) \<Rightarrow> [DownFired]) @
      map (\<lambda>r. Fired (rq_d r) (Inl ClientError)) (rev (waiting s)) \<and>
    bc_requests t = [] \<and> (\<forall>d<bc_next_d t. fires d (bc_log t) = 1) \<and> downs (bc_log t) = (if bc_proto t = None then 1 else 0) \<and>
    bc_close t = Inl AssertionError \<and>
    (\<exists>u. bc_makeRequest env now c req ex t = Inr (bc_next_d t, u) \<and>
       bc_log u = bc_log t @ [Fired (bc_next_d t) (Inl ClientError)] \<and> bc_requests u = [])"
proof -
  have log: "bc_log s' = bc_log s @
      (case (bc_proto s, bc_connector s) of
         (Some conn, _) \<Rightarrow> [LoseConnection conn] | (None, Some _) \<Rightarrow> [ConnectorCancelled, DownFired] | (None, None) \<Rightarrow> [DownFired]) @
      map (\<lambda>r. Fired (rq_d r) (Inl ClientError)) (rev (waiting s))"
    using assms(2) by (auto simp: bc_close_def fail_requests_def emit_def waiting_def rev_filter split: if_splits option.splits)
  have down: "bc_dDown s' \<noteq> None"
    using assms(2) by (auto simp: bc_close_def fail_requests_def emit_def split: if_splits option.splits)
  have "bc_reach env s'" using assms(1) step_close [OF assms(2)] by (rule reach_step)
  note t = reach_after [OF this assms(3)]
  have "bc_close t = Inl AssertionError" using t(2) [OF down] by (simp add: bc_close_def)
  with log closed_settled [OF t(1) t(2) [OF down]] show ?thesis by blast
qed

theorem close_settles_witness:
  "\<exists>s' t. bc_close one_sent = Inr s' \<and> bc_log s' = bc_log one_sent @ [LoseConnection 0, Fired 0 (Inl ClientError)] \<and>
     bc_step easy_env s' ConnectionLost t \<and> downs (bc_log s') = 0 \<and> downs (bc_log t) = 1"
proof -
  obtain s' where s': "bc_close one_sent = Inr s'" by (simp add: bc_close_def one_sent_def one_queued_def)
  then have p: "bc_proto s' = Some 0"
    by (auto simp: bc_close_def one_sent_def one_queued_def fail_requests_def emit_def)
  then have step: "bc_step easy_env s' ConnectionLost (bc_connectionLost s')" by (intro step_lost) simp
  have "bc_proto (bc_connectionLost s') = None"
    by (simp add: bc_connectionLost_def bc_connect_def try_connect_def emit_def Let_def)
  moreover have r: "reach (\<lambda>x. x = s') (bc_step easy_env) s'" by (rule reach_init) simp
  moreover have "waiting one_sent = dict_values (bc_requests one_sent)" by (simp add: waiting_def one_sent_def)
  ultimately show ?thesis
    using close_settles [OF one_sent_reach s' r] close_settles [OF one_sent_reach s' reach_step [OF r step]] s' p step
    by (intro exI [of _ s'] exI [of _ "bc_connectionLost s'"]) (simp add: one_sent_def one_queued_def)
qed

end
