(* ===== verification/Hosts.thy ===== *)
theory Hosts
  imports Wire "HOL-Library.List_Lexorder" "HOL-Library.Product_Lexorder"
begin

text \<open>
  The bootstrap hosts: \<open>_normalize_hosts\<close> in \<open>afkak/client.py\<close>, with the string methods of
  Python it uses (\<open>split\<close>, \<open>strip\<close> and \<open>int\<close> on ASCII text). Twisted's \<open>nativeString\<close> is a
  parameter: it turns bytes or text into ASCII text, or raises.
\<close>

section \<open>Python's string methods\<close>

fun split_on :: "'a \<Rightarrow> 'a list \<Rightarrow> 'a list list" where
  "split_on c [] = [[]]"
| "split_on c (x # xs) =
     (if x = c then [] # split_on c xs
      else (case split_on c xs of [] \<Rightarrow> [[x]] | p # ps \<Rightarrow> (x # p) # ps))"

definition is_space :: "nat \<Rightarrow> bool" where
  "is_space c \<longleftrightarrow> c \<in> {9, 10, 11, 12, 13, 28, 29, 30, 31, 32}"

definition strip :: "pystr \<Rightarrow> pystr" where
  "strip s = rev (dropWhile is_space (rev (dropWhile is_space s)))"

text \<open>\<open>int(s)\<close>: digits, with single underscores between them, after an optional sign.\<close>

fun digits_value :: "int \<Rightarrow> pystr \<Rightarrow> int option" where
  "digits_value acc [] = Some acc"
| "digits_value acc (c # cs) =
     (if 48 \<le> c \<and> c \<le> 57 then digits_value (10 * acc + int (c - 48)) cs
      else if c = 95 then
        (case cs of
           [] \<Rightarrow> None
         | d # _ \<Rightarrow> if 48 \<le> d \<and> d \<le> 57 then digits_value acc cs else None)
      else None)"

definition unsigned_value :: "pystr \<Rightarrow> int option" where
  "unsigned_value cs = (if cs = [] \<or> hd cs = 95 then None else digits_value 0 cs)"

definition py_int :: "pystr \<Rightarrow> int result" where
  "py_int s =
     (let s = strip s;
          v = (case s of
                 [] \<Rightarrow> None
               | c # cs \<Rightarrow> if c = 43 then unsigned_value cs
                           else if c = 45 then map_option uminus (unsigned_value cs)
                           else unsigned_value s)
      in case v of None \<Rightarrow> Inl ValueError | Some n \<Rightarrow> Inr n)"

section \<open>Normalising\<close>

text \<open>
  An entry is text or bytes, or a pair whose port is an integer or text; the whole is one text or
  bytes object, or a sequence of entries.
\<close>

datatype host_port = HostText pyobj | HostPair pyobj "int + pystr"

datatype hosts_arg = HostsBytes bytes | HostsStr pystr | HostsSeq "host_port list"

definition split_hosts :: "hosts_arg \<Rightarrow> host_port list" where
  "split_hosts hosts =
     (case hosts of
        HostsBytes b \<Rightarrow> map (HostText \<circ> PyBytes) (split_on 44 b)
      | HostsStr s \<Rightarrow> map (HostText \<circ> PyStr) (split_on 44 s)
      | HostsSeq hs \<Rightarrow> hs)"

definition normalize_host :: "(pyobj \<Rightarrow> pystr result) \<Rightarrow> host_port \<Rightarrow> (pystr \<times> int) result" where
  "normalize_host nativeString hp =
     (case hp of
        HostText h \<Rightarrow>
          rbind (nativeString h) (\<lambda>s.
            let res = split_on 58 s
            in rbind (if length res > 1 then py_int (strip (res ! 1)) else Inr DefaultKafkaPort) (\<lambda>port.
                 Inr (strip (res ! 0), port)))
      | HostPair h p \<Rightarrow>
          rbind (nativeString h) (\<lambda>host.
            rbind (case p of Inl n \<Rightarrow> Inr n | Inr s \<Rightarrow> py_int s) (\<lambda>port. Inr (host, port))))"

text \<open>The loop adds to a set, which \<open>sorted\<close> makes a list: the list is kept sorted and without duplicates.\<close>

fun normalize_all :: "(pyobj \<Rightarrow> pystr result) \<Rightarrow> host_port list \<Rightarrow> (pystr \<times> int) list result" where
  "normalize_all nativeString [] = Inr []"
| "normalize_all nativeString (hp # hps) =
     rbind (normalize_host nativeString hp) (\<lambda>h.
       rbind (normalize_all nativeString hps) (\<lambda>hs. Inr (h # hs)))"

definition normalize_hosts :: "(pyobj \<Rightarrow> pystr result) \<Rightarrow> hosts_arg \<Rightarrow> (pystr \<times> int) list result" where
  "normalize_hosts nativeString hosts =
     rbind (normalize_all nativeString (split_hosts hosts)) (\<lambda>hs. Inr (sort (remdups hs)))"

section \<open>Properties\<close>

lemma normalize_all_eq:
  "normalize_all ns hps = Inr hs \<longleftrightarrow> list_all2 (\<lambda>hp h. normalize_host ns hp = Inr h) hps hs"
  by (induction hps arbitrary: hs) (auto simp: rbind_eq_Inr list_all2_Cons1)

lemma split_on_ne [simp]: "split_on c xs \<noteq> []"
  by (induction xs) (auto split: list.splits)

lemma split_on_no_sep: "c \<notin> set xs \<Longrightarrow> split_on c xs = [xs]"
  by (induction xs) auto

lemma split_on_append: "c \<notin> set xs \<Longrightarrow> split_on c (xs @ c # ys) = xs # split_on c ys"
  by (induction xs) auto

lemma split_on_sep:
  "ps \<noteq> [] \<Longrightarrow> \<forall>p\<in>set ps. c \<notin> set p \<Longrightarrow> split_on c (concat (map (\<lambda>p. p @ [c]) (butlast ps)) @ last ps) = ps"
proof (induction ps)
  case (Cons p ps)
  then show ?case by (cases "ps = []") (simp_all add: split_on_no_sep split_on_append)
qed simp

text \<open>
  The bootstrap hosts are what the argument lists, each once and in order: \<open>_normalize_hosts\<close>
  succeeds exactly when every entry parses, its result has the parsed entries as elements, strictly
  increasing, and a comma-separated text means the same as the list of its parts.
\<close>

theorem normalize_hosts_spec:
  "(normalize_hosts ns (HostsSeq hps) = Inr hs \<longleftrightarrow>
      (\<forall>hp\<in>set hps. \<exists>h. normalize_host ns hp = Inr h) \<and> sorted_wrt (<) hs \<and>
      set hs = {h. \<exists>hp\<in>set hps. normalize_host ns hp = Inr h}) \<and>
   (ps \<noteq> [] \<and> (\<forall>p\<in>set ps. 44 \<notin> set p) \<longrightarrow>
      normalize_hosts ns (HostsStr (concat (map (\<lambda>p. p @ [44]) (butlast ps)) @ last ps)) =
      normalize_hosts ns (HostsSeq (map (HostText \<circ> PyStr) ps)))"
proof
  show "normalize_hosts ns (HostsSeq hps) = Inr hs \<longleftrightarrow>
      (\<forall>hp\<in>set hps. \<exists>h. normalize_host ns hp = Inr h) \<and> sorted_wrt (<) hs \<and>
      set hs = {h. \<exists>hp\<in>set hps. normalize_host ns hp = Inr h}" (is "?l \<longleftrightarrow> ?r")
  proof
    assume ?l
    then obtain gs where gs: "list_all2 (\<lambda>hp h. normalize_host ns hp = Inr h) hps gs" "hs = sort (remdups gs)"
      by (auto simp: normalize_hosts_def split_hosts_def rbind_eq_Inr normalize_all_eq)
    then have "sorted_wrt (<) hs" by (simp add: strict_sorted_iff)
    moreover have "set hs = {h. \<exists>hp\<in>set hps. normalize_host ns hp = Inr h}"
      using gs by (fastforce simp: list_all2_conv_all_nth in_set_conv_nth)
    moreover have "\<forall>hp\<in>set hps. \<exists>h. normalize_host ns hp = Inr h"
      using gs by (fastforce simp: list_all2_conv_all_nth in_set_conv_nth)
    ultimately show ?r by blast
  next
    assume r: ?r
    define gs where "gs = map (\<lambda>hp. projr (normalize_host ns hp)) hps"
    have l2: "list_all2 (\<lambda>hp h. normalize_host ns hp = Inr h) hps gs"
      unfolding gs_def list.rel_map by (rule list.rel_refl_strong) (use r in force)
    have "set gs = set hs" using r by (force simp: gs_def image_iff)
    then have "sort (remdups gs) = hs"
      using r by (intro strict_sorted_equal) (auto simp: strict_sorted_iff)
    with l2 show ?l by (simp add: normalize_hosts_def split_hosts_def normalize_all_eq [THEN iffD2])
  qed
  show "ps \<noteq> [] \<and> (\<forall>p\<in>set ps. 44 \<notin> set p) \<longrightarrow>
      normalize_hosts ns (HostsStr (concat (map (\<lambda>p. p @ [44]) (butlast ps)) @ last ps)) =
      normalize_hosts ns (HostsSeq (map (HostText \<circ> PyStr) ps))"
    by (auto simp: normalize_hosts_def split_hosts_def split_on_sep)
qed

text \<open>A \<open>nativeString\<close> for ASCII text, and the example in the docstring.\<close>

definition ascii_native :: "pyobj \<Rightarrow> pystr result" where
  "ascii_native h =
     (case h of
        PyStr s \<Rightarrow> if \<forall>c\<in>set s. c < 128 then Inr s else Inl UnicodeError
      | PyBytes b \<Rightarrow> if \<forall>c\<in>set b. unat c < 128 then Inr (map unat b) else Inl UnicodeError
      | _ \<Rightarrow> Inl TypeError)"

theorem normalize_hosts_spec_witness:
  "normalize_hosts ascii_native (HostsStr (str_lit ''host,127.0.0.2:2909'')) =
     Inr [(str_lit ''127.0.0.2'', 2909), (str_lit ''host'', 9092)]"
proof -
  let ?ps = "[str_lit ''host'', str_lit ''127.0.0.2:2909'']"
  let ?hs = "[(str_lit ''127.0.0.2'', 2909), (str_lit ''host'', 9092)]"
  have parse: "normalize_host ascii_native (HostText (PyStr (str_lit ''host''))) = Inr (str_lit ''host'', 9092)"
    "normalize_host ascii_native (HostText (PyStr (str_lit ''127.0.0.2:2909''))) = Inr (str_lit ''127.0.0.2'', 2909)"
    by (simp_all add: normalize_host_def ascii_native_def str_lit_def strip_def is_space_def py_int_def
        unsigned_value_def DefaultKafkaPort_def)
  have "normalize_hosts ascii_native (HostsSeq (map (HostText \<circ> PyStr) ?ps)) = Inr ?hs"
    by (rule normalize_hosts_spec [THEN conjunct1, THEN iffD2])
      (auto simp: parse, simp_all add: str_lit_def)
  moreover have "normalize_hosts ascii_native (HostsStr (str_lit ''host,127.0.0.2:2909'')) =
      normalize_hosts ascii_native (HostsSeq (map (HostText \<circ> PyStr) ?ps))"
    using normalize_hosts_spec [THEN conjunct2, of ?ps ascii_native] by (simp add: str_lit_def)
  ultimately show ?thesis by simp
qed

end
