(* ===== verification/Client.thy ===== *)
theory Client
  imports Broker_Client Hosts
begin

text \<open>
  The cluster metadata of \<open>KafkaClient\<close> in \<open>afkak/client.py\<close>: the cached maps, how responses are
  merged into them and when they are dropped, the table of broker clients, and the parsing of the
  bootstrap hosts.

  The state \<open>kafka_client\<close> has the attributes of the class; \<open>kc_clients\<close> holds the states of the
  broker clients of \<open>Broker_Client\<close> and is \<open>None\<close> once the client is closed. A method that may
  raise after it has changed something returns the state and a result.
\<close>

section \<open>State\<close>

type_synonym topic_partition = "pystr \<times> int"

record kafka_client =
  kc_clientId :: bytes
  kc_clients :: "(int, broker_client) dict option"
  kc_topics_to_brokers :: "(topic_partition, broker_metadata option) dict"
  kc_partition_meta :: "(topic_partition, partition_metadata) dict"
  kc_group_to_coordinator :: "(pystr, broker_metadata) dict"
  kc_topic_partitions :: "(pystr, int list) dict"
  kc_topic_errors :: "(pystr, int) dict"
  kc_coordinator_fetches :: "(pystr, nat list) dict"
  kc_correlation_id :: int
  kc_timeout :: rat
  kc_disconnect_on_timeout :: bool
  kc_brokers :: "(int, broker_metadata) dict"
  kc_closing :: bool
  kc_bootstrap_hosts :: "(pystr \<times> int) list"
  kc_closed :: "broker_client list"
  kc_next_d :: nat
  kc_fired :: "(nat \<times> bool result) list"

type_synonym 'a cres = "kafka_client \<times> 'a result"

definition update_cluster_hosts :: "(pyobj \<Rightarrow> pystr result) \<Rightarrow> hosts_arg \<Rightarrow> kafka_client \<Rightarrow> unit cres" where
  "update_cluster_hosts nativeString hosts s =
     (case normalize_hosts nativeString hosts of
        Inl e \<Rightarrow> (s, Inl e)
      | Inr hs \<Rightarrow> (s\<lparr>kc_bootstrap_hosts := hs\<rparr>, Inr ()))"

definition kc_init ::
    "(pyobj \<Rightarrow> pystr result) \<Rightarrow> hosts_arg \<Rightarrow> bytes \<Rightarrow> rat \<Rightarrow> bool \<Rightarrow> int \<Rightarrow> unit cres" where
  "kc_init nativeString hosts clientId timeout disconnect_on_timeout correlation_id =
     update_cluster_hosts nativeString hosts
       \<lparr>kc_clientId = clientId, kc_clients = Some [], kc_topics_to_brokers = [], kc_partition_meta = [],
         kc_group_to_coordinator = [], kc_topic_partitions = [], kc_topic_errors = [],
         kc_coordinator_fetches = [], kc_correlation_id = correlation_id, kc_timeout = timeout / 1000,
         kc_disconnect_on_timeout = disconnect_on_timeout, kc_brokers = [], kc_closing = False,
         kc_bootstrap_hosts = [], kc_closed = [], kc_next_d = 0, kc_fired = []\<rparr>"

definition next_id :: "kafka_client \<Rightarrow> int \<times> kafka_client" where
  "next_id s =
     (let c = (kc_correlation_id s + 1) mod 2 ^ 31 in (c, s\<lparr>kc_correlation_id := c\<rparr>))"

section \<open>Dropping metadata\<close>

fun coerce_topics :: "pystr list \<Rightarrow> pystr list result" where
  "coerce_topics [] = Inr []"
| "coerce_topics (t # ts) =
     rbind (coerce_topic (PyStr t)) (\<lambda>t. rbind (coerce_topics ts) (\<lambda>ts. Inr (t # ts)))"

definition reset_topic :: "kafka_client \<Rightarrow> pystr \<Rightarrow> kafka_client" where
  "reset_topic s topic =
     (let s = (case dict_get (kc_topic_partitions s) topic of
                 None \<Rightarrow> s
               | Some partitions \<Rightarrow>
                   s\<lparr>kc_topics_to_brokers := foldl (\<lambda>d p. dict_del (topic, p) d) (kc_topics_to_brokers s) partitions,
                     kc_topic_partitions := dict_del topic (kc_topic_partitions s)\<rparr>)
      in s\<lparr>kc_topic_errors := dict_del topic (kc_topic_errors s)\<rparr>)"

definition reset_topic_metadata :: "pystr list \<Rightarrow> kafka_client \<Rightarrow> unit cres" where
  "reset_topic_metadata topics s =
     (case coerce_topics topics of
        Inl e \<Rightarrow> (s, Inl e)
      | Inr topics \<Rightarrow> (foldl reset_topic s topics, Inr ()))"

definition reset_consumer_group_metadata :: "pystr list \<Rightarrow> kafka_client \<Rightarrow> kafka_client" where
  "reset_consumer_group_metadata groups s =
     s\<lparr>kc_group_to_coordinator := foldl (\<lambda>d g. dict_del g d) (kc_group_to_coordinator s) groups\<rparr>"

definition reset_all_metadata :: "kafka_client \<Rightarrow> kafka_client" where
  "reset_all_metadata s =
     s\<lparr>kc_topics_to_brokers := [], kc_topic_partitions := [], kc_topic_errors := [],
       kc_group_to_coordinator := []\<rparr>"

section \<open>Looking at metadata\<close>

definition has_metadata_for_topic :: "pystr \<Rightarrow> kafka_client \<Rightarrow> bool result" where
  "has_metadata_for_topic topic s =
     rbind (coerce_topic (PyStr topic)) (\<lambda>t. Inr (dict_get (kc_topic_partitions s) t \<noteq> None))"

definition metadata_error_for_topic :: "pystr \<Rightarrow> kafka_client \<Rightarrow> int result" where
  "metadata_error_for_topic topic s =
     rbind (coerce_topic (PyStr topic)) (\<lambda>t.
       Inr (case dict_get (kc_topic_errors s) t of
              None \<Rightarrow> errno_of UnknownTopicOrPartitionError | Some e \<Rightarrow> e))"

definition partition_fully_replicated :: "topic_partition \<Rightarrow> kafka_client \<Rightarrow> bool" where
  "partition_fully_replicated tp s =
     (case dict_get (kc_partition_meta s) tp of
        None \<Rightarrow> False
      | Some part_meta \<Rightarrow> length (pm_replicas part_meta) = length (pm_isr part_meta))"

definition topic_fully_replicated :: "pystr \<Rightarrow> kafka_client \<Rightarrow> bool result" where
  "topic_fully_replicated topic s =
     rbind (coerce_topic (PyStr topic)) (\<lambda>topic.
       case dict_get (kc_topic_partitions s) topic of
         None \<Rightarrow> Inr False
       | Some ps \<Rightarrow>
           if ps = [] then Inr False
           else Inr (\<forall>p\<in>set ps. partition_fully_replicated (topic, p) s))"

section \<open>Broker clients\<close>

definition get_brokerclient :: "int \<Rightarrow> kafka_client \<Rightarrow> broker_client cres" where
  "get_brokerclient node_id s =
     (if kc_closing s then (s, Inl ClientError)
      else (case kc_clients s of
              None \<Rightarrow> (s, Inl TypeError)
            | Some clients \<Rightarrow>
                (case dict_get clients node_id of
                   Some b \<Rightarrow> (s, Inr b)
                 | None \<Rightarrow>
                     (case dict_get (kc_brokers s) node_id of
                        None \<Rightarrow> (s, Inl KeyError)
                      | Some bm \<Rightarrow>
                          (s\<lparr>kc_clients := Some (dict_set node_id (bc_init bm) clients)\<rparr>, Inr (bc_init bm))))))"

text \<open>
  Closing broker clients takes them out of the table, so what becomes of them is kept in
  \<open>kc_closed\<close>. The deferred \<open>close_dlist\<close>, which waits for the disconnects, is not kept.
\<close>

fun close_brokerclients :: "broker_client list \<Rightarrow> kafka_client \<Rightarrow> unit cres" where
  "close_brokerclients [] s = (s, Inr ())"
| "close_brokerclients (b # bs) s =
     (case bc_close b of
        Inl e \<Rightarrow> (s, Inl e)
      | Inr b' \<Rightarrow> close_brokerclients bs (s\<lparr>kc_closed := kc_closed s @ [b']\<rparr>))"

fun update_clients ::
    "(int \<times> broker_metadata) list \<Rightarrow> (int, broker_client) dict \<Rightarrow> (int, broker_client) dict \<times> unit result" where
  "update_clients [] clients = (clients, Inr ())"
| "update_clients ((node_id, bm) # ms) clients =
     (case dict_get clients node_id of
        None \<Rightarrow> update_clients ms clients
      | Some b \<Rightarrow> (case bc_updateMetadata bm b of
                     Inl e \<Rightarrow> (clients, Inl e)
                   | Inr b' \<Rightarrow> update_clients ms (dict_set node_id b' clients)))"

definition update_brokers :: "broker_metadata list \<Rightarrow> bool \<Rightarrow> kafka_client \<Rightarrow> unit cres" where
  "update_brokers brokers remove s =
     (let brokers_by_id = dict_from bm_node_id brokers;
          s = s\<lparr>kc_brokers := foldl (\<lambda>d (k, v). dict_set k v d) (kc_brokers s) brokers_by_id\<rparr>
      in case kc_clients s of
           None \<Rightarrow> if brokers_by_id = [] \<and> \<not> remove then (s, Inr ()) else (s, Inl TypeError)
         | Some clients \<Rightarrow>
             (case update_clients brokers_by_id clients of
                (clients, Inl e) \<Rightarrow> (s\<lparr>kc_clients := Some clients\<rparr>, Inl e)
              | (clients, Inr _) \<Rightarrow>
                  let gone = (\<lambda>(n, b). dict_get brokers_by_id n = None)
                  in if remove
                     then close_brokerclients (dict_values (filter gone clients))
                            (s\<lparr>kc_clients := Some (filter (\<lambda>c. \<not> gone c) clients)\<rparr>)
                     else (s\<lparr>kc_clients := Some clients\<rparr>, Inr ())))"

definition kc_close :: "kafka_client \<Rightarrow> unit cres" where
  "kc_close s =
     (let clients = kc_clients s; s = s\<lparr>kc_closing := True, kc_clients := None\<rparr>
      in case clients of
           None \<Rightarrow> (s, Inl AttributeError)
         | Some clients \<Rightarrow>
             (case close_brokerclients (dict_values clients) s of
                (s, Inl e) \<Rightarrow> (s, Inl e)
              | (s, Inr _) \<Rightarrow> (reset_all_metadata s, Inr ())))"

section \<open>Merging metadata\<close>

fun merge_partitions ::
    "(int, broker_metadata) dict \<Rightarrow> pystr \<Rightarrow> (int \<times> partition_metadata) list \<Rightarrow> kafka_client \<Rightarrow> unit cres" where
  "merge_partitions brokers topic [] s = (s, Inr ())"
| "merge_partitions brokers topic ((part, meta) # ps) s =
     (let old = (case dict_get (kc_topic_partitions s) topic of None \<Rightarrow> [] | Some l \<Rightarrow> l);
          s = s\<lparr>kc_topic_partitions := dict_set topic (old @ [part]) (kc_topic_partitions s),
                kc_partition_meta := dict_set (topic, part) meta (kc_partition_meta s)\<rparr>
      in if pm_leader meta = - 1 then
           merge_partitions brokers topic ps
             (s\<lparr>kc_topics_to_brokers := dict_set (topic, part) None (kc_topics_to_brokers s)\<rparr>)
         else (case dict_get brokers (pm_leader meta) of
                 None \<Rightarrow> (s, Inl KeyError)
               | Some b \<Rightarrow>
                   merge_partitions brokers topic ps
                     (s\<lparr>kc_topics_to_brokers := dict_set (topic, part) (Some b) (kc_topics_to_brokers s)\<rparr>)))"

definition sort_partitions :: "pystr \<Rightarrow> kafka_client \<Rightarrow> kafka_client" where
  "sort_partitions topic s =
     s\<lparr>kc_topic_partitions :=
         dict_set topic (sort (case dict_get (kc_topic_partitions s) topic of None \<Rightarrow> [] | Some l \<Rightarrow> l))
           (kc_topic_partitions s)\<rparr>"

fun merge_topics ::
    "(int, broker_metadata) dict \<Rightarrow> (pystr \<times> topic_metadata) list \<Rightarrow> kafka_client \<Rightarrow> unit cres" where
  "merge_topics brokers [] s = (s, Inr ())"
| "merge_topics brokers ((topic, tm) # ts) s =
     (case reset_topic_metadata [topic] s of
        (s, Inl e) \<Rightarrow> (s, Inl e)
      | (s, Inr _) \<Rightarrow>
          let s = s\<lparr>kc_topic_errors := dict_set topic (tm_topic_error_code tm) (kc_topic_errors s)\<rparr>
          in if tm_partition_metadata tm = [] then merge_topics brokers ts s
             else (case merge_partitions brokers topic (tm_partition_metadata tm)
                          (s\<lparr>kc_topic_partitions := dict_set topic [] (kc_topic_partitions s)\<rparr>) of
                     (s, Inl e) \<Rightarrow> (s, Inl e)
                   | (s, Inr _) \<Rightarrow> merge_topics brokers ts (sort_partitions topic s)))"

definition merge_topic_metadata ::
    "(int, broker_metadata) dict \<Rightarrow> (pystr, topic_metadata) dict \<Rightarrow> bool \<Rightarrow> kafka_client \<Rightarrow> unit cres" where
  "merge_topic_metadata brokers topics fetched_all_topics s =
     (case update_brokers (dict_values brokers) (fetched_all_topics \<and> brokers \<noteq> []) s of
        (s, Inl e) \<Rightarrow> (s, Inl e)
      | (s, Inr _) \<Rightarrow> merge_topics brokers topics s)"

section \<open>Errors in responses\<close>

text \<open>
  The errors that make cached metadata stale. Every other error passes the two \<open>except\<close> clauses,
  whatever \<open>fail_on_error\<close> is. Without a \<open>callback\<close> argument the response itself is kept: then
  \<open>callback\<close> is \<open>Inr\<close>.
\<close>

definition stale_topic :: "exn \<Rightarrow> bool" where
  "stale_topic e \<longleftrightarrow> e = BrokerResponse UnknownTopicOrPartitionError \<or> e = BrokerResponse NotLeaderForPartitionError"

definition stale_group :: "exn \<Rightarrow> bool" where
  "stale_group e \<longleftrightarrow> e = BrokerResponse CoordinatorLoadInProgress \<or> e = BrokerResponse NotCoordinator \<or>
     e = BrokerResponse CoordinatorNotAvailable"

fun handle_responses ::
    "('r \<Rightarrow> pystr) \<Rightarrow> ('r \<Rightarrow> int) \<Rightarrow> ('r \<Rightarrow> 'o result) \<Rightarrow> 'r list \<Rightarrow> bool \<Rightarrow> pystr option \<Rightarrow>
     kafka_client \<Rightarrow> 'o list cres" where
  "handle_responses topic_of error_of callback [] fail_on_error consumer_group s = (s, Inr [])"
| "handle_responses topic_of error_of callback (resp # resps) fail_on_error consumer_group s =
     (let continue = (\<lambda>s.
            case callback resp of
              Inl e \<Rightarrow> (s, Inl e)
            | Inr x \<Rightarrow>
                (case handle_responses topic_of error_of callback resps fail_on_error consumer_group s of
                   (s, Inl e) \<Rightarrow> (s, Inl e) | (s, Inr out) \<Rightarrow> (s, Inr (x # out))))
      in case raise_for_errno (error_of resp) of
           Inr _ \<Rightarrow> continue s
         | Inl e \<Rightarrow>
             if stale_topic e then
               (case reset_topic_metadata [topic_of resp] s of
                  (s, Inl e') \<Rightarrow> (s, Inl e')
                | (s, Inr _) \<Rightarrow> if fail_on_error then (s, Inl e) else continue s)
             else if stale_group e then
               (case consumer_group of
                  None \<Rightarrow> (s, Inl TypeError)
                | Some g \<Rightarrow> let s = reset_consumer_group_metadata [g] s
                           in if fail_on_error then (s, Inl e) else continue s)
             else (s, Inl e))"

section \<open>The cache\<close>

text \<open>
  Every partition with a cached leader is in the cached list of its topic: so dropping a topic by
  its list drops all its leaders.
\<close>

definition cached :: "kafka_client \<Rightarrow> pystr \<Rightarrow> int list" where
  "cached s t = (case dict_get (kc_topic_partitions s) t of None \<Rightarrow> [] | Some ps \<Rightarrow> ps)"

definition leader :: "kafka_client \<Rightarrow> pystr \<Rightarrow> int \<Rightarrow> broker_metadata option option" where
  "leader s t p = dict_get (kc_topics_to_brokers s) (t, p)"

definition cache_ok :: "kafka_client \<Rightarrow> bool" where
  "cache_ok s \<longleftrightarrow> (\<forall>t p. leader s t p \<noteq> None \<longrightarrow> p \<in> set (cached s t))"

lemma dict_get_foldl_del:
  "dict_get (foldl (\<lambda>d p. dict_del (f p) d) d ps) k = (if k \<in> f ` set ps then None else dict_get d k)"
  by (induction ps arbitrary: d) (auto simp: dict_get_del)

lemma reset_topic_view:
  assumes "cache_ok s"
  shows "leader (reset_topic s t) t' p = (if t' = t then None else leader s t' p)"
    and "dict_get (kc_topic_partitions (reset_topic s t)) t' = (if t' = t then None else dict_get (kc_topic_partitions s) t')"
    and "dict_get (kc_topic_errors (reset_topic s t)) t' = (if t' = t then None else dict_get (kc_topic_errors s) t')"
    and "cache_ok (reset_topic s t)"
proof -
  show l: "leader (reset_topic s t) t' p = (if t' = t then None else leader s t' p)" for t' p
    using assms
    by (cases "dict_get (kc_topic_partitions s) t")
      (fastforce simp: reset_topic_def Let_def leader_def cache_ok_def cached_def dict_get_foldl_del)+
  show tp: "dict_get (kc_topic_partitions (reset_topic s t)) t' =
      (if t' = t then None else dict_get (kc_topic_partitions s) t')" for t'
    by (auto simp: reset_topic_def Let_def dict_get_del split: option.splits)
  show "dict_get (kc_topic_errors (reset_topic s t)) t' = (if t' = t then None else dict_get (kc_topic_errors s) t')"
    by (auto simp: reset_topic_def Let_def dict_get_del split: option.splits)
  show "cache_ok (reset_topic s t)"
    using assms unfolding cache_ok_def cached_def by (auto simp: l tp)
qed

lemma reset_topic_metadata_single:
  "reset_topic_metadata [t] s =
     (if t \<noteq> [] \<and> length t \<le> 249 then (reset_topic s t, Inr ()) else (s, Inl ValueError))"
  by (auto simp: reset_topic_metadata_def coerce_topic_def)

text \<open>The cached leader that a partition's metadata stands for.\<close>

definition leader_of :: "(int, broker_metadata) dict \<Rightarrow> partition_metadata \<Rightarrow> broker_metadata option" where
  "leader_of brokers m = (if pm_leader m = - 1 then None else dict_get brokers (pm_leader m))"

lemma merge_partitions_view:
  assumes "distinct (map fst ps)" "merge_partitions brokers t ps s = (s', r)"
  shows "kc_topic_errors s' = kc_topic_errors s \<and>
    (\<forall>t' p. t' \<noteq> t \<longrightarrow> leader s' t' p = leader s t' p \<and>
       dict_get (kc_topic_partitions s') t' = dict_get (kc_topic_partitions s) t') \<and>
    (r = Inr () \<longrightarrow> cached s' t = cached s t @ map fst ps \<and>
       (\<forall>p. leader s' t p = (case dict_get ps p of None \<Rightarrow> leader s t p | Some m \<Rightarrow> Some (leader_of brokers m)))) \<and>
    (cache_ok s \<longrightarrow> cache_ok s')"
  using assms
proof (induction ps arbitrary: s)
  case Nil
  then show ?case by simp
next
  case (Cons x ps)
  obtain q m where x: "x = (q, m)" by force
  let ?s = "s\<lparr>kc_topic_partitions := dict_set t (cached s t @ [q]) (kc_topic_partitions s),
              kc_partition_meta := dict_set (t, q) m (kc_partition_meta s)\<rparr>"
  let ?n = "\<lambda>b. ?s\<lparr>kc_topics_to_brokers := dict_set (t, q) b (kc_topics_to_brokers s)\<rparr>"
  have view: "cached ?s t' = (if t' = t then cached s t @ [q] else cached s t')"
    "cached (?n b) t' = (if t' = t then cached s t @ [q] else cached s t')"
    "leader (?n b) t' p = (if t' = t \<and> p = q then Some b else leader s t' p)"
    "leader ?s t' p = leader s t' p"
    "dict_get (kc_topic_partitions (?n b)) t' =
       (if t' = t then Some (cached s t @ [q]) else dict_get (kc_topic_partitions s) t')"
    "dict_get (kc_topic_partitions ?s) t' =
       (if t' = t then Some (cached s t @ [q]) else dict_get (kc_topic_partitions s) t')" for t' p b
    by (auto simp: cached_def leader_def dict_get_set)
  have ok: "cache_ok ?s" "cache_ok (?n b)" if "cache_ok s" for b
    using that unfolding cache_ok_def view by (auto split: if_splits)
  have unfold: "merge_partitions brokers t (x # ps) s =
      (if pm_leader m \<noteq> - 1 \<and> dict_get brokers (pm_leader m) = None then (?s, Inl KeyError)
       else merge_partitions brokers t ps (?n (leader_of brokers m)))"
    by (auto simp: x Let_def leader_of_def cached_def split: option.splits)
  show ?case
  proof (cases "pm_leader m \<noteq> - 1 \<and> dict_get brokers (pm_leader m) = None")
    case True
    then have "s' = ?s" "r = Inl KeyError" using Cons.prems(2) unfold by auto
    then show ?thesis using ok(1) view by simp
  next
    case False
    then have rec: "merge_partitions brokers t ps (?n (leader_of brokers m)) = (s', r)"
      using Cons.prems(2) unfold by (simp only: if_False)
    have "q \<notin> set (map fst ps)" "distinct (map fst ps)" using Cons.prems(1) by (auto simp: x)
    then have q: "dict_get ps q = None" by (simp add: map_of_eq_None_iff)
    note IH = Cons.IH [OF \<open>distinct (map fst ps)\<close> rec, unfolded view]
    show ?thesis using IH q ok(2) by (auto simp: x split: option.splits)
  qed
qed

text \<open>What the cache says about a topic.\<close>

definition topic_view_is :: "(int, broker_metadata) dict \<Rightarrow> topic_metadata \<Rightarrow> kafka_client \<Rightarrow> pystr \<Rightarrow> bool" where
  "topic_view_is brokers tm s t \<longleftrightarrow>
     dict_get (kc_topic_errors s) t = Some (tm_topic_error_code tm) \<and>
     dict_get (kc_topic_partitions s) t =
       (if tm_partition_metadata tm = [] then None else Some (sort (dict_keys (tm_partition_metadata tm)))) \<and>
     (\<forall>p. leader s t p = map_option (leader_of brokers) (dict_get (tm_partition_metadata tm) p))"

definition same_topic :: "kafka_client \<Rightarrow> kafka_client \<Rightarrow> pystr \<Rightarrow> bool" where
  "same_topic s s' t \<longleftrightarrow>
     dict_get (kc_topic_errors s') t = dict_get (kc_topic_errors s) t \<and>
     dict_get (kc_topic_partitions s') t = dict_get (kc_topic_partitions s) t \<and>
     (\<forall>p. leader s' t p = leader s t p)"

lemma same_topic_refl [simp]: "same_topic s s t"
  by (simp add: same_topic_def)

lemma same_topic_trans: "same_topic s s1 t \<Longrightarrow> same_topic s1 s' t \<Longrightarrow> same_topic s s' t"
  by (simp add: same_topic_def)

lemma sort_partitions_view:
  "leader (sort_partitions t s) t' p = leader s t' p" "kc_topic_errors (sort_partitions t s) = kc_topic_errors s"
  "dict_get (kc_topic_partitions (sort_partitions t s)) t' =
     (if t' = t then Some (sort (cached s t)) else dict_get (kc_topic_partitions s) t')"
  "set (cached (sort_partitions t s) t') = set (cached s t')"
  by (auto simp: sort_partitions_def leader_def dict_get_set cached_def split: option.splits)

lemma merge_topic_step:
  assumes "cache_ok s" "dict_ok (tm_partition_metadata tm)"
  shows "\<exists>s1 r. (\<forall>ts. merge_topics brokers ((t, tm) # ts) s =
      (case r of Inl e \<Rightarrow> (s1, Inl e) | Inr _ \<Rightarrow> merge_topics brokers ts s1)) \<and>
    cache_ok s1 \<and> (\<forall>t'. t' \<noteq> t \<longrightarrow> same_topic s s1 t') \<and> (r = Inr () \<longrightarrow> topic_view_is brokers tm s1 t)"
proof (cases "t \<noteq> [] \<and> length t \<le> 249")
  case False
  then show ?thesis
    using assms(1) by (intro exI [of _ s] exI [of _ "Inl ValueError"])
      (auto simp: reset_topic_metadata_single same_topic_def)
next
  case True
  note rv = reset_topic_view [OF assms(1), of t]
  let ?ps = "tm_partition_metadata tm"
  let ?s1 = "(reset_topic s t)\<lparr>kc_topic_errors := dict_set t (tm_topic_error_code tm) (kc_topic_errors (reset_topic s t))\<rparr>"
  have l1: "leader ?s1 t' p = (if t' = t then None else leader s t' p)" for t' p
    using rv(1) by (simp add: leader_def)
  show ?thesis
  proof (cases "?ps = []")
    case ps: True
    have "cache_ok ?s1" using rv(4) by (simp add: cache_ok_def leader_def cached_def)
    moreover have "topic_view_is brokers tm ?s1 t" using ps rv(2) l1 by (simp add: topic_view_is_def dict_get_set)
    moreover have "\<forall>t'. t' \<noteq> t \<longrightarrow> same_topic s ?s1 t'" using rv(2,3) l1 by (simp add: same_topic_def dict_get_set)
    ultimately show ?thesis
      using True ps by (intro exI [of _ ?s1] exI [of _ "Inr ()"]) (simp add: reset_topic_metadata_single Let_def)
  next
    case ps: False
    let ?s2 = "?s1\<lparr>kc_topic_partitions := dict_set t [] (kc_topic_partitions ?s1)\<rparr>"
    have l2: "leader ?s2 t' p = (if t' = t then None else leader s t' p)" for t' p
      using l1 by (simp add: leader_def)
    have p2: "dict_get (kc_topic_partitions ?s2) t' = (if t' = t then Some [] else dict_get (kc_topic_partitions s) t')" for t'
      using rv(2) by (simp add: dict_get_set)
    have c2: "cached ?s2 t = []" by (simp add: cached_def dict_get_set)
    have "cached ?s2 t' = (if t' = t then [] else cached s t')" for t' using p2 [of t'] by (simp add: cached_def)
    then have ok2: "cache_ok ?s2" using assms(1) unfolding cache_ok_def l2 by auto
    obtain s3 r where m: "merge_partitions brokers t ?ps ?s2 = (s3, r)" by force
    have dist: "distinct (map fst ?ps)" using assms(2) by (simp add: dict_ok_def)
    note v = merge_partitions_view [OF dist m]
    have e: "dict_get (kc_topic_errors ?s2) t' =
        (if t' = t then Some (tm_topic_error_code tm) else dict_get (kc_topic_errors s) t')" for t'
      using rv(3) by (simp add: dict_get_set)
    have others: "same_topic s s3 t'" if "t' \<noteq> t" for t'
      using v that l2 p2 e by (simp add: same_topic_def)
    have ok3: "cache_ok s3" using v ok2 by blast
    show ?thesis
    proof (cases r)
      case (Inl x)
      with True ps m ok3 others show ?thesis
        by (intro exI [of _ s3] exI [of _ r]) (simp add: reset_topic_metadata_single Let_def)
    next
      case (Inr u)
      then have c3: "cached s3 t = map fst ?ps" and l3: "leader s3 t p = map_option (leader_of brokers) (dict_get ?ps p)" for p
        using v c2 l2 by (auto split: option.splits)
      let ?s4 = "sort_partitions t s3"
      note v4 = sort_partitions_view [of t s3]
      have "cache_ok ?s4" using ok3 unfolding cache_ok_def v4 .
      moreover have "topic_view_is brokers tm ?s4 t"
        using v e ps c3 l3 by (simp add: topic_view_is_def v4)
      moreover have "\<forall>t'. t' \<noteq> t \<longrightarrow> same_topic s ?s4 t'" using others by (simp add: same_topic_def v4)
      ultimately show ?thesis
        using True ps m Inr by (intro exI [of _ ?s4] exI [of _ "Inr ()"]) (simp add: reset_topic_metadata_single Let_def)
    qed
  qed
qed

lemma merge_topics_view:
  assumes "cache_ok s" "dict_ok ts" "\<forall>(t, tm)\<in>set ts. dict_ok (tm_partition_metadata tm)"
    and "merge_topics brokers ts s = (s', r)"
  shows "cache_ok s' \<and> (r = Inr () \<longrightarrow>
    (\<forall>t. case dict_get ts t of None \<Rightarrow> same_topic s s' t | Some tm \<Rightarrow> topic_view_is brokers tm s' t))"
  using assms
proof (induction ts arbitrary: s)
  case Nil
  then show ?case by (simp add: same_topic_def)
next
  case (Cons x ts)
  obtain t tm where x: "x = (t, tm)" by force
  have "dict_ok (tm_partition_metadata tm)" using Cons.prems(3) by (simp add: x)
  from merge_topic_step [OF Cons.prems(1) this] obtain s1 r1 where
    m: "merge_topics brokers ((t, tm) # ts) s =
      (case r1 of Inl e \<Rightarrow> (s1, Inl e) | Inr _ \<Rightarrow> merge_topics brokers ts s1)"
    and ok: "cache_ok s1" and other: "\<forall>t'. t' \<noteq> t \<longrightarrow> same_topic s s1 t'"
    and tv: "r1 = Inr () \<longrightarrow> topic_view_is brokers tm s1 t" by blast
  show ?case
  proof (cases r1)
    case (Inl e)
    with m ok Cons.prems(4) x show ?thesis by auto
  next
    case (Inr u)
    have d: "dict_ok ts" "t \<notin> set (dict_keys ts)" using Cons.prems(2) by (auto simp: dict_ok_def x)
    then have no: "dict_get ts t = None" by (simp add: map_of_eq_None_iff)
    have "merge_topics brokers ts s1 = (s', r)" using Cons.prems(4) m Inr by (simp add: x)
    from Cons.IH [OF ok d(1) _ this] Cons.prems(3)
    have IH: "cache_ok s'" "r = Inr () \<Longrightarrow> case dict_get ts t' of None \<Rightarrow> same_topic s1 s' t'
        | Some tm \<Rightarrow> topic_view_is brokers tm s' t'" for t' by (auto simp: x)
    have "case dict_get (x # ts) t' of None \<Rightarrow> same_topic s s' t' | Some tm \<Rightarrow> topic_view_is brokers tm s' t'"
      if "r = Inr ()" for t'
    proof (cases "t' = t")
      case True
      then show ?thesis using IH(2) [OF that, of t] tv Inr no by (simp add: x topic_view_is_def same_topic_def)
    next
      case False
      then show ?thesis using IH(2) [OF that, of t'] other by (auto simp: x same_topic_def split: option.splits)
    qed
    with IH(1) show ?thesis by blast
  qed
qed

lemma close_brokerclients_frame:
  assumes "close_brokerclients bs s = (s', r)"
  shows "kc_topics_to_brokers s' = kc_topics_to_brokers s \<and> kc_topic_partitions s' = kc_topic_partitions s \<and>
    kc_topic_errors s' = kc_topic_errors s \<and> kc_clients s' = kc_clients s \<and> kc_brokers s' = kc_brokers s \<and>
    kc_coordinator_fetches s' = kc_coordinator_fetches s \<and> kc_fired s' = kc_fired s \<and>
    kc_group_to_coordinator s' = kc_group_to_coordinator s"
  using assms by (induction bs arbitrary: s) (auto split: sum.splits)

lemma update_brokers_cache:
  "update_brokers bs rm s = (s', r) \<Longrightarrow>
   kc_topics_to_brokers s' = kc_topics_to_brokers s \<and> kc_topic_partitions s' = kc_topic_partitions s \<and>
   kc_topic_errors s' = kc_topic_errors s \<and> kc_coordinator_fetches s' = kc_coordinator_fetches s \<and>
   kc_fired s' = kc_fired s \<and> kc_group_to_coordinator s' = kc_group_to_coordinator s"
  by (auto simp: update_brokers_def Let_def close_brokerclients_frame split: option.splits if_splits prod.splits sum.splits)

lemma read_n_all: "read_n n rd cur = Inr (xs, cur') \<Longrightarrow> x \<in> set xs \<Longrightarrow> \<exists>c c'. rd c = Inr (x, c')"
proof (induction n arbitrary: cur xs)
  case (Suc n)
  from Suc.prems(1) obtain y c ys where y: "rd cur = Inr (y, c)" "read_n n rd c = Inr (ys, cur')" "xs = y # ys"
    by (auto simp: rbind_eq_Inr)
  show ?case using Suc.IH [OF y(2)] Suc.prems(2) y(1,3) by auto
qed simp

lemma dict_from_value: "(k, v) \<in> set (dict_from key vs) \<Longrightarrow> v \<in> set vs \<and> key v = k"
proof -
  assume "(k, v) \<in> set (dict_from key vs)"
  then have "dict_get (dict_from key vs) k = Some v" by (simp add: dict_get_in)
  then obtain i where "i < length (rev vs)" "rev vs ! i = v" "key v = k"
    by (auto simp: dict_from_get find_Some_iff)
  then show ?thesis by (metis nth_mem set_rev)
qed

lemma decode_metadata_ok:
  assumes "decode_metadata_response data = Inr (brokers, topics)"
  shows "dict_ok brokers \<and> dict_ok topics \<and> (\<forall>(t, tm)\<in>set topics. tm_topic tm = t \<and> dict_ok (tm_partition_metadata tm))"
proof -
  have "\<exists>n cur cur' ts bs. read_n n (read_topic_metadata data) cur = Inr (ts, cur') \<and>
      topics = dict_from tm_topic ts \<and> brokers = dict_from bm_node_id bs"
    using assms by (auto simp: decode_metadata_response_def rbind_eq_Inr split: if_splits) blast
  then obtain n cur cur' ts bs where rd: "read_n n (read_topic_metadata data) cur = Inr (ts, cur')"
    and t: "topics = dict_from tm_topic ts" and b: "brokers = dict_from bm_node_id bs" by blast
  have "dict_ok (tm_partition_metadata tm)" if "tm \<in> set ts" for tm
    using read_n_all [OF rd that] by (auto simp: read_topic_metadata_def rbind_eq_Inr)
  with t b dict_from_value [of _ _ tm_topic ts] show ?thesis by (auto simp: t)
qed

section \<open>Properties\<close>

text \<open>
  C36. After a metadata response was merged, the cache says what the response says about each of its
  topics (the topic's error code; its partitions, sorted; the leader of each partition, or that it
  has none) and what it said before about all others. A leader is never cached for a partition
  missing from its topic's list, also when merging fails half-way.
\<close>

theorem metadata_merge_spec:
  assumes "cache_ok s" "decode_metadata_response data = Inr (brokers, topics)"
    and "merge_topic_metadata brokers topics fetched_all s = (s', r)"
  shows "cache_ok s' \<and> (r = Inr () \<longrightarrow>
    (\<forall>t. case dict_get topics t of
       None \<Rightarrow> same_topic s s' t
     | Some tm \<Rightarrow>
         dict_get (kc_topic_errors s') t = Some (tm_topic_error_code tm) \<and>
         dict_get (kc_topic_partitions s') t =
           (if tm_partition_metadata tm = [] then None else Some (sort (dict_keys (tm_partition_metadata tm)))) \<and>
         (\<forall>p. leader s' t p = map_option (leader_of brokers) (dict_get (tm_partition_metadata tm) p))))"
proof -
  obtain s1 r1 where u: "update_brokers (dict_values brokers) (fetched_all \<and> brokers \<noteq> []) s = (s1, r1)" by force
  have same: "same_topic s s1 t" "leader s1 t p = leader s t p" "cached s1 t = cached s t" for t p
    using update_brokers_cache [OF u] by (simp_all add: same_topic_def leader_def cached_def)
  have ok1: "cache_ok s1" using assms(1) by (simp add: cache_ok_def same)
  have d: "dict_ok topics" "\<forall>(t, tm)\<in>set topics. dict_ok (tm_partition_metadata tm)"
    using decode_metadata_ok [OF assms(2)] by auto
  show ?thesis
  proof (cases r1)
    case (Inl e)
    with assms(3) u have "s' = s1" "r = Inl e" by (simp_all add: merge_topic_metadata_def)
    with ok1 show ?thesis by simp
  next
    case (Inr x)
    then have m: "merge_topics brokers topics s1 = (s', r)" using assms(3) u by (simp add: merge_topic_metadata_def)
    have st: "same_topic s1 s' t \<longleftrightarrow> same_topic s s' t" for t
      using update_brokers_cache [OF u] by (simp add: same_topic_def leader_def)
    show ?thesis using merge_topics_view [OF ok1 d m] unfolding st topic_view_is_def .
  qed
qed

text \<open>A client as its constructor leaves it.\<close>

definition fresh_client :: kafka_client where
  "fresh_client = fst (kc_init ascii_native (HostsSeq []) [] 10000 False 0)"

lemmas fresh_client_simps = fresh_client_def kc_init_def update_cluster_hosts_def normalize_hosts_def split_hosts_def

theorem metadata_merge_spec_witness:
  "\<exists>data brokers topics s'. sample_metadata = Inr data \<and> decode_metadata_response data = Inr (brokers, topics) \<and>
     merge_topic_metadata brokers topics False fresh_client = (s', Inr ()) \<and>
     dict_get (kc_topic_partitions s') (str_lit ''t'') = Some [0, 1] \<and>
     leader s' (str_lit ''t'') 0 = Some (Some \<lparr>bm_node_id = 7, bm_host = str_lit ''h'', bm_port = 9092\<rparr>) \<and>
     leader s' (str_lit ''t'') 1 = Some None"
proof -
  obtain data where d: "sample_metadata = Inr data" using sample_metadata_bytes by blast
  define brokers where "brokers = [(7 :: int, \<lparr>bm_node_id = 7, bm_host = str_lit ''h'', bm_port = 9092\<rparr>)]"
  define tm where "tm = topic_view (0, str_lit ''t'', [(0, 0, 7, [7, 8], [7]), (1, 5, - 1, [], [])])"
  have dec: "decode_metadata_response data = Inr (brokers, [(str_lit ''t'', tm)])"
    using metadata_decode [OF d [unfolded sample_metadata_def]]
    by (simp add: dict_from_def brokers_def tm_def topic_view_def)
  have m: "\<exists>s'. merge_topic_metadata brokers [(str_lit ''t'', tm)] False fresh_client = (s', Inr ())"
    by (simp add: merge_topic_metadata_def update_brokers_def fresh_client_simps brokers_def tm_def topic_view_def
        partition_view_def dict_from_def reset_topic_metadata_single Let_def str_lit_def)
  then obtain s' where m: "merge_topic_metadata brokers [(str_lit ''t'', tm)] False fresh_client = (s', Inr ())" ..
  have "cache_ok fresh_client" by (simp add: cache_ok_def leader_def fresh_client_simps)
  note mspec = metadata_merge_spec [OF this dec m]
  have "dict_get (kc_topic_partitions s') (str_lit ''t'') = Some [0, 1] \<and>
      leader s' (str_lit ''t'') 0 = Some (Some \<lparr>bm_node_id = 7, bm_host = str_lit ''h'', bm_port = 9092\<rparr>) \<and>
      leader s' (str_lit ''t'') 1 = Some None"
    using mspec [THEN conjunct2, THEN mp, OF refl, THEN spec, of "str_lit ''t''"]
    by (simp add: tm_def topic_view_def partition_view_def dict_from_def leader_of_def brokers_def)
  with d dec m show ?thesis by blast
qed

section \<open>Responses with errors\<close>

definition forgotten :: "kafka_client \<Rightarrow> pystr \<Rightarrow> bool" where
  "forgotten s t \<longleftrightarrow> dict_get (kc_topic_partitions s) t = None \<and> dict_get (kc_topic_errors s) t = None \<and>
     (\<forall>p. leader s t p = None)"

text \<open>What a response does to the cache before the loop goes on or raises.\<close>

definition note_error :: "('r \<Rightarrow> pystr) \<Rightarrow> ('r \<Rightarrow> int) \<Rightarrow> pystr option \<Rightarrow> 'r \<Rightarrow> kafka_client \<Rightarrow> unit cres" where
  "note_error topic_of error_of g resp s =
     (case raise_for_errno (error_of resp) of
        Inr _ \<Rightarrow> (s, Inr ())
      | Inl e \<Rightarrow> if stale_topic e then reset_topic_metadata [topic_of resp] s
                 else if stale_group e then
                   (case g of None \<Rightarrow> (s, Inl TypeError) | Some g \<Rightarrow> (reset_consumer_group_metadata [g] s, Inr ()))
                 else (s, Inl e))"

definition tolerated :: "('r \<Rightarrow> int) \<Rightarrow> bool \<Rightarrow> 'r \<Rightarrow> bool" where
  "tolerated error_of fail_on_error resp \<longleftrightarrow>
     (case raise_for_errno (error_of resp) of
        Inr _ \<Rightarrow> True | Inl e \<Rightarrow> \<not> fail_on_error \<and> (stale_topic e \<or> stale_group e))"

lemma handle_responses_step:
  "handle_responses topic_of error_of callback (resp # resps) fail g s =
     (case note_error topic_of error_of g resp s of
        (s, Inl e) \<Rightarrow> (s, Inl e)
      | (s, Inr _) \<Rightarrow>
          if tolerated error_of fail resp
          then (case callback resp of
                  Inl e \<Rightarrow> (s, Inl e)
                | Inr x \<Rightarrow> (case handle_responses topic_of error_of callback resps fail g s of
                              (s, Inl e) \<Rightarrow> (s, Inl e) | (s, Inr out) \<Rightarrow> (s, Inr (x # out))))
          else (s, Inl (projl (raise_for_errno (error_of resp)))))"
  by (auto simp: note_error_def tolerated_def Let_def split: sum.splits option.splits prod.splits)

lemma note_error_cases:
  assumes "note_error topic_of error_of g resp s = (s', r)"
  obtains (skip) "s' = s" "r = Inr ()" "error_of resp = 0"
  | (raised) e where "s' = s" "r = Inl e"
  | (topic) e where "s' = reset_topic s (topic_of resp)" "r = Inr ()"
      "raise_for_errno (error_of resp) = Inl e" "stale_topic e"
  | (grp) e g' where "s' = reset_consumer_group_metadata [g'] s" "r = Inr ()" "g = Some g'"
      "raise_for_errno (error_of resp) = Inl e" "stale_group e" "\<not> stale_topic e"
  using assms
  by (auto simp: note_error_def reset_topic_metadata_single raise_for_errno_def
      split: sum.splits if_splits option.splits)

lemma reset_group_view:
  "leader (reset_consumer_group_metadata gs s) t p = leader s t p"
  "cached (reset_consumer_group_metadata gs s) t = cached s t"
  "cache_ok (reset_consumer_group_metadata gs s) = cache_ok s"
  "same_topic s (reset_consumer_group_metadata gs s) t"
  "forgotten (reset_consumer_group_metadata gs s) t = forgotten s t"
  "dict_get (kc_group_to_coordinator (reset_consumer_group_metadata gs s)) h =
     (if h \<in> set gs then None else dict_get (kc_group_to_coordinator s) h)"
  by (simp_all add: reset_consumer_group_metadata_def leader_def cached_def cache_ok_def same_topic_def forgotten_def
      dict_get_foldl_del [where f = "\<lambda>x. x"])

lemma reset_topic_forgets:
  assumes "cache_ok s"
  shows "forgotten (reset_topic s t) t" "t' \<noteq> t \<Longrightarrow> same_topic s (reset_topic s t) t'"
    "forgotten s t' \<Longrightarrow> forgotten (reset_topic s t) t'"
    "kc_group_to_coordinator (reset_topic s t) = kc_group_to_coordinator s"
  using reset_topic_view [OF assms, of t]
  by (auto simp: forgotten_def same_topic_def) (simp add: reset_topic_def Let_def split: option.splits)

text \<open>The error of a response has made the client forget what it concerns.\<close>

definition noted :: "('r \<Rightarrow> pystr) \<Rightarrow> ('r \<Rightarrow> int) \<Rightarrow> pystr option \<Rightarrow> kafka_client \<Rightarrow> 'r \<Rightarrow> bool" where
  "noted topic_of error_of g s resp \<longleftrightarrow>
     (\<exists>e. raise_for_errno (error_of resp) = Inl e \<and>
        (stale_topic e \<and> forgotten s (topic_of resp) \<or>
         stale_group e \<and> (\<exists>g'. g = Some g' \<and> dict_get (kc_group_to_coordinator s) g' = None)))"

definition forgets_more :: "kafka_client \<Rightarrow> kafka_client \<Rightarrow> bool" where
  "forgets_more s s' \<longleftrightarrow> (\<forall>t. forgotten s t \<longrightarrow> forgotten s' t) \<and>
     (\<forall>h. dict_get (kc_group_to_coordinator s) h = None \<longrightarrow> dict_get (kc_group_to_coordinator s') h = None)"

lemma noted_mono: "noted topic_of error_of g s resp \<Longrightarrow> forgets_more s s' \<Longrightarrow> noted topic_of error_of g s' resp"
  unfolding noted_def forgets_more_def by blast

lemma forgets_more_trans: "forgets_more s s1 \<Longrightarrow> forgets_more s1 s' \<Longrightarrow> forgets_more s s'"
  by (simp add: forgets_more_def)

lemma note_error_cache:
  assumes "cache_ok s" "note_error topic_of error_of g resp s = (s', r)"
  shows "cache_ok s' \<and> (same_topic s s' t \<or> forgotten s' t \<and> topic_of resp = t) \<and> forgets_more s s' \<and>
    (r = Inr () \<longrightarrow> error_of resp = 0 \<or> noted topic_of error_of g s' resp)"
  using assms(2)
proof (cases rule: note_error_cases)
  case (topic e)
  then have "noted topic_of error_of g s' resp" using reset_topic_forgets(1) [OF assms(1)] by (auto simp: noted_def)
  moreover have "forgets_more s s'" using reset_topic_forgets(3,4) [OF assms(1)] topic(1) by (simp add: forgets_more_def)
  ultimately show ?thesis
    using topic(1) reset_topic_forgets(1,2) [OF assms(1)] reset_topic_view(4) [OF assms(1)] by metis
qed (use assms(1) in \<open>auto simp: reset_group_view noted_def forgets_more_def\<close>)

lemma tolerated_iff:
  "tolerated error_of fail resp \<longleftrightarrow> error_of resp = 0 \<or>
     \<not> fail \<and> (\<exists>e. raise_for_errno (error_of resp) = Inl e \<and> (stale_topic e \<or> stale_group e))"
  by (auto simp: tolerated_def raise_for_errno_def split: option.splits)

lemma handle_responses_inv:
  assumes "cache_ok s" "handle_responses topic_of error_of callback resps fail g s = (s', r)"
  shows "cache_ok s' \<and>
    (\<forall>t. same_topic s s' t \<or> forgotten s' t \<and> (\<exists>resp\<in>set resps. topic_of resp = t)) \<and>
    forgets_more s s' \<and>
    (\<forall>out. r = Inr out \<longrightarrow>
       list_all2 (\<lambda>resp x. callback resp = Inr x) resps out \<and>
       (\<forall>resp\<in>set resps. error_of resp = 0 \<or> \<not> fail \<and> noted topic_of error_of g s' resp))"
  using assms
proof (induction resps arbitrary: s r)
  case Nil
  then show ?case by (auto simp: forgets_more_def)
next
  case (Cons resp resps)
  obtain s1 r1 where n: "note_error topic_of error_of g resp s = (s1, r1)" by force
  note nc = note_error_cache [OF Cons.prems(1) n] and step = Cons.prems(2) [unfolded handle_responses_step n]
  show ?case
  proof (cases "r1 = Inr () \<and> tolerated error_of fail resp \<and> (\<exists>x. callback resp = Inr x)")
    case False
    then have "s' = s1 \<and> (\<exists>e. r = Inl e)"
      using step by (auto split: sum.splits if_splits)
    with nc show ?thesis by fastforce
  next
    case True
    then obtain x where x: "callback resp = Inr x" by blast
    obtain s2 r2 where h: "handle_responses topic_of error_of callback resps fail g s1 = (s2, r2)" by force
    have s': "s' = s2" "r = (case r2 of Inl e \<Rightarrow> Inl e | Inr out \<Rightarrow> Inr (x # out))"
      using step True x h by (auto split: sum.splits)
    note IH = Cons.IH [OF nc [THEN conjunct1] h [folded s'(1)]]
    have same: "same_topic s s' t \<or> forgotten s' t \<and> (\<exists>resp\<in>set (resp # resps). topic_of resp = t)" for t
    proof -
      have "same_topic s s1 t \<or> forgotten s1 t \<and> topic_of resp = t" using nc [of t] by blast
      moreover have "same_topic s1 s' t \<or> forgotten s' t \<and> (\<exists>resp\<in>set resps. topic_of resp = t)"
        "forgotten s1 t \<longrightarrow> forgotten s' t" using IH by (auto simp: forgets_more_def)
      ultimately show ?thesis using same_topic_trans [of s s1 t s'] by auto
    qed
    have hd: "error_of resp = 0 \<or> \<not> fail \<and> noted topic_of error_of g s' resp"
      using True nc IH noted_mono [of topic_of error_of g s1 resp s'] by (auto simp: tolerated_iff)
    have "forgets_more s s'" using nc IH forgets_more_trans by blast
    with IH same hd x show ?thesis unfolding s'(2) by (auto split: sum.splits)
  qed
qed

text \<open>
  What \<open>_handle_responses\<close> does with the error codes in a list of responses. When it returns,
  every response went through \<open>callback\<close>, in order, and each error code among them was one that makes
  metadata stale (and \<open>fail_on_error\<close> was off): the metadata of the response's topic, or the
  coordinator of the group, is forgotten, to be fetched again. No other topic is touched. A code of
  any other error raises, whatever \<open>fail_on_error\<close> says.
\<close>

theorem handle_responses_spec:
  assumes "cache_ok s" "handle_responses topic_of error_of callback resps fail_on_error g s = (s', r)"
  shows "cache_ok s' \<and>
    (\<forall>t. same_topic s s' t \<or> forgotten s' t \<and> (\<exists>resp\<in>set resps. topic_of resp = t)) \<and>
    (\<forall>out. r = Inr out \<longrightarrow>
       list_all2 (\<lambda>resp x. callback resp = Inr x) resps out \<and>
       (\<forall>resp\<in>set resps. error_of resp = 0 \<or>
          \<not> fail_on_error \<and> (\<exists>e. raise_for_errno (error_of resp) = Inl e \<and>
            (stale_topic e \<and> forgotten s' (topic_of resp) \<or>
             stale_group e \<and> (\<exists>g'. g = Some g' \<and> dict_get (kc_group_to_coordinator s') g' = None)))))"
  using handle_responses_inv [OF assms] unfolding noted_def by blast

theorem handle_responses_spec_witness:
  "\<exists>s'. handle_responses fst snd Inr [(str_lit ''t'', 0), (str_lit ''t'', 6), (str_lit ''u'', 0)] False None
        (fresh_client\<lparr>kc_topic_partitions := [(str_lit ''t'', [0]), (str_lit ''u'', [3])]\<rparr>) =
      (s', Inr [(str_lit ''t'', 0), (str_lit ''t'', 6), (str_lit ''u'', 0)]) \<and>
    forgotten s' (str_lit ''t'') \<and> dict_get (kc_topic_partitions s') (str_lit ''u'') = Some [3]"
proof -
  let ?s = "fresh_client\<lparr>kc_topic_partitions := [(str_lit ''t'', [0]), (str_lit ''u'', [3])]\<rparr>"
  let ?rs = "[(str_lit ''t'', 0), (str_lit ''t'', 6), (str_lit ''u'', 0)] :: (pystr \<times> int) list"
  have ok: "cache_ok ?s" by (simp add: cache_ok_def leader_def fresh_client_simps)
  have e6: "raise_for_errno 6 = Inl (BrokerResponse NotLeaderForPartitionError)" "raise_for_errno 0 = Inr ()"
    by (simp_all add: raise_for_errno_def errnos_def)
  have h: "handle_responses fst snd Inr ?rs False None ?s = (reset_topic ?s (str_lit ''t''), Inr ?rs)"
    by (simp add: e6 stale_topic_def reset_topic_metadata_single str_lit_def Let_def)
  have "dict_get (kc_topic_partitions (reset_topic ?s (str_lit ''t''))) (str_lit ''u'') = Some [3]"
    unfolding reset_topic_view(2) [OF ok] by (simp add: str_lit_def)
  moreover have "forgotten (reset_topic ?s (str_lit ''t'')) (str_lit ''t'')"
    using handle_responses_spec [OF ok h] by (simp add: e6 stale_group_def)
  ultimately show ?thesis using h by blast
qed

section \<open>Broker clients\<close>

text \<open>The table holds clients that are open, each under its node id.\<close>

definition clients_ok :: "kafka_client \<Rightarrow> bool" where
  "clients_ok s \<longleftrightarrow>
     (case kc_clients s of
        None \<Rightarrow> kc_closing s
      | Some cl \<Rightarrow> dict_ok cl \<and> (\<forall>(n, b)\<in>set cl. bc_node_id b = n \<and> bc_dDown b = None))"

definition client_for :: "kafka_client \<Rightarrow> int \<Rightarrow> broker_client option" where
  "client_for s n = (case kc_clients s of None \<Rightarrow> None | Some cl \<Rightarrow> dict_get cl n)"

text \<open>A broker client with the address of new metadata.\<close>

definition readdress :: "broker_metadata option \<Rightarrow> broker_client \<Rightarrow> broker_client" where
  "readdress bm b = (case bm of None \<Rightarrow> b | Some bm \<Rightarrow> b\<lparr>bc_host := bm_host bm, bc_port := bm_port bm\<rparr>)"

lemma update_clients_spec:
  assumes "dict_ok ms" "\<forall>(n, bm)\<in>set ms. bm_node_id bm = n"
    and "dict_ok cl" "\<forall>(n, b)\<in>set cl. bc_node_id b = n \<and> bc_dDown b = None"
  shows "\<exists>cl'. update_clients ms cl = (cl', Inr ()) \<and> dict_keys cl' = dict_keys cl \<and>
    (\<forall>n. dict_get cl' n = map_option (readdress (dict_get ms n)) (dict_get cl n))"
  using assms
proof (induction ms arbitrary: cl)
  case Nil
  then show ?case by (auto simp: readdress_def option.map_ident)
next
  case (Cons x ms)
  obtain n bm where x: "x = (n, bm)" by force
  have ms: "dict_ok ms" "dict_get ms n = None" "\<forall>(n, bm)\<in>set ms. bm_node_id bm = n" "bm_node_id bm = n"
    using Cons.prems(1,2) by (auto simp: dict_ok_def x map_of_eq_None_iff)
  show ?case
  proof (cases "dict_get cl n")
    case None
    with Cons.IH [OF ms(1,3) Cons.prems(3,4)] obtain cl' where
      "update_clients ms cl = (cl', Inr ())" "dict_keys cl' = dict_keys cl"
      "\<forall>n. dict_get cl' n = map_option (readdress (dict_get ms n)) (dict_get cl n)" by blast
    with None show ?thesis by (intro exI [of _ cl']) (auto simp: x)
  next
    case (Some b)
    then have b: "bc_node_id b = n" "bc_dDown b = None" using Cons.prems(4) map_of_SomeD by fast+
    let ?b = "readdress (Some bm) b" and ?cl = "dict_set n (readdress (Some bm) b) cl"
    have u: "bc_updateMetadata bm b = Inr ?b" using b ms(4) by (simp add: bc_updateMetadata_def readdress_def)
    have keys: "dict_keys ?cl = dict_keys cl" using Some by (force simp: update_keys image_iff dest: map_of_SomeD)
    have ok: "dict_ok ?cl" using Cons.prems(3) keys by (simp add: dict_ok_def)
    have "\<forall>(m, c)\<in>set ?cl. bc_node_id c = m \<and> bc_dDown c = None"
    proof (clarify, rule ccontr)
      fix m c assume "(m, c) \<in> set ?cl" and bad: "\<not> (bc_node_id c = m \<and> bc_dDown c = None)"
      then have "dict_get ?cl m = Some c" using ok by (simp add: dict_get_in)
      with bad show False
        using b Cons.prems(4) by (auto simp: dict_get_set readdress_def split: if_splits dest!: map_of_SomeD)
    qed
    from Cons.IH [OF ms(1,3) ok this] obtain cl' where cl': "update_clients ms ?cl = (cl', Inr ())"
      "dict_keys cl' = dict_keys ?cl"
      "\<forall>n. dict_get cl' n = map_option (readdress (dict_get ms n)) (dict_get ?cl n)" by blast
    then have "\<forall>m. dict_get cl' m = map_option (readdress (dict_get (x # ms) m)) (dict_get cl m)"
      using Some ms(2) by (auto simp: x dict_get_set readdress_def)
    with cl' keys Some u show ?thesis by (intro exI [of _ cl']) (simp add: x)
  qed
qed

lemma close_brokerclients_all:
  assumes "\<forall>b\<in>set bs. bc_dDown b = None"
  shows "\<exists>cs. close_brokerclients bs s = (s\<lparr>kc_closed := kc_closed s @ cs\<rparr>, Inr ()) \<and>
    list_all2 (\<lambda>b c. bc_close b = Inr c) bs cs"
  using assms
proof (induction bs arbitrary: s)
  case Nil
  show ?case by (rule exI [of _ "[]"]) simp
next
  case (Cons b bs)
  then obtain c where c: "bc_close b = Inr c" by (auto simp: bc_close_def)
  from Cons.IH [of "s\<lparr>kc_closed := kc_closed s @ [c]\<rparr>"] Cons.prems obtain cs where
    "close_brokerclients bs (s\<lparr>kc_closed := kc_closed s @ [c]\<rparr>) = (s\<lparr>kc_closed := kc_closed s @ c # cs\<rparr>, Inr ())"
    "list_all2 (\<lambda>b c. bc_close b = Inr c) bs cs" by auto
  with c show ?case by (intro exI [of _ "c # cs"]) simp
qed

lemma dict_from_update:
  "dict_ok ms \<Longrightarrow> dict_get (foldl (\<lambda>d (k, v). dict_set k v d) d ms) n =
     (case dict_get ms n of None \<Rightarrow> dict_get d n | Some v \<Rightarrow> Some v)"
proof (induction ms arbitrary: d)
  case (Cons x ms)
  obtain k v where x: "x = (k, v)" by force
  have "dict_ok ms" and k: "dict_get ms k = None" using Cons.prems by (auto simp: dict_ok_def x map_of_eq_None_iff)
  then show ?case using Cons.IH [of "dict_set k v d"] by (cases "n = k") (simp_all add: x dict_get_set split: option.splits)
qed simp

lemma update_clients_open:
  assumes "dict_ok ms" "\<forall>(n, bm)\<in>set ms. bm_node_id bm = n" "dict_ok cl" "\<forall>(n, b)\<in>set cl. bc_node_id b = n \<and> bc_dDown b = None"
  obtains cl' where "update_clients ms cl = (cl', Inr ())" "dict_ok cl'" "\<And>n. dict_get cl' n = map_option (readdress (dict_get ms n)) (dict_get cl n)"
    "\<And>n b. (n, b) \<in> set cl' \<Longrightarrow> bc_node_id b = n \<and> bc_dDown b = None"
proof -
  from update_clients_spec [OF assms] obtain cl' where u: "update_clients ms cl = (cl', Inr ())"
    and keys: "dict_keys cl' = dict_keys cl"
    and get: "\<And>n. dict_get cl' n = map_option (readdress (dict_get ms n)) (dict_get cl n)" by auto
  have ok: "dict_ok cl'" using assms(3) keys by (simp add: dict_ok_def)
  have "bc_node_id b = n \<and> bc_dDown b = None" if mem: "(n, b) \<in> set cl'" for n b
  proof -
    obtain z where "dict_get cl n = Some z" "b = readdress (dict_get ms n) z"
      using mem get [of n] dict_get_in [OF ok, of n b] by auto
    moreover from this(1) have "bc_node_id z = n" "bc_dDown z = None" using assms(4) map_of_SomeD by fast+
    ultimately show ?thesis by (simp add: readdress_def split: option.splits)
  qed
  from that [OF u ok get this] show ?thesis .
qed

lemma update_brokers_effect:
  assumes "clients_ok s" "\<not> kc_closing s"
  shows "\<exists>s' closed. update_brokers brokers remove s = (s', Inr ()) \<and> clients_ok s' \<and>
    (\<forall>n. dict_get (kc_brokers s') n =
       (case find (\<lambda>bm. bm_node_id bm = n) (rev brokers) of None \<Rightarrow> dict_get (kc_brokers s) n | Some bm \<Rightarrow> Some bm)) \<and>
    (\<forall>n. client_for s' n =
       (if remove \<and> find (\<lambda>bm. bm_node_id bm = n) (rev brokers) = None then None
        else map_option (readdress (find (\<lambda>bm. bm_node_id bm = n) (rev brokers))) (client_for s n))) \<and>
    kc_closed s' = kc_closed s @ closed \<and>
    (\<exists>gone. list_all2 (\<lambda>b c. bc_close b = Inr c) gone closed \<and> distinct (map bc_node_id gone) \<and>
       (\<forall>b. b \<in> set gone \<longleftrightarrow> remove \<and> find (\<lambda>bm. bm_node_id bm = bc_node_id b) (rev brokers) = None \<and>
          client_for s (bc_node_id b) = Some b))"
proof -
  let ?new = "\<lambda>n. find (\<lambda>bm. bm_node_id bm = n) (rev brokers)"
  define ms where "ms = dict_from bm_node_id brokers"
  have ms: "dict_ok ms" "dict_get ms n = ?new n" "\<forall>(n, bm)\<in>set ms. bm_node_id bm = n" for n
    using dict_from_value [of _ _ bm_node_id brokers] by (simp_all add: ms_def dict_from_get) blast
  from assms obtain cl where cl: "kc_clients s = Some cl" "dict_ok cl"
    "\<forall>(n, b)\<in>set cl. bc_node_id b = n \<and> bc_dDown b = None"
    by (auto simp: clients_ok_def split: option.splits)
  obtain cl' where u: "update_clients ms cl = (cl', Inr ())" and ok': "dict_ok cl'"
    and get: "\<And>n. dict_get cl' n = map_option (readdress (?new n)) (dict_get cl n)"
    and open': "\<And>n b. (n, b) \<in> set cl' \<Longrightarrow> bc_node_id b = n \<and> bc_dDown b = None"
    by (rule update_clients_open [OF ms(1,3) cl(2,3)]) (simp add: ms(2))
  let ?s = "s\<lparr>kc_brokers := foldl (\<lambda>d (k, v). dict_set k v d) (kc_brokers s) ms\<rparr>"
  let ?gone = "\<lambda>(n, b). dict_get ms n = None"
  have brokers: "dict_get (kc_brokers ?s) n = (case ?new n of None \<Rightarrow> dict_get (kc_brokers s) n | Some bm \<Rightarrow> Some bm)" for n
    using dict_from_update [OF ms(1)] by (simp add: ms(2))
  have filt: "dict_get (filter (\<lambda>c. \<not> ?gone c) cl') n = (if ?new n = None then None else dict_get cl' n)" for n
    by (induction cl') (auto simp: ms(2))
  show ?thesis
  proof (cases remove)
    case False
    let ?s' = "?s\<lparr>kc_clients := Some cl'\<rparr>"
    have "clients_ok ?s'" using ok' open' by (auto simp: clients_ok_def)
    then show ?thesis
      using False brokers get u
      by (intro exI [of _ ?s'] exI [of _ "[]"]) (auto simp: update_brokers_def ms_def [symmetric] cl(1) Let_def client_for_def)
  next
    case True
    let ?bs = "dict_values (filter ?gone cl')"
    have "\<forall>b\<in>set ?bs. bc_dDown b = None" using open' by auto
    from close_brokerclients_all [OF this, of "?s\<lparr>kc_clients := Some (filter (\<lambda>c. \<not> ?gone c) cl')\<rparr>"]
    obtain cs where c: "close_brokerclients ?bs (?s\<lparr>kc_clients := Some (filter (\<lambda>c. \<not> ?gone c) cl')\<rparr>) =
        (?s\<lparr>kc_clients := Some (filter (\<lambda>c. \<not> ?gone c) cl'), kc_closed := kc_closed s @ cs\<rparr>, Inr ())"
      and cs: "list_all2 (\<lambda>b c. bc_close b = Inr c) ?bs cs" by auto
    let ?s' = "?s\<lparr>kc_clients := Some (filter (\<lambda>c. \<not> ?gone c) cl'), kc_closed := kc_closed s @ cs\<rparr>"
    have ids: "map bc_node_id ?bs = map fst (filter ?gone cl')" using open' by (auto intro!: map_cong)
    have "distinct (map bc_node_id ?bs)" unfolding ids using ok' by (simp add: dict_ok_def distinct_map_filter)
    moreover have "b \<in> set ?bs \<longleftrightarrow> ?new (bc_node_id b) = None \<and> client_for s (bc_node_id b) = Some b" for b
    proof -
      have "b \<in> set ?bs \<longleftrightarrow> (\<exists>n. (n, b) \<in> set cl' \<and> ?new n = None)" by (auto simp: ms(2) image_iff)
      also have "\<dots> \<longleftrightarrow> (bc_node_id b, b) \<in> set cl' \<and> ?new (bc_node_id b) = None" using open' by blast
      also have "\<dots> \<longleftrightarrow> ?new (bc_node_id b) = None \<and> client_for s (bc_node_id b) = Some b"
        using dict_get_in [OF ok'] get by (auto simp: client_for_def cl(1) readdress_def)
      finally show ?thesis .
    qed
    moreover have "clients_ok ?s'" using ok' open' by (auto simp: clients_ok_def dict_ok_def distinct_map_filter)
    moreover have "client_for ?s' n = (if ?new n = None then None else map_option (readdress (?new n)) (client_for s n))" for n
      using filt get by (simp add: client_for_def cl(1))
    moreover have "update_brokers brokers remove s = (?s', Inr ())"
      using True u c by (simp add: update_brokers_def ms_def [symmetric] cl(1) Let_def)
    ultimately show ?thesis using True brokers cs by (intro exI [of _ ?s'] exI [of _ cs]) auto
  qed
qed



end
