(* ===== verification/Client_Requests.thy ===== *)
theory Client_Requests
  imports Client
begin

text \<open>
  How \<open>KafkaClient\<close> in \<open>afkak/client.py\<close> sends requests: loading metadata and coordinators,
  choosing a broker, sending the payloads grouped by broker, and putting the responses back into
  the order of the payloads.

  The methods are \<open>inlineCallbacks\<close> generators: between two \<open>yield\<close>s they run without
  interruption, and at a \<open>yield\<close> the reactor runs everything else. So a method is a function on
  the client's state, and each \<open>yield\<close> applies a field of \<open>client_env\<close>: it says when the awaited
  deferred fires with what, and maps the state to the state in which the method is resumed. This map
  is arbitrary, as other methods may have run. What was sent is in the states of the broker
  clients.
\<close>

section \<open>Environment\<close>

text \<open>
  \<open>ce_wait t n d\<close> waits for deferred \<open>d\<close> of the broker client for node \<open>n\<close>; the result is \<open>None\<close>
  when the timer of \<open>t\<close> seconds comes first. \<open>ce_connect\<close> and \<open>ce_bootstrap\<close> are a connection attempt
  and a request to a bootstrap host, \<open>ce_wait_coordinator\<close> the wait for another caller's lookup of a
  coordinator, \<open>ce_delay\<close> a delay. The two shuffles are \<open>random.shuffle\<close>.
\<close>

record client_env =
  ce_broker :: broker_env
  ce_now :: "kafka_client \<Rightarrow> rat"
  ce_shuffle_nodes :: "int list \<Rightarrow> int list"
  ce_shuffle_hosts :: "(pystr \<times> int) list \<Rightarrow> (pystr \<times> int) list"
  ce_wait :: "rat \<Rightarrow> int \<Rightarrow> nat \<Rightarrow> kafka_client \<Rightarrow> kafka_client \<times> bytes option result option"
  ce_wait_coordinator :: "nat \<Rightarrow> kafka_client \<Rightarrow> bool cres"
  ce_connect :: "pystr \<times> int \<Rightarrow> kafka_client \<Rightarrow> unit cres"
  ce_bootstrap :: "pystr \<times> int \<Rightarrow> bytes \<Rightarrow> kafka_client \<Rightarrow> bytes cres"
  ce_delay :: "rat \<Rightarrow> kafka_client \<Rightarrow> kafka_client"
  ce_retry_policy :: "nat \<Rightarrow> rat"

text \<open>Sequencing of methods: the state goes on, an exception ends the method.\<close>

definition cbind :: "'a cres \<Rightarrow> (kafka_client \<Rightarrow> 'a \<Rightarrow> 'b cres) \<Rightarrow> 'b cres" where
  "cbind m f = (case m of (s, Inl e) \<Rightarrow> (s, Inl e) | (s, Inr x) \<Rightarrow> f s x)"

lemma cbind_simps [simp]:
  "cbind (s, Inl e) f = (s, Inl e)"
  "cbind (s, Inr x) f = f s x"
  by (simp_all add: cbind_def)

lemma cbind_eq_Inr: "cbind m f = (s', Inr y) \<longleftrightarrow> (\<exists>s x. m = (s, Inr x) \<and> f s x = (s', Inr y))"
  by (cases m; cases "snd m") auto

lemma cbind_cong [fundef_cong]:
  "m = m' \<Longrightarrow> (\<And>s x. m' = (s, Inr x) \<Longrightarrow> f s x = f' s x) \<Longrightarrow> cbind m f = cbind m' f'"
  by (cases m'; cases "snd m'") auto

section \<open>One request to one broker\<close>

definition request_timeout :: "rat option \<Rightarrow> kafka_client \<Rightarrow> rat" where
  "request_timeout min_timeout s =
     (case min_timeout of None \<Rightarrow> kc_timeout s | Some m \<Rightarrow> max (kc_timeout s) m)"

definition make_request_to_broker ::
    "client_env \<Rightarrow> int \<Rightarrow> broker_client \<Rightarrow> int \<Rightarrow> bytes \<Rightarrow> bool \<Rightarrow> kafka_client \<Rightarrow> nat cres" where
  "make_request_to_broker env node_id broker correlationId request expectResponse s =
     (case bc_makeRequest (ce_broker env) (ce_now env s) correlationId request expectResponse broker of
        Inl e \<Rightarrow> (s, Inl e)
      | Inr (d, broker') \<Rightarrow>
          (s\<lparr>kc_clients := map_option (dict_set node_id broker') (kc_clients s)\<rparr>, Inr d))"

text \<open>\<open>_mrtb_timeout\<close>: the deferred is still open, so it is the one of a queued request.\<close>

definition cancel_request :: "rat \<Rightarrow> nat \<Rightarrow> broker_client \<Rightarrow> broker_client" where
  "cancel_request now d b =
     (case find (\<lambda>r. rq_d r = d \<and> rq_cancelled r = None) (dict_values (bc_requests b)) of
        None \<Rightarrow> b
      | Some r \<Rightarrow> (case cancel_deferred now r b of Inl _ \<Rightarrow> b | Inr b' \<Rightarrow> b'))"

definition mrtb_timeout :: "client_env \<Rightarrow> int \<Rightarrow> nat \<Rightarrow> kafka_client \<Rightarrow> kafka_client" where
  "mrtb_timeout env node_id d s =
     (case client_for s node_id of
        None \<Rightarrow> s
      | Some b \<Rightarrow>
          let b = cancel_request (ce_now env s) d b;
              b = (if kc_disconnect_on_timeout s then bc_disconnect b else b)
          in s\<lparr>kc_clients := map_option (dict_set node_id b) (kc_clients s)\<rparr>)"

text \<open>Waiting for the deferred that \<open>_make_request_to_broker\<close> returned, with \<open>_mrtb_cb\<close> on it.\<close>

definition await_broker :: "client_env \<Rightarrow> rat option \<Rightarrow> int \<Rightarrow> nat \<Rightarrow> kafka_client \<Rightarrow> bytes option cres" where
  "await_broker env min_timeout node_id d s =
     (case ce_wait env (request_timeout min_timeout s) node_id d s of
        (s, Some r) \<Rightarrow> (s, r)
      | (s, None) \<Rightarrow> (mrtb_timeout env node_id d s, Inl (BrokerResponse RequestTimedOutError)))"

section \<open>Requests any broker can answer\<close>

definition node_connected :: "kafka_client \<Rightarrow> int \<Rightarrow> bool" where
  "node_connected s node_id = (case client_for s node_id of None \<Rightarrow> False | Some b \<Rightarrow> bc_connected b)"

text \<open>The loop over the brokers: \<open>Some\<close> of the response, or \<open>None\<close> when all have failed.\<close>

fun try_brokers :: "client_env \<Rightarrow> int \<Rightarrow> bytes \<Rightarrow> int list \<Rightarrow> kafka_client \<Rightarrow> bytes option option cres" where
  "try_brokers env requestId request [] s = (s, Inr None)"
| "try_brokers env requestId request (node_id # node_ids) s =
     cbind (get_brokerclient node_id s) (\<lambda>s broker.
       case cbind (make_request_to_broker env node_id broker requestId request True s)
              (\<lambda>s d. await_broker env None node_id d s) of
         (s, Inr resp) \<Rightarrow> (s, Inr (Some resp))
       | (s, Inl e) \<Rightarrow> if is_KafkaError e then try_brokers env requestId request node_ids s else (s, Inl e))"

fun try_hosts :: "client_env \<Rightarrow> bytes \<Rightarrow> (pystr \<times> int) list \<Rightarrow> kafka_client \<Rightarrow> bytes option cres" where
  "try_hosts env request [] s = (s, Inl KafkaUnavailableError)"
| "try_hosts env request (hp # hps) s =
     (case ce_connect env hp s of
        (s, Inl e) \<Rightarrow> try_hosts env request hps s
      | (s, Inr _) \<Rightarrow>
          (case ce_bootstrap env hp request s of
             (s, Inl e) \<Rightarrow> try_hosts env request hps s
           | (s, Inr response) \<Rightarrow> (s, Inr (Some response))))"

definition send_bootstrap_request :: "client_env \<Rightarrow> bytes \<Rightarrow> kafka_client \<Rightarrow> bytes option cres" where
  "send_bootstrap_request env request s =
     try_hosts env request (ce_shuffle_hosts env (kc_bootstrap_hosts s)) s"

definition send_broker_unaware_request :: "client_env \<Rightarrow> int \<Rightarrow> bytes \<Rightarrow> kafka_client \<Rightarrow> bytes option cres" where
  "send_broker_unaware_request env requestId request s =
     (if kc_closing s then (s, Inl ClientError)
      else
        let node_ids = ce_shuffle_nodes env (dict_keys (kc_brokers s))
        in if kc_clients s = None \<and> node_ids \<noteq> [] then (s, Inl TypeError)
           else cbind (try_brokers env requestId request (sort_key (\<lambda>n. \<not> node_connected s n) node_ids) s)
                  (\<lambda>s resp. case resp of
                     Some resp \<Rightarrow> (s, Inr resp)
                   | None \<Rightarrow> send_bootstrap_request env request s))"

text \<open>A decoder that is given \<open>None\<close> instead of bytes raises.\<close>

definition decode_bytes :: "(bytes \<Rightarrow> 'a result) \<Rightarrow> bytes option \<Rightarrow> 'a result" where
  "decode_bytes decode response = (case response of None \<Rightarrow> Inl TypeError | Some b \<Rightarrow> decode b)"

section \<open>Loading metadata\<close>

definition metadata_request :: "client_env \<Rightarrow> pystr list \<Rightarrow> kafka_client \<Rightarrow> bytes option cres" where
  "metadata_request env topics s =
     (case next_id s of (requestId, s) \<Rightarrow>
        (case encode_metadata_request (kc_clientId s) requestId topics of
           Inl e \<Rightarrow> (s, Inl e)
         | Inr request \<Rightarrow> send_broker_unaware_request env requestId request s))"

definition is_cancelled :: "exn \<Rightarrow> bool" where
  "is_cancelled e = (case e of TwistedCancelledError \<Rightarrow> True | CancelledError _ \<Rightarrow> True | _ \<Rightarrow> False)"

text \<open>
  \<open>load_metadata_for_topics\<close>: \<open>Some True\<close> when the metadata was merged, \<open>None\<close> when the request was
  cancelled. An error in encoding the request is raised by the call itself.
\<close>

definition load_metadata_for_topics :: "client_env \<Rightarrow> pystr list \<Rightarrow> kafka_client \<Rightarrow> bool option cres" where
  "load_metadata_for_topics env topics s =
     (case coerce_topics topics of
        Inl e \<Rightarrow> (s, Inl e)
      | Inr ts \<Rightarrow>
          (case next_id s of (requestId, s) \<Rightarrow>
             (case encode_metadata_request (kc_clientId s) requestId ts of
                Inl e \<Rightarrow> (s, Inl e)
              | Inr request \<Rightarrow>
                  (case send_broker_unaware_request env requestId request s of
                     (s, Inl e) \<Rightarrow> if is_cancelled e then (s, Inr None) else (s, Inl KafkaUnavailableError)
                   | (s, Inr response) \<Rightarrow>
                       (case decode_bytes decode_metadata_response response of
                          Inl e \<Rightarrow> (s, Inl e)
                        | Inr (brokers, rtopics) \<Rightarrow>
                            cbind (merge_topic_metadata brokers rtopics (ts = []) s) (\<lambda>s _. (s, Inr (Some True))))))))"

text \<open>
  The loop in \<open>_load_topic_partitions\<close>: which topics are missing, and the snapshot of the others.
\<close>

fun topic_snapshot ::
    "pystr list \<Rightarrow> kafka_client \<Rightarrow> (pystr list \<times> (pystr, int list) dict) \<Rightarrow> (pystr list \<times> (pystr, int list) dict) result" where
  "topic_snapshot [] s (missing, snapshot) = Inr (missing, snapshot)"
| "topic_snapshot (topic # topics) s (missing, snapshot) =
     rbind (metadata_error_for_topic topic s) (\<lambda>errno.
       topic_snapshot topics s
         (if errno \<noteq> 0 then (missing @ [topic], snapshot)
          else (case dict_get (kc_topic_partitions s) topic of
                  None \<Rightarrow> (missing @ [topic], snapshot)
                | Some ps \<Rightarrow> if ps = [] then (missing @ [topic], snapshot)
                            else (missing, dict_set topic ps snapshot))))"

text \<open>
  One attempt. It ends with the topics of the response, which the next attempt asks for: the method
  binds them to the variable \<open>topics\<close>.
\<close>

definition load_attempt ::
    "client_env \<Rightarrow> pystr list \<Rightarrow> kafka_client \<Rightarrow> (pystr list \<times> pystr list \<times> (pystr, int list) dict) cres" where
  "load_attempt env topics s =
     cbind (metadata_request env topics s) (\<lambda>s response.
       case decode_bytes decode_metadata_response response of
         Inl e \<Rightarrow> (s, Inl e)
       | Inr (brokers, rtopics) \<Rightarrow>
           cbind (merge_topic_metadata brokers rtopics False s) (\<lambda>s _.
             case topic_snapshot (dict_keys rtopics) s ([], []) of
               Inl e \<Rightarrow> (s, Inl e)
             | Inr (missing, snapshot) \<Rightarrow> (s, Inr (dict_keys rtopics, missing, snapshot))))"

partial_function (option) load_attempts ::
    "client_env \<Rightarrow> pystr list \<Rightarrow> nat \<Rightarrow> kafka_client \<Rightarrow> (pystr, int list) dict cres option" where
  "load_attempts env topics attempt s =
     (case load_attempt env topics s of
        (s, Inl e) \<Rightarrow> Some (s, Inl e)
      | (s, Inr (rtopics, missing, snapshot)) \<Rightarrow>
          if missing = [] then Some (s, Inr snapshot)
          else load_attempts env rtopics (Suc attempt) (ce_delay env (ce_retry_policy env attempt) s))"

definition load_topic_partitions ::
    "client_env \<Rightarrow> pystr list \<Rightarrow> kafka_client \<Rightarrow> (pystr, int list) dict cres option" where
  "load_topic_partitions env topics s =
     (if topics = [] then Some (s, Inl AssertionError)
      else (case coerce_topics topics of
              Inl e \<Rightarrow> Some (s, Inl e)
            | Inr topics \<Rightarrow> load_attempts env topics 1 s))"

section \<open>Coordinators\<close>

text \<open>The two callbacks on the lookup of a coordinator; the second also sees what the first raises.\<close>

definition handle_coordinator_response :: "pystr \<Rightarrow> bytes option result \<Rightarrow> kafka_client \<Rightarrow> bool cres" where
  "handle_coordinator_response g r s =
     (case rbind r (decode_bytes decode_consumermetadata_response) of
        Inl e \<Rightarrow> (s, Inl e)
      | Inr response \<Rightarrow>
          (case raise_for_errno (cms_error response) of
             Inl e \<Rightarrow> (s, Inl e)
           | Inr _ \<Rightarrow>
               let bm = \<lparr>bm_node_id = cms_node_id response, bm_host = cms_host response, bm_port = cms_port response\<rparr>
               in cbind (update_brokers [bm] False
                           (s\<lparr>kc_group_to_coordinator := dict_set g bm (kc_group_to_coordinator s)\<rparr>))
                    (\<lambda>s _. (s, Inr True))))"

definition handle_coordinator_result :: "pystr \<Rightarrow> bytes option result \<Rightarrow> kafka_client \<Rightarrow> bool cres" where
  "handle_coordinator_result g r s =
     (case handle_coordinator_response g r s of
        (s, Inl e) \<Rightarrow> (reset_consumer_group_metadata [g] s, Inl (BrokerResponse CoordinatorNotAvailable))
      | (s, Inr x) \<Rightarrow> (s, Inr x))"

text \<open>\<open>_propagate\<close>: all callers that wait for the lookup get its result.\<close>

definition propagate :: "pystr \<Rightarrow> bool result \<Rightarrow> kafka_client \<Rightarrow> kafka_client" where
  "propagate g r s =
     (case dict_get (kc_coordinator_fetches s) g of
        None \<Rightarrow> s
      | Some ds \<Rightarrow> s\<lparr>kc_coordinator_fetches := dict_del g (kc_coordinator_fetches s),
                      kc_fired := kc_fired s @ map (\<lambda>d. (d, r)) ds\<rparr>)"

definition load_coordinator_for_group :: "client_env \<Rightarrow> pystr \<Rightarrow> kafka_client \<Rightarrow> bool cres" where
  "load_coordinator_for_group env g s =
     (let d = kc_next_d s
      in case dict_get (kc_coordinator_fetches s) g of
           Some ds \<Rightarrow>
             ce_wait_coordinator env d
               (s\<lparr>kc_next_d := Suc d, kc_coordinator_fetches := dict_set g (ds @ [d]) (kc_coordinator_fetches s)\<rparr>)
         | None \<Rightarrow>
             (case next_id s of (requestId, s) \<Rightarrow>
                (case encode_consumermetadata_request (kc_clientId s) requestId g of
                   Inl e \<Rightarrow> (s, Inl e)
                 | Inr request \<Rightarrow>
                     (case send_broker_unaware_request env requestId request
                             (s\<lparr>kc_next_d := Suc d,
                                kc_coordinator_fetches := dict_set g [d] (kc_coordinator_fetches s)\<rparr>) of
                        (s, r) \<Rightarrow>
                          (case handle_coordinator_result g r s of (s, r) \<Rightarrow> (propagate g r s, r))))))"

section \<open>Requests for one broker\<close>

definition get_leader_for_partition ::
    "client_env \<Rightarrow> pystr \<Rightarrow> int \<Rightarrow> kafka_client \<Rightarrow> broker_metadata option cres" where
  "get_leader_for_partition env topic part s =
     cbind (case leader s topic part of
              Some (Some b) \<Rightarrow> (s, Inr None)
            | _ \<Rightarrow> load_metadata_for_topics env [topic] s)
       (\<lambda>s _. case leader s topic part of
                None \<Rightarrow> (s, Inl PartitionUnavailableError)
              | Some b \<Rightarrow> (s, Inr b))"

definition get_coordinator_for_group :: "client_env \<Rightarrow> pystr \<Rightarrow> kafka_client \<Rightarrow> broker_metadata option cres" where
  "get_coordinator_for_group env g s =
     cbind (if dict_get (kc_group_to_coordinator s) g = None then load_coordinator_for_group env g s
            else (s, Inr True))
       (\<lambda>s _. (s, Inr (dict_get (kc_group_to_coordinator s) g)))"

definition broker_of :: "client_env \<Rightarrow> pystr option \<Rightarrow> pystr \<times> int \<Rightarrow> kafka_client \<Rightarrow> broker_metadata cres" where
  "broker_of env consumer_group tp s =
     (case consumer_group of
        None \<Rightarrow>
          cbind (get_leader_for_partition env (fst tp) (snd tp) s) (\<lambda>s b.
            case b of None \<Rightarrow> (s, Inl LeaderUnavailableError) | Some b \<Rightarrow> (s, Inr b))
      | Some g \<Rightarrow>
          cbind (get_coordinator_for_group env g s) (\<lambda>s b.
            case b of None \<Rightarrow> (s, Inl (BrokerResponse CoordinatorNotAvailable)) | Some b \<Rightarrow> (s, Inr b)))"

text \<open>The first loop of \<open>_send_broker_aware_request\<close> fills \<open>payloads_by_broker\<close>.\<close>

fun route ::
    "client_env \<Rightarrow> pystr option \<Rightarrow> ('p \<Rightarrow> pystr \<times> int) \<Rightarrow> 'p list \<Rightarrow> (broker_metadata, 'p list) dict \<Rightarrow>
     kafka_client \<Rightarrow> (broker_metadata, 'p list) dict cres" where
  "route env consumer_group key [] groups s = (s, Inr groups)"
| "route env consumer_group key (payload # payloads) groups s =
     cbind (broker_of env consumer_group (key payload) s) (\<lambda>s leader.
       let ps = (case dict_get groups leader of None \<Rightarrow> [] | Some ps \<Rightarrow> ps)
       in route env consumer_group key payloads (dict_set leader (ps @ [payload]) groups) s)"

text \<open>The second loop sends one request per broker.\<close>

fun send_groups ::
    "client_env \<Rightarrow> (bytes \<Rightarrow> int \<Rightarrow> 'p list \<Rightarrow> bytes result) \<Rightarrow> bool \<Rightarrow> (broker_metadata \<times> 'p list) list \<Rightarrow>
     kafka_client \<Rightarrow> (int \<times> nat \<times> 'p list) list cres" where
  "send_groups env encoder_fn expectResponse [] s = (s, Inr [])"
| "send_groups env encoder_fn expectResponse ((broker_meta, payloads) # groups) s =
     cbind (get_brokerclient (bm_node_id broker_meta) s) (\<lambda>s broker.
       case next_id s of (requestId, s) \<Rightarrow>
         (case encoder_fn (kc_clientId s) requestId payloads of
            Inl e \<Rightarrow> (s, Inl e)
          | Inr request \<Rightarrow>
              cbind (make_request_to_broker env (bm_node_id broker_meta) broker requestId request expectResponse s)
                (\<lambda>s d. cbind (send_groups env encoder_fn expectResponse groups s)
                   (\<lambda>s sent. (s, Inr ((bm_node_id broker_meta, d, payloads) # sent))))))"

text \<open>The \<open>DeferredList\<close>: the results of all requests.\<close>

fun await_all :: "client_env \<Rightarrow> (int \<times> nat \<times> 'p list) list \<Rightarrow> kafka_client \<Rightarrow> kafka_client \<times> bytes option result list" where
  "await_all env [] s = (s, [])"
| "await_all env ((node_id, d, payloads) # sent) s =
     (case await_broker env None node_id d s of (s, r) \<Rightarrow>
        (case await_all env sent s of (s, rs) \<Rightarrow> (s, r # rs)))"

text \<open>The third loop decodes the responses into \<open>acc\<close> and notes the payloads that failed.\<close>

type_synonym ('r, 'p) tally = "(pystr \<times> int, 'r) dict \<times> ('p \<times> exn) list"

fun tally_results ::
    "(bytes \<Rightarrow> ('r, exn, int) gen) option \<Rightarrow> ('r \<Rightarrow> pystr \<times> int) \<Rightarrow>
     (bytes option result \<times> 'p list) list \<Rightarrow> ('r, 'p) tally \<Rightarrow> ('r, 'p) tally result" where
  "tally_results decode_fn rkey [] tly = Inr tly"
| "tally_results decode_fn rkey ((result, payloads) # rest) (acc, failed) =
     (case result of
        Inl e \<Rightarrow> tally_results decode_fn rkey rest (acc, failed @ map (\<lambda>p. (p, e)) payloads)
      | Inr response \<Rightarrow>
          (case decode_fn of
             None \<Rightarrow> tally_results decode_fn rkey rest (acc, failed)
           | Some decode \<Rightarrow>
               (case response of
                  None \<Rightarrow> Inl TypeError
                | Some data \<Rightarrow>
                    (case decode data of
                       (rs, Inl e) \<Rightarrow> Inl e
                     | (rs, Inr _) \<Rightarrow>
                         tally_results decode_fn rkey rest
                           (foldl (\<lambda>acc r. dict_set (rkey r) r acc) acc rs, failed)))))"

text \<open>How the method ends when it does not raise something else: with the responses, or \<open>FailedPayloadsError\<close>.\<close>

datatype ('o, 'r, 'p) outcome = Responses "'o list" | FailedPayloads "'r list" "('p \<times> exn) list"

definition send_broker_aware_request ::
    "client_env \<Rightarrow> ('p \<Rightarrow> pystr \<times> int) \<Rightarrow> ('r \<Rightarrow> pystr \<times> int) \<Rightarrow> 'p list \<Rightarrow>
     (bytes \<Rightarrow> int \<Rightarrow> 'p list \<Rightarrow> bytes result) \<Rightarrow> (bytes \<Rightarrow> ('r, exn, int) gen) option \<Rightarrow> pystr option \<Rightarrow>
     kafka_client \<Rightarrow> ('r, 'r, 'p) outcome cres" where
  "send_broker_aware_request env key rkey payloads encoder_fn decode_fn consumer_group s =
     (if payloads = [] then (s, Inl ValueError)
      else
        cbind (route env consumer_group key payloads [] s) (\<lambda>s groups.
          cbind (send_groups env encoder_fn (decode_fn \<noteq> None) groups s) (\<lambda>s sent.
            case await_all env sent s of (s, results) \<Rightarrow>
              (case tally_results decode_fn rkey (zip results (map (snd \<circ> snd) sent)) ([], []) of
                 Inl e \<Rightarrow> (s, Inl e)
               | Inr (acc, failed_payloads) \<Rightarrow>
                   let responses = List.map_filter (\<lambda>k. dict_get acc k) (map key payloads)
                   in if failed_payloads \<noteq> []
                      then (reset_all_metadata s, Inr (FailedPayloads responses failed_payloads))
                      else (s, Inr (Responses responses))))))"

section \<open>The requests of the API\<close>

text \<open>\<open>returnValue(self._handle_responses(...))\<close> after the \<open>yield\<close>.\<close>

definition finish_request ::
    "('r \<Rightarrow> pystr) \<Rightarrow> ('r \<Rightarrow> int) \<Rightarrow> ('r \<Rightarrow> 'o result) \<Rightarrow> bool \<Rightarrow> pystr option \<Rightarrow>
     ('r, 'r, 'p) outcome cres \<Rightarrow> ('o, 'r, 'p) outcome cres" where
  "finish_request topic_of error_of callback fail_on_error g m =
     cbind m (\<lambda>s out. case out of
       FailedPayloads rs fps \<Rightarrow> (s, Inr (FailedPayloads rs fps))
     | Responses rs \<Rightarrow>
         cbind (handle_responses topic_of error_of callback rs fail_on_error g s) (\<lambda>s out. (s, Inr (Responses out))))"

definition send_produce_request ::
    "client_env \<Rightarrow> produce_request list \<Rightarrow> int \<Rightarrow> int \<Rightarrow> bool \<Rightarrow> (produce_response \<Rightarrow> 'o result) \<Rightarrow> kafka_client \<Rightarrow>
     ('o, produce_response, produce_request) outcome cres" where
  "send_produce_request env payloads acks timeout fail_on_error callback s =
     finish_request prs_topic prs_error callback fail_on_error None
       (send_broker_aware_request env (\<lambda>p. (prq_topic p, prq_partition p)) (\<lambda>r. (prs_topic r, prs_partition r)) payloads
          (\<lambda>cid c ps. encode_produce_request (PyBytes cid) c ps acks timeout)
          (if acks = 0 then None else Some decode_produce_response) None s)"

definition send_fetch_request ::
    "client_env \<Rightarrow> codec_env \<Rightarrow> fetch_request list \<Rightarrow> bool \<Rightarrow> (fetch_response \<Rightarrow> 'o result) \<Rightarrow> int \<Rightarrow> int \<Rightarrow> kafka_client \<Rightarrow>
     ('o, fetch_response, fetch_request) outcome cres" where
  "send_fetch_request env cenv payloads fail_on_error callback max_wait_time min_bytes s =
     (if of_int max_wait_time / 1000 > kc_timeout s - 1 / 10 then (s, Inl ValueError)
      else finish_request frs_topic frs_error callback fail_on_error None
             (send_broker_aware_request env (\<lambda>p. (frq_topic p, frq_partition p)) (\<lambda>r. (frs_topic r, frs_partition r)) payloads
                (\<lambda>cid c ps. encode_fetch_request cid c ps max_wait_time min_bytes)
                (Some (decode_fetch_response cenv)) None s))"

definition send_offset_request ::
    "client_env \<Rightarrow> offset_request list \<Rightarrow> bool \<Rightarrow> (offset_response \<Rightarrow> 'o result) \<Rightarrow> kafka_client \<Rightarrow>
     ('o, offset_response, offset_request) outcome cres" where
  "send_offset_request env payloads fail_on_error callback s =
     finish_request ors_topic ors_error callback fail_on_error None
       (send_broker_aware_request env (\<lambda>p. (orq_topic p, orq_partition p)) (\<lambda>r. (ors_topic r, ors_partition r)) payloads
          encode_offset_request (Some decode_offset_response) None s)"

definition send_offset_fetch_request ::
    "client_env \<Rightarrow> pystr \<Rightarrow> offset_fetch_request list \<Rightarrow> bool \<Rightarrow> (offset_fetch_response \<Rightarrow> 'o result) \<Rightarrow> kafka_client \<Rightarrow>
     ('o, offset_fetch_response, offset_fetch_request) outcome cres" where
  "send_offset_fetch_request env g payloads fail_on_error callback s =
     finish_request ofs_topic ofs_error callback fail_on_error (Some g)
       (send_broker_aware_request env (\<lambda>p. (ofq_topic p, ofq_partition p)) (\<lambda>r. (ofs_topic r, ofs_partition r)) payloads
          (\<lambda>cid c ps. encode_offset_fetch_request cid c g ps) (Some decode_offset_fetch_response) (Some g) s)"

definition send_offset_commit_request ::
    "client_env \<Rightarrow> pyobj \<Rightarrow> offset_commit_request list \<Rightarrow> bool \<Rightarrow> (offset_commit_response \<Rightarrow> 'o result) \<Rightarrow>
     int \<Rightarrow> pyobj \<Rightarrow> kafka_client \<Rightarrow> ('o, offset_commit_response, offset_commit_request) outcome cres" where
  "send_offset_commit_request env grp payloads fail_on_error callback group_generation_id consumer_id s =
     (case coerce_consumer_group grp of
        Inl e \<Rightarrow> (s, Inl e)
      | Inr g \<Rightarrow>
          finish_request ocs_topic ocs_error callback fail_on_error (Some g)
            (send_broker_aware_request env (\<lambda>p. (ocq_topic p, ocq_partition p)) (\<lambda>r. (ocs_topic r, ocs_partition r)) payloads
               (\<lambda>cid c ps. encode_offset_commit_request cid c g group_generation_id consumer_id ps)
               (Some decode_offset_commit_response) (Some g) s))"

text \<open>
  Responses of the group membership requests have no topic: reading it raises in the first \<open>except\<close>
  clause of \<open>_handle_responses\<close>.
\<close>

definition handle_group_response :: "int \<Rightarrow> pystr \<Rightarrow> kafka_client \<Rightarrow> unit cres" where
  "handle_group_response err g s =
     (case raise_for_errno err of
        Inl e \<Rightarrow> if stale_topic e then (s, Inl AttributeError)
                 else cbind (handle_responses (\<lambda>_. []) (\<lambda>x. x) Inr [err] True (Some g) s) (\<lambda>s _. (s, Inr ()))
      | Inr _ \<Rightarrow> (s, Inr ()))"

definition send_request_to_coordinator ::
    "client_env \<Rightarrow> pystr \<Rightarrow> 'p \<Rightarrow> (bytes \<Rightarrow> int \<Rightarrow> 'p \<Rightarrow> bytes result) \<Rightarrow> (bytes \<Rightarrow> 'r result) \<Rightarrow> ('r \<Rightarrow> int) \<Rightarrow>
     rat option \<Rightarrow> kafka_client \<Rightarrow> 'r cres" where
  "send_request_to_coordinator env g payload encoder_fn decode_fn error_of min_timeout s =
     cbind (get_coordinator_for_group env g s) (\<lambda>s coordinator.
       case coordinator of
         None \<Rightarrow> (s, Inl (BrokerResponse CoordinatorNotAvailable))
       | Some bm \<Rightarrow>
           cbind (get_brokerclient (bm_node_id bm) s) (\<lambda>s broker.
             case next_id s of (request_id, s) \<Rightarrow>
               (case encoder_fn (kc_clientId s) request_id payload of
                  Inl e \<Rightarrow> (s, Inl e)
                | Inr request \<Rightarrow>
                    cbind (make_request_to_broker env (bm_node_id bm) broker request_id request True s) (\<lambda>s d.
                      cbind (await_broker env min_timeout (bm_node_id bm) d s) (\<lambda>s response.
                        case decode_bytes decode_fn response of
                          Inl e \<Rightarrow> (s, Inl e)
                        | Inr decoded \<Rightarrow>
                            cbind (handle_group_response (error_of decoded) g s) (\<lambda>s _. (s, Inr decoded)))))))"

section \<open>Who gets which payload\<close>

text \<open>The broker that the cache of a state names for a partition: its leader, or the coordinator of the group.\<close>

definition named_by :: "pystr option \<Rightarrow> pystr \<times> int \<Rightarrow> kafka_client \<Rightarrow> broker_metadata \<Rightarrow> bool" where
  "named_by g tp s b \<longleftrightarrow>
     (case g of None \<Rightarrow> leader s (fst tp) (snd tp) = Some (Some b)
              | Some g \<Rightarrow> dict_get (kc_group_to_coordinator s) g = Some b)"

lemma broker_of_named: "broker_of env g tp s = (s', Inr b) \<Longrightarrow> named_by g tp s' b"
  by (auto simp: broker_of_def named_by_def get_leader_for_partition_def get_coordinator_for_group_def cbind_eq_Inr
      split: option.splits)

lemma broker_of_cached: "named_by g tp s b \<Longrightarrow> broker_of env g tp s = (s, Inr b)"
  by (auto simp: broker_of_def named_by_def get_leader_for_partition_def get_coordinator_for_group_def split: option.splits)

text \<open>The lookups of a run of \<open>route\<close>: for each payload the state in which its lookup ended and the broker it gave.\<close>

fun lookups ::
    "client_env \<Rightarrow> pystr option \<Rightarrow> ('p \<Rightarrow> pystr \<times> int) \<Rightarrow> 'p list \<Rightarrow> kafka_client \<Rightarrow> (kafka_client \<times> broker_metadata) list" where
  "lookups env g key [] s = []"
| "lookups env g key (p # ps) s =
     (case broker_of env g (key p) s of (s1, Inl e) \<Rightarrow> [] | (s1, Inr b) \<Rightarrow> (s1, b) # lookups env g key ps s1)"

definition routed_to :: "client_env \<Rightarrow> pystr option \<Rightarrow> ('p \<Rightarrow> pystr \<times> int) \<Rightarrow> 'p list \<Rightarrow> kafka_client \<Rightarrow> broker_metadata list" where
  "routed_to env g key payloads s = map snd (lookups env g key payloads s)"

lemma lookups_named: "(s1, b) = lookups env g key ps s ! i \<Longrightarrow> i < length (lookups env g key ps s) \<Longrightarrow> named_by g (key (ps ! i)) s1 b"
proof (induction ps arbitrary: s i)
  case (Cons p ps)
  then show ?case by (cases i) (auto dest: broker_of_named split: prod.splits sum.splits)
qed simp

lemma lookups_cached:
  "\<forall>p\<in>set ps. \<exists>b. named_by g (key p) s b \<Longrightarrow> i < length (lookups env g key ps s) \<Longrightarrow> fst (lookups env g key ps s ! i) = s"
proof (induction ps arbitrary: i)
  case (Cons p ps)
  then obtain b where "named_by g (key p) s b" by auto
  from broker_of_cached [OF this] Cons show ?case by (cases i) auto
qed simp

definition group_of :: "(broker_metadata, 'p list) dict \<Rightarrow> broker_metadata \<Rightarrow> 'p list" where
  "group_of groups b = (case dict_get groups b of None \<Rightarrow> [] | Some ps \<Rightarrow> ps)"

lemma route_groups:
  assumes "route env g key payloads groups s = (s', Inr groups')" "dict_ok groups" "\<forall>(b, ps)\<in>set groups. ps \<noteq> []"
  shows "dict_ok groups' \<and> (\<forall>(b, ps)\<in>set groups'. ps \<noteq> []) \<and>
    length (routed_to env g key payloads s) = length payloads \<and>
    (\<forall>b. group_of groups' b = group_of groups b @ map snd (filter (\<lambda>(l, p). l = b) (zip (routed_to env g key payloads s) payloads)))"
  using assms
proof (induction payloads arbitrary: groups s)
  case Nil
  then show ?case by (auto simp: routed_to_def)
next
  case (Cons p ps)
  from Cons.prems(1) obtain s1 b where b: "broker_of env g (key p) s = (s1, Inr b)"
    and r: "route env g key ps (dict_set b (group_of groups b @ [p]) groups) s1 = (s', Inr groups')"
    by (auto simp: cbind_eq_Inr group_of_def Let_def)
  let ?gs = "dict_set b (group_of groups b @ [p]) groups"
  have ok: "dict_ok ?gs" using Cons.prems(2) by (simp add: dict_ok_def distinct_update)
  have ne: "\<forall>(b, ps)\<in>set ?gs. ps \<noteq> []"
    using Cons.prems(3) dict_get_in [OF ok] dict_get_in [OF Cons.prems(2)] by (fastforce simp: dict_get_set split: if_splits)
  note IH = Cons.IH [OF r ok ne]
  have leaders: "routed_to env g key (p # ps) s = b # routed_to env g key ps s1" by (simp add: b routed_to_def)
  have "\<forall>b'. group_of groups' b' = group_of groups b' @
      map snd (filter (\<lambda>(l, p). l = b') (zip (routed_to env g key (p # ps) s) (p # ps)))"
    using IH unfolding leaders by (simp add: group_of_def dict_get_set)
  with IH leaders show ?case by simp
qed

text \<open>A broker client was asked to send a request: it is queued, was sent, or has failed.\<close>

definition asked :: "bytes \<Rightarrow> nat \<Rightarrow> broker_client \<Rightarrow> bool" where
  "asked req d b \<longleftrightarrow> (\<exists>k r. (k, r) \<in> set (bc_requests b) \<and> rq_d r = d \<and> rq_request r = req) \<or>
     (\<exists>c. Sent c d req \<in> set (bc_log b)) \<or> (\<exists>e. Fired d (Inl e) \<in> set (bc_log b))"

definition asked_at :: "kafka_client \<Rightarrow> int \<Rightarrow> bytes \<Rightarrow> nat \<Rightarrow> bool" where
  "asked_at s n req d \<longleftrightarrow> (\<exists>b. client_for s n = Some b \<and> asked req d b)"

lemma in_dict_set: "k' \<noteq> k \<Longrightarrow> (k', v') \<in> set (dict_set k v d) \<longleftrightarrow> (k', v') \<in> set d"
  by (induction d) auto

lemma in_dict_del: "k' \<noteq> k \<Longrightarrow> (k', v') \<in> set (dict_del k d) \<longleftrightarrow> (k', v') \<in> set d"
  by (induction d) auto

lemma makeRequest_effect:
  assumes "bc_makeRequest env now c req ex b = Inr (d, b')"
  shows "\<exists>es. bc_log b' = bc_log b @ es \<and> (\<forall>k r. k \<noteq> c \<and> (k, r) \<in> set (bc_requests b) \<longrightarrow> (k, r) \<in> set (bc_requests b')) \<and>
    ((\<exists>r. (c, r) \<in> set (bc_requests b') \<and> rq_d r = d \<and> rq_request r = req) \<or>
     (\<exists>conn. Sent conn d req \<in> set es) \<or> (\<exists>e. Fired d (Inl e) \<in> set es))"
proof -
  have own: "(c, v) \<in> set (dict_set c v q)" for v and q :: "(int, request_state) dict"
    by (rule map_of_SomeD) (simp add: dict_get_set)
  have new: "dict_get (bc_requests b) c = None" using assms by (simp add: bc_makeRequest_def split: if_splits)
  consider (down) x where "bc_dDown b = Some x" | (conn) n where "bc_dDown b = None" "bc_proto b = Some n"
    | (wait) "bc_dDown b = None" "bc_proto b = None" by (cases "bc_dDown b"; cases "bc_proto b") auto
  then show ?thesis
  proof cases
    case down
    with assms new have "bc_log b' = bc_log b @ [Fired d (Inl ClientError)]" "bc_requests b' = bc_requests b"
      by (auto simp: bc_makeRequest_def Let_def emit_def)
    then show ?thesis by auto
  next
    case conn
    let ?r = "\<lparr>rq_correlationId = c, rq_request = req, rq_expectResponse = ex, rq_d = d, rq_queued = now,
        rq_sent = None, rq_cancelled = None\<rparr>"
    let ?q = "dict_set c (?r\<lparr>rq_sent := Some now\<rparr>) (dict_set c ?r (bc_requests b))"
    have "bc_log b' = bc_log b @ send_effects env n ?r" "bc_requests b' = (if stays env ?r then ?q else dict_del c ?q)"
      using assms new conn
      by (auto simp: bc_makeRequest_def Let_def sendRequest_def emit_def send_effects_def stays_def
          split: option.splits if_splits)
    moreover have "(\<exists>conn. Sent conn d req \<in> set (send_effects env n ?r)) \<or>
        (\<exists>e. Fired d (Inl e) \<in> set (send_effects env n ?r))"
      by (auto simp: send_effects_def split: option.splits)
    ultimately show ?thesis by (auto simp: in_dict_set in_dict_del simp del: update_Some_unfold)
  next
    case wait
    let ?r = "\<lparr>rq_correlationId = c, rq_request = req, rq_expectResponse = ex, rq_d = d, rq_queued = now,
        rq_sent = None, rq_cancelled = None\<rparr>"
    have q: "bc_requests b' = dict_set c ?r (bc_requests b)" and "\<exists>es. bc_log b' = bc_log b @ es"
      using assms new wait
      by (auto simp: bc_makeRequest_def Let_def bc_connect_def try_connect_def emit_def split: if_splits)
    moreover have "(c, ?r) \<in> set (bc_requests b')" unfolding q by (rule own)
    ultimately show ?thesis by (fastforce simp: in_dict_set)
  qed
qed

lemma makeRequest_asked:
  assumes "bc_makeRequest env now c req ex b = Inr (d, b')"
  shows "asked req d b'" "asked req0 d0 b \<Longrightarrow> asked req0 d0 b'"
proof -
  have "dict_get (bc_requests b) c = None" using assms by (simp add: bc_makeRequest_def split: if_splits)
  then have nk: "(k, r) \<in> set (bc_requests b) \<Longrightarrow> k \<noteq> c" for k r by (metis map_of_eq_None_iff fst_conv image_eqI)
  show "asked req d b'" "asked req0 d0 b \<Longrightarrow> asked req0 d0 b'"
    using makeRequest_effect [OF assms] nk unfolding asked_def by (fastforce, metis Un_iff set_append)
qed

lemma get_brokerclient_gives:
  assumes "get_brokerclient n s = (s', Inr b)"
  shows "client_for s' n = Some b" "kc_clientId s' = kc_clientId s" "asked_at s m req d \<Longrightarrow> asked_at s' m req d"
  using assms by (auto simp: get_brokerclient_def client_for_def asked_at_def dict_get_set split: if_splits option.splits)

lemma make_request_asked:
  assumes "make_request_to_broker env n b c req ex s = (s', Inr d)" "client_for s n = Some b"
  shows "asked_at s' n req d" "kc_clientId s' = kc_clientId s" "asked_at s m req0 d0 \<Longrightarrow> asked_at s' m req0 d0"
proof -
  from assms(1) obtain b' where b': "bc_makeRequest (ce_broker env) (ce_now env s) c req ex b = Inr (d, b')"
    and s': "s' = s\<lparr>kc_clients := map_option (dict_set n b') (kc_clients s)\<rparr>"
    by (auto simp: make_request_to_broker_def split: sum.splits)
  have cl: "client_for s' k = (if k = n then Some b' else client_for s k)" for k
    using assms(2) by (auto simp: s' client_for_def dict_get_set split: option.splits)
  note a = makeRequest_asked [OF b']
  show "asked_at s' n req d" using a(1) cl by (simp add: asked_at_def)
  show "kc_clientId s' = kc_clientId s" by (simp add: s')
  show "asked_at s m req0 d0 \<Longrightarrow> asked_at s' m req0 d0" using a(2) assms(2) cl by (auto simp: asked_at_def)
qed

lemma next_id_client:
  assumes "next_id s = (c, s')"
  shows "client_for s' n = client_for s n" "kc_clientId s' = kc_clientId s" "asked_at s' n req d = asked_at s n req d"
    "0 \<le> c \<and> c < 2 ^ 31"
  using assms by (auto simp: next_id_def client_for_def asked_at_def Let_def)

lemma send_groups_Cons:
  assumes "send_groups env enc ex ((b, ps) # groups) s = (s', Inr sent)"
  obtains c req s3 d rest where "enc (kc_clientId s) c ps = Inr req" "asked_at s3 (bm_node_id b) req d"
    "kc_clientId s3 = kc_clientId s" "send_groups env enc ex groups s3 = (s', Inr rest)"
    "sent = (bm_node_id b, d, ps) # rest" "\<And>m req d. asked_at s m req d \<Longrightarrow> asked_at s3 m req d"
proof -
  from assms obtain s1 br where g: "get_brokerclient (bm_node_id b) s = (s1, Inr br)" by (auto simp: cbind_eq_Inr)
  obtain c s2 where n: "next_id s1 = (c, s2)" by force
  note id = get_brokerclient_gives(2) [OF g] next_id_client(2) [OF n]
  from assms g n obtain req s3 d rest where u: "enc (kc_clientId s) c ps = Inr req"
    "make_request_to_broker env (bm_node_id b) br c req ex s2 = (s3, Inr d)"
    "send_groups env enc ex groups s3 = (s', Inr rest)" "sent = (bm_node_id b, d, ps) # rest"
    by (auto simp: cbind_eq_Inr id split: sum.splits)
  have br: "client_for s2 (bm_node_id b) = Some br"
    using get_brokerclient_gives(1) [OF g] next_id_client(1) [OF n] by simp
  note m = make_request_asked [OF u(2) br]
  have "asked_at s3 k req0 d0" if "asked_at s k req0 d0" for k req0 d0
    using m(3) next_id_client(3) [OF n] get_brokerclient_gives(3) [OF g that] by blast
  then show thesis using that u m(1,2) id by simp
qed

lemma send_groups_keeps:
  "send_groups env enc ex groups s = (s', Inr sent) \<Longrightarrow> asked_at s m req0 d0 \<Longrightarrow> asked_at s' m req0 d0"
proof (induction groups arbitrary: s sent)
  case (Cons x groups)
  obtain b ps where x: "x = (b, ps)" by force
  show ?case by (rule send_groups_Cons [OF Cons.prems(1) [unfolded x]]) (use Cons in blast)
qed simp

lemma send_groups_asked:
  assumes "send_groups env enc ex groups s = (s', Inr sent)"
  shows "list_all2 (\<lambda>(b, ps) (n, d, ps'). n = bm_node_id b \<and> ps' = ps \<and>
      (\<exists>c req. enc (kc_clientId s) c ps = Inr req \<and> asked_at s' n req d)) groups sent"
  using assms
proof (induction groups arbitrary: s sent)
  case (Cons x groups)
  obtain b ps where x: "x = (b, ps)" by force
  from Cons.prems [unfolded x] obtain c req s3 d rest where u: "enc (kc_clientId s) c ps = Inr req"
    "asked_at s3 (bm_node_id b) req d" "kc_clientId s3 = kc_clientId s"
    "send_groups env enc ex groups s3 = (s', Inr rest)" "sent = (bm_node_id b, d, ps) # rest"
    by (rule send_groups_Cons)
  from Cons.IH [OF u(4)] send_groups_keeps [OF u(4,2)] u(1) show ?case by (auto simp: x u(3,5))
qed simp

lemma send_groups_payloads:
  "send_groups env enc ex groups s = (s', Inr sent) \<Longrightarrow> map (snd \<circ> snd) sent = map snd groups"
  by (drule send_groups_asked) (induction groups sent rule: list_all2_induct, auto)

lemma sum_list_single:
  "distinct ks \<Longrightarrow> (\<Sum>k\<leftarrow>ks. if l = k then m else {#}) = (if l \<in> set ks then m else {#})"
  by (induction ks) auto

lemma mset_by_groups:
  assumes "distinct ks" "set leaders \<subseteq> set ks" "length leaders = length ps"
  shows "mset (concat (map (\<lambda>k. map snd (filter (\<lambda>(l, p). l = k) (zip leaders ps))) ks)) = mset ps"
  using assms(3,2)
proof (induction leaders ps rule: list_induct2)
  case (Cons l leaders p ps)
  have "mset (concat (map (\<lambda>k. (if l = k then [p] else []) @ f k) ks)) =
      (\<Sum>k\<leftarrow>ks. if l = k then {#p#} else {#}) + mset (concat (map f ks))" for f :: "'a \<Rightarrow> 'b list"
    by (induction ks) auto
  moreover have "(\<Sum>k\<leftarrow>ks. if l = k then {#p#} else {#}) = {#p#}"
    using sum_list_single [OF assms(1), of l "{#p#}"] Cons.prems by simp
  ultimately have "mset (concat (map (\<lambda>k. (if l = k then [p] else []) @
      map snd (filter (\<lambda>(l, p). l = k) (zip leaders ps))) ks)) = {#p#} + mset ps"
    using Cons by simp
  moreover have "map (\<lambda>k. map snd (filter (\<lambda>(l, p). l = k) (zip (l # leaders) (p # ps)))) ks =
      map (\<lambda>k. (if l = k then [p] else []) @ map snd (filter (\<lambda>(l, p). l = k) (zip leaders ps))) ks"
    by (rule map_cong) auto
  ultimately show ?case by (simp only:) simp
qed simp

lemma route_covers:
  assumes "route env g key payloads [] s = (s', Inr groups)"
  shows "length (routed_to env g key payloads s) = length payloads" "distinct (map fst groups)"
    "\<forall>(b, ps)\<in>set groups. ps = map snd (filter (\<lambda>(l, p). l = b) (zip (routed_to env g key payloads s) payloads))"
    "mset (concat (map snd groups)) = mset payloads"
proof -
  define leaders where "leaders = routed_to env g key payloads s"
  from route_groups [OF assms] have ok: "dict_ok groups" and len: "length leaders = length payloads"
    and gr: "\<And>b. group_of groups b = map snd (filter (\<lambda>(l, p). l = b) (zip leaders payloads))"
    by (auto simp: dict_ok_def group_of_def leaders_def)
  have each: "ps = map snd (filter (\<lambda>(l, p). l = b) (zip leaders payloads))" if "(b, ps) \<in> set groups" for b ps
    using that gr [of b] dict_get_in [OF ok] by (auto simp: group_of_def)
  have "l \<in> set (map fst groups)" if l: "l \<in> set leaders" for l
  proof (rule ccontr)
    assume "l \<notin> set (map fst groups)"
    then have "group_of groups l = []" by (simp add: group_of_def map_of_eq_None_iff [THEN iffD2])
    moreover obtain i where "i < length leaders" "leaders ! i = l" using l by (auto simp: in_set_conv_nth)
    then have "(l, payloads ! i) \<in> set (zip leaders payloads)" using len by (auto simp: set_zip)
    ultimately show False using gr [of l] by (auto simp: filter_empty_conv)
  qed
  then have sub: "set leaders \<subseteq> set (map fst groups)" by blast
  have "map snd groups = map (\<lambda>b. map snd (filter (\<lambda>(l, p). l = b) (zip leaders payloads))) (map fst groups)"
    using each by (auto intro: map_cong)
  then show "mset (concat (map snd groups)) = mset payloads"
    using mset_by_groups [OF _ sub len] ok by (simp only: dict_ok_def)
  from len each ok show "length (routed_to env g key payloads s) = length payloads" "distinct (map fst groups)"
    "\<forall>(b, ps)\<in>set groups. ps = map snd (filter (\<lambda>(l, p). l = b) (zip (routed_to env g key payloads s) payloads))"
    by (auto simp: dict_ok_def leaders_def)
qed

text \<open>For each payload the cache named its broker when the lookup ended, and from the start when it knew them all.\<close>

lemma routed_named:
  assumes "route env g key payloads [] s = (s1, Inr groups)" "i < length payloads"
  shows "named_by g (key (payloads ! i)) (fst (lookups env g key payloads s ! i)) (routed_to env g key payloads s ! i)"
    and "\<forall>p\<in>set payloads. \<exists>b. named_by g (key p) s b \<Longrightarrow> named_by g (key (payloads ! i)) s (routed_to env g key payloads s ! i)"
proof -
  have len: "i < length (lookups env g key payloads s)" using route_covers(1) [OF assms(1)] assms(2) by (simp add: routed_to_def)
  then show *: "named_by g (key (payloads ! i)) (fst (lookups env g key payloads s ! i)) (routed_to env g key payloads s ! i)"
    by (simp add: routed_to_def lookups_named)
  show "\<forall>p\<in>set payloads. \<exists>b. named_by g (key p) s b \<Longrightarrow> named_by g (key (payloads ! i)) s (routed_to env g key payloads s ! i)"
    using * lookups_cached [OF _ len] by metis
qed

text \<open>
  C10. Every payload is sent to its broker, exactly once. The lookups of the run give each payload the broker that
  the client's cache names for it (the leader of the partition, or the coordinator of the group) in the
  state in which that lookup ends; where the cache knew the brokers of all payloads from the start, these are they. The payloads are grouped by
  these brokers; each group keeps the payloads' order; together the groups have every payload once. One
  request per group, the encoding of its payloads, is handed to the client of that broker.
\<close>

theorem payloads_routed:
  assumes "route env g key payloads [] s = (s1, Inr groups)"
    and "send_groups env encoder_fn expectResponse groups s1 = (s2, Inr sent)"
    and "leaders = routed_to env g key payloads s"
  shows "length leaders = length payloads \<and>
    (\<forall>i<length payloads. named_by g (key (payloads ! i)) (fst (lookups env g key payloads s ! i)) (leaders ! i)) \<and>
    ((\<forall>p\<in>set payloads. \<exists>b. named_by g (key p) s b) \<longrightarrow> list_all2 (\<lambda>p b. named_by g (key p) s b) payloads leaders) \<and>
    distinct (map fst groups) \<and> mset (concat (map (snd \<circ> snd) sent)) = mset payloads \<and>
    list_all2 (\<lambda>(b, ps) (n, d, ps'). n = bm_node_id b \<and> ps' = ps \<and>
      ps = map snd (filter (\<lambda>(l, p). l = b) (zip leaders payloads)) \<and>
      (\<exists>c req. encoder_fn (kc_clientId s1) c ps = Inr req \<and> asked_at s2 n req d)) groups sent"
proof -
  note l = route_covers [OF assms(1)] and a = send_groups_asked [OF assms(2)]
  have "list_all2 (\<lambda>(b, ps) (n, d, ps'). n = bm_node_id b \<and> ps' = ps \<and>
      ps = map snd (filter (\<lambda>(l, p). l = b) (zip leaders payloads)) \<and>
      (\<exists>c req. encoder_fn (kc_clientId s1) c ps = Inr req \<and> asked_at s2 n req d)) groups sent"
    by (rule list.rel_mono_strong [OF a]) (use l(3) assms(3) in auto)
  then show ?thesis using l routed_named [OF assms(1)]
    by (simp add: send_groups_payloads [OF assms(2)] list_all2_conv_all_nth flip: assms(3))
qed

text \<open>
  An example: node 1 leads partition 0 of topic \<open>t\<close> and answers, node 2 leads partition 1 and does not;
  the bootstrap host answers.
\<close>

definition example_env :: client_env where
  "example_env =
     \<lparr>ce_broker = \<lparr>be_sendString = \<lambda>_. None, be_retryPolicy = \<lambda>_. 1\<rparr>, ce_now = \<lambda>_. 0,
       ce_shuffle_nodes = rev, ce_shuffle_hosts = rev,
       ce_wait = \<lambda>t n d s. (s, if n = 1 then Some (Inr (Some [])) else None),
       ce_wait_coordinator = \<lambda>d s. (s, Inr True), ce_connect = \<lambda>hp s. (s, Inr ()),
       ce_bootstrap = \<lambda>hp req s. (s, Inr [0, 0, 0, 1]), ce_delay = \<lambda>t s. s, ce_retry_policy = \<lambda>_. 1\<rparr>"

definition example_broker :: "int \<Rightarrow> broker_metadata" where
  "example_broker n = \<lparr>bm_node_id = n, bm_host = str_lit ''h'', bm_port = 9092\<rparr>"

definition example_client :: kafka_client where
  "example_client = fresh_client\<lparr>kc_bootstrap_hosts := [(str_lit ''h'', 9092)],
     kc_brokers := [(1, example_broker 1), (2, example_broker 2)],
     kc_topics_to_brokers := [((str_lit ''t'', 0), Some (example_broker 1)), ((str_lit ''t'', 1), Some (example_broker 2))]\<rparr>"

definition example_payloads :: "(pystr \<times> int) list" where
  "example_payloads = [(str_lit ''t'', 0), (str_lit ''t'', 1), (str_lit ''t'', 0)]"

definition example_groups :: "(broker_metadata \<times> (pystr \<times> int) list) list" where
  "example_groups = [(example_broker 1, [(str_lit ''t'', 0), (str_lit ''t'', 0)]), (example_broker 2, [(str_lit ''t'', 1)])]"

definition example_sent :: "nat \<Rightarrow> nat \<Rightarrow> (int \<times> nat \<times> (pystr \<times> int) list) list" where
  "example_sent d d' = [(1, d, [(str_lit ''t'', 0), (str_lit ''t'', 0)]), (2, d', [(str_lit ''t'', 1)])]"

lemma example_route:
  "route example_env None (\<lambda>p. p) example_payloads [] example_client =
     (example_client, Inr example_groups)"
  by (simp add: example_payloads_def example_groups_def example_client_def example_broker_def broker_of_def get_leader_for_partition_def leader_def)

lemma example_sends:
  "\<exists>s2 d d'. send_groups example_env (\<lambda>cid c ps. Inr cid) True
       example_groups
       example_client =
     (s2, Inr (example_sent d d'))"
  by (simp add: example_groups_def example_sent_def example_client_def example_broker_def fresh_client_simps get_brokerclient_def next_id_def
      make_request_to_broker_def bc_makeRequest_def bc_init_def bc_connect_def try_connect_def emit_def Let_def)

theorem payloads_routed_witness:
  "\<exists>s1 groups s2 sent.
     route example_env None (\<lambda>p. p) example_payloads [] example_client = (s1, Inr groups) \<and>
     send_groups example_env (\<lambda>cid c ps. Inr cid) True groups s1 = (s2, Inr sent) \<and>
     mset (concat (map (snd \<circ> snd) sent)) = mset example_payloads \<and>
     map bm_node_id (routed_to example_env None (\<lambda>p. p) example_payloads example_client) = [1, 2, 1] \<and>
     map (\<lambda>(n, d, ps). (n, ps)) sent = [(1, [(str_lit ''t'', 0), (str_lit ''t'', 0)]), (2, [(str_lit ''t'', 1)])]"
proof -
  obtain s2 sent where sent: "send_groups example_env (\<lambda>cid c ps. Inr cid) True
       example_groups
       example_client = (s2, Inr sent)" using example_sends by blast
  note r = payloads_routed [OF example_route sent refl]
  have known: "\<forall>p\<in>set example_payloads. \<exists>b. named_by None p example_client b"
    by (simp add: example_payloads_def named_by_def leader_def example_client_def)
  with r have "list_all2 (\<lambda>p b. named_by None p example_client b) example_payloads
      (routed_to example_env None (\<lambda>p. p) example_payloads example_client)" by blast
  then have "map bm_node_id (routed_to example_env None (\<lambda>p. p) example_payloads example_client) = [1, 2, 1]"
    by (auto simp: example_payloads_def named_by_def leader_def example_client_def list_all2_Cons1 example_broker_def)
  moreover from r have "mset (concat (map (snd \<circ> snd) sent)) = mset example_payloads" by blast
  moreover from r have "map (\<lambda>(n, d, ps). (n, ps)) sent = [(1, [(str_lit ''t'', 0), (str_lit ''t'', 0)]), (2, [(str_lit ''t'', 1)])]"
    by (auto simp: example_groups_def list_all2_Cons1 example_broker_def)
  ultimately show ?thesis using sent example_route by (intro exI conjI)
qed

section \<open>The responses\<close>

text \<open>What the brokers answered, and which payloads failed with what.\<close>

definition answers :: "(bytes \<Rightarrow> ('r, exn, int) gen) option \<Rightarrow> bytes option result list \<Rightarrow> 'r list" where
  "answers decode_fn results =
     (case decode_fn of
        None \<Rightarrow> []
      | Some decode \<Rightarrow> concat (map (\<lambda>r. case r of Inr (Some data) \<Rightarrow> fst (decode data) | _ \<Rightarrow> []) results))"

definition failures :: "bytes option result list \<Rightarrow> 'p list list \<Rightarrow> ('p \<times> exn) list" where
  "failures results pss =
     concat (map (\<lambda>(r, ps). case r of Inl e \<Rightarrow> map (\<lambda>p. (p, e)) ps | Inr _ \<Rightarrow> []) (zip results pss))"

lemma answers_Cons:
  "answers decode_fn (r # results) =
     (case decode_fn of
        None \<Rightarrow> []
      | Some decode \<Rightarrow> (case r of Inr (Some data) \<Rightarrow> fst (decode data) | _ \<Rightarrow> [])) @ answers decode_fn results"
  by (simp add: answers_def split: option.splits)

lemma tally_results_eq:
  assumes "tally_results decode_fn rkey (zip results pss) (acc, failed) = Inr (acc', failed')" "length results = length pss"
  shows "failed' = failed @ failures results pss \<and>
    acc' = foldl (\<lambda>acc r. dict_set (rkey r) r acc) acc (answers decode_fn results)"
  using assms(2,1)
proof (induction results pss arbitrary: acc failed rule: list_induct2)
  case Nil
  then show ?case by (simp add: failures_def answers_def split: option.splits)
next
  case (Cons r results ps pss)
  show ?case
  proof (cases r)
    case (Inl e)
    then show ?thesis
      using Cons.IH [of acc "failed @ map (\<lambda>p. (p, e)) ps"] Cons.prems
      by (cases decode_fn) (simp_all add: failures_def answers_Cons)
  next
    case (Inr resp)
    show ?thesis
    proof (cases decode_fn)
      case None
      then show ?thesis using Cons Inr by (simp add: failures_def answers_Cons)
    next
      case (Some decode)
      with Cons.prems Inr obtain data rs c where d: "resp = Some data" "decode data = (rs, Inr c)"
        and t: "tally_results decode_fn rkey (zip results pss)
          (foldl (\<lambda>acc r. dict_set (rkey r) r acc) acc rs, failed) = Inr (acc', failed')"
        by (auto split: option.splits prod.splits sum.splits)
      from Cons.IH [OF t] Some Inr d show ?thesis by (simp add: failures_def answers_Cons)
    qed
  qed
qed

lemma await_all_length: "await_all env sent s = (s', results) \<Longrightarrow> length results = length sent"
  by (induction sent arbitrary: s results) (auto split: prod.splits)

lemma map_filter_find_keys:
  assumes "\<forall>p\<in>set ps. \<exists>r\<in>set rs. rkey r = key p"
  shows "map rkey (List.map_filter (\<lambda>p. find (\<lambda>r. rkey r = key p) rs) ps) = map key ps"
  using assms
proof (induction ps)
  case (Cons p ps)
  then have "find (\<lambda>r. rkey r = key p) rs \<noteq> None" by (auto simp: find_None_iff)
  then obtain r where "find (\<lambda>r. rkey r = key p) rs = Some r" "rkey r = key p" by (auto simp: find_Some_iff)
  with Cons show ?case by (simp add: List.map_filter_simps)
qed (simp add: List.map_filter_simps)

text \<open>
  C11. The outcome of \<open>_send_broker_aware_request\<close> follows the payloads. Its list of responses has, in
  the payloads' order, the response for the payload's topic and partition (the last one, and none for a
  payload no broker answered); when every payload is answered it matches the payloads one for one. When
  requests failed, it raises \<open>FailedPayloadsError\<close> with exactly their payloads and errors, besides the
  responses there are, and all cached metadata is dropped; each payload is among them or its
  broker replied.
\<close>

theorem responses_in_order:
  assumes "send_broker_aware_request env key rkey payloads encoder_fn decode_fn g s = (s', Inr out)"
  shows "\<exists>s1 groups s2 sent s3 results.
    route env g key payloads [] s = (s1, Inr groups) \<and>
    send_groups env encoder_fn (decode_fn \<noteq> None) groups s1 = (s2, Inr sent) \<and> await_all env sent s2 = (s3, results) \<and>
    (let failed = failures results (map (snd \<circ> snd) sent);
         got = answers decode_fn results;
         rs = List.map_filter (\<lambda>p. find (\<lambda>r. rkey r = key p) (rev got)) payloads
     in ((\<forall>p\<in>set payloads. \<exists>r\<in>set got. rkey r = key p) \<longrightarrow> map rkey rs = map key payloads) \<and>
        (\<forall>p\<in>set payloads. p \<in> fst ` set failed \<or>
           (\<exists>i<length sent. p \<in> set (snd (snd (sent ! i))) \<and> (\<exists>x. results ! i = Inr x))) \<and>
        (if failed = [] then out = Responses rs \<and> s' = s3
         else out = FailedPayloads rs failed \<and> s' = reset_all_metadata s3))"
proof -
  from assms obtain s1 groups s2 sent where r: "route env g key payloads [] s = (s1, Inr groups)"
    and sg: "send_groups env encoder_fn (decode_fn \<noteq> None) groups s1 = (s2, Inr sent)"
    by (auto simp: send_broker_aware_request_def cbind_eq_Inr split: if_splits)
  obtain s3 results where aw: "await_all env sent s2 = (s3, results)" by force
  let ?pss = "map (snd \<circ> snd) sent" and ?got = "answers decode_fn results"
  let ?rs = "List.map_filter (\<lambda>p. find (\<lambda>r. rkey r = key p) (rev ?got)) payloads"
  have len: "length results = length sent" by (rule await_all_length [OF aw])
  from assms r sg aw obtain acc failed where t: "tally_results decode_fn rkey (zip results ?pss) ([], []) = Inr (acc, failed)"
    and out: "(if failed \<noteq> [] then (reset_all_metadata s3,
          Inr (FailedPayloads (List.map_filter (\<lambda>k. dict_get acc k) (map key payloads)) failed))
        else (s3, Inr (Responses (List.map_filter (\<lambda>k. dict_get acc k) (map key payloads))))) = (s', Inr out)"
    by (auto simp: send_broker_aware_request_def Let_def split: if_splits sum.splits)
  have tl: "failed = failures results ?pss" "acc = dict_from rkey ?got"
    using tally_results_eq [OF t] len by (simp_all add: dict_from_def)
  have rs: "List.map_filter (\<lambda>k. dict_get acc k) (map key payloads) = ?rs"
    by (simp add: tl(2) dict_from_get List.map_filter_def o_def filter_map)
  have covered: "p \<in> fst ` set failed \<or> (\<exists>i<length sent. p \<in> set (snd (snd (sent ! i))) \<and> (\<exists>x. results ! i = Inr x))"
    if "p \<in> set payloads" for p
  proof -
    have "set (concat ?pss) = set payloads"
      using route_covers(4) [OF r] send_groups_payloads [OF sg] by (metis set_mset_mset)
    then have "p \<in> (\<Union>x\<in>set sent. set (snd (snd x)))" using that by simp
    then obtain x where "x \<in> set sent" "p \<in> set (snd (snd x))" by blast
    then obtain i where i: "i < length sent" "p \<in> set (snd (snd (sent ! i)))" by (metis in_set_conv_nth)
    show ?thesis
    proof (cases "results ! i")
      case (Inl e)
      have "(results ! i, ?pss ! i) \<in> set (zip results ?pss)" using i len by (auto simp: set_zip)
      then have "(p, e) \<in> set failed" using i Inl by (force simp: tl(1) failures_def)
      then show ?thesis by force
    qed (use i in blast)
  qed
  show ?thesis
    using r sg aw covered map_filter_find_keys [of payloads "rev ?got" rkey key] out
    by (intro exI [of _ s1] exI [of _ groups] exI [of _ s2] exI [of _ sent] exI [of _ s3] exI [of _ results])
      (auto simp: Let_def rs tl(1) split: if_splits)
qed

lemma aware_outcome_given:
  assumes "send_broker_aware_request env key rkey payloads encoder_fn decode_fn g s = (s', Inr out)"
  shows "case out of Responses rs \<Rightarrow> rkey ` set rs \<subseteq> key ` set payloads
    | FailedPayloads rs failed \<Rightarrow> fst ` set failed \<subseteq> set payloads \<and> rkey ` set rs \<subseteq> key ` set payloads"
proof -
  from assms obtain s1 groups s2 sent where r: "route env g key payloads [] s = (s1, Inr groups)"
    and sg: "send_groups env encoder_fn (decode_fn \<noteq> None) groups s1 = (s2, Inr sent)"
    by (auto simp: send_broker_aware_request_def cbind_eq_Inr split: if_splits)
  obtain s3 results where aw: "await_all env sent s2 = (s3, results)" by force
  from assms r sg aw obtain acc failed where t: "tally_results decode_fn rkey (zip results (map (snd \<circ> snd) sent)) ([], []) = Inr (acc, failed)"
    and out: "out = (let rs = List.map_filter (\<lambda>k. dict_get acc k) (map key payloads)
      in if failed \<noteq> [] then FailedPayloads rs failed else Responses rs)"
    by (auto simp: send_broker_aware_request_def Let_def split: if_splits sum.splits)
  have tl: "failed = failures results (map (snd \<circ> snd) sent)" "acc = dict_from rkey (answers decode_fn results)"
    using tally_results_eq [OF t] await_all_length [OF aw] by (simp_all add: dict_from_def)
  have rs: "rkey ` set (List.map_filter (\<lambda>k. dict_get acc k) (map key payloads)) \<subseteq> key ` set payloads"
  proof (rule image_subsetI)
    fix r assume "r \<in> set (List.map_filter (\<lambda>k. dict_get acc k) (map key payloads))"
    then obtain p where p: "p \<in> set payloads" "find (\<lambda>v. rkey v = key p) (rev (answers decode_fn results)) = Some r"
      by (auto simp: tl(2) dict_from_get List.map_filter_def)
    then have "rkey r = key p" by (auto simp: find_Some_iff)
    with p(1) show "rkey r \<in> key ` set payloads" by simp
  qed
  have "fst ` set failed \<subseteq> set (concat (map (snd \<circ> snd) sent))"
    by (fastforce simp: tl(1) failures_def dest: set_zip_rightD split: sum.splits)
  moreover have "set (concat (map (snd \<circ> snd) sent)) = set payloads"
    using route_covers(4) [OF r] send_groups_payloads [OF sg] by (metis set_mset_mset)
  ultimately show ?thesis using rs by (simp add: out Let_def)
qed

theorem responses_in_order_witness:
  "\<exists>s'. send_broker_aware_request example_env (\<lambda>p. p) (\<lambda>r. r) example_payloads (\<lambda>cid c ps. Inr cid)
       (Some (\<lambda>data. ([(str_lit ''t'', 0)], Inr 0))) None example_client =
     (s', Inr (FailedPayloads [(str_lit ''t'', 0), (str_lit ''t'', 0)]
        [((str_lit ''t'', 1), BrokerResponse RequestTimedOutError)])) \<and> kc_topics_to_brokers s' = []"
proof -
  let ?dec = "Some (\<lambda>data :: bytes. ([(str_lit ''t'', 0 :: int)], Inr 0 :: int result))"
  obtain s2 d d' where sg: "send_groups example_env (\<lambda>cid c ps. Inr cid) True
       example_groups
       example_client = (s2, Inr (example_sent d d'))"
    using example_sends by blast
  obtain s3 where aw: "await_all example_env
      (example_sent d d') s2 =
      (s3, [Inr (Some []), Inl (BrokerResponse RequestTimedOutError)])"
    by (simp add: await_broker_def example_env_def example_sent_def)
  obtain s' out where out: "send_broker_aware_request example_env (\<lambda>p. p) (\<lambda>r. r) example_payloads (\<lambda>cid c ps. Inr cid)
       ?dec None example_client = (s', Inr out)"
    using example_route sg aw
    by (simp add: send_broker_aware_request_def Let_def example_sent_def example_payloads_def
        del: route.simps send_groups.simps await_all.simps)
  from responses_in_order [OF out] example_route sg aw
  have "out = FailedPayloads [(str_lit ''t'', 0), (str_lit ''t'', 0)] [((str_lit ''t'', 1), BrokerResponse RequestTimedOutError)] \<and>
      kc_topics_to_brokers s' = []"
    by (auto simp: Let_def failures_def answers_def example_sent_def example_payloads_def List.map_filter_simps reset_all_metadata_def)
  with out show ?thesis by blast
qed

section \<open>Requests any broker can answer\<close>

text \<open>
  What the client's availability rests on: while the client waits, nobody closes it and no known
  broker is forgotten; a wait for a broker ends with a response, a timeout or an error
  of afkak's own, and the response to a request that expects one has bytes; the shuffles permute.
\<close>

definition steady :: "kafka_client \<Rightarrow> kafka_client \<Rightarrow> bool" where
  "steady s s' \<longleftrightarrow> \<not> kc_closing s' \<and> kc_clients s' \<noteq> None \<and> kc_bootstrap_hosts s' = kc_bootstrap_hosts s \<and>
     set (dict_keys (kc_brokers s)) \<subseteq> set (dict_keys (kc_brokers s'))"

definition is_open :: "kafka_client \<Rightarrow> bool" where
  "is_open s \<longleftrightarrow> \<not> kc_closing s \<and> kc_clients s \<noteq> None"

text \<open>The deferred of a request that is queued and expects a response, or that has failed.\<close>

definition expecting :: "nat \<Rightarrow> broker_client \<Rightarrow> bool" where
  "expecting d b \<longleftrightarrow> list_ex (\<lambda>r. rq_d r = d \<and> rq_expectResponse r) (dict_values (bc_requests b)) \<or>
     list_ex (\<lambda>e. case e of Fired d' (Inl _) \<Rightarrow> d' = d | _ \<Rightarrow> False) (bc_log b)"

definition calm :: "client_env \<Rightarrow> bool" where
  "calm env \<longleftrightarrow>
     (\<forall>t n d s. is_open s \<longrightarrow> steady s (fst (ce_wait env t n d s)) \<and>
        (case snd (ce_wait env t n d s) of
           Some (Inl e) \<Rightarrow> is_KafkaError e
         | Some (Inr None) \<Rightarrow> \<not> (\<exists>b. client_for s n = Some b \<and> expecting d b)
         | _ \<Rightarrow> True)) \<and>
     (\<forall>ns. set (ce_shuffle_nodes env ns) = set ns) \<and> (\<forall>hs. set (ce_shuffle_hosts env hs) = set hs)"

lemma steady_open: "steady s s' \<Longrightarrow> is_open s'"
  by (simp add: steady_def is_open_def)

lemma steady_trans: "steady s s1 \<Longrightarrow> steady s1 s2 \<Longrightarrow> steady s s2"
  by (auto simp: steady_def)

lemma get_brokerclient_open:
  assumes "is_open s" "n \<in> set (dict_keys (kc_brokers s))"
  shows "\<exists>s' b. get_brokerclient n s = (s', Inr b) \<and> steady s s'"
proof -
  from assms(2) obtain bm where bm: "dict_get (kc_brokers s) n = Some bm" by (metis map_of_eq_None_iff not_None_eq set_map)
  from assms(1) obtain cl where "kc_clients s = Some cl" "\<not> kc_closing s" by (auto simp: is_open_def)
  with bm show ?thesis by (cases "dict_get cl n") (auto simp: get_brokerclient_def steady_def)
qed

lemma steady_clients: "is_open s \<Longrightarrow> steady s (s\<lparr>kc_clients := map_option f (kc_clients s)\<rparr>)"
  by (auto simp: is_open_def steady_def)

lemma mrtb_timeout_steady: "is_open s \<Longrightarrow> steady s (mrtb_timeout env n d s)"
  by (auto simp: mrtb_timeout_def Let_def is_open_def steady_def split: option.splits)

lemma makeRequest_expecting:
  assumes "bc_makeRequest env now c req True b = Inr (d, b')"
  shows "expecting d b'"
proof -
  have own: "(c, v) \<in> set (dict_set c v q)" for v and q :: "(int, request_state) dict"
    by (rule map_of_SomeD) (simp add: dict_get_set)
  show ?thesis using assms
    by (auto simp: bc_makeRequest_def sendRequest_def bc_connect_def try_connect_def emit_def Let_def expecting_def list_ex_iff
        split: if_splits option.splits intro!: bexI [OF _ own])
qed

text \<open>Where the bytes of an answer come from: a known broker, or a bootstrap host.\<close>

definition from_broker :: "client_env \<Rightarrow> kafka_client \<Rightarrow> bytes \<Rightarrow> bool" where
  "from_broker env s data \<longleftrightarrow>
     (\<exists>t n d k. n \<in> set (dict_keys (kc_brokers s)) \<and> snd (ce_wait env t n d k) = Some (Inr (Some data)))"

definition from_bootstrap :: "client_env \<Rightarrow> kafka_client \<Rightarrow> bytes \<Rightarrow> bytes \<Rightarrow> bool" where
  "from_bootstrap env s request data \<longleftrightarrow>
     (\<exists>hp k. hp \<in> set (kc_bootstrap_hosts s) \<and> snd (ce_bootstrap env hp request k) = Inr data)"

lemma request_steady:
  assumes "calm env" "is_open s" "client_for s n = Some b"
    and "cbind (make_request_to_broker env n b c req True s) (\<lambda>s d. await_broker env None n d s) = (s', r)"
  shows "steady s s' \<and> (\<forall>e. r = Inl e \<longrightarrow> is_KafkaError e) \<and>
    (\<forall>x. r = Inr x \<longrightarrow> (\<exists>data t d k. x = Some data \<and> snd (ce_wait env t n d k) = Some (Inr (Some data))))"
proof (cases "bc_makeRequest (ce_broker env) (ce_now env s) c req True b")
  case (Inl e)
  then have "e = DuplicateRequestError" by (auto simp: bc_makeRequest_def Let_def split: if_splits)
  with Inl assms(2,4) show ?thesis by (auto simp: make_request_to_broker_def is_open_def steady_def)
next
  case (Inr x)
  obtain d b' where x: "x = (d, b')" by force
  let ?s = "s\<lparr>kc_clients := map_option (dict_set n b') (kc_clients s)\<rparr>"
  have st: "steady s ?s" by (rule steady_clients [OF assms(2)])
  obtain s2 w where w: "ce_wait env (request_timeout None ?s) n d ?s = (s2, w)" by force
  have "client_for ?s n = Some b'" using assms(3) by (auto simp: client_for_def dict_get_set split: option.splits)
  moreover have "expecting d b'" using Inr by (simp add: x makeRequest_expecting)
  moreover from assms(1) have "steady ?s (fst (ce_wait env (request_timeout None ?s) n d ?s)) \<and>
      (case snd (ce_wait env (request_timeout None ?s) n d ?s) of
         Some (Inl e) \<Rightarrow> is_KafkaError e
       | Some (Inr None) \<Rightarrow> \<not> (\<exists>b. client_for ?s n = Some b \<and> expecting d b)
       | _ \<Rightarrow> True)" using steady_open [OF st] unfolding calm_def by blast
  ultimately have st2: "steady ?s s2" "case w of Some (Inl e) \<Rightarrow> is_KafkaError e | Some (Inr None) \<Rightarrow> False | _ \<Rightarrow> True"
    using w by (auto split: option.splits sum.splits)
  have res: "(s', r) = (case w of Some r \<Rightarrow> (s2, r) | None \<Rightarrow> (mrtb_timeout env n d s2, Inl (BrokerResponse RequestTimedOutError)))"
    using assms(4) Inr w by (simp add: make_request_to_broker_def x await_broker_def split: option.splits)
  have s2: "steady s s2" by (rule steady_trans [OF st st2(1)])
  show ?thesis
  proof (cases w)
    case None
    with res have "s' = mrtb_timeout env n d s2" "r = Inl (BrokerResponse RequestTimedOutError)" by simp_all
    with steady_trans [OF s2 mrtb_timeout_steady [OF steady_open [OF s2]]] show ?thesis by simp
  next
    case (Some q)
    have got: "snd (ce_wait env (request_timeout None ?s) n d ?s) = Some q" using w Some by simp
    show ?thesis
    proof (cases q)
      case (Inl e)
      with res st2(2) s2 Some show ?thesis by simp
    next
      case (Inr y)
      with st2(2) Some obtain data where "y = Some data" by (cases y) auto
      with res s2 Some Inr got show ?thesis by (simp; blast)
    qed
  qed
qed

lemma try_brokers_calm:
  assumes "calm env" "is_open s" "set ns \<subseteq> set (dict_keys (kc_brokers s))"
  shows "\<exists>s' r. try_brokers env c req ns s = (s', Inr r) \<and> steady s s' \<and>
    (\<forall>x. r = Some x \<longrightarrow> (\<exists>data t n d k. x = Some data \<and> n \<in> set ns \<and> snd (ce_wait env t n d k) = Some (Inr (Some data))))"
  using assms(2,3)
proof (induction ns arbitrary: s)
  case Nil
  then show ?case by (simp add: is_open_def steady_def)
next
  case (Cons n ns)
  then have "n \<in> set (dict_keys (kc_brokers s))" by simp
  then obtain s1 b where g: "get_brokerclient n s = (s1, Inr b)" "steady s s1"
    using get_brokerclient_open [OF Cons.prems(1)] by blast
  obtain s2 r where q: "cbind (make_request_to_broker env n b c req True s1) (\<lambda>s d. await_broker env None n d s) = (s2, r)"
    by force
  note st = request_steady [OF assms(1) steady_open [OF g(2)] get_brokerclient_gives(1) [OF g(1)] q]
  have s2: "steady s s2" using st g(2) steady_trans by blast
  show ?case
  proof (cases r)
    case (Inr x)
    with st obtain data t d k where "x = Some data" "snd (ce_wait env t n d k) = Some (Inr (Some data))" by blast
    then show ?thesis using g(1) q s2 Inr by (auto intro!: exI [of _ n])
  next
    case (Inl e)
    have "set ns \<subseteq> set (dict_keys (kc_brokers s2))" using Cons.prems(2) s2 by (auto simp: steady_def)
    from Cons.IH [OF steady_open [OF s2] this] obtain s3 r' where s3: "try_brokers env c req ns s2 = (s3, Inr r')" "steady s2 s3"
      "\<forall>x. r' = Some x \<longrightarrow> (\<exists>data t n d k. x = Some data \<and> n \<in> set ns \<and> snd (ce_wait env t n d k) = Some (Inr (Some data)))"
      by blast
    then have "try_brokers env c req (n # ns) s = (s3, Inr r')" using Inl g(1) q st by simp
    moreover have "steady s s3" by (rule steady_trans [OF s2 s3(2)])
    ultimately show ?thesis using s3(3) by (metis list.set_intros(2))
  qed
qed

lemma try_hosts_answers:
  assumes "hp \<in> set hps" "\<And>s. \<exists>s' data. (\<exists>s1. ce_connect env hp s = (s1, Inr ()) \<and> ce_bootstrap env hp req s1 = (s', Inr data))"
  shows "\<exists>s' data. try_hosts env req hps s = (s', Inr (Some data)) \<and> (\<exists>hp k. hp \<in> set hps \<and> snd (ce_bootstrap env hp req k) = Inr data)"
  using assms(1)
proof (induction hps arbitrary: s)
  case (Cons h hps)
  obtain s1 r where c: "ce_connect env h s = (s1, r)" by force
  obtain s2 q where b: "ce_bootstrap env h req s1 = (s2, q)" by force
  show ?case
  proof (cases "\<exists>data. r = Inr () \<and> q = Inr data")
    case True
    then obtain data where "r = Inr ()" "q = Inr data" by blast
    moreover from this have "snd (ce_bootstrap env h req s1) = Inr data" using b by simp
    ultimately show ?thesis using c b
      by (intro exI [of _ s2] exI [of _ data] conjI exI [of _ h] exI [of _ s1]) simp_all
  next
    case False
    then have "h \<noteq> hp" using assms(2) [of s] c b by auto
    then have "hp \<in> set hps" using Cons.prems by simp
    moreover have "\<exists>s'. try_hosts env req (h # hps) s = try_hosts env req hps s'"
      using False c b by (cases r; cases q) auto
    ultimately show ?thesis using Cons.IH by (metis list.set_intros(2))
  qed
qed simp

text \<open>
  C39. A broker-agnostic request reaches the cluster as long as one bootstrap host does: whatever the
  known brokers do (answer, time out or fail), on a client nobody closes the request returns the bytes of an answer,
  which a known broker or a bootstrap host gave, if some bootstrap host accepts connections and answers. When no
  broker answers, it is the bootstrap host's.
\<close>

theorem unaware_request_answered:
  assumes "calm env" "\<not> kc_closing s" "kc_clients s \<noteq> None" "hp \<in> set (kc_bootstrap_hosts s)"
    and "\<And>s. \<exists>s1 s' data. ce_connect env hp s = (s1, Inr ()) \<and> ce_bootstrap env hp request s1 = (s', Inr data)"
  shows "\<exists>s' data. send_broker_unaware_request env requestId request s = (s', Inr (Some data)) \<and>
    (from_broker env s data \<or> from_bootstrap env s request data)"
proof -
  let ?ns = "sort_key (\<lambda>n. \<not> node_connected s n) (ce_shuffle_nodes env (dict_keys (kc_brokers s)))"
  have ns: "set ?ns = set (dict_keys (kc_brokers s))" using assms(1) by (simp add: calm_def)
  then obtain s1 r where t: "try_brokers env requestId request ?ns s = (s1, Inr r)" "steady s s1"
    "\<forall>x. r = Some x \<longrightarrow> (\<exists>data t n d k. x = Some data \<and> n \<in> set ?ns \<and> snd (ce_wait env t n d k) = Some (Inr (Some data)))"
    using try_brokers_calm [OF assms(1)] assms(2,3) by (metis is_open_def order_refl)
  have hosts: "set (ce_shuffle_hosts env (kc_bootstrap_hosts s1)) = set (kc_bootstrap_hosts s)"
    using assms(1) t(2) by (simp add: calm_def steady_def)
  have "\<exists>s' data. try_hosts env request (ce_shuffle_hosts env (kc_bootstrap_hosts s1)) s1 = (s', Inr (Some data)) \<and>
      (\<exists>hp k. hp \<in> set (ce_shuffle_hosts env (kc_bootstrap_hosts s1)) \<and> snd (ce_bootstrap env hp request k) = Inr data)"
    by (rule try_hosts_answers) (use assms(4,5) hosts in blast)+
  then have boot: "\<exists>s' data. send_bootstrap_request env request s1 = (s', Inr (Some data)) \<and> from_bootstrap env s request data"
    unfolding hosts by (simp add: send_bootstrap_request_def from_bootstrap_def)
  have send: "send_broker_unaware_request env requestId request s =
      (case r of Some resp \<Rightarrow> (s1, Inr resp) | None \<Rightarrow> send_bootstrap_request env request s1)"
    by (simp add: send_broker_unaware_request_def Let_def assms(2,3) t(1))
  show ?thesis
  proof (cases r)
    case None
    with send boot show ?thesis by auto
  next
    case (Some x)
    with t(3) ns obtain data where "x = Some data" "from_broker env s data" unfolding from_broker_def ns by blast
    with send Some show ?thesis by simp
  qed
qed

theorem unaware_request_answered_witness:
  "\<exists>s'. send_broker_unaware_request (example_env\<lparr>ce_wait := \<lambda>t n d s. (s, None)\<rparr>) 1 [0, 3] example_client = (s', Inr (Some [0, 0, 0, 1]))"
proof -
  let ?env = "example_env\<lparr>ce_wait := \<lambda>t n d s. (s, None)\<rparr>"
  have calm: "calm ?env" by (auto simp: calm_def example_env_def is_open_def steady_def)
  have cl: "\<not> kc_closing example_client" "kc_clients example_client \<noteq> None" by (simp_all add: example_client_def fresh_client_simps)
  have hp: "(str_lit ''h'', 9092) \<in> set (kc_bootstrap_hosts example_client)" by (simp add: example_client_def)
  have "\<exists>s' data. send_broker_unaware_request ?env 1 [0, 3] example_client = (s', Inr (Some data)) \<and>
      (from_broker ?env example_client data \<or> from_bootstrap ?env example_client [0, 3] data)"
    by (rule unaware_request_answered [OF calm cl hp]) (simp add: example_env_def)
  then show ?thesis by (auto simp: from_broker_def from_bootstrap_def example_env_def)
qed

section \<open>Snapshots of partitions\<close>

definition snapshot_ok :: "kafka_client \<Rightarrow> (pystr, int list) dict \<Rightarrow> bool" where
  "snapshot_ok s snapshot \<longleftrightarrow>
     (\<forall>t ps. dict_get snapshot t = Some ps \<longrightarrow>
        ps \<noteq> [] \<and> metadata_error_for_topic t s = Inr 0 \<and> dict_get (kc_topic_partitions s) t = Some ps)"

lemma topic_snapshot_ok:
  assumes "topic_snapshot topics s (missing, snapshot) = Inr (missing', snapshot')" "snapshot_ok s snapshot"
  shows "snapshot_ok s snapshot' \<and> set missing \<subseteq> set missing' \<and>
    (missing' = [] \<longrightarrow> dict_get snapshot t \<noteq> None \<or> t \<in> set topics \<longrightarrow> dict_get snapshot' t \<noteq> None)"
  using assms
proof (induction topics arbitrary: missing snapshot)
  case Nil
  then show ?case by simp
next
  case (Cons u topics)
  from Cons.prems(1) obtain errno where e: "metadata_error_for_topic u s = Inr errno" by (auto simp: rbind_eq_Inr)
  show ?case
  proof (cases "errno = 0 \<and> (\<exists>ps. dict_get (kc_topic_partitions s) u = Some ps \<and> ps \<noteq> [])")
    case False
    then have "topic_snapshot topics s (missing @ [u], snapshot) = Inr (missing', snapshot')"
      using Cons.prems(1) e by (auto split: if_splits option.splits)
    from Cons.IH [OF this Cons.prems(2)] show ?thesis by auto
  next
    case True
    then obtain ps where ps: "dict_get (kc_topic_partitions s) u = Some ps" "ps \<noteq> []" "errno = 0" by blast
    then have t: "topic_snapshot topics s (missing, dict_set u ps snapshot) = Inr (missing', snapshot')"
      using Cons.prems(1) e by simp
    have "snapshot_ok s (dict_set u ps snapshot)"
      using Cons.prems(2) ps e by (simp add: snapshot_ok_def dict_get_set)
    from Cons.IH [OF t this] show ?thesis by (auto simp: dict_get_set)
  qed
qed

lemma load_attempt_cases:
  assumes "load_attempt env ts s = (s', Inr (rt, missing, sn))"
  obtains s1 resp brokers rtopics where "metadata_request env ts s = (s1, Inr resp)"
    "decode_bytes decode_metadata_response resp = Inr (brokers, rtopics)"
    "merge_topic_metadata brokers rtopics False s1 = (s', Inr ())" "rt = dict_keys rtopics"
    "topic_snapshot rt s' ([], []) = Inr (missing, sn)"
proof -
  from assms obtain s1 resp where m: "metadata_request env ts s = (s1, Inr resp)"
    by (auto simp: load_attempt_def cbind_eq_Inr)
  with assms obtain brokers rtopics where d: "decode_bytes decode_metadata_response resp = Inr (brokers, rtopics)"
    by (auto simp: load_attempt_def split: sum.splits)
  from assms m d obtain s2 where g: "merge_topic_metadata brokers rtopics False s1 = (s2, Inr ())"
    and r: "(case topic_snapshot (dict_keys rtopics) s2 ([], []) of
          Inl e \<Rightarrow> (s2, Inl e) | Inr (missing, snapshot) \<Rightarrow> (s2, Inr (dict_keys rtopics, missing, snapshot))) =
        (s', Inr (rt, missing, sn))"
    by (auto simp: load_attempt_def cbind_eq_Inr)
  then have "s' = s2" "rt = dict_keys rtopics" "topic_snapshot rt s' ([], []) = Inr (missing, sn)"
    by (auto split: sum.splits)
  with m d g that show thesis by blast
qed

lemma load_attempt_ok: "load_attempt env ts s = (s', Inr (rt, [], sn)) \<Longrightarrow> snapshot_ok s' sn"
  by (erule load_attempt_cases, drule topic_snapshot_ok [THEN conjunct1]) (simp_all add: snapshot_ok_def)

lemma load_attempts_ok:
  assumes "load_attempts env ts k s = Some r"
  shows "case r of (s', Inl e) \<Rightarrow> True | (s', Inr sn) \<Rightarrow> snapshot_ok s' sn"
proof (rule load_attempts.raw_induct
    [where P = "\<lambda>env ts k s r. case r of (s', Inl e) \<Rightarrow> True | (s', Inr sn) \<Rightarrow> snapshot_ok s' sn", OF _ assms])
  fix f env ts k s r
  assume IH: "\<And>env ts k s r. f env ts k s = Some r \<Longrightarrow> case r of (s', Inl e) \<Rightarrow> True | (s', Inr sn) \<Rightarrow> snapshot_ok s' sn"
    and eq: "(case load_attempt env ts s of (s, Inl e) \<Rightarrow> Some (s, Inl e)
      | (s, Inr (rtopics, missing, snapshot)) \<Rightarrow>
          if missing = [] then Some (s, Inr snapshot)
          else f env rtopics (Suc k) (ce_delay env (ce_retry_policy env k) s)) = Some r"
  show "case r of (s', Inl e) \<Rightarrow> True | (s', Inr sn) \<Rightarrow> snapshot_ok s' sn"
    using eq load_attempt_ok [of env ts s]
    by (auto split: prod.splits sum.splits if_splits dest!: IH)
qed

text \<open>
  What \<open>_load_topic_partitions\<close> guarantees about the snapshot it returns: each of its topics is in
  no error state, and its partitions are those in the cache, at least one.
\<close>

theorem load_topic_partitions_snapshot:
  assumes "load_topic_partitions env topics s = Some (s', Inr snapshot)" "dict_get snapshot t = Some ps"
  shows "ps \<noteq> [] \<and> metadata_error_for_topic t s' = Inr 0 \<and> dict_get (kc_topic_partitions s') t = Some ps"
  using assms load_attempts_ok [of env _ 1 s]
  by (fastforce simp: load_topic_partitions_def snapshot_ok_def split: if_splits sum.splits)

lemma bootstrap_metadata_request:
  assumes "kc_brokers s = []" "\<not> kc_closing s" "kc_clientId s = []" "kc_correlation_id s = 0" "kc_bootstrap_hosts s = [hp]"
  shows "metadata_request (example_env\<lparr>ce_bootstrap := \<lambda>hp req s. (s, Inr data)\<rparr>) [str_lit ''t''] s =
    (s\<lparr>kc_correlation_id := 1\<rparr>, Inr (Some data))"
proof -
  have "\<exists>req. encode_metadata_request [] 1 [str_lit ''t''] = Inr req"
    by (simp add: encode_metadata_request_def METADATA_KEY_def wire_eval)
  with assms show ?thesis
    by (auto simp: metadata_request_def next_id_def send_broker_unaware_request_def Let_def
        send_bootstrap_request_def example_env_def)
qed

theorem load_topic_partitions_snapshot_witness:
  "\<exists>env s s' snapshot. load_topic_partitions env [str_lit ''t''] s = Some (s', Inr snapshot) \<and>
     dict_get snapshot (str_lit ''t'') = Some [0, 1] \<and> metadata_error_for_topic (str_lit ''t'') s' = Inr 0"
proof -
  obtain data where data: "sample_metadata = Inr data" using sample_metadata_bytes by blast
  let ?env = "example_env\<lparr>ce_bootstrap := \<lambda>hp req s. (s, Inr data)\<rparr>"
  let ?s = "fresh_client\<lparr>kc_bootstrap_hosts := [(str_lit ''h'', 9092)]\<rparr>"
  have m: "metadata_request ?env [str_lit ''t''] ?s = (?s\<lparr>kc_correlation_id := 1\<rparr>, Inr (Some data))"
    by (rule bootstrap_metadata_request) (simp_all add: fresh_client_simps)
  have "\<exists>s'. load_attempt ?env [str_lit ''t''] ?s = (s', Inr ([str_lit ''t''], [], [(str_lit ''t'', [0, 1])]))"
    unfolding load_attempt_def m using metadata_decode [OF data [unfolded sample_metadata_def]]
    by (simp add: decode_bytes_def merge_topic_metadata_def update_brokers_def fresh_client_simps dict_from_def
        topic_view_def partition_view_def reset_topic_metadata_single reset_topic_def Let_def sort_partitions_def
        metadata_error_for_topic_def coerce_topic_def str_lit_def dict_get_set)
  then obtain s' where "load_attempt ?env [str_lit ''t''] ?s = (s', Inr ([str_lit ''t''], [], [(str_lit ''t'', [0, 1])]))" ..
  then have l: "load_topic_partitions ?env [str_lit ''t''] ?s = Some (s', Inr [(str_lit ''t'', [0, 1])])"
    by (simp add: load_topic_partitions_def coerce_topic_def load_attempts.simps) (simp add: str_lit_def)
  have g: "dict_get [(str_lit ''t'', [0, 1])] (str_lit ''t'') = Some [0, 1]" by simp
  from load_topic_partitions_snapshot [OF l g] l g show ?thesis by blast
qed

definition no_topics :: bytes where
  "no_topics = [0, 0, 0, 1, 0, 0, 0, 0, 0, 0, 0, 0]"

text \<open>
  The snapshot may miss a requested topic, although the documentation promises an entry for each:
  when a response does not mention the topic, the loop checks only the topics of the response, finds
  nothing missing and returns.
\<close>

theorem snapshot_misses_topic:
  "\<exists>env s s'. load_topic_partitions env [str_lit ''t''] s = Some (s', Inr [])"
proof -
  let ?env = "example_env\<lparr>ce_bootstrap := \<lambda>hp req s. (s, Inr no_topics)\<rparr>"
  let ?s = "fresh_client\<lparr>kc_bootstrap_hosts := [(str_lit ''h'', 9092)]\<rparr>"
  let ?s1 = "?s\<lparr>kc_correlation_id := 1\<rparr>"
  have m: "metadata_request ?env [str_lit ''t''] ?s = (?s1, Inr (Some no_topics))"
    by (rule bootstrap_metadata_request) (simp_all add: fresh_client_simps)
  have d: "decode_metadata_response no_topics = Inr ([], [])"
    unfolding no_topics_def by code_simp
  have "load_attempt ?env [str_lit ''t''] ?s = (?s1, Inr ([], [], []))"
    unfolding load_attempt_def m
    by (simp add: decode_bytes_def d merge_topic_metadata_def update_brokers_def fresh_client_simps dict_from_def)
  then have "load_topic_partitions ?env [str_lit ''t''] ?s = Some (?s1, Inr [])"
    by (simp add: load_topic_partitions_def coerce_topic_def load_attempts.simps) (simp add: str_lit_def)
  then show ?thesis by blast
qed

section \<open>Coordinators\<close>

text \<open>
  What a coordinator lookup leaves behind. On success the group's coordinator is cached and is a
  known broker, so that requests of the group can be sent to it; on any failure (of the request, an error
  code, a response that does not decode) \<open>CoordinatorNotAvailable\<close> is raised and no coordinator is
  cached. Every caller that waits for this lookup is fired with this result, and the lookup is over.
\<close>

theorem coordinator_lookup_spec:
  assumes "clients_ok s" "\<not> kc_closing s" "dict_get (kc_coordinator_fetches s) g = Some ds"
    and "handle_coordinator_result g resp s = (s1, r)"
  shows "(r = Inr True \<and> (\<exists>bm. dict_get (kc_group_to_coordinator s1) g = Some bm \<and> dict_get (kc_brokers s1) (bm_node_id bm) = Some bm) \<or>
      r = Inl (BrokerResponse CoordinatorNotAvailable) \<and> dict_get (kc_group_to_coordinator s1) g = None) \<and>
    kc_fired (propagate g r s1) = kc_fired s @ map (\<lambda>d. (d, r)) ds \<and>
    dict_get (kc_coordinator_fetches (propagate g r s1)) g = None"
proof -
  have ok: "kc_coordinator_fetches s1 = kc_coordinator_fetches s \<and> kc_fired s1 = kc_fired s \<and>
      (r = Inr True \<and> (\<exists>bm. dict_get (kc_group_to_coordinator s1) g = Some bm \<and> dict_get (kc_brokers s1) (bm_node_id bm) = Some bm) \<or>
       r = Inl (BrokerResponse CoordinatorNotAvailable) \<and> dict_get (kc_group_to_coordinator s1) g = None)"
  proof (cases "\<exists>e. handle_coordinator_response g resp s = (s, Inl e)")
    case True
    then obtain e where "handle_coordinator_response g resp s = (s, Inl e)" ..
    then show ?thesis using assms(4)
      by (auto simp: handle_coordinator_result_def reset_group_view reset_consumer_group_metadata_def dict_get_del)
  next
    case False
    then obtain response where d: "rbind resp (decode_bytes decode_consumermetadata_response) = Inr response"
      "raise_for_errno (cms_error response) = Inr ()"
      by (auto simp: handle_coordinator_response_def split: sum.splits)
    let ?bm = "\<lparr>bm_node_id = cms_node_id response, bm_host = cms_host response, bm_port = cms_port response\<rparr>"
    let ?s = "s\<lparr>kc_group_to_coordinator := dict_set g ?bm (kc_group_to_coordinator s)\<rparr>"
    have "clients_ok ?s" "\<not> kc_closing ?s" using assms(1,2) by (auto simp: clients_ok_def split: option.splits)
    from update_brokers_effect [OF this, of "[?bm]" False] obtain s2 where
      u: "update_brokers [?bm] False ?s = (s2, Inr ())" and b: "dict_get (kc_brokers s2) (cms_node_id response) = Some ?bm"
      by auto
    have "handle_coordinator_response g resp s = (s2, Inr True)"
      using d u by (simp add: handle_coordinator_response_def Let_def)
    then have "s1 = s2" "r = Inr True" using assms(4) by (auto simp: handle_coordinator_result_def)
    with b update_brokers_cache [OF u] show ?thesis by (auto simp: dict_get_set)
  qed
  then show ?thesis using assms(3) by (auto simp: propagate_def dict_get_del)
qed

theorem coordinator_lookup_spec_witness:
  "\<exists>s1 r. handle_coordinator_result [103] (Inr (Some [0, 0, 0, 1, 0, 0, 0, 0, 0, 7, 0, 1, 104, 0, 0, 35, 132]))
       (fresh_client\<lparr>kc_coordinator_fetches := [([103], [0, 1])]\<rparr>) = (s1, r) \<and>
     kc_fired (propagate [103] r s1) = [(0, r), (1, r)]"
proof -
  let ?s = "fresh_client\<lparr>kc_coordinator_fetches := [([103], [0, 1])]\<rparr>"
  let ?resp = "Inr (Some [0, 0, 0, 1, 0, 0, 0, 0, 0, 7, 0, 1, 104, 0, 0, 35, 132]) :: bytes option result"
  have "clients_ok ?s" "\<not> kc_closing ?s" "dict_get (kc_coordinator_fetches ?s) [103] = Some [0, 1]" "kc_fired ?s = []"
    by (simp_all add: clients_ok_def fresh_client_simps dict_ok_def)
  moreover obtain s1 r where "handle_coordinator_result [103] ?resp ?s = (s1, r)" by force
  ultimately show ?thesis using coordinator_lookup_spec [of ?s "[103]" "[0, 1]" ?resp s1 r] by auto
qed

end
