(* ===== verification/Producer.thy ===== *)
theory Producer
  imports Partitioner Client_Requests
begin

text \<open>
  \<open>Producer\<close> in \<open>afkak/producer.py\<close>: batching of messages, the choice of partitions, sending a batch
  as one payload per partition, retries and cancellation.

  The state \<open>producer\<close> has the attributes of the class. \<open>pr_batch_send_d\<close>, the deferred of the batch
  that is being sent, is represented by where its callback chain stands: the partitions are being looked
  up, the client's answer is awaited, or the delay before a retry. \<open>pr_loads\<close> counts the lookups of the batch that
  have passed the test of \<open>_req_attempts\<close> and wait for the metadata. The deferreds of \<open>send_messages\<close> are
  numbered; one has been called when it is no longer in \<open>pr_outstanding\<close>. What the producer does
  to the outside is in \<open>pr_log\<close>. A callback that calls the producer again does so in a later event.

  The relation \<open>pr_step\<close> is an instance of the locale \<open>step_machine\<close>: callers send and cancel at any time,
  the timer of the looping call may fire, and each wait ends once.
\<close>

section \<open>State\<close>

type_synonym produce_result = "(produce_response, produce_response, produce_request) outcome result"

text \<open>The dictionaries that the callbacks of one batch share.\<close>

record flight =
  fl_payloads :: "(topic_partition, produce_request) dict"
  fl_deferreds :: "(topic_partition, nat list) dict"

datatype batch_phase =
    Partitioning "send_request list"
  | Sending flight "produce_request list"
  | RetryDelay flight "produce_request list"

text \<open>
  How a deferred fires. \<open>_deliver_result\<close> always uses \<open>callback\<close>: given a \<open>Failure\<close> this runs the errbacks,
  given anything else, an exception object included, it runs the callbacks.
\<close>

datatype delivery =
    Callback "produce_response option"
  | ErrorValue exn
  | Errback exn

text \<open>What a failed payload is paired with: a \<open>Failure\<close>, or the exception that an error code raised.\<close>

datatype failed_cause = AsFailure exn | AsError exn

datatype producer_effect =
    PFired nat delivery
  | LookUp "send_request list"
  | Produce "produce_request list"
  | RetryAfter rat
  | ResetTopics "pystr list"
  | LoadTopic pystr
  | LookupAfter rat

record producer =
  pr_batch_reqs :: "send_request list"
  pr_waitingMsgCount :: int
  pr_waitingByteCount :: int
  pr_outstanding :: "nat list"
  pr_batch_send_d :: "batch_phase option"
  pr_loads :: nat
  pr_req_attempts :: int
  pr_retry_interval :: rat
  pr_stopping :: bool
  pr_sendLooper :: bool
  pr_next_d :: nat
  pr_log :: "producer_effect list"

text \<open>The arguments of the constructor; a batch limit of 0 is none.\<close>

record producer_config =
  pc_req_acks :: int
  pc_max_attempts :: int
  pc_retry_interval :: rat
  pc_codec :: int
  pc_batch_every_n :: int
  pc_batch_every_b :: int
  pc_batch_every_t :: "rat option"
  pc_codecs :: codec_env

definition RETRY_INTERVAL_FACTOR :: rat where "RETRY_INTERVAL_FACTOR = 120205 / 100000"

definition producer_config_init ::
    "int \<Rightarrow> int \<Rightarrow> rat \<Rightarrow> int option \<Rightarrow> bool \<Rightarrow> int \<Rightarrow> int \<Rightarrow> rat option \<Rightarrow> codec_env \<Rightarrow> producer_config result" where
  "producer_config_init req_acks max_req_attempts retry_interval codec batch_send batch_every_n batch_every_b
       batch_every_t env =
     (let cfg = \<lparr>pc_req_acks = req_acks, pc_max_attempts = max_req_attempts, pc_retry_interval = retry_interval,
            pc_codec = CODEC_NONE, pc_batch_every_n = (if batch_send then batch_every_n else 1),
            pc_batch_every_b = (if batch_send then batch_every_b else 1),
            pc_batch_every_t = (if batch_send then batch_every_t else None), pc_codecs = env\<rparr>
      in case codec of
           None \<Rightarrow> Inr cfg
         | Some c \<Rightarrow> if c \<in> {CODEC_GZIP, CODEC_NONE, CODEC_SNAPPY} then Inr (cfg\<lparr>pc_codec := c\<rparr>)
                    else Inl UnsupportedCodecError)"

definition producer_init :: "producer_config \<Rightarrow> producer" where
  "producer_init cfg =
     \<lparr>pr_batch_reqs = [], pr_waitingMsgCount = 0, pr_waitingByteCount = 0, pr_outstanding = [],
       pr_batch_send_d = None, pr_loads = 0, pr_req_attempts = 0, pr_retry_interval = pc_retry_interval cfg,
       pr_stopping = False,
       pr_sendLooper = (case pc_batch_every_t cfg of None \<Rightarrow> False | Some t \<Rightarrow> t \<noteq> 0),
       pr_next_d = 0, pr_log = []\<rparr>"

definition pr_emit :: "producer_effect \<Rightarrow> producer \<Rightarrow> producer" where
  "pr_emit e s = s\<lparr>pr_log := pr_log s @ [e]\<rparr>"

text \<open>Firing a deferred runs \<open>_remove_from_outstanding\<close>.\<close>

definition pr_fire :: "nat \<Rightarrow> delivery \<Rightarrow> producer \<Rightarrow> producer" where
  "pr_fire d r s = pr_emit (PFired d r) (s\<lparr>pr_outstanding := remove1 d (pr_outstanding s)\<rparr>)"

definition pr_called :: "producer \<Rightarrow> nat \<Rightarrow> bool" where
  "pr_called s d \<longleftrightarrow> d \<notin> set (pr_outstanding s)"

section \<open>Choosing a partition\<close>

text \<open>
  \<open>_next_partition\<close>. In the \<open>k\<close>th round of its loop \<open>le_before k\<close> and \<open>le_after k\<close> are the error codes
  of the topic's metadata before and after the load, \<open>le_load k\<close> is what the load raises, and \<open>le_others k\<close>
  counts the failed rounds of the other lookups of the batch meanwhile, which share the counter.
\<close>

record lookup_env =
  le_before :: "nat \<Rightarrow> int"
  le_after :: "nat \<Rightarrow> int"
  le_load :: "nat \<Rightarrow> exn option"
  le_others :: "nat \<Rightarrow> nat"

function await_metadata ::
    "producer_config \<Rightarrow> lookup_env \<Rightarrow> nat \<Rightarrow> int \<Rightarrow> rat \<Rightarrow> (nat \<times> int \<times> rat) \<times> unit result" where
  "await_metadata cfg env k attempts interval =
     (if le_before env k = 0 then ((k, attempts, interval), Inr ())
      else if attempts \<ge> pc_max_attempts cfg then ((k, attempts, interval), raise_for_errno (le_before env k))
      else (case le_load env k of
              Some e \<Rightarrow> ((Suc k, attempts + int (le_others env k), interval), Inl e)
            | None \<Rightarrow>
                if le_after env k = 0 then ((Suc k, attempts + int (le_others env k), interval), Inr ())
                else await_metadata cfg env (Suc k) (attempts + int (le_others env k) + 1)
                       (interval * RETRY_INTERVAL_FACTOR)))"
  by pat_completeness auto
termination
  by (relation "measure (\<lambda>(cfg, env, k, attempts, interval). nat (pc_max_attempts cfg - attempts))") auto

declare await_metadata.simps [simp del]

text \<open>The partitioners of the topics; \<open>make\<close> and \<open>pick\<close> are the constructor and the method of \<open>partitioner_class\<close>.\<close>

definition choose_partition ::
    "(pystr \<Rightarrow> int list \<Rightarrow> 'q result) \<Rightarrow> ('q \<Rightarrow> pyobj \<Rightarrow> int list \<Rightarrow> (int \<times> 'q) result) \<Rightarrow> pystr \<Rightarrow> pyobj \<Rightarrow>
     int list option \<Rightarrow> (pystr, 'q) dict \<Rightarrow> (pystr, 'q) dict \<times> int result" where
  "choose_partition new pick topic key topic_partitions partitioners =
     (case topic_partitions of
        None \<Rightarrow> (partitioners, Inl KeyError)
      | Some partitions \<Rightarrow>
          (case (case dict_get partitioners topic of None \<Rightarrow> new topic partitions | Some q \<Rightarrow> Inr q) of
             Inl e \<Rightarrow> (partitioners, Inl e)
           | Inr q \<Rightarrow>
               (case pick q key partitions of
                  Inl e \<Rightarrow> (dict_set topic q partitioners, Inl e)
                | Inr (part, q') \<Rightarrow> (dict_set topic q' partitioners, Inr part))))"

text \<open>The whole method; \<open>partitions_after\<close> gives \<open>client.topic_partitions.get(topic)\<close> after the loop.\<close>

definition next_partition ::
    "producer_config \<Rightarrow> (pystr \<Rightarrow> int list \<Rightarrow> 'q result) \<Rightarrow> ('q \<Rightarrow> pyobj \<Rightarrow> int list \<Rightarrow> (int \<times> 'q) result) \<Rightarrow> lookup_env \<Rightarrow>
     (nat \<Rightarrow> int list option) \<Rightarrow> pystr \<Rightarrow> pyobj \<Rightarrow> int \<Rightarrow> rat \<Rightarrow> (pystr, 'q) dict \<Rightarrow>
     (nat \<times> int \<times> rat) \<times> (pystr, 'q) dict \<times> int result" where
  "next_partition cfg new pick env partitions_after topic key attempts interval partitioners =
     (case await_metadata cfg env 0 attempts interval of
        (st, Inl e) \<Rightarrow> (st, partitioners, Inl e)
      | (st, Inr _) \<Rightarrow> (st, choose_partition new pick topic key (partitions_after (fst st)) partitioners))"

section \<open>Batching\<close>

definition msgs_bytes :: "bytes option list \<Rightarrow> int" where
  "msgs_bytes msgs = sum_list (map (\<lambda>m. case m of None \<Rightarrow> 0 | Some b \<Rightarrow> int (length b)) msgs)"

definition send_batch :: "producer \<Rightarrow> producer" where
  "send_batch s =
     (if pr_batch_reqs s = [] \<or> pr_batch_send_d s \<noteq> None then s
      else pr_emit (LookUp (pr_batch_reqs s))
             (s\<lparr>pr_batch_reqs := [], pr_waitingByteCount := 0, pr_waitingMsgCount := 0,
                pr_batch_send_d := Some (Partitioning (pr_batch_reqs s))\<rparr>))"

definition batch_full :: "producer_config \<Rightarrow> producer \<Rightarrow> bool" where
  "batch_full cfg s \<longleftrightarrow>
     pc_batch_every_n cfg \<noteq> 0 \<and> pc_batch_every_n cfg \<le> pr_waitingMsgCount s \<or>
     pc_batch_every_b cfg \<noteq> 0 \<and> pc_batch_every_b cfg \<le> pr_waitingByteCount s"

definition check_send_batch :: "producer_config \<Rightarrow> producer \<Rightarrow> producer" where
  "check_send_batch cfg s = (if batch_full cfg s then send_batch s else s)"

fun check_messages :: "pyobj list \<Rightarrow> bytes option list result" where
  "check_messages [] = Inr []"
| "check_messages (m # ms) =
     rbind (case m of PyNone \<Rightarrow> Inr None | PyBytes b \<Rightarrow> Inr (Some b) | _ \<Rightarrow> Inl TypeError) (\<lambda>m.
       rbind (check_messages ms) (\<lambda>ms. Inr (m # ms)))"

definition send_messages ::
    "producer_config \<Rightarrow> pyobj \<Rightarrow> pyobj \<Rightarrow> pyobj list \<Rightarrow> producer \<Rightarrow> (nat \<times> producer) result" where
  "send_messages cfg topic key msgs s =
     rbind (coerce_topic topic) (\<lambda>topic.
       rbind (case key of PyNone \<Rightarrow> Inr None | PyBytes b \<Rightarrow> Inr (Some b) | _ \<Rightarrow> Inl TypeError) (\<lambda>key.
         if msgs = [] then Inl ValueError
         else rbind (check_messages msgs) (\<lambda>msgs.
           let d = pr_next_d s;
               req = \<lparr>sr_topic = topic, sr_key = key, sr_messages = msgs, sr_deferred = d\<rparr>
           in Inr (d, check_send_batch cfg
                (s\<lparr>pr_next_d := Suc d, pr_batch_reqs := pr_batch_reqs s @ [req],
                   pr_waitingMsgCount := pr_waitingMsgCount s + int (length msgs),
                   pr_waitingByteCount := pr_waitingByteCount s + msgs_bytes msgs,
                   pr_outstanding := pr_outstanding s @ [d]\<rparr>)))))"

definition complete_batch_send :: "producer_config \<Rightarrow> producer \<Rightarrow> producer" where
  "complete_batch_send cfg s =
     check_send_batch cfg
       (s\<lparr>pr_batch_send_d := None, pr_req_attempts := 0, pr_retry_interval := pc_retry_interval cfg\<rparr>)"

section \<open>Sending a batch\<close>

definition dict_append :: "'k \<Rightarrow> 'v \<Rightarrow> ('k, 'v list) dict \<Rightarrow> ('k, 'v list) dict" where
  "dict_append k v d = dict_set k ((case dict_get d k of None \<Rightarrow> [] | Some vs \<Rightarrow> vs) @ [v]) d"

text \<open>The loop over the looked up partitions: the requests that go on, by topic and partition.\<close>

fun group_requests ::
    "(int result \<times> send_request) list \<Rightarrow> (topic_partition, send_request list) dict \<Rightarrow> producer \<Rightarrow>
     (topic_partition, send_request list) dict \<times> producer" where
  "group_requests [] groups s = (groups, s)"
| "group_requests ((part, req) # rest) groups s =
     (if pr_called s (sr_deferred req) then group_requests rest groups s
      else (case part of
              Inl e \<Rightarrow> group_requests rest groups (pr_fire (sr_deferred req) (Errback e) s)
            | Inr p \<Rightarrow> group_requests rest (dict_append (sr_topic req, p) req groups) s))"

fun make_payloads ::
    "producer_config \<Rightarrow> (topic_partition \<times> send_request list) list \<Rightarrow> (topic_partition, produce_request) dict result" where
  "make_payloads cfg [] = Inr []"
| "make_payloads cfg (((topic, part), reqs) # groups) =
     rbind (create_message_set (pc_codecs cfg) reqs (pc_codec cfg)) (\<lambda>msgSet.
       rbind (make_payloads cfg groups) (\<lambda>ps.
         Inr (((topic, part), \<lparr>prq_topic = topic, prq_partition = part, prq_messages = msgSet\<rparr>) # ps)))"

text \<open>\<open>client.send_produce_request\<close>, here and in \<open>_do_retry\<close>.\<close>

definition produce :: "flight \<Rightarrow> produce_request list \<Rightarrow> producer \<Rightarrow> producer" where
  "produce fl payloads s =
     pr_emit (Produce payloads)
       (s\<lparr>pr_req_attempts := pr_req_attempts s + 1, pr_batch_send_d := Some (Sending fl payloads)\<rparr>)"

text \<open>
  \<open>_send_requests\<close>. Its return value and what it raises go to \<open>_complete_batch_send\<close>, unless it
  returns the deferred of the client.
\<close>

definition send_requests :: "producer_config \<Rightarrow> int result list \<Rightarrow> send_request list \<Rightarrow> producer \<Rightarrow> producer" where
  "send_requests cfg parts_results requests s =
     (case group_requests (zip parts_results requests) [] s of (groups, s) \<Rightarrow>
        (case make_payloads cfg groups of
           Inl e \<Rightarrow> complete_batch_send cfg s
         | Inr payloads \<Rightarrow>
             if payloads = [] then complete_batch_send cfg s
             else produce \<lparr>fl_payloads = payloads, fl_deferreds = map (\<lambda>(tp, reqs). (tp, map sr_deferred reqs)) groups\<rparr>
                    (dict_values payloads) s))"

section \<open>The client's answer\<close>

definition deliver_result :: "nat list \<Rightarrow> delivery \<Rightarrow> producer \<Rightarrow> producer" where
  "deliver_result ds r s = foldl (\<lambda>s d. if pr_called s d then s else pr_fire d r s) s ds"

definition deferreds_of :: "flight \<Rightarrow> topic_partition \<Rightarrow> nat list" where
  "deferreds_of fl tp = (case dict_get (fl_deferreds fl) tp of None \<Rightarrow> [] | Some ds \<Rightarrow> ds)"

definition payload_key :: "produce_request \<Rightarrow> topic_partition" where
  "payload_key p = (prq_topic p, prq_partition p)"

text \<open>
  The loop over the responses. The client returns only responses to payloads it was given, so the
  payload of a response is always found.
\<close>

fun sort_results ::
    "flight \<Rightarrow> produce_response list \<Rightarrow> (produce_request \<times> failed_cause) list \<Rightarrow> producer \<Rightarrow> (produce_request \<times> failed_cause) list \<times> producer" where
  "sort_results fl [] failed s = (failed, s)"
| "sort_results fl (res # rest) failed s =
     (let t_and_p = (prs_topic res, prs_partition res)
      in case raise_for_errno (prs_error res) of
           Inl e \<Rightarrow>
             (case dict_get (fl_payloads fl) t_and_p of
                None \<Rightarrow> sort_results fl rest failed s
              | Some p \<Rightarrow> sort_results fl rest (failed @ [(p, AsError e)]) s)
         | Inr _ \<Rightarrow> sort_results fl rest failed (deliver_result (deferreds_of fl t_and_p) (Callback (Some res)) s))"

fun as_delivery :: "failed_cause \<Rightarrow> delivery" where
  "as_delivery (AsFailure e) = Errback e"
| "as_delivery (AsError e) = ErrorValue e"

fun fail_payloads :: "flight \<Rightarrow> (produce_request \<times> failed_cause) list \<Rightarrow> producer \<Rightarrow> producer" where
  "fail_payloads fl [] s = s"
| "fail_payloads fl ((p, e) # failed) s =
     fail_payloads fl failed (deliver_result (deferreds_of fl (payload_key p)) (as_delivery e) s)"

text \<open>The topics to reset. A \<open>Failure\<close> is not an instance of the exception that it holds.\<close>

fun stale_cause :: "failed_cause \<Rightarrow> bool" where
  "stale_cause (AsFailure e) = False"
| "stale_cause (AsError e) = stale_topic e"

definition stale_topics :: "(produce_request \<times> failed_cause) list \<Rightarrow> pystr list" where
  "stale_topics failed = remdups (map (\<lambda>(p, e). prq_topic p) (filter (\<lambda>(p, e). stale_cause e) failed))"

definition check_retry_payloads ::
    "producer_config \<Rightarrow> flight \<Rightarrow> (produce_request \<times> failed_cause) list \<Rightarrow> producer \<Rightarrow> producer" where
  "check_retry_payloads cfg fl failed s =
     (if pr_req_attempts s \<ge> pc_max_attempts cfg then complete_batch_send cfg (fail_payloads fl failed s)
      else
        let s = pr_emit (RetryAfter (pr_retry_interval s))
              (s\<lparr>pr_retry_interval := pr_retry_interval s * RETRY_INTERVAL_FACTOR,
                 pr_batch_send_d := Some (RetryDelay fl (map fst failed))\<rparr>);
            topics = stale_topics failed
        in if topics = [] then s else pr_emit (ResetTopics topics) s)"

definition finish_results ::
    "producer_config \<Rightarrow> flight \<Rightarrow> produce_response list \<Rightarrow> (produce_request \<times> failed_cause) list \<Rightarrow> producer \<Rightarrow> producer" where
  "finish_results cfg fl results failed s =
     (case sort_results fl results failed s of (failed, s) \<Rightarrow>
        if failed = [] then complete_batch_send cfg s else check_retry_payloads cfg fl failed s)"

definition handle_send_response :: "producer_config \<Rightarrow> flight \<Rightarrow> produce_result \<Rightarrow> producer \<Rightarrow> producer" where
  "handle_send_response cfg fl result s =
     (case result of
        Inr (Responses rs) \<Rightarrow>
          if rs = [] then
            complete_batch_send cfg
              (deliver_result (concat (dict_values (fl_deferreds fl)))
                 (if pc_req_acks cfg = PRODUCER_ACK_NOT_REQUIRED then Callback None else Errback NoResponseError) s)
          else finish_results cfg fl rs [] s
      | Inr (FailedPayloads rs failed) \<Rightarrow> finish_results cfg fl rs (map (\<lambda>(p, e). (p, AsFailure e)) failed) s
      | Inl e \<Rightarrow>
          if is_KafkaError e then finish_results cfg fl [] (map (\<lambda>p. (p, AsFailure e)) (dict_values (fl_payloads fl))) s
          else complete_batch_send cfg (deliver_result (concat (dict_values (fl_deferreds fl))) (Errback e) s))"

section \<open>Cancelling and stopping\<close>

definition cancel_send_messages :: "nat \<Rightarrow> producer \<Rightarrow> producer" where
  "cancel_send_messages d s =
     (case find (\<lambda>req. sr_deferred req = d) (pr_batch_reqs s) of
        Some req \<Rightarrow>
          pr_fire d (Errback (CancelledError (Some False)))
            (s\<lparr>pr_waitingMsgCount := pr_waitingMsgCount s - int (length (sr_messages req)),
               pr_waitingByteCount := pr_waitingByteCount s - msgs_bytes (sr_messages req),
               pr_batch_reqs := remove1 req (pr_batch_reqs s)\<rparr>)
      | None \<Rightarrow> pr_fire d (Errback (CancelledError (Some (pr_batch_send_d s \<noteq> None)))) s)"

definition cancel_outstanding :: "producer \<Rightarrow> producer" where
  "cancel_outstanding s =
     foldl (\<lambda>s d. if pr_called s d then s else cancel_send_messages d s) s (pr_outstanding s)"

text \<open>
  Cancelling \<open>_batch_send_d\<close> cancels what its chain waits for. The lookups and the client's request then
  end with a result of their own, which is an argument; the delay before a retry ends in \<open>_cancel_retry\<close>.
\<close>

definition cancel_batch :: "producer_config \<Rightarrow> int result list \<Rightarrow> produce_result \<Rightarrow> producer \<Rightarrow> producer" where
  "cancel_batch cfg parts result s =
     (case pr_batch_send_d s of
        None \<Rightarrow> s
      | Some (Partitioning reqs) \<Rightarrow> send_requests cfg parts reqs s
      | Some (Sending fl payloads) \<Rightarrow> handle_send_response cfg fl result s
      | Some (RetryDelay fl payloads) \<Rightarrow>
          complete_batch_send cfg
            (deliver_result (concat (dict_values (fl_deferreds fl))) (Errback TwistedCancelledError) s))"

definition producer_stop :: "producer_config \<Rightarrow> int result list \<Rightarrow> produce_result \<Rightarrow> producer \<Rightarrow> producer" where
  "producer_stop cfg parts result s =
     (let s = cancel_batch cfg parts result (s\<lparr>pr_stopping := True\<rparr>)
      in cancel_outstanding (s\<lparr>pr_sendLooper := False\<rparr>))"

section \<open>Events\<close>

text \<open>
  The client answers for the payloads it was given, and for no others (\<open>answered_as_given\<close> below). An answer
  accounts for the payloads when, besides, every payload failed or has a response; it does when a broker answers for
  every partition of a request. An empty list is the answer to a request without acknowledgement.
\<close>

definition response_key :: "produce_response \<Rightarrow> topic_partition" where
  "response_key r = (prs_topic r, prs_partition r)"

definition given :: "produce_request list \<Rightarrow> produce_result \<Rightarrow> bool" where
  "given payloads result =
     (case result of
        Inl e \<Rightarrow> True
      | Inr (Responses rs) \<Rightarrow> response_key ` set rs \<subseteq> payload_key ` set payloads
      | Inr (FailedPayloads rs failed) \<Rightarrow>
          fst ` set failed \<subseteq> set payloads \<and> response_key ` set rs \<subseteq> payload_key ` set payloads)"

definition accounts_for :: "produce_request list \<Rightarrow> produce_result \<Rightarrow> bool" where
  "accounts_for payloads result =
     (case result of
        Inl e \<Rightarrow> True
      | Inr (Responses rs) \<Rightarrow> rs = [] \<or> response_key ` set rs = payload_key ` set payloads
      | Inr (FailedPayloads rs failed) \<Rightarrow>
          fst ` set failed \<subseteq> set payloads \<and> response_key ` set rs \<subseteq> payload_key ` set payloads \<and>
          (\<forall>p\<in>set payloads. p \<in> fst ` set failed \<or> payload_key p \<in> response_key ` set rs))"

text \<open>
  The message sets of the batch can be built: no codec raises. When one does, \<open>_complete_batch_send\<close> drops
  the exception and the deferreds of the batch are not fired by it.
\<close>

definition packable :: "producer_config \<Rightarrow> int result list \<Rightarrow> send_request list \<Rightarrow> producer \<Rightarrow> bool" where
  "packable cfg parts reqs s \<longleftrightarrow>
     (case make_payloads cfg (fst (group_requests (zip parts reqs) [] s)) of Inl e \<Rightarrow> False | Inr ps \<Rightarrow> True)"

text \<open>
  The rounds of the lookups of a batch: one has an attempt left and loads the metadata of its topic; or its load was in vain, it
  counts an attempt, and goes on to the next round after a delay.
\<close>

definition lookup_load :: "pystr \<Rightarrow> producer \<Rightarrow> producer" where
  "lookup_load topic s = pr_emit (LoadTopic topic) (s\<lparr>pr_loads := pr_loads s + 1\<rparr>)"

definition lookup_round :: "producer \<Rightarrow> producer" where
  "lookup_round s =
     pr_emit (LookupAfter (pr_retry_interval s))
       (s\<lparr>pr_loads := pr_loads s - 1, pr_req_attempts := pr_req_attempts s + 1,
          pr_retry_interval := pr_retry_interval s * RETRY_INTERVAL_FACTOR\<rparr>)"

datatype producer_event =
    SendMessages pyobj pyobj "pyobj list"
  | CancelSend nat
  | BatchTimer
  | LookupLoad pystr
  | LookupLoaded
  | LookupRound
  | PartitionsFound "int result list"
  | Answer produce_result
  | RetryTime
  | StopProducer "int result list" produce_result

text \<open>
  The events. A lookup loads metadata only while attempts are left, and each request has one lookup; a load ends in a next
  round, or with the lookup (it was successful or raised); cancelling ends the lookups. A batch whose message sets cannot be
  built, and an answer that leaves a payload out, are events like the others.
\<close>

inductive pr_step :: "producer_config \<Rightarrow> producer \<Rightarrow> producer_event \<Rightarrow> producer \<Rightarrow> bool" for cfg where
  step_send: "send_messages cfg t k ms s = Inr (d, s') \<Longrightarrow> pr_step cfg s (SendMessages t k ms) s'"
| step_cancel: "d \<in> set (pr_outstanding s) \<Longrightarrow> pr_step cfg s (CancelSend d) (cancel_send_messages d s)"
| step_timer: "pr_sendLooper s \<Longrightarrow> pr_step cfg s BatchTimer (send_batch s)"
| step_load: "pr_batch_send_d s = Some (Partitioning reqs) \<Longrightarrow> topic \<in> sr_topic ` set reqs \<Longrightarrow>
    pr_req_attempts s < pc_max_attempts cfg \<Longrightarrow> pr_loads s < length reqs \<Longrightarrow> pr_step cfg s (LookupLoad topic) (lookup_load topic s)"
| step_loaded: "pr_batch_send_d s = Some (Partitioning reqs) \<Longrightarrow> 0 < pr_loads s \<Longrightarrow>
    pr_step cfg s LookupLoaded (s\<lparr>pr_loads := pr_loads s - 1\<rparr>)"
| step_round: "pr_batch_send_d s = Some (Partitioning reqs) \<Longrightarrow> 0 < pr_loads s \<Longrightarrow> pr_step cfg s LookupRound (lookup_round s)"
| step_parts: "pr_batch_send_d s = Some (Partitioning reqs) \<Longrightarrow> pr_loads s = 0 \<Longrightarrow> length parts = length reqs \<Longrightarrow>
    pr_step cfg s (PartitionsFound parts) (send_requests cfg parts reqs s)"
| step_answer: "pr_batch_send_d s = Some (Sending fl payloads) \<Longrightarrow> given payloads result \<Longrightarrow>
    pr_step cfg s (Answer result) (handle_send_response cfg fl result s)"
| step_retry: "pr_batch_send_d s = Some (RetryDelay fl payloads) \<Longrightarrow> pr_step cfg s RetryTime (produce fl payloads s)"
| step_stop: "(\<And>reqs. pr_batch_send_d s = Some (Partitioning reqs) \<Longrightarrow> length parts = length reqs) \<Longrightarrow>
    (\<And>fl payloads. pr_batch_send_d s = Some (Sending fl payloads) \<Longrightarrow> given payloads result) \<Longrightarrow>
    pr_step cfg s (StopProducer parts result) (producer_stop cfg parts result (s\<lparr>pr_loads := 0\<rparr>))"

text \<open>
  An event that forgets no request: the partitions are found and the message sets of the batch can be built, or the client
  answers and accounts for the payloads.
\<close>

definition orderly :: "producer_config \<Rightarrow> producer \<Rightarrow> producer_event \<Rightarrow> bool" where
  "orderly cfg s e \<longleftrightarrow>
     (case (pr_batch_send_d s, e) of
        (Some (Partitioning reqs), PartitionsFound parts) \<Rightarrow> packable cfg parts reqs s
      | (Some (Sending fl payloads), Answer result) \<Rightarrow> accounts_for payloads result
      | _ \<Rightarrow> True)"

inductive_cases pr_stepE: "pr_step cfg s e s'"

lemma handled_responses:
  "handle_responses topic_of error_of Inr rs fail g s = (s', Inr out) \<Longrightarrow> out = rs"
  by (induction rs arbitrary: s out) (auto simp: Let_def split: sum.splits if_splits prod.splits option.splits)

lemma answered_as_given:
  assumes "send_produce_request env payloads acks timeout fail Inr k = (k', result)"
  shows "given payloads result"
proof (cases result)
  case (Inr out)
  with assms obtain res k1 where res: "send_broker_aware_request env (\<lambda>p. (prq_topic p, prq_partition p)) (\<lambda>r. (prs_topic r, prs_partition r))
      payloads (\<lambda>cid c ps. encode_produce_request (PyBytes cid) c ps acks timeout) (if acks = 0 then None else Some decode_produce_response) None k =
      (k1, Inr res)"
    and fin: "(case res of FailedPayloads rs fps \<Rightarrow> (k1, Inr (FailedPayloads rs fps))
      | Responses rs \<Rightarrow> cbind (handle_responses prs_topic prs_error Inr rs fail None k1) (\<lambda>s out. (s, Inr (Responses out)))) = (k', Inr out)"
    by (auto simp: send_produce_request_def finish_request_def cbind_eq_Inr)
  from fin have "out = res" by (auto simp: cbind_eq_Inr split: outcome.splits dest: handled_responses)
  with aware_outcome_given [OF res] show ?thesis
    by (simp add: given_def Inr payload_key_def response_key_def split: outcome.splits)
qed (simp add: given_def)

section \<open>Deferreds that fire\<close>

fun is_pfire :: "nat \<Rightarrow> producer_effect \<Rightarrow> bool" where
  "is_pfire d (PFired d' r) = (d' = d)"
| "is_pfire d _ = False"

definition pfires :: "nat \<Rightarrow> producer_effect list \<Rightarrow> nat" where
  "pfires d es = length (filter (is_pfire d) es)"

lemma pfires_simps [simp]:
  "pfires d [] = 0" "pfires d (e # es) = (if is_pfire d e then 1 else 0) + pfires d es"
  "pfires d (es @ es') = pfires d es + pfires d es'"
  by (auto simp: pfires_def)

text \<open>From \<open>s\<close> to \<open>t\<close> the deferreds in \<open>D\<close> that were open have fired, and nothing else happened.\<close>

definition settles :: "nat set \<Rightarrow> producer \<Rightarrow> producer \<Rightarrow> bool" where
  "settles D s t \<longleftrightarrow>
     (\<exists>es. t = s\<lparr>pr_outstanding := filter (\<lambda>d. d \<notin> D) (pr_outstanding s), pr_log := pr_log s @ es\<rparr> \<and>
        (\<forall>e\<in>set es. \<exists>d r. e = PFired d r) \<and>
        (\<forall>d. pfires d es = (if d \<in> set (pr_outstanding s) \<inter> D then 1 else 0)))"

lemma settles_refl: "settles {} s s"
  unfolding settles_def by (rule exI [of _ "[]"]) simp

lemma settles_trans:
  assumes "settles D s t" "settles E t u"
  shows "settles (D \<union> E) s u"
proof -
  from assms(1) obtain es where es: "t = s\<lparr>pr_outstanding := filter (\<lambda>d. d \<notin> D) (pr_outstanding s), pr_log := pr_log s @ es\<rparr>"
    "\<forall>e\<in>set es. \<exists>d r. e = PFired d r" "\<forall>d. pfires d es = (if d \<in> set (pr_outstanding s) \<inter> D then 1 else 0)"
    unfolding settles_def by blast
  from assms(2) obtain fs where fs: "u = t\<lparr>pr_outstanding := filter (\<lambda>d. d \<notin> E) (pr_outstanding t), pr_log := pr_log t @ fs\<rparr>"
    "\<forall>e\<in>set fs. \<exists>d r. e = PFired d r" "\<forall>d. pfires d fs = (if d \<in> set (pr_outstanding t) \<inter> E then 1 else 0)"
    unfolding settles_def by blast
  show ?thesis
    unfolding settles_def
    using es fs by (intro exI [of _ "es @ fs"]) (auto simp: conj_commute intro: filter_cong)
qed

lemma settles_fire: "distinct (pr_outstanding s) \<Longrightarrow> d \<in> set (pr_outstanding s) \<Longrightarrow> settles {d} s (pr_fire d r s)"
  unfolding settles_def by (rule exI [of _ "[PFired d r]"]) (auto simp: pr_fire_def pr_emit_def distinct_remove1_removeAll removeAll_filter_not_eq eq_commute)

lemma settles_outstanding:
  "settles D s t \<Longrightarrow> set (pr_outstanding t) = set (pr_outstanding s) - D"
  "settles D s t \<Longrightarrow> distinct (pr_outstanding s) \<Longrightarrow> distinct (pr_outstanding t)"
  by (auto simp: settles_def)

lemma settles_mono:
  assumes "settles D s t" "\<And>d. d \<in> set (pr_outstanding s) \<Longrightarrow> d \<in> D \<longleftrightarrow> d \<in> E"
  shows "settles E s t"
proof -
  have "filter (\<lambda>d. d \<notin> D) (pr_outstanding s) = filter (\<lambda>d. d \<notin> E) (pr_outstanding s)"
    "d \<in> set (pr_outstanding s) \<inter> D \<longleftrightarrow> d \<in> set (pr_outstanding s) \<inter> E" for d
    using assms(2) by (auto intro: filter_cong)
  then show ?thesis using assms(1) by (simp only: settles_def)
qed

lemma deliver_settles: "distinct (pr_outstanding s) \<Longrightarrow> settles (set ds) s (deliver_result ds r s)"
proof (induction ds arbitrary: s)
  case Nil
  then show ?case by (simp add: deliver_result_def settles_refl)
next
  case (Cons d ds)
  let ?t = "if pr_called s d then s else pr_fire d r s"
  have st: "settles {d} s ?t"
  proof (cases "pr_called s d")
    case True
    then have "settles {d} s s" by (intro settles_mono [OF settles_refl]) (auto simp: pr_called_def)
    with True show ?thesis by simp
  next
    case False
    then show ?thesis using settles_fire [OF Cons.prems] by (simp add: pr_called_def)
  qed
  have "settles (set ds) ?t (deliver_result ds r ?t)"
    by (rule Cons.IH) (rule settles_outstanding(2) [OF st Cons.prems])
  from settles_trans [OF st this] show ?case by (simp add: deliver_result_def)
qed

lemma fail_payloads_settles:
  "distinct (pr_outstanding s) \<Longrightarrow>
   settles (\<Union>(p, e)\<in>set failed. set (deferreds_of fl (payload_key p))) s (fail_payloads fl failed s)"
proof (induction failed arbitrary: s)
  case (Cons pe failed)
  obtain p e where pe: "pe = (p, e)" by force
  note st = deliver_settles [OF Cons.prems, of "deferreds_of fl (payload_key p)" "as_delivery e"]
  from settles_trans [OF st Cons.IH [OF settles_outstanding(2) [OF st Cons.prems]]] show ?case by (simp add: pe)
qed (simp add: settles_refl)

lemma sort_results_settles:
  assumes "distinct (pr_outstanding s)" "sort_results fl rs failed s = (failed', t)"
  shows "settles (\<Union>r\<in>{r \<in> set rs. prs_error r = 0}. set (deferreds_of fl (response_key r))) s t \<and>
    (\<forall>p. p \<in> fst ` set failed' \<longleftrightarrow> p \<in> fst ` set failed \<or>
       (\<exists>r\<in>set rs. prs_error r \<noteq> 0 \<and> dict_get (fl_payloads fl) (response_key r) = Some p))"
  using assms
proof (induction rs arbitrary: failed s)
  case Nil
  then show ?case by (simp add: settles_refl)
next
  case (Cons r rs)
  show ?case
  proof (cases "prs_error r = 0")
    case True
    let ?t = "deliver_result (deferreds_of fl (response_key r)) (Callback (Some r)) s"
    note st = deliver_settles [OF Cons.prems(1), of "deferreds_of fl (response_key r)" "Callback (Some r)"]
    have "sort_results fl rs failed ?t = (failed', t)"
      using Cons.prems(2) True by (simp add: raise_for_errno_def response_key_def Let_def)
    note IH = Cons.IH [OF settles_outstanding(2) [OF st Cons.prems(1)] this]
    have "{x \<in> set (r # rs). prs_error x = 0} = insert r {x \<in> set rs. prs_error x = 0}" using True by auto
    then show ?thesis using settles_trans [OF st IH [THEN conjunct1]] IH True by simp
  next
    case False
    then obtain e where e: "raise_for_errno (prs_error r) = Inl e"
      by (cases "dict_get errnos (prs_error r)") (auto simp: raise_for_errno_def)
    define f where "f = (case dict_get (fl_payloads fl) (response_key r) of None \<Rightarrow> failed | Some p \<Rightarrow> failed @ [(p, AsError e)])"
    have "sort_results fl rs f s = (failed', t)"
      using Cons.prems(2) e by (simp add: f_def response_key_def Let_def split: option.splits)
    note IH = Cons.IH [OF Cons.prems(1) this]
    have "{x \<in> set (r # rs). prs_error x = 0} = {x \<in> set rs. prs_error x = 0}" using False by auto
    with IH have "settles (\<Union>x\<in>{x \<in> set (r # rs). prs_error x = 0}. set (deferreds_of fl (response_key x))) s t"
      by (simp only:)
    moreover have "p \<in> fst ` set f \<longleftrightarrow> p \<in> fst ` set failed \<or> dict_get (fl_payloads fl) (response_key r) = Some p" for p
      by (auto simp: f_def split: option.splits)
    ultimately show ?thesis using IH False by (simp only: list.set bex_simps) blast
  qed
qed

section \<open>Grouping requests\<close>

lemma dict_append_get:
  "dict_get (dict_append k v d) k' = (if k' = k then Some ((case dict_get d k of None \<Rightarrow> [] | Some vs \<Rightarrow> vs) @ [v]) else dict_get d k')"
  by (simp add: dict_append_def dict_get_set)

lemma dict_append_ok: "dict_ok d \<Longrightarrow> dict_ok (dict_append k v d)"
  by (simp add: dict_ok_def dict_append_def distinct_update)

lemma set_dict_set: "x \<in> set (dict_set k v d) \<Longrightarrow> x = (k, v) \<or> x \<in> set d"
  by (induction d) (auto split: if_splits)

lemma set_dict_append: "x \<in> set (dict_append k v d) \<Longrightarrow> (\<exists>vs. x = (k, vs @ [v])) \<or> x \<in> set d"
  using set_dict_set unfolding dict_append_def by fast

definition in_group :: "(topic_partition, send_request list) dict \<Rightarrow> topic_partition \<Rightarrow> send_request list" where
  "in_group groups tp = (case dict_get groups tp of None \<Rightarrow> [] | Some reqs \<Rightarrow> reqs)"

text \<open>The requests that are sent to a partition: not cancelled meanwhile, with this partition found.\<close>

definition bound_for :: "producer \<Rightarrow> (int result \<times> send_request) list \<Rightarrow> topic_partition \<Rightarrow> send_request list" where
  "bound_for s prs tp =
     map snd (filter (\<lambda>(part, req). \<not> pr_called s (sr_deferred req) \<and> part = Inr (snd tp) \<and> sr_topic req = fst tp) prs)"

lemma bound_for_other:
  assumes "d \<notin> (sr_deferred \<circ> snd) ` set prs" "set (pr_outstanding t) - {d} = set (pr_outstanding s) - {d}"
  shows "bound_for t prs tp = bound_for s prs tp"
proof -
  have "pr_called t (sr_deferred q) \<longleftrightarrow> pr_called s (sr_deferred q)" if "(part, q) \<in> set prs" for part q
  proof -
    have "sr_deferred q \<noteq> d" using that assms(1) by force
    then show ?thesis using assms(2) by (auto simp: pr_called_def)
  qed
  then show ?thesis unfolding bound_for_def by (intro arg_cong [where f = "map snd"] filter_cong) auto
qed

lemma group_requests_spec:
  assumes "group_requests prs groups s = (groups', t)" "distinct (pr_outstanding s)" "dict_ok groups"
    and "distinct (map (sr_deferred \<circ> snd) prs)"
  shows "settles {sr_deferred req |req e. (Inl e, req) \<in> set prs} s t \<and> dict_ok groups' \<and>
    (\<forall>tp. in_group groups' tp = in_group groups tp @ bound_for s prs tp) \<and>
    ((\<forall>(tp, reqs)\<in>set groups. reqs \<noteq> []) \<longrightarrow> (\<forall>(tp, reqs)\<in>set groups'. reqs \<noteq> []))"
  using assms
proof (induction prs arbitrary: groups s)
  case Nil
  then show ?case by (simp add: settles_refl bound_for_def)
next
  case (Cons x prs)
  obtain part req where x: "x = (part, req)" by force
  let ?D = "{sr_deferred req |req e. (Inl e, req) \<in> set prs}"
  have dist: "distinct (map (sr_deferred \<circ> snd) prs)" and nd: "sr_deferred req \<notin> (sr_deferred \<circ> snd) ` set prs"
    using Cons.prems(4) by (auto simp: x o_def)
  note other = bound_for_other [OF nd]
  show ?case
  proof (cases "pr_called s (sr_deferred req)")
    case True
    then have "group_requests prs groups s = (groups', t)" using Cons.prems(1) by (simp add: x)
    note IH = Cons.IH [OF this Cons.prems(2,3) dist]
    have "settles {sr_deferred req |req e. (Inl e, req) \<in> set (x # prs)} s t"
      by (rule settles_mono [OF IH [THEN conjunct1]]) (use True in \<open>auto simp: x pr_called_def\<close>)
    moreover have "bound_for s (x # prs) tp = bound_for s prs tp" for tp using True by (simp add: x bound_for_def)
    ultimately show ?thesis using IH by simp
  next
    case called: False
    show ?thesis
    proof (cases part)
      case (Inl e)
      let ?s = "pr_fire (sr_deferred req) (Errback e) s"
      have st: "settles {sr_deferred req} s ?s" using called settles_fire [OF Cons.prems(2)] by (simp add: pr_called_def)
      have "group_requests prs groups ?s = (groups', t)" using Cons.prems(1) Inl called by (simp add: x)
      note IH = Cons.IH [OF this settles_outstanding(2) [OF st Cons.prems(2)] Cons.prems(3) dist]
      have "{sr_deferred req |req e. (Inl e, req) \<in> set (x # prs)} = {sr_deferred req} \<union> ?D" by (auto simp: x Inl)
      then have "settles {sr_deferred req |req e. (Inl e, req) \<in> set (x # prs)} s t"
        using settles_trans [OF st IH [THEN conjunct1]] by simp
      moreover have "bound_for s (x # prs) tp = bound_for ?s prs tp" for tp
      proof -
        have "set (pr_outstanding ?s) - {sr_deferred req} = set (pr_outstanding s) - {sr_deferred req}"
          using settles_outstanding(1) [OF st] by simp
        then show ?thesis using other [of ?s s tp] by (simp add: x Inl bound_for_def)
      qed
      ultimately show ?thesis using IH by simp
    next
      case (Inr p)
      let ?g = "dict_append (sr_topic req, p) req groups"
      have "group_requests prs ?g s = (groups', t)" using Cons.prems(1) Inr called by (simp add: x)
      note IH = Cons.IH [OF this Cons.prems(2) dict_append_ok [OF Cons.prems(3)] dist]
      have D: "{sr_deferred req |req e. (Inl e, req) \<in> set (x # prs)} = ?D" by (auto simp: x Inr)
      have g: "in_group ?g tp @ bound_for s prs tp = in_group groups tp @ bound_for s (x # prs) tp" for tp
        using called by (cases tp) (auto simp: in_group_def dict_append_get bound_for_def x Inr)
      have "\<forall>(tp, reqs)\<in>set groups. reqs \<noteq> [] \<Longrightarrow> \<forall>(tp, reqs)\<in>set ?g. reqs \<noteq> []"
        using set_dict_append [of _ "(sr_topic req, p)" req groups] by blast
      then show ?thesis using IH unfolding D g by blast
    qed
  qed
qed

section \<open>The invariant\<close>

abbreviation waiting_ds :: "producer \<Rightarrow> nat set" where
  "waiting_ds s \<equiv> sr_deferred ` set (pr_batch_reqs s)"

text \<open>The deferreds of the batch that is being sent, and those of them that are not settled yet.\<close>

fun riding :: "batch_phase option \<Rightarrow> nat set" where
  "riding None = {}"
| "riding (Some (Partitioning reqs)) = sr_deferred ` set reqs"
| "riding (Some (Sending fl ps)) = set (concat (dict_values (fl_deferreds fl)))"
| "riding (Some (RetryDelay fl ps)) = set (concat (dict_values (fl_deferreds fl)))"

definition claims :: "flight \<Rightarrow> produce_request set \<Rightarrow> nat set" where
  "claims fl ps = (\<Union>p\<in>ps. set (deferreds_of fl (payload_key p)))"

fun flying :: "batch_phase option \<Rightarrow> nat set" where
  "flying None = {}"
| "flying (Some (Partitioning reqs)) = sr_deferred ` set reqs"
| "flying (Some (Sending fl ps)) = claims fl (set ps)"
| "flying (Some (RetryDelay fl ps)) = claims fl (set ps)"

definition flight_ok :: "flight \<Rightarrow> produce_request list \<Rightarrow> bool" where
  "flight_ok fl ps \<longleftrightarrow> dict_ok (fl_payloads fl) \<and> (\<forall>(tp, p)\<in>set (fl_payloads fl). payload_key p = tp) \<and>
     set ps \<subseteq> set (dict_values (fl_payloads fl))"

fun phase_ok :: "batch_phase option \<Rightarrow> bool" where
  "phase_ok None = True"
| "phase_ok (Some (Partitioning reqs)) = distinct (map sr_deferred reqs)"
| "phase_ok (Some (Sending fl ps)) = flight_ok fl ps"
| "phase_ok (Some (RetryDelay fl ps)) = flight_ok fl ps"

definition deferreds_ok :: "producer \<Rightarrow> bool" where
  "deferreds_ok s \<longleftrightarrow> distinct (pr_outstanding s) \<and> set (pr_outstanding s) \<subseteq> {..<pr_next_d s} \<and>
     (\<forall>d. pfires d (pr_log s) = (if d < pr_next_d s \<and> d \<notin> set (pr_outstanding s) then 1 else 0))"

definition counts_ok :: "producer \<Rightarrow> bool" where
  "counts_ok s \<longleftrightarrow>
     pr_waitingMsgCount s = sum_list (map (\<lambda>r. int (length (sr_messages r))) (pr_batch_reqs s)) \<and>
     pr_waitingByteCount s = sum_list (map (\<lambda>r. msgs_bytes (sr_messages r)) (pr_batch_reqs s))"

definition pr_base :: "producer \<Rightarrow> bool" where
  "pr_base s \<longleftrightarrow> deferreds_ok s \<and> counts_ok s \<and> distinct (map sr_deferred (pr_batch_reqs s)) \<and>
     waiting_ds s \<subseteq> set (pr_outstanding s)"

text \<open>
  \<open>Z\<close> are deferreds that may have been forgotten: none in orderly runs, any in others.
\<close>

definition batch_ok :: "nat set \<Rightarrow> producer \<Rightarrow> bool" where
  "batch_ok Z s \<longleftrightarrow> phase_ok (pr_batch_send_d s) \<and> waiting_ds s \<inter> riding (pr_batch_send_d s) = {} \<and>
     riding (pr_batch_send_d s) \<subseteq> {..<pr_next_d s} \<and>
     set (pr_outstanding s) \<subseteq> waiting_ds s \<union> flying (pr_batch_send_d s) \<union> Z"

definition idle_ok :: "producer_config \<Rightarrow> producer \<Rightarrow> bool" where
  "idle_ok cfg s \<longleftrightarrow> (pr_batch_send_d s = None \<longrightarrow> pr_batch_reqs s = [] \<or> \<not> batch_full cfg s)"

definition pr_inv :: "nat set \<Rightarrow> producer_config \<Rightarrow> producer \<Rightarrow> bool" where
  "pr_inv Z cfg s \<longleftrightarrow> pr_base s \<and> batch_ok Z s \<and> idle_ok cfg s"

lemmas pr_inv_defs = pr_inv_def pr_base_def batch_ok_def idle_ok_def deferreds_ok_def counts_ok_def

lemma deferreds_of_riding: "set (deferreds_of fl tp) \<subseteq> set (concat (dict_values (fl_deferreds fl)))"
proof (cases "dict_get (fl_deferreds fl) tp")
  case (Some ds)
  then have "(tp, ds) \<in> set (fl_deferreds fl)" by (rule map_of_SomeD)
  with Some show ?thesis by (force simp: deferreds_of_def)
qed (simp add: deferreds_of_def)

lemma claims_riding: "claims fl ps \<subseteq> set (concat (dict_values (fl_deferreds fl)))"
  unfolding claims_def using deferreds_of_riding by blast

lemma flying_riding: "flying ph \<subseteq> riding ph"
  using claims_riding by (cases ph rule: flying.cases) auto

lemma base_distinct: "pr_base s \<Longrightarrow> distinct (pr_outstanding s)"
  by (simp add: pr_base_def deferreds_ok_def)

lemma base_settles:
  assumes "pr_base s" "settles D s t" "D \<inter> waiting_ds s = {}"
  shows "pr_base t" "pr_batch_reqs t = pr_batch_reqs s" "pr_next_d t = pr_next_d s"
    "pr_batch_send_d t = pr_batch_send_d s" "pr_req_attempts t = pr_req_attempts s"
proof -
  from assms(2) obtain es where t: "t = s\<lparr>pr_outstanding := filter (\<lambda>d. d \<notin> D) (pr_outstanding s), pr_log := pr_log s @ es\<rparr>"
    and f: "\<And>d. pfires d es = (if d \<in> set (pr_outstanding s) \<inter> D then 1 else 0)" unfolding settles_def by blast
  show "pr_batch_reqs t = pr_batch_reqs s" "pr_next_d t = pr_next_d s"
    "pr_batch_send_d t = pr_batch_send_d s" "pr_req_attempts t = pr_req_attempts s" by (simp_all add: t)
  show "pr_base t"
    using assms(1,3) f unfolding pr_base_def deferreds_ok_def counts_ok_def t by auto
qed

lemma send_batch_inv:
  assumes "pr_base s" "pr_batch_send_d s = None" "set (pr_outstanding s) \<subseteq> waiting_ds s \<union> Z" "pr_batch_reqs s \<noteq> []"
  shows "pr_inv Z cfg (send_batch s)"
  using assms by (auto simp: send_batch_def pr_emit_def pr_inv_defs)

lemma check_send_inv:
  assumes "pr_base s" "pr_batch_send_d s = None" "set (pr_outstanding s) \<subseteq> waiting_ds s \<union> Z"
  shows "pr_inv Z cfg (check_send_batch cfg s)"
proof (cases "batch_full cfg s \<and> pr_batch_reqs s \<noteq> []")
  case True
  then show ?thesis using send_batch_inv [OF assms] by (simp add: check_send_batch_def)
next
  case False
  then have "check_send_batch cfg s = s" by (auto simp: check_send_batch_def send_batch_def)
  with False assms show ?thesis by (auto simp: pr_inv_def batch_ok_def idle_ok_def)
qed

lemma complete_inv:
  assumes "pr_base s" "set (pr_outstanding s) \<subseteq> waiting_ds s \<union> Z"
  shows "pr_inv Z cfg (complete_batch_send cfg s)"
  unfolding complete_batch_send_def
  by (rule check_send_inv) (use assms in \<open>simp_all add: pr_base_def deferreds_ok_def counts_ok_def\<close>)

lemma settled_complete_inv:
  assumes "pr_base s" "settles D s t" "D \<inter> waiting_ds s = {}" "set (pr_outstanding s) \<subseteq> waiting_ds s \<union> D \<union> Z"
  shows "pr_inv Z cfg (complete_batch_send cfg t)"
  using base_settles [OF assms(1-3)] settles_outstanding(1) [OF assms(2)] assms(4)
  by (intro complete_inv) auto

lemma produce_inv:
  assumes "pr_base s" "flight_ok fl ps" "waiting_ds s \<inter> set (concat (dict_values (fl_deferreds fl))) = {}"
    and "set (concat (dict_values (fl_deferreds fl))) \<subseteq> {..<pr_next_d s}"
    and "set (pr_outstanding s) \<subseteq> waiting_ds s \<union> claims fl (set ps) \<union> Z"
  shows "pr_inv Z cfg (produce fl ps s)"
  using assms by (simp add: produce_def pr_emit_def pr_inv_defs)

lemma retry_inv:
  assumes "pr_base s" "flight_ok fl (map fst failed)"
    and "waiting_ds s \<inter> set (concat (dict_values (fl_deferreds fl))) = {}"
    and "set (concat (dict_values (fl_deferreds fl))) \<subseteq> {..<pr_next_d s}"
    and "set (pr_outstanding s) \<subseteq> waiting_ds s \<union> claims fl (fst ` set failed) \<union> Z"
  shows "pr_inv Z cfg (check_retry_payloads cfg fl failed s)"
proof (cases "pr_req_attempts s \<ge> pc_max_attempts cfg")
  case True
  have c: "(\<Union>(p, e)\<in>set failed. set (deferreds_of fl (payload_key p))) = claims fl (fst ` set failed)"
    by (force simp: claims_def)
  have "pr_inv Z cfg (complete_batch_send cfg (fail_payloads fl failed s))"
    by (rule settled_complete_inv [OF assms(1) fail_payloads_settles [OF base_distinct [OF assms(1)], of fl failed, unfolded c]])
      (use assms(3,5) claims_riding [of fl "fst ` set failed"] in blast)+
  with True show ?thesis by (simp add: check_retry_payloads_def)
next
  case False
  then show ?thesis using assms
    by (auto simp: check_retry_payloads_def Let_def pr_emit_def pr_inv_defs)
qed

text \<open>What is left after the results: each payload has been settled or is among the failed ones.\<close>

lemma sort_results_claims:
  assumes "distinct (pr_outstanding s)" "sort_results fl rs failed s = (failed', t)" "flight_ok fl ps"
    and "fst ` set failed \<subseteq> set (dict_values (fl_payloads fl))"
  shows "set (map fst failed') \<subseteq> set (dict_values (fl_payloads fl))"
    and "\<forall>p\<in>set ps. p \<in> fst ` set failed \<or> payload_key p \<in> response_key ` set rs \<Longrightarrow>
      claims fl (set ps) \<subseteq> (\<Union>r\<in>{r \<in> set rs. prs_error r = 0}. set (deferreds_of fl (response_key r))) \<union> claims fl (fst ` set failed')"
      (is "_ \<Longrightarrow> _ \<subseteq> ?D \<union> _")
proof -
  note ss = sort_results_settles [OF assms(1,2)]
  have fl: "dict_ok (fl_payloads fl)" "\<And>tp p. (tp, p) \<in> set (fl_payloads fl) \<Longrightarrow> payload_key p = tp"
    using assms(3) by (auto simp: flight_ok_def)
  show "set (map fst failed') \<subseteq> set (dict_values (fl_payloads fl))"
  proof
    fix p assume "p \<in> set (map fst failed')"
    then have "p \<in> fst ` set failed \<or> (\<exists>r. dict_get (fl_payloads fl) (response_key r) = Some p)" using ss by auto
    then show "p \<in> set (dict_values (fl_payloads fl))"
    proof
      assume "\<exists>r. dict_get (fl_payloads fl) (response_key r) = Some p"
      then obtain r where "(response_key r, p) \<in> set (fl_payloads fl)" by (blast dest: map_of_SomeD)
      then show ?thesis by force
    qed (use assms(4) in blast)
  qed
  show "claims fl (set ps) \<subseteq> ?D \<union> claims fl (fst ` set failed')"
    if all: "\<forall>p\<in>set ps. p \<in> fst ` set failed \<or> payload_key p \<in> response_key ` set rs"
  proof
    fix d assume "d \<in> claims fl (set ps)"
    then obtain p where p: "p \<in> set ps" "d \<in> set (deferreds_of fl (payload_key p))" by (auto simp: claims_def)
    have "(payload_key p, p) \<in> set (fl_payloads fl)" using p(1) assms(3) fl(2) by (force simp: flight_ok_def)
    then have look: "dict_get (fl_payloads fl) (payload_key p) = Some p" using dict_get_in [OF fl(1)] by simp
    show "d \<in> ?D \<union> claims fl (fst ` set failed')"
    proof (cases "p \<in> fst ` set failed'")
      case True
      with p(2) show ?thesis by (auto simp: claims_def)
    next
      case False
      then have "p \<notin> fst ` set failed" using ss by blast
      then have "payload_key p \<in> response_key ` set rs" using p(1) all by blast
      then obtain r where r: "r \<in> set rs" "response_key r = payload_key p" by auto
      then have "prs_error r = 0" using False ss look by metis
      with r p(2) have "d \<in> ?D" by force
      then show ?thesis by simp
    qed
  qed
qed

lemma finish_results_inv:
  assumes "pr_base s" "flight_ok fl ps"
    and "waiting_ds s \<inter> set (concat (dict_values (fl_deferreds fl))) = {}"
    and "set (concat (dict_values (fl_deferreds fl))) \<subseteq> {..<pr_next_d s}"
    and "set (pr_outstanding s) \<subseteq> waiting_ds s \<union> claims fl (set ps) \<union> Z"
    and "fst ` set failed \<subseteq> set (dict_values (fl_payloads fl))"
    and "Z = UNIV \<or> (\<forall>p\<in>set ps. p \<in> fst ` set failed \<or> payload_key p \<in> response_key ` set rs)"
  shows "pr_inv Z cfg (finish_results cfg fl rs failed s)"
proof -
  obtain failed' t where sr: "sort_results fl rs failed s = (failed', t)" by force
  let ?D = "\<Union>r\<in>{r \<in> set rs. prs_error r = 0}. set (deferreds_of fl (response_key r))"
  have st: "settles ?D s t" using sort_results_settles [OF base_distinct [OF assms(1)] sr] ..
  have D: "?D \<inter> waiting_ds s = {}" using assms(3) deferreds_of_riding [of fl] by blast
  note bs = base_settles [OF assms(1) st D]
  note cl = sort_results_claims [OF base_distinct [OF assms(1)] sr assms(2,6)]
  have out: "set (pr_outstanding t) \<subseteq> waiting_ds t \<union> claims fl (fst ` set failed') \<union> Z"
  proof (cases "Z = UNIV")
    case False
    with assms(7) have c: "claims fl (set ps) \<subseteq> ?D \<union> claims fl (fst ` set failed')" by (intro cl(2)) simp
    have sub: "A - D \<subseteq> W \<union> C' \<union> Z" if "A \<subseteq> W \<union> C \<union> Z" "C \<subseteq> D \<union> C'" for A C C' D W :: "nat set" using that by blast
    show ?thesis unfolding settles_outstanding(1) [OF st] bs(2) by (rule sub [OF assms(5) c])
  qed simp
  show ?thesis
  proof (cases "failed' = []")
    case True
    then show ?thesis using complete_inv [OF bs(1)] out by (simp add: finish_results_def sr claims_def)
  next
    case False
    have "flight_ok fl (map fst failed')" using assms(2) cl(1) by (simp add: flight_ok_def)
    then show ?thesis
      using False retry_inv [OF bs(1), of fl failed' Z cfg] out assms(3,4) bs(2,3) by (simp add: finish_results_def sr)
  qed
qed

lemma sending_facts:
  assumes "pr_inv Z cfg s" "pr_batch_send_d s = Some (Sending fl ps)"
  shows "pr_base s" "flight_ok fl ps" "waiting_ds s \<inter> set (concat (dict_values (fl_deferreds fl))) = {}"
    "set (concat (dict_values (fl_deferreds fl))) \<subseteq> {..<pr_next_d s}"
    "set (pr_outstanding s) \<subseteq> waiting_ds s \<union> claims fl (set ps) \<union> Z"
  using assms by (simp_all add: pr_inv_def batch_ok_def)

lemma deliver_all_inv:
  assumes "pr_inv Z cfg s" "riding (pr_batch_send_d s) = set ds"
  shows "pr_inv Z cfg (complete_batch_send cfg (deliver_result ds r s))"
  by (rule settled_complete_inv [OF _ deliver_settles])
    (use assms flying_riding [of "pr_batch_send_d s"] in \<open>auto simp: pr_inv_def batch_ok_def pr_base_def deferreds_ok_def\<close>)

lemma handle_send_response_inv:
  assumes "pr_inv Z cfg s" "pr_batch_send_d s = Some (Sending fl ps)" "given ps result" "Z = UNIV \<or> accounts_for ps result"
  shows "pr_inv Z cfg (handle_send_response cfg fl result s)"
proof -
  note sf = sending_facts [OF assms(1,2)]
  have ride: "riding (pr_batch_send_d s) = set (concat (dict_values (fl_deferreds fl)))" by (simp add: assms(2))
  have sub: "set ps \<subseteq> set (dict_values (fl_payloads fl))" using sf(2) by (simp add: flight_ok_def)
  show ?thesis
  proof (cases result)
    case (Inl e)
    have "pr_inv Z cfg (finish_results cfg fl [] (map (\<lambda>p. (p, AsFailure e)) (dict_values (fl_payloads fl))) s)"
      by (rule finish_results_inv [OF sf]) (use sub in \<open>force+\<close>)
    then show ?thesis using Inl deliver_all_inv [OF assms(1) ride] by (simp add: handle_send_response_def)
  next
    case (Inr out)
    show ?thesis
    proof (cases out)
      case (Responses rs)
      show ?thesis
      proof (cases "rs = []")
        case True
        then show ?thesis using Inr Responses deliver_all_inv [OF assms(1) ride] by (simp add: handle_send_response_def)
      next
        case False
        have "pr_inv Z cfg (finish_results cfg fl rs [] s)"
          by (rule finish_results_inv [OF sf]) (use assms(4) Inr Responses False in \<open>auto simp: accounts_for_def\<close>)
        then show ?thesis using Inr Responses False by (simp add: handle_send_response_def)
      qed
    next
      case (FailedPayloads rs failed)
      have "fst ` set (map (\<lambda>(p, e). (p, AsFailure e)) failed) = fst ` set failed" by force
      then have "pr_inv Z cfg (finish_results cfg fl rs (map (\<lambda>(p, e). (p, AsFailure e)) failed) s)"
        using assms(3,4) Inr FailedPayloads sub
        by (intro finish_results_inv [OF sf]) (simp_all only: accounts_for_def given_def sum.case outcome.case, blast+)
      then show ?thesis using Inr FailedPayloads by (simp add: handle_send_response_def)
    qed
  qed
qed

lemma make_payloads_keys:
  "make_payloads cfg groups = Inr ps \<Longrightarrow> map fst ps = map fst groups \<and>
    (\<forall>(tp, p)\<in>set ps. payload_key p = tp \<and> (\<exists>reqs. (tp, reqs) \<in> set groups \<and>
       create_message_set (pc_codecs cfg) reqs (pc_codec cfg) = Inr (prq_messages p)))"
proof (induction groups arbitrary: ps)
  case (Cons g groups)
  obtain t p reqs where g: "g = ((t, p), reqs)" by (metis surj_pair)
  with Cons.prems obtain ms qs where "create_message_set (pc_codecs cfg) reqs (pc_codec cfg) = Inr ms"
    "make_payloads cfg groups = Inr qs" "ps = ((t, p), \<lparr>prq_topic = t, prq_partition = p, prq_messages = ms\<rparr>) # qs"
    by (auto simp: rbind_eq_Inr)
  with Cons.IH [of qs] show ?case by (fastforce simp: g payload_key_def)
qed simp

abbreviation failed_lookups :: "int result list \<Rightarrow> send_request list \<Rightarrow> nat set" where
  "failed_lookups parts reqs \<equiv> {sr_deferred req |req e. (Inl e, req) \<in> set (zip parts reqs)}"

abbreviation grouped_ds :: "(topic_partition, send_request list) dict \<Rightarrow> nat set" where
  "grouped_ds groups \<equiv> \<Union>(tp, rs)\<in>set groups. sr_deferred ` set rs"

lemma group_requests_batch:
  assumes g: "group_requests (zip parts reqs) [] s = (groups, t)" and out: "distinct (pr_outstanding s)"
    and dist: "distinct (map sr_deferred reqs)" and len: "length parts = length reqs"
  shows "settles (failed_lookups parts reqs) s t" "dict_ok groups"
    "(tp, rs) \<in> set groups \<Longrightarrow> rs = bound_for s (zip parts reqs) tp \<and> rs \<noteq> []"
    "in_group groups tp = bound_for s (zip parts reqs) tp"
    "grouped_ds groups \<subseteq> sr_deferred ` set reqs"
    "set (pr_outstanding t) \<inter> sr_deferred ` set reqs \<subseteq> grouped_ds groups"
proof -
  have "map (sr_deferred \<circ> snd) (zip parts reqs) = map sr_deferred reqs" using len by (simp flip: map_map)
  then have "distinct (map (sr_deferred \<circ> snd) (zip parts reqs))" using dist by simp
  note gs = group_requests_spec [OF g out _ this]
  show st: "settles (failed_lookups parts reqs) s t" and gok: "dict_ok groups" using gs by (auto simp: dict_ok_def)
  show gr: "in_group groups tp = bound_for s (zip parts reqs) tp" for tp
    using gs by (cases tp) (simp add: dict_ok_def in_group_def)
  show mem: "rs = bound_for s (zip parts reqs) tp \<and> rs \<noteq> []" if "(tp, rs) \<in> set groups" for tp rs
  proof -
    have "dict_get groups tp = Some rs" using that dict_get_in [OF gok] by simp
    then have "rs = in_group groups tp" by (simp add: in_group_def)
    moreover have "rs \<noteq> []" using gs that by (force simp: dict_ok_def)
    ultimately show ?thesis by (simp add: gr)
  qed
  show "grouped_ds groups \<subseteq> sr_deferred ` set reqs"
  proof clarify
    fix t p rs r assume "((t, p), rs) \<in> set groups" "r \<in> set rs"
    then have "r \<in> set (bound_for s (zip parts reqs) (t, p))" using mem by blast
    then show "sr_deferred r \<in> sr_deferred ` set reqs" by (auto simp: bound_for_def dest: set_zip_rightD)
  qed
  show "set (pr_outstanding t) \<inter> sr_deferred ` set reqs \<subseteq> grouped_ds groups"
  proof
    fix d assume d: "d \<in> set (pr_outstanding t) \<inter> sr_deferred ` set reqs"
    then have ds: "d \<in> set (pr_outstanding s)" "d \<notin> failed_lookups parts reqs" using settles_outstanding(1) [OF st] by auto
    from d obtain r where "r \<in> set reqs" "sr_deferred r = d" by blast
    then obtain i where i: "i < length reqs" "reqs ! i = r" by (metis in_set_conv_nth)
    have z: "(parts ! i, r) \<in> set (zip parts reqs)" using i len by (auto simp: set_zip)
    obtain p where p: "parts ! i = Inr p"
    proof (cases "parts ! i")
      case (Inl e)
      then have "d \<in> failed_lookups parts reqs" using z \<open>sr_deferred r = d\<close> by auto
      with ds(2) show ?thesis ..
    qed
    have "r \<in> set (bound_for s (zip parts reqs) (sr_topic r, p))"
      using z p ds(1) \<open>sr_deferred r = d\<close> by (force simp: bound_for_def pr_called_def)
    then have "r \<in> set (in_group groups (sr_topic r, p))" by (simp add: gr)
    then obtain rs where "((sr_topic r, p), rs) \<in> set groups" "r \<in> set rs"
      by (cases "dict_get groups (sr_topic r, p)") (auto simp: in_group_def dest: map_of_SomeD)
    then show "d \<in> grouped_ds groups" using \<open>sr_deferred r = d\<close> by force
  qed
qed

lemma claims_groups:
  assumes "dict_ok groups" "map fst ps = map fst groups" "\<forall>(tp, p)\<in>set ps. payload_key p = tp"
  shows "claims \<lparr>fl_payloads = ps, fl_deferreds = map (\<lambda>(tp, reqs). (tp, map sr_deferred reqs)) groups\<rparr> (set (dict_values ps)) =
    grouped_ds groups" (is "claims ?fl _ = _")
proof -
  have get: "deferreds_of ?fl tp = map sr_deferred (in_group groups tp)" for tp
    by (simp add: deferreds_of_def in_group_def map_of_map split: option.split)
  have "payload_key ` set (dict_values ps) = fst ` set ps" using assms(3) by force
  also have "\<dots> = fst ` set groups" using arg_cong [OF assms(2), of set] by simp
  finally have "(\<Union>tp\<in>payload_key ` set (dict_values ps). sr_deferred ` set (in_group groups tp)) =
      (\<Union>tp\<in>fst ` set groups. sr_deferred ` set (in_group groups tp))" by (simp only:)
  then have "claims ?fl (set (dict_values ps)) = (\<Union>tp\<in>fst ` set groups. sr_deferred ` set (in_group groups tp))"
    by (simp add: claims_def get)
  also have "\<dots> = grouped_ds groups" using dict_get_in [OF assms(1)] by (force simp: in_group_def)
  finally show ?thesis .
qed

lemma send_requests_inv:
  assumes "Z = UNIV \<or> packable cfg parts reqs s" "pr_inv Z cfg s" "pr_batch_send_d s = Some (Partitioning reqs)"
    and "length parts = length reqs"
  shows "pr_inv Z cfg (send_requests cfg parts reqs s)"
proof -
  have base: "pr_base s" and dist: "distinct (map sr_deferred reqs)"
    and wr: "waiting_ds s \<inter> sr_deferred ` set reqs = {}" and lt: "sr_deferred ` set reqs \<subseteq> {..<pr_next_d s}"
    and out: "set (pr_outstanding s) \<subseteq> waiting_ds s \<union> sr_deferred ` set reqs \<union> Z"
    using assms(2,3) by (simp_all add: pr_inv_def batch_ok_def)
  obtain groups t where g: "group_requests (zip parts reqs) [] s = (groups, t)" by force
  note gb = group_requests_batch [OF g base_distinct [OF base] dist assms(4)]
  have "failed_lookups parts reqs \<inter> waiting_ds s = {}" using wr by (auto dest: set_zip_rightD)
  note bs = base_settles [OF base gb(1) this]
  have open_ride: "set (pr_outstanding t) \<subseteq> waiting_ds t \<union> grouped_ds groups \<union> Z"
    using gb(6) out settles_outstanding(1) [OF gb(1)] bs(2) by auto
  show ?thesis
  proof (cases "make_payloads cfg groups")
    case (Inl e)
    then have "Z = UNIV" using assms(1) by (simp add: packable_def g)
    then show ?thesis using Inl complete_inv [OF bs(1)] by (simp add: send_requests_def g)
  next
    case mp: (Inr ps)
    have keys: "map fst ps = map fst groups" and pk: "\<forall>(tp, p)\<in>set ps. payload_key p = tp"
      using make_payloads_keys [OF mp] by (auto split: prod.splits)
    let ?fl = "\<lparr>fl_payloads = ps, fl_deferreds = map (\<lambda>(tp, reqs). (tp, map sr_deferred reqs)) groups\<rparr>"
    have all: "set (concat (dict_values (fl_deferreds ?fl))) = grouped_ds groups" by force
    show ?thesis
    proof (cases "ps = []")
      case True
      then have "groups = []" using keys by simp
      then show ?thesis using True mp complete_inv [OF bs(1)] open_ride by (simp add: send_requests_def g)
    next
      case False
      have "flight_ok ?fl (dict_values ps)" using pk keys gb(2) by (simp add: flight_ok_def dict_ok_def)
      then have "pr_inv Z cfg (produce ?fl (dict_values ps) t)"
        using bs gb(5) open_ride wr lt claims_groups [OF gb(2) keys pk]
        by (intro produce_inv) (simp_all only: all, blast+)
      then show ?thesis using False mp by (simp add: send_requests_def g)
    qed
  qed
qed

end
