(* ===== verification/Producer_Steps.thy ===== *)
theory Producer_Steps
  imports Producer
begin

text \<open>
  The runs of the producer: every event of \<open>pr_step\<close> keeps the invariant of \<open>Producer\<close> and a bound on the
  requests of a batch, and what follows for the deferreds that \<open>send_messages\<close> returned, for the batches and
  for the retries.
\<close>

section \<open>Cancelling keeps the invariant\<close>

lemma msgs_bytes_nonneg [simp]: "0 \<le> msgs_bytes ms"
  by (auto simp: msgs_bytes_def intro!: sum_list_nonneg split: option.splits)

lemma cancel_outstanding_one [simp]: "pr_outstanding (cancel_send_messages d s) = remove1 d (pr_outstanding s)"
  by (simp add: cancel_send_messages_def pr_fire_def pr_emit_def split: option.split)

lemma fire_base:
  assumes "deferreds_ok s" "d \<in> set (pr_outstanding s)"
  shows "deferreds_ok (pr_fire d r s)"
  using assms by (auto simp: deferreds_ok_def pr_fire_def pr_emit_def)

lemma distinct_key_remove1:
  assumes "distinct (map f xs)" "x \<in> set xs"
  shows "f ` set (remove1 x xs) = f ` set xs - {f x}" "distinct (map f (remove1 x xs))"
  using assms by (induction xs) (auto simp: distinct_map dest: set_remove1_subset [THEN subsetD])

lemma cancel_send_messages_inv:
  assumes inv: "pr_inv Z cfg s" and d: "d \<in> set (pr_outstanding s)"
  shows "pr_inv Z cfg (cancel_send_messages d s)"
proof (cases "find (\<lambda>req. sr_deferred req = d) (pr_batch_reqs s)")
  case None
  then have nw: "d \<notin> waiting_ds s" by (auto simp: find_None_iff)
  let ?r = "Errback (CancelledError (Some (pr_batch_send_d s \<noteq> None)))"
  have base: "pr_base s" using inv by (simp add: pr_inv_def)
  have st: "settles {d} s (pr_fire d ?r s)" by (rule settles_fire [OF base_distinct [OF base] d])
  have "{d} \<inter> waiting_ds s = {}" using nw by simp
  note bs = base_settles [OF base st this]
  have "pr_waitingMsgCount (pr_fire d ?r s) = pr_waitingMsgCount s" "pr_waitingByteCount (pr_fire d ?r s) = pr_waitingByteCount s"
    by (simp_all add: pr_fire_def pr_emit_def)
  then have "pr_inv Z cfg (pr_fire d ?r s)"
    using inv bs settles_outstanding(1) [OF st] by (auto simp: pr_inv_def batch_ok_def idle_ok_def batch_full_def)
  with None show ?thesis by (simp add: cancel_send_messages_def)
next
  case (Some req)
  then have req: "req \<in> set (pr_batch_reqs s)" "sr_deferred req = d" by (auto simp: find_Some_iff)
  define t where "t = s\<lparr>pr_waitingMsgCount := pr_waitingMsgCount s - int (length (sr_messages req)),
     pr_waitingByteCount := pr_waitingByteCount s - msgs_bytes (sr_messages req),
     pr_batch_reqs := remove1 req (pr_batch_reqs s)\<rparr>"
  define u where "u = pr_fire d (Errback (CancelledError (Some False))) t"
  have u: "pr_batch_reqs u = remove1 req (pr_batch_reqs s)" "pr_outstanding u = remove1 d (pr_outstanding s)"
    "pr_waitingMsgCount u = pr_waitingMsgCount s - int (length (sr_messages req))" "pr_next_d u = pr_next_d s"
    "pr_waitingByteCount u = pr_waitingByteCount s - msgs_bytes (sr_messages req)"
    "pr_batch_send_d u = pr_batch_send_d s" by (simp_all add: u_def t_def pr_fire_def pr_emit_def)
  have dist: "distinct (map sr_deferred (pr_batch_reqs s))" and dout: "distinct (pr_outstanding s)"
    and defs: "deferreds_ok s" and cnt: "counts_ok s" and sub: "waiting_ds s \<subseteq> set (pr_outstanding s)"
    using inv by (simp_all add: pr_inv_def pr_base_def deferreds_ok_def)
  note rm = distinct_key_remove1 [OF dist req(1)]
  have "deferreds_ok t" using defs by (simp add: t_def deferreds_ok_def)
  then have "deferreds_ok u" using d unfolding u_def by (intro fire_base) (simp_all add: t_def)
  moreover have "counts_ok u"
    using cnt req(1) by (simp add: counts_ok_def u sum_list_map_remove1 [of req])
  ultimately have "pr_base u" using rm dout sub req(2) by (auto simp: pr_base_def u)
  moreover have "batch_ok Z u" using inv rm dout req(2) by (auto simp: pr_inv_def batch_ok_def u)
  moreover have "idle_ok cfg u"
  proof -
    have "\<not> batch_full cfg u" if "\<not> batch_full cfg s"
      using that msgs_bytes_nonneg [of "sr_messages req"] unfolding batch_full_def u by linarith
    moreover have "pr_batch_reqs s \<noteq> []" using req(1) by auto
    ultimately show ?thesis using inv by (auto simp: pr_inv_def idle_ok_def u)
  qed
  ultimately show ?thesis using Some by (simp add: cancel_send_messages_def pr_inv_def u_def t_def)
qed

lemma cancel_fold:
  fixes ds :: "nat list"
  defines "c \<equiv> \<lambda>s d. if pr_called s d then s else cancel_send_messages d s"
  assumes "pr_inv Z cfg s"
  shows "pr_inv Z cfg (foldl c s ds)" "set (pr_outstanding (foldl c s ds)) = set (pr_outstanding s) - set ds"
proof -
  have "pr_inv Z cfg (foldl c s ds) \<and> set (pr_outstanding (foldl c s ds)) = set (pr_outstanding s) - set ds"
    using assms(2)
  proof (induction ds arbitrary: s)
    case (Cons d ds)
    have "pr_inv Z cfg (c s d)" "set (pr_outstanding (c s d)) = set (pr_outstanding s) - {d}"
      using Cons.prems cancel_send_messages_inv [OF Cons.prems, of d] base_distinct [of s]
      by (auto simp: c_def pr_called_def pr_inv_def)
    with Cons.IH [of "c s d"] show ?case by auto
  qed simp
  then show "pr_inv Z cfg (foldl c s ds)" "set (pr_outstanding (foldl c s ds)) = set (pr_outstanding s) - set ds" by auto
qed

section \<open>Every event keeps the invariant\<close>

lemma send_messages_inv:
  assumes inv: "pr_inv Z cfg s" and sm: "send_messages cfg topic key msgs s = Inr (d, s')"
  shows "pr_inv Z cfg s'"
proof -
  from sm obtain tp k ms where s': "s' = check_send_batch cfg
      (s\<lparr>pr_next_d := Suc (pr_next_d s),
         pr_batch_reqs := pr_batch_reqs s @ [\<lparr>sr_topic = tp, sr_key = k, sr_messages = ms, sr_deferred = pr_next_d s\<rparr>],
         pr_waitingMsgCount := pr_waitingMsgCount s + int (length ms),
         pr_waitingByteCount := pr_waitingByteCount s + msgs_bytes ms,
         pr_outstanding := pr_outstanding s @ [pr_next_d s]\<rparr>)" (is "_ = check_send_batch cfg ?t")
    by (auto simp: send_messages_def Let_def rbind_eq_Inr split: if_splits)
  have new: "pr_next_d s \<notin> set (pr_outstanding s)" "pr_next_d s \<notin> waiting_ds s" "pr_next_d s \<notin> riding (pr_batch_send_d s)"
    using inv by (auto simp: pr_inv_def pr_base_def deferreds_ok_def batch_ok_def)
  have base: "pr_base ?t"
    using inv new by (auto simp: pr_inv_def pr_base_def deferreds_ok_def counts_ok_def)
  have batch: "batch_ok Z ?t" using inv new by (auto simp: pr_inv_def batch_ok_def)
  show ?thesis
  proof (cases "pr_batch_send_d s")
    case None
    show ?thesis unfolding s' using base batch None by (intro check_send_inv) (simp_all add: batch_ok_def)
  next
    case (Some ph)
    then have "check_send_batch cfg ?t = ?t" by (simp add: check_send_batch_def send_batch_def)
    with base batch Some show ?thesis by (simp add: s' pr_inv_def idle_ok_def)
  qed
qed

lemma timer_inv: "pr_inv Z cfg s \<Longrightarrow> pr_inv Z cfg (send_batch s)"
  using send_batch_inv [of s Z cfg] by (cases "pr_batch_reqs s = [] \<or> pr_batch_send_d s \<noteq> None")
    (auto simp: send_batch_def pr_inv_def batch_ok_def)

lemma cancel_batch_inv:
  assumes "pr_inv UNIV cfg s"
    and "\<And>reqs. pr_batch_send_d s = Some (Partitioning reqs) \<Longrightarrow> length parts = length reqs"
    and "\<And>fl payloads. pr_batch_send_d s = Some (Sending fl payloads) \<Longrightarrow> given payloads result"
  shows "pr_inv UNIV cfg (cancel_batch cfg parts result s)"
proof (cases "pr_batch_send_d s")
  case None
  then show ?thesis using assms(1) by (simp add: cancel_batch_def)
next
  case (Some ph)
  show ?thesis
  proof (cases ph)
    case (Partitioning reqs)
    then show ?thesis using send_requests_inv [OF _ assms(1)] assms(2) Some by (simp add: cancel_batch_def)
  next
    case (Sending fl ps)
    then show ?thesis using handle_send_response_inv [OF assms(1)] assms(3) Some by (simp add: cancel_batch_def)
  next
    case (RetryDelay fl ps)
    then show ?thesis using deliver_all_inv [OF assms(1)] Some by (simp add: cancel_batch_def)
  qed
qed

lemma pr_inv_flags [simp]:
  "pr_inv Z cfg (s\<lparr>pr_stopping := b\<rparr>) = pr_inv Z cfg s" "pr_inv Z cfg (s\<lparr>pr_sendLooper := b\<rparr>) = pr_inv Z cfg s"
  "pr_inv Z cfg (s\<lparr>pr_loads := n\<rparr>) = pr_inv Z cfg s" "pr_inv Z cfg (lookup_round s) = pr_inv Z cfg s"
  "pr_inv Z cfg (lookup_load topic s) = pr_inv Z cfg s"
  by (simp_all add: pr_inv_defs batch_full_def lookup_round_def lookup_load_def pr_emit_def)

lemma pr_inv_strays:
  "pr_inv Z cfg s \<Longrightarrow> pr_inv UNIV cfg s" "pr_inv UNIV cfg s \<Longrightarrow> pr_outstanding s = [] \<Longrightarrow> pr_inv Z cfg s"
  by (simp_all add: pr_inv_def batch_ok_def)

lemma producer_stop_inv:
  assumes "pr_inv Z cfg s"
    and "\<And>reqs. pr_batch_send_d s = Some (Partitioning reqs) \<Longrightarrow> length parts = length reqs"
    and "\<And>fl payloads. pr_batch_send_d s = Some (Sending fl payloads) \<Longrightarrow> given payloads result"
  shows "pr_outstanding (producer_stop cfg parts result s) = []" "pr_inv Z cfg (producer_stop cfg parts result s)"
proof -
  have "pr_inv UNIV cfg (cancel_batch cfg parts result (s\<lparr>pr_stopping := True\<rparr>))"
  proof (rule cancel_batch_inv)
    show "pr_inv UNIV cfg (s\<lparr>pr_stopping := True\<rparr>)" using pr_inv_strays(1) [OF assms(1)] by simp
  qed (rule assms(2), simp, rule assms(3), simp)
  then have "pr_inv UNIV cfg ((cancel_batch cfg parts result (s\<lparr>pr_stopping := True\<rparr>))\<lparr>pr_sendLooper := False\<rparr>)" by simp
  note cf = cancel_fold [OF this]
  show out: "pr_outstanding (producer_stop cfg parts result s) = []"
    using cf by (simp_all add: producer_stop_def cancel_outstanding_def Let_def flip: set_empty)
  show "pr_inv Z cfg (producer_stop cfg parts result s)"
    by (rule pr_inv_strays(2) [OF _ out]) (simp add: producer_stop_def cancel_outstanding_def Let_def cf(1))
qed

lemma pr_step_inv: "pr_step cfg s e t \<Longrightarrow> Z = UNIV \<or> orderly cfg s e \<Longrightarrow> pr_inv Z cfg s \<Longrightarrow> pr_inv Z cfg t"
proof (induction rule: pr_step.induct)
  case (step_retry s fl payloads)
  then show ?case by (intro produce_inv) (simp_all add: pr_inv_def batch_ok_def)
next
  case (step_stop s parts result)
  then show ?case by (intro producer_stop_inv(2)) simp_all
next
  case (step_parts s reqs parts)
  then show ?case by (intro send_requests_inv) (simp_all add: orderly_def)
next
  case (step_answer s fl payloads result)
  then show ?case by (intro handle_send_response_inv) (simp_all add: orderly_def)
qed (simp_all add: send_messages_inv cancel_send_messages_inv timer_inv)

lemma pr_init_inv: "pr_inv Z cfg (producer_init cfg)"
  by (simp add: producer_init_def pr_inv_defs)

text \<open>All runs, and those in which every event is orderly.\<close>

interpretation prod: step_machine "\<lambda>s. s = producer_init cfg" "pr_step cfg" "pr_inv UNIV cfg" for cfg
  by unfold_locales (auto simp: pr_init_inv intro: pr_step_inv)

interpretation orderly_prod: step_machine "\<lambda>s. s = producer_init cfg" "\<lambda>s e t. pr_step cfg s e t \<and> orderly cfg s e" "pr_inv {} cfg" for cfg
  by unfold_locales (auto simp: pr_init_inv intro: pr_step_inv)

abbreviation pr_reach :: "producer_config \<Rightarrow> producer \<Rightarrow> bool" where
  "pr_reach cfg \<equiv> reach (\<lambda>s. s = producer_init cfg) (pr_step cfg)"

abbreviation orderly_reach :: "producer_config \<Rightarrow> producer \<Rightarrow> bool" where
  "orderly_reach cfg \<equiv> reach (\<lambda>s. s = producer_init cfg) (\<lambda>s e t. pr_step cfg s e t \<and> orderly cfg s e)"

text \<open>The event relation as a function, to run the machine on concrete events.\<close>

definition pr_apply :: "producer_config \<Rightarrow> producer \<Rightarrow> producer_event \<Rightarrow> producer option" where
  "pr_apply cfg s e =
     (case e of
        SendMessages t k ms \<Rightarrow> (case send_messages cfg t k ms s of Inl e \<Rightarrow> None | Inr (d, s') \<Rightarrow> Some s')
      | CancelSend d \<Rightarrow> if d \<in> set (pr_outstanding s) then Some (cancel_send_messages d s) else None
      | BatchTimer \<Rightarrow> if pr_sendLooper s then Some (send_batch s) else None
      | LookupLoad topic \<Rightarrow>
          (case pr_batch_send_d s of
             Some (Partitioning reqs) \<Rightarrow>
               if list_ex (\<lambda>r. sr_topic r = topic) reqs \<and> pr_req_attempts s < pc_max_attempts cfg \<and> pr_loads s < length reqs
               then Some (lookup_load topic s) else None
           | _ \<Rightarrow> None)
      | LookupLoaded \<Rightarrow>
          (case pr_batch_send_d s of
             Some (Partitioning reqs) \<Rightarrow> if 0 < pr_loads s then Some (s\<lparr>pr_loads := pr_loads s - 1\<rparr>) else None
           | _ \<Rightarrow> None)
      | LookupRound \<Rightarrow>
          (case pr_batch_send_d s of
             Some (Partitioning reqs) \<Rightarrow> if 0 < pr_loads s then Some (lookup_round s) else None
           | _ \<Rightarrow> None)
      | PartitionsFound parts \<Rightarrow>
          (case pr_batch_send_d s of
             Some (Partitioning reqs) \<Rightarrow>
               if pr_loads s = 0 \<and> length parts = length reqs then Some (send_requests cfg parts reqs s) else None
           | _ \<Rightarrow> None)
      | Answer result \<Rightarrow>
          (case pr_batch_send_d s of
             Some (Sending fl ps) \<Rightarrow> if given ps result then Some (handle_send_response cfg fl result s) else None
           | _ \<Rightarrow> None)
      | RetryTime \<Rightarrow> (case pr_batch_send_d s of Some (RetryDelay fl ps) \<Rightarrow> Some (produce fl ps s) | _ \<Rightarrow> None)
      | StopProducer parts result \<Rightarrow>
          if (case pr_batch_send_d s of
                Some (Partitioning reqs) \<Rightarrow> length parts = length reqs
              | Some (Sending fl ps) \<Rightarrow> given ps result
              | _ \<Rightarrow> True)
          then Some (producer_stop cfg parts result (s\<lparr>pr_loads := 0\<rparr>)) else None)"

lemma pr_apply_step:
  assumes "pr_apply cfg s e = Some t"
  shows "pr_step cfg s e t"
proof (cases e)
  case (StopProducer parts result)
  then show ?thesis using assms by (auto simp: pr_apply_def split: if_splits intro!: step_stop)
next
  case (LookupLoad topic)
  then show ?thesis using assms
    by (auto simp: pr_apply_def list_ex_iff split: option.splits batch_phase.splits if_splits intro!: step_load)
qed (use assms in \<open>auto simp: pr_apply_def simp del: One_nat_def split: sum.splits option.splits batch_phase.splits if_splits
    prod.splits intro: pr_step.intros\<close>)

fun pr_run :: "producer_config \<Rightarrow> producer \<Rightarrow> producer_event list \<Rightarrow> producer option" where
  "pr_run cfg s [] = Some s"
| "pr_run cfg s (e # es) = (case pr_apply cfg s e of None \<Rightarrow> None | Some t \<Rightarrow> pr_run cfg t es)"

fun orderly_run :: "producer_config \<Rightarrow> producer \<Rightarrow> producer_event list \<Rightarrow> bool" where
  "orderly_run cfg s [] = True"
| "orderly_run cfg s (e # es) = (orderly cfg s e \<and> (case pr_apply cfg s e of None \<Rightarrow> False | Some t \<Rightarrow> orderly_run cfg t es))"

lemma orderly_run_reach: "orderly_reach cfg s \<Longrightarrow> orderly_run cfg s es \<Longrightarrow> pr_run cfg s es = Some t \<Longrightarrow> orderly_reach cfg t"
proof (induction es arbitrary: s)
  case (Cons e es)
  then obtain u where u: "pr_apply cfg s e = Some u" "orderly cfg s e" "orderly_run cfg u es" "pr_run cfg u es = Some t"
    by (auto split: option.splits)
  have "orderly_reach cfg u" by (rule reach_step [OF Cons.prems(1)]) (use u pr_apply_step in blast)
  then show ?case using Cons.IH u by blast
qed simp

lemma pr_run_reach: "pr_reach cfg s \<Longrightarrow> pr_run cfg s es = Some t \<Longrightarrow> pr_reach cfg t"
  by (induction es arbitrary: s) (auto split: option.splits intro: reach_step pr_apply_step)

section \<open>Deferreds and batches\<close>

text \<open>
  C12. In every run of the producer a deferred that \<open>send_messages\<close> returned fires at most once: it has fired exactly once, or it is
  still open. No caller is forgotten in a run in which the message sets of each batch can be built when its partitions are found and each
  answer of the client accounts for the payloads of its request: there an open deferred belongs to a request of the waiting batch, or to a
  payload (or a partition lookup) of the batch in flight; so when no batch is in flight and none waits, every deferred has fired. (When
  a message set cannot be built the deferreds of its batch are forgotten: see \<open>pack_error_strands\<close>.)
\<close>

theorem producer_deferreds:
  assumes "pr_reach cfg s"
  shows "pfires d (pr_log s) = (if d < pr_next_d s \<and> d \<notin> set (pr_outstanding s) then 1 else 0) \<and>
    (orderly_reach cfg s \<longrightarrow>
       (d \<in> set (pr_outstanding s) \<longrightarrow> d \<in> waiting_ds s \<union> flying (pr_batch_send_d s)) \<and>
       (pr_batch_send_d s = None \<and> pr_batch_reqs s = [] \<longrightarrow> pr_outstanding s = []))"
  using prod.reach_invar [OF assms] orderly_prod.reach_invar [of cfg s] by (auto simp: pr_inv_def pr_base_def deferreds_ok_def batch_ok_def)

definition sample_cfg :: "int \<Rightarrow> producer_config" where
  "sample_cfg n = \<lparr>pc_req_acks = 1, pc_max_attempts = n, pc_retry_interval = 1 / 4, pc_codec = CODEC_NONE,
     pc_batch_every_n = 2, pc_batch_every_b = 0, pc_batch_every_t = None, pc_codecs = marking_env\<rparr>"

definition two_sends :: "producer_event list" where
  "two_sends = [SendMessages (PyStr (str_lit ''t'')) PyNone [PyBytes [1]],
     SendMessages (PyStr (str_lit ''t'')) PyNone [PyBytes [2]]]"

definition sample_ack :: "int \<Rightarrow> int \<Rightarrow> produce_response" where
  "sample_ack p err = \<lparr>prs_topic = str_lit ''t'', prs_partition = p, prs_error = err, prs_offset = 7\<rparr>"

lemma sample_reach: "pr_run (sample_cfg n) (producer_init (sample_cfg n)) es = Some t \<Longrightarrow> pr_reach (sample_cfg n) t"
  by (rule pr_run_reach [OF reach_init]) simp_all

definition sample_acked :: producer where
  "sample_acked = the (pr_run (sample_cfg 2) (producer_init (sample_cfg 2))
     (two_sends @ [PartitionsFound [Inr 0, Inr 1], Answer (Inr (Responses [sample_ack 0 0, sample_ack 1 0]))]))"

lemma sample_acked_run:
  "pr_run (sample_cfg 2) (producer_init (sample_cfg 2))
     (two_sends @ [PartitionsFound [Inr 0, Inr 1], Answer (Inr (Responses [sample_ack 0 0, sample_ack 1 0]))]) = Some sample_acked"
  "pr_batch_send_d sample_acked = None \<and> pr_batch_reqs sample_acked = []"
  "orderly_run (sample_cfg 2) (producer_init (sample_cfg 2))
     (two_sends @ [PartitionsFound [Inr 0, Inr 1], Answer (Inr (Responses [sample_ack 0 0, sample_ack 1 0]))])"
  by code_simp+

theorem producer_deferreds_witness:
  "pfires 1 (pr_log sample_acked) = 1 \<and> pr_outstanding sample_acked = []"
proof -
  have "pr_next_d sample_acked = 2 \<and> 1 \<notin> set (pr_outstanding sample_acked)" by code_simp
  moreover have "orderly_reach (sample_cfg 2) sample_acked"
    by (rule orderly_run_reach [OF reach_init sample_acked_run(3,1)]) simp
  ultimately show ?thesis
    using producer_deferreds [OF sample_reach [OF sample_acked_run(1)], of 1] sample_acked_run(2) by simp
qed

text \<open>
  C38. The counters of the waiting batch are exact, cancellations included, and no full batch waits while
  nothing is being sent: when no batch is in flight, the waiting batch is empty or below both limits.
\<close>

theorem batch_counters:
  assumes "pr_reach cfg s"
  shows "pr_waitingMsgCount s = sum_list (map (\<lambda>r. int (length (sr_messages r))) (pr_batch_reqs s)) \<and>
    pr_waitingByteCount s = sum_list (map (\<lambda>r. msgs_bytes (sr_messages r)) (pr_batch_reqs s)) \<and>
    (pr_batch_send_d s = None \<longrightarrow> pr_batch_reqs s = [] \<or>
       (pc_batch_every_n cfg \<noteq> 0 \<longrightarrow> pr_waitingMsgCount s < pc_batch_every_n cfg) \<and>
       (pc_batch_every_b cfg \<noteq> 0 \<longrightarrow> pr_waitingByteCount s < pc_batch_every_b cfg))"
  using prod.reach_invar [OF assms] by (auto simp: pr_inv_def pr_base_def counts_ok_def idle_ok_def batch_full_def)

definition sample_cancelled :: producer where
  "sample_cancelled = the (pr_run (sample_cfg 2) (producer_init (sample_cfg 2))
     [SendMessages (PyStr (str_lit ''t'')) PyNone [PyBytes [1, 2, 3]], CancelSend 0,
      SendMessages (PyStr (str_lit ''u'')) PyNone [PyBytes [4]]])"

theorem batch_counters_witness:
  "pr_waitingMsgCount sample_cancelled = 1 \<and> pr_waitingByteCount sample_cancelled = 1 \<and>
   pr_waitingMsgCount sample_cancelled < pc_batch_every_n (sample_cfg 2)"
proof -
  have run: "pr_run (sample_cfg 2) (producer_init (sample_cfg 2))
     [SendMessages (PyStr (str_lit ''t'')) PyNone [PyBytes [1, 2, 3]], CancelSend 0,
      SendMessages (PyStr (str_lit ''u'')) PyNone [PyBytes [4]]] = Some sample_cancelled" by code_simp
  have reqs: "pr_batch_send_d sample_cancelled = None \<and> pr_batch_reqs sample_cancelled =
     [\<lparr>sr_topic = str_lit ''u'', sr_key = None, sr_messages = [Some [4]], sr_deferred = 1\<rparr>]" by code_simp
  show ?thesis
    using batch_counters [OF sample_reach [OF run]] reqs by (simp add: msgs_bytes_def sample_cfg_def)
qed

lemma batch_leaves:
  assumes "pr_reach cfg s" "pr_batch_send_d s = Some (Partitioning reqs)" "length parts = length reqs"
    and "packable cfg parts reqs s" "bound_for s (zip parts reqs) tp \<noteq> []"
  shows "\<exists>fl es. pr_batch_send_d (send_requests cfg parts reqs s) = Some (Sending fl (dict_values (fl_payloads fl))) \<and>
    pr_log (send_requests cfg parts reqs s) = pr_log s @ es @ [Produce (dict_values (fl_payloads fl))] \<and>
    (\<forall>d. pfires d es = (if d \<in> set (pr_outstanding s) \<inter> failed_lookups parts reqs then 1 else 0)) \<and>
    distinct (map payload_key (dict_values (fl_payloads fl))) \<and>
    (\<forall>tp. tp \<in> payload_key ` set (dict_values (fl_payloads fl)) \<longleftrightarrow> bound_for s (zip parts reqs) tp \<noteq> []) \<and>
    (\<forall>p\<in>set (dict_values (fl_payloads fl)).
       create_message_set (pc_codecs cfg) (bound_for s (zip parts reqs) (payload_key p)) (pc_codec cfg) = Inr (prq_messages p))"
proof -
  have inv: "pr_inv UNIV cfg s" by (rule prod.reach_invar [OF assms(1)])
  then have base: "pr_base s" and dist: "distinct (map sr_deferred reqs)"
    using assms(2) by (simp_all add: pr_inv_def batch_ok_def)
  obtain groups t where g: "group_requests (zip parts reqs) [] s = (groups, t)" by force
  note gb = group_requests_batch [OF g base_distinct [OF base] dist assms(3)]
  from assms(4) obtain ps where mp: "make_payloads cfg groups = Inr ps" by (auto simp: packable_def g split: sum.splits)
  note mk = make_payloads_keys [OF mp]
  have keys: "map fst ps = map fst groups" and pk: "\<forall>(tp, p)\<in>set ps. payload_key p = tp" using mk by (auto split: prod.splits)
  have "map payload_key (dict_values ps) = map fst ps" using pk by (auto simp: comp_def)
  with keys have vals: "map payload_key (dict_values ps) = map fst groups" by simp
  have bound: "tp \<in> fst ` set groups \<longleftrightarrow> bound_for s (zip parts reqs) tp \<noteq> []" for tp
  proof
    assume "tp \<in> fst ` set groups"
    then show "bound_for s (zip parts reqs) tp \<noteq> []" using gb(3) by fastforce
  next
    assume "bound_for s (zip parts reqs) tp \<noteq> []"
    then have "in_group groups tp \<noteq> []" by (simp add: gb(4))
    then have "dict_get groups tp \<noteq> None" by (auto simp: in_group_def split: option.splits)
    then show "tp \<in> fst ` set groups" by (simp add: map_of_eq_None_iff)
  qed
  have "ps \<noteq> []" using keys bound [of tp] assms(5) by auto
  let ?fl = "\<lparr>fl_payloads = ps, fl_deferreds = map (\<lambda>(tp, reqs). (tp, map sr_deferred reqs)) groups\<rparr>"
  have sr: "send_requests cfg parts reqs s = produce ?fl (dict_values ps) t" using \<open>ps \<noteq> []\<close> by (simp add: send_requests_def g mp)
  from gb(1) obtain es where es: "pr_log t = pr_log s @ es"
    "\<forall>d. pfires d es = (if d \<in> set (pr_outstanding s) \<inter> failed_lookups parts reqs then 1 else 0)"
    by (auto simp: settles_def)
  have "create_message_set (pc_codecs cfg) (bound_for s (zip parts reqs) (payload_key p)) (pc_codec cfg) = Inr (prq_messages p)"
    if "p \<in> set (dict_values ps)" for p
  proof -
    from that obtain tp where "(tp, p) \<in> set ps" by auto
    with mk obtain rs where "payload_key p = tp" "(tp, rs) \<in> set groups"
      "create_message_set (pc_codecs cfg) rs (pc_codec cfg) = Inr (prq_messages p)" by fast
    with gb(3) show ?thesis by blast
  qed
  moreover have "distinct (map payload_key (dict_values ps))" unfolding vals using gb(2) by (simp add: dict_ok_def)
  moreover have "tp \<in> payload_key ` set (dict_values ps) \<longleftrightarrow> bound_for s (zip parts reqs) tp \<noteq> []" for tp
    using bound [of tp] arg_cong [OF vals, of set] by (simp only: set_map)
  ultimately show ?thesis using es by (intro exI [of _ ?fl] exI [of _ es]) (simp add: sr produce_def pr_emit_def)
qed

text \<open>
  When the partitions of a batch are found, one produce request leaves with exactly one payload for
  every partition that some request goes to; its message set is made of all the requests of the batch for that
  partition that were not cancelled meanwhile, in the order in which they were submitted. A request
  whose lookup failed is not sent, and its deferred fires with the error of the lookup.
\<close>

theorem batch_payloads:
  assumes "pr_reach cfg s" "pr_batch_send_d s = Some (Partitioning reqs)" "length parts = length reqs"
    and "packable cfg parts reqs s" "bound_for s (zip parts reqs) tp \<noteq> []"
  shows "\<exists>fl es. pr_batch_send_d (send_requests cfg parts reqs s) = Some (Sending fl (dict_values (fl_payloads fl))) \<and>
    pr_log (send_requests cfg parts reqs s) = pr_log s @ es @ [Produce (dict_values (fl_payloads fl))] \<and>
    (\<forall>d. pfires d es = (if d \<in> set (pr_outstanding s) \<inter> failed_lookups parts reqs then 1 else 0)) \<and>
    distinct (map payload_key (dict_values (fl_payloads fl))) \<and>
    (\<forall>tp. tp \<in> payload_key ` set (dict_values (fl_payloads fl)) \<longleftrightarrow> bound_for s (zip parts reqs) tp \<noteq> []) \<and>
    (\<forall>p\<in>set (dict_values (fl_payloads fl)).
       create_message_set (pc_codecs cfg) (bound_for s (zip parts reqs) (payload_key p)) (pc_codec cfg) = Inr (prq_messages p))"
  using assms by (rule batch_leaves)

definition sample_lookup :: producer where
  "sample_lookup = the (pr_run (sample_cfg 2) (producer_init (sample_cfg 2)) two_sends)"

lemma sample_lookup_run:
  "pr_run (sample_cfg 2) (producer_init (sample_cfg 2)) two_sends = Some sample_lookup"
  "pr_outstanding sample_lookup = [0, 1]"
  "pr_batch_send_d sample_lookup = Some (Partitioning
     [\<lparr>sr_topic = str_lit ''t'', sr_key = None, sr_messages = [Some [1]], sr_deferred = 0\<rparr>,
      \<lparr>sr_topic = str_lit ''t'', sr_key = None, sr_messages = [Some [2]], sr_deferred = 1\<rparr>])"
  "packable (sample_cfg 2) [Inr 0, Inr 0]
     [\<lparr>sr_topic = str_lit ''t'', sr_key = None, sr_messages = [Some [1]], sr_deferred = 0\<rparr>,
      \<lparr>sr_topic = str_lit ''t'', sr_key = None, sr_messages = [Some [2]], sr_deferred = 1\<rparr>] sample_lookup"
  by code_simp+

theorem batch_payloads_witness:
  "\<exists>fl p. pr_batch_send_d (send_requests (sample_cfg 2) [Inr 0, Inr 0]
       [\<lparr>sr_topic = str_lit ''t'', sr_key = None, sr_messages = [Some [1]], sr_deferred = 0\<rparr>,
        \<lparr>sr_topic = str_lit ''t'', sr_key = None, sr_messages = [Some [2]], sr_deferred = 1\<rparr>] sample_lookup) =
       Some (Sending fl (dict_values (fl_payloads fl))) \<and> p \<in> set (dict_values (fl_payloads fl)) \<and>
     prq_messages p = [create_message (Some [1]) None, create_message (Some [2]) None]"
proof -
  let ?reqs = "[\<lparr>sr_topic = str_lit ''t'', sr_key = None, sr_messages = [Some [1]], sr_deferred = 0\<rparr>,
     \<lparr>sr_topic = str_lit ''t'', sr_key = None, sr_messages = [Some [2]], sr_deferred = 1\<rparr>]"
  have b: "bound_for sample_lookup (zip [Inr 0, Inr 0] ?reqs) (str_lit ''t'', 0) = ?reqs"
    by (simp add: bound_for_def pr_called_def sample_lookup_run(2))
  then have nb: "bound_for sample_lookup (zip [Inr 0, Inr 0] ?reqs) (str_lit ''t'', 0) \<noteq> []" by simp
  have len: "length [Inr 0, Inr 0 :: int result] = length ?reqs" by simp
  from batch_payloads [OF sample_reach [OF sample_lookup_run(1)] sample_lookup_run(3) len sample_lookup_run(4) nb]
  obtain fl where fl: "pr_batch_send_d (send_requests (sample_cfg 2) [Inr 0, Inr 0] ?reqs sample_lookup) =
      Some (Sending fl (dict_values (fl_payloads fl)))"
    and keys: "(str_lit ''t'', 0) \<in> payload_key ` set (dict_values (fl_payloads fl))"
    and ms: "\<forall>p\<in>set (dict_values (fl_payloads fl)). create_message_set (pc_codecs (sample_cfg 2))
      (bound_for sample_lookup (zip [Inr 0, Inr 0] ?reqs) (payload_key p)) (pc_codec (sample_cfg 2)) = Inr (prq_messages p)"
    using nb by blast
  from keys obtain p where p: "p \<in> set (dict_values (fl_payloads fl))" "payload_key p = (str_lit ''t'', 0)" by (metis imageE)
  have "create_message_set marking_env ?reqs CODEC_NONE = Inr (prq_messages p)"
    using bspec [OF ms p(1)] unfolding p(2) b by (simp add: sample_cfg_def)
  then have "prq_messages p = [create_message (Some [1]) None, create_message (Some [2]) None]"
    by (auto simp: create_message_set_def request_messages_def)
  with fl p(1) show ?thesis by blast
qed

section \<open>Retries\<close>

text \<open>
  Of the batch that was started last: the number of its requests, how often it was sent to the client, and how many rounds of its
  lookups were in vain.
\<close>

fun tries :: "nat \<times> nat \<times> nat \<Rightarrow> producer_effect list \<Rightarrow> nat \<times> nat \<times> nat" where
  "tries k [] = k"
| "tries k (e # es) =
     tries (case e of
              LookUp reqs \<Rightarrow> (length reqs, 0, 0)
            | Produce ps \<Rightarrow> (fst k, Suc (fst (snd k)), snd (snd k))
            | LookupAfter delay \<Rightarrow> (fst k, fst (snd k), Suc (snd (snd k)))
            | _ \<Rightarrow> k) es"

abbreviation tries_of :: "producer_effect list \<Rightarrow> nat \<times> nat \<times> nat" where
  "tries_of \<equiv> tries (0, 0, 0)"

lemma tries_append [simp]: "tries k (xs @ ys) = tries (tries k xs) ys"
  by (induction k xs rule: tries.induct) auto

fun in_budget :: "producer_config \<Rightarrow> nat \<times> nat \<times> nat \<Rightarrow> bool" where
  "in_budget cfg (n, p, l) \<longleftrightarrow> (p \<le> 1 \<or> int (p + l) \<le> pc_max_attempts cfg) \<and> int l \<le> max 0 (pc_max_attempts cfg + int n - 1)"

definition tries_ok :: "producer_config \<Rightarrow> producer_effect list \<Rightarrow> bool" where
  "tries_ok cfg es \<longleftrightarrow> (\<forall>xs ys. es = xs @ ys \<longrightarrow> in_budget cfg (tries_of xs))"

lemma tries_ok_now: "tries_ok cfg es \<Longrightarrow> in_budget cfg (tries_of es)"
  by (simp add: tries_ok_def)

lemma tries_ok_emit [simp]:
  "tries_ok cfg (es @ [e]) \<longleftrightarrow> tries_ok cfg es \<and> in_budget cfg (tries_of (es @ [e]))"
proof
  assume ok: "tries_ok cfg (es @ [e])"
  then have "in_budget cfg (tries_of xs)" if "es = xs @ ys" for xs ys
    using that ok by (auto simp: tries_ok_def dest: spec [of _ xs])
  then show "tries_ok cfg es \<and> in_budget cfg (tries_of (es @ [e]))"
    using tries_ok_now [OF ok] by (simp add: tries_ok_def)
next
  assume a: "tries_ok cfg es \<and> in_budget cfg (tries_of (es @ [e]))"
  show "tries_ok cfg (es @ [e])"
    unfolding tries_ok_def
  proof (intro allI impI)
    fix xs ys assume "es @ [e] = xs @ ys"
    then show "in_budget cfg (tries_of xs)"
      using a by (cases ys rule: rev_cases) (auto simp: tries_ok_def)
  qed
qed

lemma tries_ok_emit2 [simp]:
  "tries_ok cfg (es @ [e, f]) \<longleftrightarrow> tries_ok cfg (es @ [e]) \<and> in_budget cfg (tries_of (es @ [e, f]))"
  using tries_ok_emit [of cfg "es @ [e]" f] by simp

text \<open>The attempts are those of the batch in flight: its rounds in vain and its requests to the client.\<close>

fun phase_tries :: "producer_config \<Rightarrow> producer \<Rightarrow> bool" where
  "phase_tries cfg s =
     (case tries_of (pr_log s) of (n, p, l) \<Rightarrow>
        (case pr_batch_send_d s of
           None \<Rightarrow> pr_req_attempts s = 0 \<and> pr_loads s = 0
         | Some (Partitioning reqs) \<Rightarrow>
             n = length reqs \<and> p = 0 \<and> pr_req_attempts s = int l \<and>
             pr_req_attempts s + int (pr_loads s) \<le> max 0 (pc_max_attempts cfg + int n - 1)
         | Some (Sending fl ps) \<Rightarrow> pr_req_attempts s = int (p + l) \<and> pr_loads s = 0
         | Some (RetryDelay fl ps) \<Rightarrow> pr_req_attempts s = int (p + l) \<and> pr_req_attempts s < pc_max_attempts cfg \<and> pr_loads s = 0))"

definition att_inv :: "producer_config \<Rightarrow> producer \<Rightarrow> bool" where
  "att_inv cfg s \<longleftrightarrow> tries_ok cfg (pr_log s) \<and> phase_tries cfg s"

lemma fires_only:
  "\<forall>e\<in>set es. \<exists>d r. e = PFired d r \<Longrightarrow> tries k es = k"
  "\<forall>e\<in>set es. \<exists>d r. e = PFired d r \<Longrightarrow> tries_ok cfg l \<Longrightarrow> tries_ok cfg (l @ es)"
proof -
  show t: "tries k es = k" if "\<forall>e\<in>set es. \<exists>d r. e = PFired d r" for k es using that by (induction k es rule: tries.induct) auto
  show "tries_ok cfg (l @ es)" if "\<forall>e\<in>set es. \<exists>d r. e = PFired d r" "tries_ok cfg l"
    using that
  proof (induction es rule: rev_induct)
    case (snoc e es)
    then show ?case using tries_ok_now [of cfg "l @ es"] t [of es] by (auto simp flip: append_assoc)
  qed simp
qed

lemma att_fires:
  assumes "att_inv cfg s" "pr_log t = pr_log s @ es" "\<forall>e\<in>set es. \<exists>d r. e = PFired d r"
    and "pr_batch_send_d t = pr_batch_send_d s" "pr_req_attempts t = pr_req_attempts s" "pr_loads t = pr_loads s"
  shows "att_inv cfg t"
proof -
  have "tries_of (pr_log t) = tries_of (pr_log s)" by (simp only: assms(2) tries_append fires_only(1) [OF assms(3)])
  then have "phase_tries cfg t = phase_tries cfg s" by (simp only: phase_tries.simps assms(4-6))
  with assms(1) fires_only(2) [OF assms(3)] show ?thesis by (simp add: att_inv_def assms(2) del: phase_tries.simps)
qed

lemma att_settles: "settles D s t \<Longrightarrow> att_inv cfg s \<Longrightarrow> att_inv cfg t"
  unfolding settles_def by (elim exE conjE, erule att_fires) simp_all

lemma att_complete:
  assumes "tries_ok cfg (pr_log s)" "pr_loads s = 0"
  shows "att_inv cfg (complete_batch_send cfg s)"
  using assms by (auto simp: complete_batch_send_def check_send_batch_def send_batch_def pr_emit_def att_inv_def split: prod.splits)

lemma att_settled_complete:
  "settles D s t \<Longrightarrow> att_inv cfg s \<Longrightarrow> pr_loads s = 0 \<Longrightarrow> att_inv cfg (complete_batch_send cfg t)"
  using att_settles [of D s t cfg] att_complete [of cfg t] by (auto simp: att_inv_def settles_def)

lemma att_retry:
  assumes "distinct (pr_outstanding s)" "att_inv cfg s" "pr_batch_send_d s = Some (Sending fl' ps)"
  shows "att_inv cfg (check_retry_payloads cfg fl failed s)"
proof (cases "pr_req_attempts s \<ge> pc_max_attempts cfg")
  case True
  have "pr_loads s = 0" using assms(2,3) by (simp add: att_inv_def split: prod.splits)
  with True show ?thesis
    using att_settled_complete [OF fail_payloads_settles [OF assms(1)] assms(2)] by (simp add: check_retry_payloads_def)
next
  case False
  then show ?thesis
    using assms(2,3) tries_ok_now [of cfg "pr_log s"]
    by (auto simp: check_retry_payloads_def Let_def pr_emit_def att_inv_def split: prod.splits)
qed

lemma att_finish:
  assumes "distinct (pr_outstanding s)" "att_inv cfg s" "pr_batch_send_d s = Some (Sending fl' ps)"
  shows "att_inv cfg (finish_results cfg fl rs failed s)"
proof -
  obtain failed' t where sr: "sort_results fl rs failed s = (failed', t)" by force
  note st = sort_results_settles [OF assms(1) sr, THEN conjunct1]
  have t: "pr_batch_send_d t = Some (Sending fl' ps)" using st assms(3) by (auto simp: settles_def)
  have "pr_loads s = 0" using assms(2,3) by (simp add: att_inv_def split: prod.splits)
  then show ?thesis
    using att_settled_complete [OF st assms(2)] att_retry [OF settles_outstanding(2) [OF st assms(1)] att_settles [OF st assms(2)] t]
    by (simp add: finish_results_def sr)
qed

lemma att_handle:
  assumes "distinct (pr_outstanding s)" "att_inv cfg s" "pr_batch_send_d s = Some (Sending fl ps)"
  shows "att_inv cfg (handle_send_response cfg fl result s)"
proof -
  have "pr_loads s = 0" using assms(2,3) by (simp add: att_inv_def split: prod.splits)
  then show ?thesis
    using att_finish [OF assms] att_settled_complete [OF deliver_settles [OF assms(1)] assms(2)]
    by (simp add: handle_send_response_def split: sum.split outcome.split)
qed

lemma att_send_requests:
  assumes inv: "pr_inv Z cfg s" and att: "att_inv cfg s" and ph: "pr_batch_send_d s = Some (Partitioning reqs)"
    and len: "length parts = length reqs" and idle: "pr_loads s = 0"
  shows "att_inv cfg (send_requests cfg parts reqs s)"
proof -
  have base: "pr_base s" and dist: "distinct (map sr_deferred reqs)" using inv ph by (simp_all add: pr_inv_def batch_ok_def)
  obtain groups t where g: "group_requests (zip parts reqs) [] s = (groups, t)" by force
  note st = group_requests_batch(1) [OF g base_distinct [OF base] dist len]
  have "att_inv cfg t" "pr_batch_send_d t = Some (Partitioning reqs)" "pr_loads t = 0"
    using att_settles [OF st att] st ph idle by (auto simp: settles_def)
  then have "att_inv cfg (produce fl ps t)" for fl ps
    using tries_ok_now [of cfg "pr_log t"] by (auto simp: att_inv_def produce_def pr_emit_def split: prod.splits)
  then show ?thesis
    using att_settled_complete [OF st att idle] by (simp add: send_requests_def g split: sum.split)
qed

lemma att_cancel: "att_inv cfg s \<Longrightarrow> att_inv cfg (cancel_send_messages d s)"
  by (erule att_fires [where es = "[PFired d (Errback (CancelledError
        (Some (find (\<lambda>req. sr_deferred req = d) (pr_batch_reqs s) = None \<and> pr_batch_send_d s \<noteq> None))))]"])
    (simp_all add: cancel_send_messages_def pr_fire_def pr_emit_def split: option.split)

lemma att_cancel_outstanding: "att_inv cfg s \<Longrightarrow> att_inv cfg (cancel_outstanding s)"
proof -
  have "att_inv cfg s \<Longrightarrow> att_inv cfg (foldl (\<lambda>s d. if pr_called s d then s else cancel_send_messages d s) s ds)" for ds
    by (induction ds arbitrary: s) (auto intro: att_cancel)
  then show "att_inv cfg s \<Longrightarrow> att_inv cfg (cancel_outstanding s)" by (simp add: cancel_outstanding_def)
qed

lemma att_send_batch: "att_inv cfg s \<Longrightarrow> att_inv cfg (send_batch s)"
  by (auto simp: send_batch_def pr_emit_def att_inv_def split: prod.splits)

lemma att_fields:
  "att_inv cfg (s\<lparr>pr_stopping := b\<rparr>) = att_inv cfg s" "att_inv cfg (s\<lparr>pr_sendLooper := b\<rparr>) = att_inv cfg s"
  "att_inv cfg (s\<lparr>pr_next_d := n, pr_batch_reqs := rs, pr_waitingMsgCount := i, pr_waitingByteCount := j, pr_outstanding := ds\<rparr>) =
     att_inv cfg s"
  by (simp_all add: att_inv_def split: option.split batch_phase.split)

lemma att_fewer_loads: "att_inv cfg s \<Longrightarrow> n \<le> pr_loads s \<Longrightarrow> att_inv cfg (s\<lparr>pr_loads := n\<rparr>)"
  by (cases "pr_batch_send_d s" rule: flying.cases) (auto simp: att_inv_def split: prod.splits)

lemma att_cancel_batch:
  assumes "pr_inv Z cfg s" "att_inv cfg s" "pr_loads s = 0"
    and "\<And>reqs. pr_batch_send_d s = Some (Partitioning reqs) \<Longrightarrow> length parts = length reqs"
  shows "att_inv cfg (cancel_batch cfg parts result s)"
proof -
  have dist: "distinct (pr_outstanding s)" using assms(1) by (simp add: pr_inv_def base_distinct)
  show ?thesis
    using assms(2-4) att_send_requests [OF assms(1,2)] att_handle [OF dist assms(2)]
      att_settled_complete [OF deliver_settles [OF dist] assms(2)]
    by (auto simp: cancel_batch_def split: option.split batch_phase.split)
qed

lemma att_step: "pr_step cfg s e t \<Longrightarrow> pr_inv Z cfg s \<Longrightarrow> att_inv cfg s \<Longrightarrow> att_inv cfg t"
proof (induction rule: pr_step.induct)
  case (step_send tp k ms s d s')
  then show ?case
    by (auto simp: send_messages_def Let_def rbind_eq_Inr check_send_batch_def att_fields intro: att_send_batch
        split: if_splits)
next
  case (step_load s reqs topic)
  then show ?case using tries_ok_now [of cfg "pr_log s"]
    by (auto simp: lookup_load_def pr_emit_def att_inv_def split: prod.splits)
next
  case (step_round s reqs)
  then show ?case using tries_ok_now [of cfg "pr_log s"]
    by (auto simp: lookup_round_def pr_emit_def att_inv_def split: prod.splits)
next
  case (step_retry s fl payloads)
  then show ?case using tries_ok_now [of cfg "pr_log s"]
    by (auto simp: produce_def pr_emit_def att_inv_def split: prod.splits)
next
  case (step_answer s fl payloads result)
  then show ?case by (intro att_handle) (simp_all add: pr_inv_def base_distinct)
next
  case (step_stop s parts result)
  then have "att_inv cfg (cancel_batch cfg parts result (s\<lparr>pr_loads := 0, pr_stopping := True\<rparr>))"
    by (intro att_cancel_batch [where Z = Z]) (simp_all add: att_fields att_fewer_loads)
  then show ?case by (simp add: producer_stop_def Let_def att_cancel_outstanding att_fields)
qed (auto intro: att_cancel att_send_batch att_send_requests att_fewer_loads)

lemma att_init: "att_inv cfg (producer_init cfg)"
  by (simp add: producer_init_def att_inv_def tries_ok_def)

interpretation prod_retry: step_machine "\<lambda>s. s = producer_init cfg" "pr_step cfg" "\<lambda>s. pr_inv UNIV cfg s \<and> att_inv cfg s" for cfg
  by unfold_locales (auto simp: pr_init_inv att_init intro: pr_step_inv att_step)

text \<open>
  C13. Retries are bounded: at every point of a run the batch that was started last has been sent to the client at most once, or the
  times that it was sent and the rounds of its partition lookups that were in vain are at most
  \<open>max_req_attempts\<close> together. The rounds in vain alone never exceed \<open>max_req_attempts\<close> by more than the number of requests of
  the batch less one, as each of its lookups may have loaded metadata when the last attempt was counted. While a retry waits,
  \<open>_req_attempts\<close> is the number of times and rounds, and is below \<open>max_req_attempts\<close>.
\<close>

theorem attempts_bounded:
  assumes "pr_reach cfg s" "pr_log s = xs @ ys" "tries_of xs = (n, p, l)"
  shows "(p \<le> 1 \<or> int (p + l) \<le> pc_max_attempts cfg) \<and> int l \<le> max 0 (pc_max_attempts cfg + int n - 1) \<and>
    (\<forall>fl ps. ys = [] \<and> pr_batch_send_d s = Some (RetryDelay fl ps) \<longrightarrow>
       pr_req_attempts s = int (p + l) \<and> int (p + l) < pc_max_attempts cfg)"
proof -
  have inv: "tries_ok cfg (pr_log s)" "phase_tries cfg s" using prod_retry.reach_invar [OF assms(1)] by (simp_all add: att_inv_def)
  then have "in_budget cfg (tries_of xs)" using assms(2) unfolding tries_ok_def by blast
  then show ?thesis using inv(2) assms(2,3) by auto
qed

definition sample_payload :: "int \<Rightarrow> byte \<Rightarrow> produce_request" where
  "sample_payload p b = \<lparr>prq_topic = str_lit ''t'', prq_partition = p, prq_messages = [create_message (Some [b]) None]\<rparr>"

definition failing_run :: "producer_event list" where
  "failing_run = two_sends @ [LookupLoad (str_lit ''t''), LookupRound, PartitionsFound [Inr 0, Inr 1],
     Answer (Inr (FailedPayloads [sample_ack 0 0] [(sample_payload 1 2, BrokerResponse RequestTimedOutError)])), RetryTime,
     Answer (Inl KafkaUnavailableError), RetryTime]"

definition sample_resent :: producer where
  "sample_resent = the (pr_run (sample_cfg 5) (producer_init (sample_cfg 5)) failing_run)"

lemma sample_resent_run:
  "pr_run (sample_cfg 5) (producer_init (sample_cfg 5)) failing_run = Some sample_resent"
  "pr_log sample_resent =
     [LookUp [\<lparr>sr_topic = str_lit ''t'', sr_key = None, sr_messages = [Some [1]], sr_deferred = 0\<rparr>,
        \<lparr>sr_topic = str_lit ''t'', sr_key = None, sr_messages = [Some [2]], sr_deferred = 1\<rparr>],
      LoadTopic (str_lit ''t''), LookupAfter (1 / 4),
      Produce [sample_payload 0 1, sample_payload 1 2], PFired 0 (Callback (Some (sample_ack 0 0))),
      RetryAfter (1 / 4 * RETRY_INTERVAL_FACTOR),
      Produce [sample_payload 1 2], RetryAfter (1 / 4 * RETRY_INTERVAL_FACTOR * RETRY_INTERVAL_FACTOR),
      Produce [sample_payload 0 1, sample_payload 1 2]]"
  by code_simp+

theorem attempts_bounded_witness:
  "tries_of (pr_log sample_resent) = (2, 3, 1) \<and> 3 + 1 \<le> pc_max_attempts (sample_cfg 5)"
proof -
  have t: "tries_of (pr_log sample_resent) = (2, 3, 1)" by (simp add: sample_resent_run(2))
  with attempts_bounded [OF sample_reach [OF sample_resent_run(1)], of "pr_log sample_resent" "[]" 2 3 1] show ?thesis by simp
qed

text \<open>
  Messages that a broker has acknowledged are sent again: there are runs in which the deferred of a
  request fires with its acknowledgement and a later retry of the same batch sends the payload of that
  partition once more. It happens when the client fails as a whole on a retry, because
  \<open>_handle_send_response\<close> then retries all the payloads of the batch and not those of the retry.
\<close>

theorem acknowledged_payload_resent:
  "\<exists>cfg s xs d r ys ps. pr_reach cfg s \<and> pr_log s = xs @ PFired d (Callback (Some r)) # ys @ [Produce ps] \<and>
     prs_error r = 0 \<and> response_key r \<in> payload_key ` set ps \<and> (\<forall>reqs. LookUp reqs \<notin> set ys)"
proof -
  let ?ps = "[sample_payload 0 1, sample_payload 1 2]"
  let ?ys = "[RetryAfter (1 / 4 * RETRY_INTERVAL_FACTOR), Produce [sample_payload 1 2],
      RetryAfter (1 / 4 * RETRY_INTERVAL_FACTOR * RETRY_INTERVAL_FACTOR)]"
  have "pr_log sample_resent = take 4 (pr_log sample_resent) @ PFired 0 (Callback (Some (sample_ack 0 0))) # ?ys @ [Produce ?ps]"
    by (simp add: sample_resent_run(2))
  moreover have "response_key (sample_ack 0 0) \<in> payload_key ` set ?ps" "prs_error (sample_ack 0 0) = 0" by code_simp+
  moreover have "LookUp reqs \<notin> set ?ys" for reqs by simp
  ultimately show ?thesis using sample_reach [OF sample_resent_run(1)] by blast
qed

section \<open>How deferreds fire\<close>

lemma deliver_log: "\<exists>es. pr_log (deliver_result ds r s) = pr_log s @ es"
proof (induction ds arbitrary: s)
  case (Cons d ds)
  show ?case using Cons.IH [of s] Cons.IH [of "pr_fire d r s"]
    by (auto simp: deliver_result_def pr_fire_def pr_emit_def)
qed (simp add: deliver_result_def)

lemma deliver_fires:
  "d \<in> set ds \<Longrightarrow> d \<in> set (pr_outstanding s) \<Longrightarrow> PFired d r \<in> set (pr_log (deliver_result ds r s))"
proof (induction ds arbitrary: s)
  case (Cons x ds)
  let ?s = "if pr_called s x then s else pr_fire x r s"
  have eq: "deliver_result (x # ds) r s = deliver_result ds r ?s" by (simp add: deliver_result_def)
  show ?case
  proof (cases "x = d")
    case True
    then have "PFired d r \<in> set (pr_log ?s)" using Cons.prems by (simp add: pr_called_def pr_fire_def pr_emit_def)
    then show ?thesis using deliver_log [of ds r ?s] unfolding eq by auto
  next
    case False
    then have "d \<in> set (pr_outstanding ?s)" using Cons.prems(2) by (simp add: pr_fire_def pr_emit_def)
    with False Cons show ?thesis unfolding eq by simp
  qed
qed simp

lemma complete_log: "set (pr_log s) \<subseteq> set (pr_log (complete_batch_send cfg s))"
  by (auto simp: complete_batch_send_def check_send_batch_def send_batch_def pr_emit_def)

text \<open>
  When the answer is a response with an error code and no attempts are left, the deferreds
  of the requests for its partition do not fail: they are called back with the exception object as an
  ordinary result. (The exception is not wrapped in a \<open>Failure\<close>, unlike those of the client.)
\<close>

theorem exhausted_error_is_a_result:
  assumes "pr_reach cfg s" "pr_batch_send_d s = Some (Sending fl ps)" "pc_max_attempts cfg \<le> pr_req_attempts s"
    and "raise_for_errno (prs_error r) = Inl e" "p \<in> set ps" "payload_key p = response_key r"
    and "d \<in> set (deferreds_of fl (payload_key p))" "d \<in> set (pr_outstanding s)"
  shows "PFired d (ErrorValue e) \<in> set (pr_log (handle_send_response cfg fl (Inr (Responses [r])) s))"
proof -
  have fl: "flight_ok fl ps" using sending_facts [OF prod.reach_invar [OF assms(1)] assms(2)] by simp
  then have "(payload_key p, p) \<in> set (fl_payloads fl)" using assms(5) by (force simp: flight_ok_def)
  then have "dict_get (fl_payloads fl) (response_key r) = Some p"
    using fl assms(6) dict_get_in [of "fl_payloads fl"] by (simp add: flight_ok_def)
  then have "sort_results fl [r] [] s = ([(p, AsError e)], s)" using assms(4) by (simp add: response_key_def)
  then have "handle_send_response cfg fl (Inr (Responses [r])) s =
      complete_batch_send cfg (deliver_result (deferreds_of fl (payload_key p)) (ErrorValue e) s)"
    using assms(3) by (simp add: handle_send_response_def finish_results_def check_retry_payloads_def)
  then show ?thesis using deliver_fires [OF assms(7,8)] complete_log by fastforce
qed

definition sample_last :: producer where
  "sample_last = the (pr_run (sample_cfg 1) (producer_init (sample_cfg 1)) (two_sends @ [PartitionsFound [Inr 0, Inr 0]]))"

definition sample_last_flight :: flight where
  "sample_last_flight =
     \<lparr>fl_payloads = [((str_lit ''t'', 0), \<lparr>prq_topic = str_lit ''t'', prq_partition = 0,
         prq_messages = [create_message (Some [1]) None, create_message (Some [2]) None]\<rparr>)],
      fl_deferreds = [((str_lit ''t'', 0), [0, 1])]\<rparr>"

theorem exhausted_error_is_a_result_witness:
  "PFired 1 (ErrorValue (BrokerResponse NotLeaderForPartitionError))
     \<in> set (pr_log (handle_send_response (sample_cfg 1) sample_last_flight (Inr (Responses [sample_ack 0 6])) sample_last))"
proof -
  let ?p = "\<lparr>prq_topic = str_lit ''t'', prq_partition = 0,
         prq_messages = [create_message (Some [1]) None, create_message (Some [2]) None]\<rparr>"
  have run: "pr_run (sample_cfg 1) (producer_init (sample_cfg 1)) (two_sends @ [PartitionsFound [Inr 0, Inr 0]]) = Some sample_last"
    by code_simp
  have ph: "pr_batch_send_d sample_last = Some (Sending sample_last_flight [?p])" by code_simp
  have att: "pc_max_attempts (sample_cfg 1) \<le> pr_req_attempts sample_last" by code_simp
  have err: "raise_for_errno (prs_error (sample_ack 0 6)) = Inl (BrokerResponse NotLeaderForPartitionError)" by code_simp
  have key: "payload_key ?p = response_key (sample_ack 0 6)" by code_simp
  have d: "1 \<in> set (deferreds_of sample_last_flight (payload_key ?p))" "1 \<in> set (pr_outstanding sample_last)" by code_simp+
  show ?thesis
    by (rule exhausted_error_is_a_result [OF sample_reach [OF run] ph att err _ key d]) simp
qed

text \<open>
  C15. \<open>stop\<close> leaves no caller waiting: in the state after it every deferred that \<open>send_messages\<close> ever
  returned has fired exactly once, and no batch waits.
\<close>

theorem stop_fires_all:
  assumes "pr_reach cfg s" "pr_step cfg s (StopProducer parts result) t"
  shows "pr_outstanding t = [] \<and> pr_batch_reqs t = [] \<and> (\<forall>d<pr_next_d t. pfires d (pr_log t) = 1)"
proof -
  have "pr_reach cfg t" using assms by (rule reach_step)
  from prod.reach_invar [OF this] have inv: "pr_base t" by (simp add: pr_inv_def)
  have "pr_inv UNIV cfg (s\<lparr>pr_loads := 0\<rparr>)" using prod.reach_invar [OF assms(1)] by simp
  from assms(2) producer_stop_inv(1) [OF this] have "pr_outstanding t = []" by (cases rule: pr_step.cases) simp
  with inv show ?thesis by (auto simp: pr_base_def deferreds_ok_def)
qed

theorem stop_fires_all_witness:
  "map (\<lambda>d. pfires d (pr_log (producer_stop (sample_cfg 2) [Inr 0, Inl TwistedCancelledError] (Inl ClientError) sample_lookup))) [0, 1] = [1, 1]"
proof -
  have idle: "sample_lookup\<lparr>pr_loads := 0\<rparr> = sample_lookup" by code_simp
  let ?t = "producer_stop (sample_cfg 2) [Inr 0, Inl TwistedCancelledError] (Inl ClientError) sample_lookup"
  have "pr_apply (sample_cfg 2) sample_lookup (StopProducer [Inr 0, Inl TwistedCancelledError] (Inl ClientError)) = Some ?t"
    by (subst pr_apply_def) (simp add: idle, code_simp)
  from stop_fires_all [OF sample_reach [OF sample_lookup_run(1)] pr_apply_step [OF this]]
  have "\<forall>d<pr_next_d ?t. pfires d (pr_log ?t) = 1" by blast
  moreover have "pr_next_d ?t = 2" by code_simp
  ultimately show ?thesis by simp
qed

text \<open>
  The flag \<open>stopping\<close> is never read: a request that was in flight when \<open>stop\<close> cancelled it, and that ends in a
  \<open>KafkaError\<close>, is scheduled again, and the messages are sent after the producer has stopped.
\<close>

theorem stopped_producer_sends:
  "\<exists>cfg s t ps. pr_reach cfg s \<and> pr_stopping s \<and> pr_outstanding s = [] \<and> pr_step cfg s RetryTime t \<and>
     pr_log t = pr_log s @ [Produce ps] \<and> ps \<noteq> []"
proof -
  let ?es = "two_sends @ [PartitionsFound [Inr 0, Inr 1], StopProducer [] (Inl (CancelledError (Some True)))]"
  define s where "s = the (pr_run (sample_cfg 2) (producer_init (sample_cfg 2)) ?es)"
  define t where "t = the (pr_apply (sample_cfg 2) s RetryTime)"
  have run: "pr_run (sample_cfg 2) (producer_init (sample_cfg 2)) ?es = Some s" unfolding s_def by code_simp
  have step: "pr_apply (sample_cfg 2) s RetryTime = Some t" unfolding t_def s_def by code_simp
  have "pr_stopping s \<and> pr_outstanding s = []" unfolding s_def by code_simp
  moreover have "pr_log t = pr_log s @ [Produce [sample_payload 0 1, sample_payload 1 2]]" unfolding t_def s_def by code_simp
  ultimately show ?thesis using sample_reach [OF run] pr_apply_step [OF step] by blast
qed

text \<open>
  A request that is cancelled while the partitions of its batch are looked up fails with
  \<open>request_sent=True\<close>, although no produce request of the batch has been made.
\<close>

theorem cancel_in_lookup_says_sent:
  assumes "pr_reach cfg s" "pr_batch_send_d s = Some (Partitioning reqs)" "d \<in> set (pr_outstanding s)" "d \<in> sr_deferred ` set reqs"
  shows "cancel_send_messages d s = pr_fire d (Errback (CancelledError (Some True))) s" "\<exists>n l. tries_of (pr_log s) = (n, 0, l)"
proof -
  have "pr_inv UNIV cfg s" "att_inv cfg s" using prod_retry.reach_invar [OF assms(1)] by simp_all
  then show "\<exists>n l. tries_of (pr_log s) = (n, 0, l)" using assms(2) by (auto simp: att_inv_def split: prod.splits)
  have "d \<notin> waiting_ds s" using \<open>pr_inv UNIV cfg s\<close> assms(2,4) by (auto simp: pr_inv_def batch_ok_def)
  then have "find (\<lambda>req. sr_deferred req = d) (pr_batch_reqs s) = None" by (auto simp: find_None_iff)
  then show "cancel_send_messages d s = pr_fire d (Errback (CancelledError (Some True))) s"
    using assms(2) by (simp add: cancel_send_messages_def)
qed

text \<open>
  When a message set cannot be built the batch ends, but the deferreds of its requests stay open.
\<close>

theorem pack_error_strands:
  assumes "group_requests (zip parts reqs) [] s = (groups, t)" "make_payloads cfg groups = Inl e" "pr_batch_reqs t = []"
  shows "pr_batch_send_d (send_requests cfg parts reqs s) = None" "pr_log (send_requests cfg parts reqs s) = pr_log t"
    "pr_outstanding (send_requests cfg parts reqs s) = pr_outstanding t"
  using assms by (simp_all add: send_requests_def complete_batch_send_def check_send_batch_def send_batch_def)

section \<open>Looking up a partition\<close>

text \<open>
  C37. \<open>_next_partition\<close> ends: it loads the metadata at most as often as attempts are left. When it goes on to
  choose a partition, the topic's error code was 0 when last read; when it raises the error of the
  topic instead of an error of a load, the attempts are used up.
\<close>

theorem lookup_terminates:
  "case await_metadata cfg env k attempts interval of ((k', attempts', interval'), r) \<Rightarrow>
     k \<le> k' \<and> int (k' - k) \<le> max 0 (pc_max_attempts cfg - attempts) \<and> attempts \<le> attempts' \<and>
     (case r of
        Inr u \<Rightarrow> le_before env k' = 0 \<or> k < k' \<and> le_after env (k' - 1) = 0
      | Inl e \<Rightarrow> k < k' \<and> le_load env (k' - 1) = Some e \<or>
          pc_max_attempts cfg \<le> attempts' \<and> le_before env k' \<noteq> 0 \<and> raise_for_errno (le_before env k') = Inl e)"
proof (induction cfg env k attempts interval rule: await_metadata.induct)
  case (1 cfg env k attempts interval)
  show ?case
  proof (cases "le_before env k \<noteq> 0 \<and> attempts < pc_max_attempts cfg \<and> le_load env k = None \<and> le_after env k \<noteq> 0")
    case True
    then show ?thesis
      using 1 by (subst await_metadata.simps) (auto split: prod.splits sum.splits)
  next
    case False
    then show ?thesis
      by (subst await_metadata.simps) (auto split: option.splits sum.splits simp: raise_for_errno_def)
  qed
qed

end
