(* ===== verification/Produce_Path.thy ===== *)
theory Produce_Path
  imports Producer_Steps
begin

text \<open>
  The way of a message from \<open>Producer.send_messages\<close> to a broker: the producer packs a batch into one payload per
  partition, the client groups the payloads by the leaders of their partitions and encodes one request per broker, and
  the broker reads the request.
\<close>

section \<open>The requests of one batch\<close>

lemma one_list_has:
  assumes "distinct (map f (concat xss))" "x \<in> set (concat xss)"
  shows "length (filter (\<lambda>xs. f x \<in> f ` set xs) xss) = 1"
  using assms
proof (induction xss)
  case (Cons xs xss)
  from Cons.prems(1) have disj: "f ` set xs \<inter> f ` set (concat xss) = {}" by (auto simp: distinct_map)
  show ?case
  proof (cases "f x \<in> f ` set xs")
    case True
    then have "f x \<notin> f ` set (concat xss)" using disj by blast
    then have "filter (\<lambda>ys. f x \<in> f ` set ys) xss = []" by (auto simp: filter_empty_conv)
    with True show ?thesis by simp
  next
    case False
    with Cons show ?thesis by auto
  qed
qed simp

lemma distinct_map_concat_part:
  "distinct (map f (concat (map (snd \<circ> snd) sent))) \<Longrightarrow> (n, d, ps) \<in> set sent \<Longrightarrow> distinct (map f ps)"
  by (induction sent) (auto simp: distinct_map inj_on_def)

lemma group_of_payload:
  assumes "route env g key payloads [] s = (s1, Inr groups)" "i < length payloads" "distinct payloads"
  shows "\<exists>ps. (routed_to env g key payloads s ! i, ps) \<in> set groups \<and> payloads ! i \<in> set ps \<and> set ps \<subseteq> set payloads"
proof -
  let ?leaders = "routed_to env g key payloads s"
  note l = route_covers [OF assms(1)]
  have "payloads ! i \<in> set (concat (map snd groups))" using assms(2) l(4) by (metis mset_eq_setD nth_mem)
  then obtain b ps where ps: "(b, ps) \<in> set groups" "payloads ! i \<in> set ps" by auto
  with l(3) have eq: "ps = map snd (filter (\<lambda>(l, p). l = b) (zip ?leaders payloads))" by blast
  with ps(2) have "(b, payloads ! i) \<in> set (zip ?leaders payloads)" by auto
  then obtain j where "j < length payloads" "?leaders ! j = b" "payloads ! j = payloads ! i" by (auto simp: set_zip)
  with assms(2,3) have "b = ?leaders ! i" by (simp add: nth_eq_iff_index_eq)
  moreover have "set ps \<subseteq> set payloads" unfolding eq by (auto dest: set_zip_rightD)
  ultimately show ?thesis using ps by blast
qed

lemma sent_to:
  assumes "send_groups env enc ex groups s = (s', Inr sent)" "(b, ps) \<in> set groups"
  shows "\<exists>c req d. (bm_node_id b, d, ps) \<in> set sent \<and> enc (kc_clientId s) c ps = Inr req \<and> asked_at s' (bm_node_id b) req d"
  using send_groups_asked [OF assms(1)] assms(2)
  by (induction groups sent rule: list_all2_induct) auto

text \<open>One payload per partition: the broker gets the message set of that payload.\<close>

lemma distinct_last_payload:
  assumes "distinct (map payload_key ps)" "p \<in> set ps"
  shows "last_payload prq_topic prq_partition ps (prq_topic p) (prq_partition p) = Some p"
proof -
  have "q = p" if "q \<in> set ps" "payload_key q = payload_key p" for q
    using assms that by (auto simp: distinct_map inj_on_def)
  moreover obtain q where "last_payload prq_topic prq_partition ps (prq_topic p) (prq_partition p) = Some q"
    using assms(2) by (cases "last_payload prq_topic prq_partition ps (prq_topic p) (prq_partition p)")
      (auto simp: last_payload_def find_None_iff)
  moreover from this have "q \<in> set ps" "payload_key q = payload_key p" using last_payload_in by (force simp: payload_key_def)+
  ultimately show ?thesis by simp
qed

text \<open>
  C3. A batch reaches the leaders of its partitions: when the client has routed and sent the payloads of a batch, for every
  partition that messages of the batch go to exactly one of the requests carries a payload for it; that request is handed to
  the client of the node that the client's cache names as the partition's leader in the state in which the lookup for this payload
  ends, and, where the cache knew the leaders of all payloads from the start, in the state before; and a broker that reads it finds the
  acknowledgement mode and timeout and a message set for the partition, which decodes, under every
  codec, to the messages that callers submitted for it and did not cancel, in the order of submission and with their keys.
\<close>

theorem produced_messages_arrive:
  assumes "pr_reach cfg s" "pr_batch_send_d s = Some (Partitioning reqs)" "length parts = length reqs"
    and "packable cfg parts reqs s" "bound_for s (zip parts reqs) tp \<noteq> []"
    and "gzip_inverse (pc_codecs cfg)" "snappy_inverse (pc_codecs cfg)" "snappy_unframed (pc_codecs cfg)"
    and "last (pr_log (send_requests cfg parts reqs s)) = Produce payloads"
    and "route env None payload_key payloads [] k = (k1, Inr groups)"
    and "send_groups env (\<lambda>cid c ps. encode_produce_request (PyBytes cid) c ps (pc_req_acks cfg) timeout) ex groups k1 = (k2, Inr sent)"
  shows "length (filter (\<lambda>(n, d, ps). tp \<in> payload_key ` set ps) sent) = 1 \<and>
    (\<exists>i b req d ps topics ms. i < length payloads \<and> payload_key (payloads ! i) = tp \<and>
       b = routed_to env None payload_key payloads k ! i \<and> named_by None tp (fst (lookups env None payload_key payloads k ! i)) b \<and>
       ((\<forall>p\<in>set payloads. \<exists>b. named_by None (payload_key p) k b) \<longrightarrow> named_by None tp k b) \<and>
       (bm_node_id b, d, ps) \<in> set sent \<and> tp \<in> payload_key ` set ps \<and>
       asked_at k2 (bm_node_id b) req d \<and>
       parse_produce_request req = Inr ((pc_req_acks cfg, timeout), topics) \<and> Requests.asked topics (fst tp) (snd tp) = Some (Some ms) \<and>
       decode_message_set_iter (pc_codecs cfg) ms =
         Some (map (\<lambda>m. \<lparr>oam_offset = 0, oam_message = m\<rparr>) (request_messages (bound_for s (zip parts reqs) tp)), Inr ()))"
proof -
  from batch_leaves [OF assms(1-5)] obtain fl :: flight and es where
    "pr_log (send_requests cfg parts reqs s) = pr_log s @ es @ [Produce (dict_values (fl_payloads fl))]"
    and fl: "distinct (map payload_key (dict_values (fl_payloads fl)))"
      "\<forall>tp. tp \<in> payload_key ` set (dict_values (fl_payloads fl)) \<longleftrightarrow> bound_for s (zip parts reqs) tp \<noteq> []"
      "\<forall>p\<in>set (dict_values (fl_payloads fl)).
         create_message_set (pc_codecs cfg) (bound_for s (zip parts reqs) (payload_key p)) (pc_codec cfg) = Inr (prq_messages p)" by blast
  then have "dict_values (fl_payloads fl) = payloads" using assms(9) by simp
  with fl assms(5) have dist: "distinct (map payload_key payloads)" and tp: "tp \<in> payload_key ` set payloads"
    and packed: "\<forall>p\<in>set payloads. create_message_set (pc_codecs cfg) (bound_for s (zip parts reqs) (payload_key p)) (pc_codec cfg) =
      Inr (prq_messages p)" by (simp_all only: not_False_eq_True)
  from tp obtain p where p: "p \<in> set payloads" "payload_key p = tp" by blast
  then obtain i where i: "i < length payloads" "payloads ! i = p" by (metis in_set_conv_nth)
  define b where "b = routed_to env None payload_key payloads k ! i"
  note named = routed_named [OF assms(10) i(1), folded b_def, unfolded i(2) p(2)]
  have "distinct payloads" using dist by (simp add: distinct_map)
  from group_of_payload [OF assms(10) i(1) this] obtain ps where b: "(b, ps) \<in> set groups" "p \<in> set ps" "set ps \<subseteq> set payloads"
    unfolding i(2) b_def [symmetric] by blast
  from sent_to [OF assms(11) b(1)] obtain c req d where r: "(bm_node_id b, d, ps) \<in> set sent"
    "encode_produce_request (PyBytes (kc_clientId k1)) c ps (pc_req_acks cfg) timeout = Inr req" "asked_at k2 (bm_node_id b) req d" by blast
  have perm: "mset (concat (map (snd \<circ> snd) sent)) = mset payloads"
    using route_covers(4) [OF assms(10)] send_groups_payloads [OF assms(11)] by metis
  then have all: "distinct (map payload_key (concat (map (snd \<circ> snd) sent)))"
    using dist by (metis mset_map mset_eq_imp_distinct_iff)
  have "p \<in> set (concat (map (snd \<circ> snd) sent))" using perm p(1) by (metis mset_eq_setD)
  from one_list_has [OF all this] have one: "length (filter (\<lambda>(n, d, ps). tp \<in> payload_key ` set ps) sent) = 1"
    by (simp add: p(2) filter_map comp_def case_prod_unfold)
  have "distinct (map payload_key ps)" using all r(1) by (metis distinct_map_concat_part)
  from distinct_last_payload [OF this b(2)] have lp: "last_payload prq_topic prq_partition ps (fst tp) (snd tp) = Some p"
    using p(2) by (auto simp: payload_key_def)
  from produce_request_sets [OF r(2)] obtain topics where topics: "parse_produce_request req = Inr ((pc_req_acks cfg, timeout), topics)"
    "case last_payload prq_topic prq_partition ps (fst tp) (snd tp) of
       None \<Rightarrow> Requests.asked topics (fst tp) (snd tp) = None
     | Some r \<Rightarrow> \<exists>ms. encode_message_set (prq_messages r) None = Inr ms \<and> Requests.asked topics (fst tp) (snd tp) = Some (Some ms)" by blast
  with lp obtain ms where ms: "encode_message_set (prq_messages p) None = Inr ms" "Requests.asked topics (fst tp) (snd tp) = Some (Some ms)"
    by auto
  have "create_message_set (pc_codecs cfg) (bound_for s (zip parts reqs) tp) (pc_codec cfg) = Inr (prq_messages p)"
    using packed p by blast
  from created_set_decodes [OF this ms(1) assms(6-8)] show ?thesis
    using one i p(2) b_def named b(2) r(1,3) topics(1) ms(2)
    by (intro conjI exI [of _ i] exI [of _ b] exI [of _ req] exI [of _ d] exI [of _ ps] exI [of _ topics] exI [of _ ms]) auto
qed

text \<open>Example: two callers submit a message each, both go to partition 0, whose leader is node 1.\<close>

definition two_requests :: "send_request list" where
  "two_requests = [\<lparr>sr_topic = str_lit ''t'', sr_key = None, sr_messages = [Some [1]], sr_deferred = 0\<rparr>,
     \<lparr>sr_topic = str_lit ''t'', sr_key = None, sr_messages = [Some [2]], sr_deferred = 1\<rparr>]"

definition two_messages :: "message list" where
  "two_messages = [create_message (Some [1]) None, create_message (Some [2]) None]"

definition one_payload :: "produce_request list" where
  "one_payload = [\<lparr>prq_topic = str_lit ''t'', prq_partition = 0, prq_messages = two_messages\<rparr>]"

abbreviation produce_encoder :: "bytes \<Rightarrow> int \<Rightarrow> produce_request list \<Rightarrow> bytes result" where
  "produce_encoder cid c ps \<equiv> encode_produce_request (PyBytes cid) c ps (pc_req_acks (sample_cfg 2)) 1000"

lemma two_messages_encode: "\<exists>ms. encode_message_set two_messages None = Inr ms \<and> length ms < 100"
proof -
  have "list_all encodable two_messages" by (simp add: two_messages_def create_message_def encodable_def)
  then obtain ms where ms: "encode_message_set two_messages None = Inr ms"
    using encode_entries_total [of two_messages 0 0] by (auto simp: encode_message_set_def)
  moreover from ms have "length ms < 100"
    using struct_pack_length_q struct_pack_length_I struct_pack_i
    by (auto simp: two_messages_def encode_message_set_def create_message_def encode_entries_Cons
        encode_message_eq_Inr struct_pack_qi write_int_string_def rbind_eq_Inr struct_unfold pack_code_def split: if_splits)
  ultimately show ?thesis by blast
qed

lemma one_payload_sent:
  "route example_env None payload_key one_payload [] example_client = (example_client, Inr [(example_broker 1, one_payload)])"
  "\<exists>k2 sent. send_groups example_env produce_encoder True [(example_broker 1, one_payload)] example_client = (k2, Inr sent)"
proof -
  show "route example_env None payload_key one_payload [] example_client = (example_client, Inr [(example_broker 1, one_payload)])"
    by (simp add: one_payload_def payload_key_def example_client_def example_broker_def broker_of_def get_leader_for_partition_def leader_def)
  obtain ms where ms: "encode_message_set two_messages None = Inr ms" "length ms < 100" using two_messages_encode by blast
  show "\<exists>k2 sent. send_groups example_env produce_encoder True [(example_broker 1, one_payload)] example_client = (k2, Inr sent)"
    using ms by (simp add: one_payload_def example_client_def example_broker_def fresh_client_simps get_brokerclient_def next_id_def
        make_request_to_broker_def bc_makeRequest_def bc_init_def bc_connect_def try_connect_def emit_def Let_def sample_cfg_def
        encode_produce_request_def PRODUCE_KEY_def group_by_topic_and_partition_def
        group_step_def encode_topics_def encode_topic_def encode_produce_item_def wire_eval)
qed

lemma one_payload_produced:
  "last (pr_log (send_requests (sample_cfg 2) [Inr 0, Inr 0] two_requests sample_lookup)) = Produce one_payload"
  unfolding two_requests_def one_payload_def two_messages_def by code_simp

theorem produced_messages_arrive_witness:
  "\<exists>k2 req d topics ms. asked_at k2 1 req d \<and> parse_produce_request req = Inr ((1, 1000), topics) \<and>
     Requests.asked topics (str_lit ''t'') 0 = Some (Some ms) \<and>
     decode_message_set_iter marking_env ms =
       Some ([\<lparr>oam_offset = 0, oam_message = create_message (Some [1]) None\<rparr>,
              \<lparr>oam_offset = 0, oam_message = create_message (Some [2]) None\<rparr>], Inr ())"
proof -
  have b: "bound_for sample_lookup (zip [Inr 0, Inr 0] two_requests) (str_lit ''t'', 0) = two_requests"
    by (simp add: two_requests_def bound_for_def pr_called_def sample_lookup_run(2))
  then have nb: "bound_for sample_lookup (zip [Inr 0, Inr 0] two_requests) (str_lit ''t'', 0) \<noteq> []" by (simp add: two_requests_def)
  have len: "length [Inr 0, Inr 0 :: int result] = length two_requests" by (simp add: two_requests_def)
  have codecs: "pc_codecs (sample_cfg 2) = marking_env" "pc_req_acks (sample_cfg 2) = 1" by (simp_all add: sample_cfg_def)
  note laws = marking_env_laws [folded codecs(1)]
  from one_payload_sent(2) obtain k2 sent
    where sent: "send_groups example_env produce_encoder True [(example_broker 1, one_payload)] example_client = (k2, Inr sent)" by blast
  have known: "\<forall>p\<in>set one_payload. \<exists>b. named_by None (payload_key p) example_client b"
    by (simp add: one_payload_def payload_key_def named_by_def leader_def example_client_def)
  from produced_messages_arrive [OF sample_reach [OF sample_lookup_run(1)] sample_lookup_run(3) [folded two_requests_def] len
      sample_lookup_run(4) [folded two_requests_def] nb laws(3,1,2) one_payload_produced one_payload_sent(1) sent] known
  obtain b :: broker_metadata and req d topics ms where r: "named_by None (str_lit ''t'', 0) example_client b" "asked_at k2 (bm_node_id b) req d"
    "parse_produce_request req = Inr ((1, 1000), topics)" "Requests.asked topics (str_lit ''t'') 0 = Some (Some ms)"
    "decode_message_set_iter marking_env ms = Some (map (\<lambda>m. \<lparr>oam_offset = 0, oam_message = m\<rparr>) (request_messages two_requests), Inr ())"
    unfolding b codecs fst_conv snd_conv by blast
  from r(1) have "bm_node_id b = 1" by (simp add: named_by_def leader_def example_client_def example_broker_def) (auto simp: example_broker_def)
  with r(2-) show ?thesis by (fastforce simp: two_requests_def request_messages_def)
qed

end
