(* ===== verification/Consumer.thy ===== *)
theory Consumer
  imports Client_Requests
begin

text \<open>
  \<open>Consumer\<close> in \<open>afkak/consumer.py\<close>: the fetch loop over one partition, the processor that gets the messages in
  blocks, commits of the processed offset, shutdown and stop.

  The state \<open>consumer\<close> has the attributes of the class. Each deferred attribute is represented by what its
  callbacks are going to do: \<open>co_request\<close> by the kind of request, \<open>co_processor\<close> by the offset to record, the
  messages that follow and whether a shutdown waits for the processor, each entry of \<open>co_commit_ds\<close> by who waits. The
  deferreds handed to the user are numbers. A delayed call is active or not; \<open>cancel\<close> of an inactive one
  raises. What the consumer does to the outside is in \<open>co_log\<close>.

  A function whose source may raise returns the state reached and a result. An exception that ends in
  a deferred nobody looks at is dropped there. The processor answers in an event of its own.
\<close>

section \<open>Constants and arguments\<close>

definition REQUEST_RETRY_MIN_DELAY :: rat where "REQUEST_RETRY_MIN_DELAY = 1 / 10"
definition REQUEST_RETRY_MAX_DELAY :: rat where "REQUEST_RETRY_MAX_DELAY = 30"
definition REQUEST_RETRY_FACTOR :: rat where "REQUEST_RETRY_FACTOR = 120205 / 100000"
definition FETCH_MIN_BYTES :: int where "FETCH_MIN_BYTES = 64 * 1024"
definition FETCH_MAX_WAIT_TIME :: int where "FETCH_MAX_WAIT_TIME = 100"
definition FETCH_BUFFER_SIZE_BYTES :: int where "FETCH_BUFFER_SIZE_BYTES = 128 * 1024"
definition AUTO_COMMIT_MSG_COUNT :: int where "AUTO_COMMIT_MSG_COUNT = 100"
definition AUTO_COMMIT_INTERVAL :: int where "AUTO_COMMIT_INTERVAL = 5000"

record sourced_message =
  sm_topic :: pystr
  sm_partition :: int
  sm_offset :: int
  sm_message :: message

record consumer_args =
  ca_topic :: pyobj
  ca_partition :: int
  ca_consumer_group :: pyobj
  ca_commit_metadata :: pyobj
  ca_auto_commit_every_n :: "int option"
  ca_auto_commit_every_ms :: "int option"
  ca_buffer_size :: int
  ca_max_buffer_size :: "int option"
  ca_request_retry_init_delay :: rat
  ca_request_retry_max_delay :: rat
  ca_request_retry_max_attempts :: int
  ca_auto_offset_reset :: "int option"

text \<open>The attributes that do not change after construction.\<close>

record consumer_config =
  cc_topic :: pystr
  cc_partition :: int
  cc_consumer_group :: "pystr option"
  cc_commit_metadata :: "bytes option"
  cc_auto_commit_every_n :: "nat option"
  cc_auto_commit_every_s :: "rat option"
  cc_max_buffer_size :: "int option"
  cc_retry_init_delay :: rat
  cc_retry_max_delay :: rat
  cc_auto_offset_reset :: "int option"

section \<open>State\<close>

text \<open>
  \<open>Held\<close> is a fetch whose response waits for the block that is being processed; \<open>Gone\<close> is a deferred that
  has fired and is still in \<open>_request_d\<close>.
\<close>

datatype consumer_request = AskOffset | AskCommitted | AskMessages | Held "fetch_response list" | Gone

datatype commit_waiter =
    UserCommit nat
  | InProgress nat
  | AutoCommit
  | RetryAuto bool
  | ShutdownCommit
  | ShutdownRetry

datatype consumer_effect =
    CFired nat "int option result"
  | Started int
  | SendOffset int
  | SendOffsetFetch
  | SendFetch int int
  | SendCommit "int option"
  | CallProcessor "sourced_message list"
  | Processed int
  | FetchAfter rat
  | CommitAfter rat

record consumer =
  co_fetch_offset :: int
  co_last_processed :: "int option"
  co_last_committed :: "int option"
  co_stopping :: bool
  co_shuttingdown :: bool
  co_shutdown_d :: "nat option"
  co_commit_looper :: bool
  co_commit_ds :: "commit_waiter list"
  co_commit_req :: "(int option \<times> rat \<times> int) option"
  co_start_d :: "nat option"
  co_start_called :: bool
  co_request :: "consumer_request option"
  co_retry_call :: "bool option"
  co_commit_call :: "(bool \<times> rat \<times> int) option"
  co_msg_block_d :: bool
  co_processor :: "(int \<times> sourced_message list \<times> bool) option"
  co_retry_delay :: rat
  co_fetch_attempt_count :: int
  co_buffer_size :: int
  co_max_attempts :: int
  co_next_d :: nat
  co_log :: "consumer_effect list"

type_synonym 'a co_res = "consumer \<times> 'a result"

definition consumer_init :: "consumer_config \<Rightarrow> int \<Rightarrow> int \<Rightarrow> consumer" where
  "consumer_init cfg buffer_size max_attempts =
     \<lparr>co_fetch_offset = 0, co_last_processed = None, co_last_committed = None, co_stopping = False,
      co_shuttingdown = False, co_shutdown_d = None, co_commit_looper = False, co_commit_ds = [],
      co_commit_req = None, co_start_d = None, co_start_called = False, co_request = None, co_retry_call = None,
      co_commit_call = None, co_msg_block_d = False, co_processor = None, co_retry_delay = cc_retry_init_delay cfg,
      co_fetch_attempt_count = 1, co_buffer_size = buffer_size, co_max_attempts = max_attempts,
      co_next_d = 0, co_log = []\<rparr>"

text \<open>The part of the constructor that sets the commit policy; an empty group is none.\<close>

definition commit_policy :: "pystr option \<Rightarrow> int option \<Rightarrow> int option \<Rightarrow> (nat option \<times> rat option) result" where
  "commit_policy consumer_group every_n every_ms =
     (if consumer_group \<noteq> None \<and> consumer_group \<noteq> Some [] then
        let n = (case every_n of None \<Rightarrow> AUTO_COMMIT_MSG_COUNT | Some n \<Rightarrow> n);
            ms = (case every_ms of None \<Rightarrow> AUTO_COMMIT_INTERVAL | Some ms \<Rightarrow> ms)
        in if ms < 0 \<or> n < 0 then Inl ValueError else Inr (Some (nat n), Some (of_int ms / 1000))
      else if every_ms \<notin> {None, Some 0} \<or> every_n \<notin> {None, Some 0} then Inl ValueError
      else Inr (None, None))"

definition consumer_create :: "consumer_args \<Rightarrow> (consumer_config \<times> consumer) result" where
  "consumer_create a =
     rbind (coerce_topic (ca_topic a)) (\<lambda>topic.
       rbind (if ca_consumer_group a = PyNone then Inr None
              else rbind (coerce_consumer_group (ca_consumer_group a)) (\<lambda>g. Inr (Some g))) (\<lambda>consumer_group.
         rbind (case ca_commit_metadata a of PyNone \<Rightarrow> Inr None | PyBytes b \<Rightarrow> Inr (Some b) | _ \<Rightarrow> Inl TypeError) (\<lambda>metadata.
           rbind (commit_policy consumer_group (ca_auto_commit_every_n a) (ca_auto_commit_every_ms a)) (\<lambda>(every_n, every_s).
             if ca_request_retry_max_attempts a < 0 then Inl ValueError
             else if ca_auto_offset_reset a \<notin> {None, Some OFFSET_EARLIEST, Some OFFSET_LATEST} then Inl ValueError
             else if (case ca_max_buffer_size a of None \<Rightarrow> False | Some m \<Rightarrow> ca_buffer_size a > m) then Inl ValueError
             else
               let cfg = \<lparr>cc_topic = topic, cc_partition = ca_partition a, cc_consumer_group = consumer_group,
                     cc_commit_metadata = metadata, cc_auto_commit_every_n = every_n, cc_auto_commit_every_s = every_s,
                     cc_max_buffer_size = ca_max_buffer_size a, cc_retry_init_delay = ca_request_retry_init_delay a,
                     cc_retry_max_delay = ca_request_retry_max_delay a, cc_auto_offset_reset = ca_auto_offset_reset a\<rparr>
               in Inr (cfg, consumer_init cfg (ca_buffer_size a) (ca_request_retry_max_attempts a))))))"

definition has_group :: "consumer_config \<Rightarrow> bool" where
  "has_group cfg \<longleftrightarrow> cc_consumer_group cfg \<noteq> None \<and> cc_consumer_group cfg \<noteq> Some []"

definition co_emit :: "consumer_effect \<Rightarrow> consumer \<Rightarrow> consumer" where
  "co_emit e s = s\<lparr>co_log := co_log s @ [e]\<rparr>"

definition co_fire :: "nat \<Rightarrow> int option result \<Rightarrow> consumer \<Rightarrow> consumer" where
  "co_fire d r s = co_emit (CFired d r) s"

definition start_errback :: "exn \<Rightarrow> consumer \<Rightarrow> unit co_res" where
  "start_errback e s =
     (case co_start_d s of
        None \<Rightarrow> (s, Inl AttributeError)
      | Some d \<Rightarrow>
          if co_start_called s then (s, Inl AlreadyCalledError)
          else (co_fire d (Inl e) (s\<lparr>co_start_called := True\<rparr>), Inr ()))"

section \<open>Fetching\<close>

definition do_fetch :: "consumer_config \<Rightarrow> consumer \<Rightarrow> unit co_res" where
  "do_fetch cfg s =
     (if co_request s \<noteq> None then (s, Inr ())
      else
        let s = s\<lparr>co_retry_call := None\<rparr>; off = co_fetch_offset s
        in if off = OFFSET_EARLIEST \<or> off = OFFSET_LATEST then
             (co_emit (SendOffset off) (s\<lparr>co_request := Some AskOffset\<rparr>), Inr ())
           else if off = OFFSET_COMMITTED then
             (case (if has_group cfg then (s, Inr ()) else start_errback InvalidConsumerGroupError s) of
                (s, Inl e) \<Rightarrow> (s, Inl e)
              | (s, Inr _) \<Rightarrow> (co_emit SendOffsetFetch (s\<lparr>co_request := Some AskCommitted\<rparr>), Inr ()))
           else (co_emit (SendFetch off (co_buffer_size s)) (s\<lparr>co_request := Some AskMessages\<rparr>), Inr ()))"

definition retry_fetch :: "consumer_config \<Rightarrow> rat option \<Rightarrow> consumer \<Rightarrow> consumer" where
  "retry_fetch cfg after s =
     (if co_stopping s \<or> co_shuttingdown s \<or> co_start_d s = None \<or> co_retry_call s \<noteq> None then s
      else
        let s' = (case after of
               None \<Rightarrow> co_emit (FetchAfter (co_retry_delay s))
                 (s\<lparr>co_retry_delay := min (co_retry_delay s * REQUEST_RETRY_FACTOR) (cc_retry_max_delay cfg)\<rparr>)
             | Some t \<Rightarrow> co_emit (FetchAfter t) s)
        in s'\<lparr>co_fetch_attempt_count := co_fetch_attempt_count s + 1, co_retry_call := Some True\<rparr>)"

definition attempts_used :: "consumer \<Rightarrow> int \<Rightarrow> bool" where
  "attempts_used s n \<longleftrightarrow> co_max_attempts s \<noteq> 0 \<and> n \<ge> co_max_attempts s"

text \<open>The answers to an \<open>OffsetRequest\<close> and to an \<open>OffsetFetchRequest\<close>.\<close>

datatype offset_answer = Offsets "int list" | Committed int

definition handle_offset_response :: "consumer_config \<Rightarrow> offset_answer list \<Rightarrow> consumer \<Rightarrow> unit co_res" where
  "handle_offset_response cfg responses s =
     (let s = s\<lparr>co_request := None, co_retry_delay := cc_retry_init_delay cfg, co_fetch_attempt_count := 1\<rparr>
      in case responses of
           [Offsets []] \<Rightarrow> (s, Inl IndexError)
         | [Offsets (off # offs)] \<Rightarrow> do_fetch cfg (s\<lparr>co_fetch_offset := off\<rparr>)
         | [Committed off] \<Rightarrow>
             if off = OFFSET_NOT_COMMITTED then
               do_fetch cfg (s\<lparr>co_fetch_offset :=
                 (if cc_auto_offset_reset cfg = Some OFFSET_LATEST then OFFSET_LATEST else OFFSET_EARLIEST)\<rparr>)
             else do_fetch cfg (s\<lparr>co_fetch_offset := off + 1, co_last_committed := Some off\<rparr>)
         | _ \<Rightarrow> (s, Inl ValueError))"

definition handle_offset_error :: "consumer_config \<Rightarrow> exn \<Rightarrow> consumer \<Rightarrow> unit co_res" where
  "handle_offset_error cfg e s =
     (let s = s\<lparr>co_request := None\<rparr>
      in if co_stopping s \<and> e = TwistedCancelledError then (s, Inr ())
         else if attempts_used s (co_fetch_attempt_count s) then start_errback e s
         else (retry_fetch cfg None s, Inr ()))"

definition handle_fetch_error :: "consumer_config \<Rightarrow> exn \<Rightarrow> consumer \<Rightarrow> unit co_res" where
  "handle_fetch_error cfg e s =
     (let s = s\<lparr>co_request := None\<rparr>; out_of_range = (e = BrokerResponse OffsetOutOfRangeError)
      in if out_of_range \<and> cc_auto_offset_reset cfg = None then start_errback e s
         else
           let s = (if out_of_range then s\<lparr>co_fetch_offset := the (cc_auto_offset_reset cfg)\<rparr> else s)
           in if co_stopping s \<and> e = TwistedCancelledError then (s, Inr ())
              else if attempts_used s (co_fetch_attempt_count s) then start_errback e s
              else (retry_fetch cfg None s, Inr ()))"

section \<open>Committing\<close>

definition send_commit_request :: "rat \<Rightarrow> int \<Rightarrow> consumer \<Rightarrow> unit co_res" where
  "send_commit_request retry_delay attempt s =
     (let s = s\<lparr>co_commit_call := (case co_commit_call s of Some (False, _, _) \<Rightarrow> None | call \<Rightarrow> call)\<rparr>
      in if co_commit_req s \<noteq> None then (s, Inl OperationInProgress)
         else (co_emit (SendCommit (co_last_processed s))
                 (s\<lparr>co_commit_req := Some (co_last_processed s, retry_delay, attempt)\<rparr>), Inr ()))"

text \<open>What \<open>commit\<close> returns: a deferred that has fired, one that has not, or it raises.\<close>

datatype commit_outcome = Ready "int option result" | Pending | Raised exn

definition commit_request :: "consumer_config \<Rightarrow> commit_waiter \<Rightarrow> commit_waiter \<Rightarrow> consumer \<Rightarrow> consumer \<times> commit_outcome" where
  "commit_request cfg waiter busy s =
     (if \<not> has_group cfg then (s, Ready (Inl InvalidConsumerGroupError))
      else if co_last_processed s = None \<or> co_last_processed s = co_last_committed s then (s, Ready (Inr (co_last_committed s)))
      else if co_commit_ds s \<noteq> [] then (s\<lparr>co_commit_ds := co_commit_ds s @ [busy]\<rparr>, Ready (Inl OperationInProgress))
      else (case send_commit_request (cc_retry_init_delay cfg) 1 (s\<lparr>co_commit_ds := [waiter]\<rparr>) of
              (s, Inl e) \<Rightarrow> (s, Raised e)
            | (s, Inr _) \<Rightarrow> (s, Pending)))"

text \<open>The call by the user; a failure \<open>OperationInProgress\<close> carries the second deferred.\<close>

definition co_commit :: "consumer_config \<Rightarrow> consumer \<Rightarrow> consumer" where
  "co_commit cfg s =
     (let d = co_next_d s
      in case commit_request cfg (UserCommit d) (InProgress (Suc d)) (s\<lparr>co_next_d := Suc d\<rparr>) of
           (s, Ready r) \<Rightarrow>
             co_fire d r (if r = Inl OperationInProgress then s\<lparr>co_next_d := Suc (Suc d)\<rparr> else s)
         | (s, _) \<Rightarrow> s)"

definition handle_auto_commit_error :: "exn \<Rightarrow> consumer \<Rightarrow> consumer" where
  "handle_auto_commit_error e s =
     (if co_start_d s \<noteq> None \<and> \<not> co_start_called s then fst (start_errback e s) else s)"

definition truthy :: "nat option \<Rightarrow> bool" where
  "truthy n \<longleftrightarrow> n \<noteq> None \<and> n \<noteq> Some 0"

definition auto_commit :: "consumer_config \<Rightarrow> bool \<Rightarrow> consumer \<Rightarrow> unit co_res" where
  "auto_commit cfg by_count s =
     (case co_last_processed s of
        None \<Rightarrow> (s, Inr ())
      | Some processed \<Rightarrow>
          if co_stopping s \<or> co_shuttingdown s \<or> co_start_d s = None \<or> \<not> has_group cfg \<or>
             by_count \<and> \<not> truthy (cc_auto_commit_every_n cfg)
          then (s, Inr ())
          else if \<not> by_count \<or>
            (case co_last_committed s of
               None \<Rightarrow> True
             | Some committed \<Rightarrow> processed - committed \<ge> int (the (cc_auto_commit_every_n cfg)))
          then
            if co_commit_ds s = [] then
              (case commit_request cfg AutoCommit AutoCommit s of
                 (s, Ready (Inl e)) \<Rightarrow> (handle_auto_commit_error e s, Inr ())
               | (s, Raised e) \<Rightarrow> (s, Inl e)
               | (s, _) \<Rightarrow> (s, Inr ()))
            else (s\<lparr>co_commit_ds := co_commit_ds s @ [RetryAuto by_count]\<rparr>, Inr ())
          else (s, Inr ()))"

text \<open>\<open>_handle_commit_error\<close>: whether the request is sent again, and what the waiters get if it is not.\<close>

definition commit_retries :: "consumer \<Rightarrow> exn \<Rightarrow> int \<Rightarrow> bool" where
  "commit_retries s e attempt \<longleftrightarrow>
     \<not> (co_stopping s \<and> e = TwistedCancelledError) \<and> is_KafkaError e \<and>
     e \<notin> BrokerResponse ` {IllegalGeneration, InvalidGroupId, UnknownMemberId} \<and> \<not> attempts_used s attempt"

definition commit_failure :: "consumer \<Rightarrow> exn \<Rightarrow> int option result" where
  "commit_failure s e = (if co_stopping s \<and> e = TwistedCancelledError then Inr (co_last_committed s) else Inl e)"

definition schedule_commit :: "consumer_config \<Rightarrow> rat \<Rightarrow> int \<Rightarrow> consumer \<Rightarrow> consumer" where
  "schedule_commit cfg retry_delay attempt s =
     (let next_delay = min (retry_delay * REQUEST_RETRY_FACTOR) (cc_retry_max_delay cfg)
      in co_emit (CommitAfter next_delay) (s\<lparr>co_commit_call := Some (True, next_delay, attempt + 1)\<rparr>))"

section \<open>Processing messages\<close>

definition handle_processor_error :: "exn \<Rightarrow> consumer \<Rightarrow> unit co_res" where
  "handle_processor_error e s =
     (if co_stopping s \<and> e = TwistedCancelledError \<or> co_start_d s = None then (s, Inr ()) else start_errback e s)"

definition update_processed_offset :: "consumer_config \<Rightarrow> int \<Rightarrow> consumer \<Rightarrow> unit co_res" where
  "update_processed_offset cfg off s = auto_commit cfg True (co_emit (Processed off) (s\<lparr>co_last_processed := Some off\<rparr>))"

text \<open>The callbacks on the processor's deferred; when an exception is left the generator gets it.\<close>

definition processor_done :: "consumer_config \<Rightarrow> unit result \<Rightarrow> int \<Rightarrow> consumer \<Rightarrow> unit co_res" where
  "processor_done cfg result last_offset s =
     (case result of
        Inl e \<Rightarrow> handle_processor_error e s
      | Inr _ \<Rightarrow>
          (case update_processed_offset cfg last_offset s of
             (s, Inl e) \<Rightarrow> handle_processor_error e s
           | (s, Inr _) \<Rightarrow> (s, Inr ())))"

definition block_size :: "consumer_config \<Rightarrow> sourced_message list \<Rightarrow> nat" where
  "block_size cfg messages =
     (if truthy (cc_auto_commit_every_n cfg) then the (cc_auto_commit_every_n cfg) else length messages)"

text \<open>
  The loop of \<open>_process_messages\<close> up to the next \<open>yield\<close>. When the consumer is stopping the processor is called
  once more and its deferred is cancelled; \<open>finish\<close> is what follows the loop.
\<close>

definition process_next ::
    "consumer_config \<Rightarrow> unit result \<Rightarrow> (consumer \<Rightarrow> consumer) \<Rightarrow> sourced_message list \<Rightarrow> consumer \<Rightarrow> consumer" where
  "process_next cfg late finish rest s =
     (if rest = [] \<or> co_shuttingdown s then finish s
      else
        let n = block_size cfg rest; block = take n rest; s = co_emit (CallProcessor block) (s\<lparr>co_processor := None\<rparr>);
            last_offset = sm_offset (last block)
        in if co_stopping s \<or> co_start_d s = None then finish (fst (processor_done cfg late last_offset s))
           else s\<lparr>co_processor := Some (last_offset, drop n rest, False)\<rparr>)"

section \<open>A fetch response\<close>

text \<open>Messages before the fetch offset are skipped, and the offset moves with every message taken.\<close>

fun take_messages :: "int \<Rightarrow> offset_and_message list \<Rightarrow> offset_and_message list \<times> int" where
  "take_messages off [] = ([], off)"
| "take_messages off (m # ms) =
     (if oam_offset m < off then take_messages off ms
      else (case take_messages (oam_offset m + 1) ms of (taken, off') \<Rightarrow> (m # taken, off')))"

text \<open>The messages of the responses for this partition, and how the iteration ends.\<close>

fun take_responses :: "int \<Rightarrow> int \<Rightarrow> fetch_response list \<Rightarrow> offset_and_message list \<times> int \<times> unit result" where
  "take_responses part off [] = ([], off, Inr ())"
| "take_responses part off (r # rs) =
     (if frs_partition r \<noteq> part then take_responses part off rs
      else (case (case frs_messages r of None \<Rightarrow> ([], Inr ()) | Some g \<Rightarrow> g) of (items, ended) \<Rightarrow>
        (case take_messages off items of (taken, off') \<Rightarrow>
           (case ended of
              Inl e \<Rightarrow> (taken, off', Inl e)
            | Inr _ \<Rightarrow> (case take_responses part off' rs of (others, off'', r) \<Rightarrow> (taken @ others, off'', r))))))"

definition sourced :: "consumer_config \<Rightarrow> offset_and_message \<Rightarrow> sourced_message" where
  "sourced cfg m =
     \<lparr>sm_topic = cc_topic cfg, sm_partition = cc_partition cfg, sm_offset = oam_offset m, sm_message = oam_message m\<rparr>"

definition grow_buffer :: "consumer_config \<Rightarrow> int \<Rightarrow> int option" where
  "grow_buffer cfg sz =
     (let factor = (if sz \<le> 2 ^ 20 then 16 else 2)
      in case cc_max_buffer_size cfg of
           None \<Rightarrow> Some (sz * factor)
         | Some limit \<Rightarrow> if sz < limit then Some (min (sz * factor) limit) else None)"

datatype fetch_end = FetchAgain | GiveUp | Fail exn

definition end_of_messages :: "consumer_config \<Rightarrow> unit result \<Rightarrow> consumer \<Rightarrow> consumer \<times> fetch_end" where
  "end_of_messages cfg ended s =
     (case ended of
        Inr _ \<Rightarrow> (s, FetchAgain)
      | Inl e \<Rightarrow>
          if e = ConsumerFetchSizeTooSmall then
            (case grow_buffer cfg (co_buffer_size s) of
               Some sz \<Rightarrow> (s\<lparr>co_buffer_size := sz\<rparr>, FetchAgain)
             | None \<Rightarrow>
                 (case start_errback ConsumerFetchSizeTooSmall s of
                    (s, Inl e) \<Rightarrow> (s, Fail e)
                  | (s, Inr _) \<Rightarrow> (s, GiveUp)))
          else (s, Fail e))"

definition handle_fetch_now :: "consumer_config \<Rightarrow> unit result \<Rightarrow> fetch_response list \<Rightarrow> consumer \<Rightarrow> unit co_res" where
  "handle_fetch_now cfg late responses s =
     (case take_responses (cc_partition cfg) (co_fetch_offset s) responses of (taken, off, ended) \<Rightarrow>
        (case end_of_messages cfg ended
           (s\<lparr>co_retry_delay := cc_retry_init_delay cfg, co_fetch_attempt_count := 1, co_request := None, co_fetch_offset := off\<rparr>) of
           (s, fetch_end) \<Rightarrow>
             let s = (if taken = [] then s
                      else process_next cfg late (\<lambda>s. s\<lparr>co_msg_block_d := False\<rparr>) (map (sourced cfg) taken)
                             (s\<lparr>co_msg_block_d := True\<rparr>))
             in case fetch_end of
                  FetchAgain \<Rightarrow> (retry_fetch cfg (Some 0) s, Inr ())
                | GiveUp \<Rightarrow> (s, Inr ())
                | Fail e \<Rightarrow> (s, Inl e)))"

definition fetch_answered :: "consumer_config \<Rightarrow> unit result \<Rightarrow> fetch_response list \<Rightarrow> consumer \<Rightarrow> consumer" where
  "fetch_answered cfg late responses s =
     (if co_msg_block_d s then
        s\<lparr>co_retry_delay := cc_retry_init_delay cfg, co_fetch_attempt_count := 1, co_request := Some (Held responses)\<rparr>
      else (case handle_fetch_now cfg late responses s of
              (s, Inl e) \<Rightarrow> fst (handle_fetch_error cfg e s)
            | (s, Inr _) \<Rightarrow> s))"

text \<open>The end of a block: the response that waited for it is handled now.\<close>

definition end_block :: "consumer_config \<Rightarrow> unit result \<Rightarrow> consumer \<Rightarrow> consumer" where
  "end_block cfg late s =
     (if co_msg_block_d s then
        let s = s\<lparr>co_msg_block_d := False\<rparr>
        in case co_request s of Some (Held rs) \<Rightarrow> fst (handle_fetch_now cfg late rs s) | _ \<Rightarrow> s
      else s)"

text \<open>The processor's deferred fires: its callbacks, then the generator goes on.\<close>

definition resume :: "consumer_config \<Rightarrow> unit result \<Rightarrow> unit result \<Rightarrow> consumer \<Rightarrow> consumer" where
  "resume cfg late result s =
     (case co_processor s of
        None \<Rightarrow> s
      | Some (last_offset, rest, _) \<Rightarrow>
          (case processor_done cfg result last_offset (s\<lparr>co_processor := None\<rparr>) of
             (s, Inl e) \<Rightarrow> s
           | (s, Inr _) \<Rightarrow> process_next cfg late (end_block cfg late) rest s))"

section \<open>Stopping\<close>

text \<open>
  What becomes of the operations that \<open>stop\<close> cancels: the exception of the outstanding request and of the commit
  request, the result of the processor's deferred, and that of the last call of the processor.
\<close>

record stop_env =
  se_request :: exn
  se_commit :: exn
  se_processor :: "unit result"
  se_next :: "unit result"

text \<open>The commit request fails while nobody waits for it.\<close>

definition cancel_commit_req :: "consumer_config \<Rightarrow> stop_env \<Rightarrow> consumer \<Rightarrow> consumer" where
  "cancel_commit_req cfg env s =
     (case co_commit_req s of
        None \<Rightarrow> s
      | Some (off, retry_delay, attempt) \<Rightarrow>
          let s = s\<lparr>co_commit_req := None\<rparr>
          in if commit_retries s (se_commit env) attempt then schedule_commit cfg retry_delay attempt s else s)"

definition stop_finish :: "consumer_config \<Rightarrow> stop_env \<Rightarrow> consumer \<Rightarrow> unit co_res" where
  "stop_finish cfg env s =
     (let s = cancel_commit_req cfg env s
      in case co_commit_call s of
           Some (False, _, _) \<Rightarrow> (s, Inl AlreadyCancelledError)
         | call \<Rightarrow>
             let s = s\<lparr>co_commit_call := map_option (\<lambda>(_, x). (False, x)) call, co_commit_looper := False, co_stopping := False\<rparr>
             in case co_start_d s of
                  None \<Rightarrow> (s, Inl AttributeError)
                | Some d \<Rightarrow>
                    let s = s\<lparr>co_start_d := None\<rparr>
                    in (if co_start_called s then s else co_fire d (Inr (co_last_processed s)) s, Inr ()))"

text \<open>
  The loop that cancels the waiters for a commit, the last one first. The handler of a shutdown's
  commit calls \<open>stop\<close> itself, which goes through the rest of the list.
\<close>

fun cancel_commits :: "consumer_config \<Rightarrow> stop_env \<Rightarrow> commit_waiter list \<Rightarrow> consumer \<Rightarrow> consumer" where
  "cancel_commits cfg env [] s = s\<lparr>co_commit_ds := []\<rparr>"
| "cancel_commits cfg env (w # ws) s =
     (let s = s\<lparr>co_commit_ds := rev ws\<rparr>
      in case w of
           UserCommit d \<Rightarrow> cancel_commits cfg env ws (co_fire d (Inl TwistedCancelledError) s)
         | InProgress d \<Rightarrow> cancel_commits cfg env ws (co_fire d (Inl TwistedCancelledError) s)
         | AutoCommit \<Rightarrow> cancel_commits cfg env ws (handle_auto_commit_error TwistedCancelledError s)
         | RetryAuto by_count \<Rightarrow> cancel_commits cfg env ws s
         | ShutdownRetry \<Rightarrow> cancel_commits cfg env ws s
         | ShutdownCommit \<Rightarrow>
             let d = co_shutdown_d s; s = s\<lparr>co_shutdown_d := None\<rparr>
             in if co_start_d s = None \<or> co_retry_call s = Some False then cancel_commits cfg env ws s
                else (case stop_finish cfg env (cancel_commits cfg env ws (s\<lparr>co_retry_call := map_option (\<lambda>_. False) (co_retry_call s)\<rparr>)) of
                        (s, Inl e) \<Rightarrow> s
                      | (s, Inr _) \<Rightarrow>
                          let s = s\<lparr>co_shuttingdown := False\<rparr>
                          in case d of None \<Rightarrow> s | Some d \<Rightarrow> co_fire d (Inl TwistedCancelledError) s))"

definition stop_tail :: "consumer_config \<Rightarrow> stop_env \<Rightarrow> consumer \<Rightarrow> unit co_res" where
  "stop_tail cfg env s =
     (if co_retry_call s = Some False then (s, Inl AlreadyCancelledError)
      else
        let s = s\<lparr>co_retry_call := map_option (\<lambda>_. False) (co_retry_call s)\<rparr>
        in stop_finish cfg env (cancel_commits cfg env (rev (co_commit_ds s)) s))"

text \<open>The request and the block of messages; a response that waits for the block is lost with it.\<close>

definition stop_head :: "consumer_config \<Rightarrow> stop_env \<Rightarrow> consumer \<Rightarrow> consumer" where
  "stop_head cfg env s =
     (let s = s\<lparr>co_stopping := True\<rparr>;
          s = (case co_request s of
                 Some AskOffset \<Rightarrow> fst (handle_offset_error cfg (se_request env) s)
               | Some AskCommitted \<Rightarrow> fst (handle_offset_error cfg (se_request env) s)
               | Some AskMessages \<Rightarrow> fst (handle_fetch_error cfg (se_request env) s)
               | _ \<Rightarrow> s)
      in s\<lparr>co_msg_block_d := False, co_request := (case co_request s of Some (Held rs) \<Rightarrow> Some Gone | r \<Rightarrow> r)\<rparr>)"

text \<open>\<open>stop\<close> as it is called by the handlers of a shutdown, which therefore does not wait for the processor.\<close>

definition stop_inner :: "consumer_config \<Rightarrow> stop_env \<Rightarrow> consumer \<Rightarrow> unit co_res" where
  "stop_inner cfg env s =
     (if co_start_d s = None then (s, Inl RestopError)
      else stop_tail cfg env (resume cfg (se_next env) (se_processor env) (stop_head cfg env s)))"

section \<open>Shutting down\<close>

text \<open>The two handlers of the commit of a shutdown; success is no exception.\<close>

definition shutdown_end :: "consumer_config \<Rightarrow> stop_env \<Rightarrow> exn option \<Rightarrow> consumer \<Rightarrow> unit co_res" where
  "shutdown_end cfg env failure s =
     (let d = co_shutdown_d s
      in case stop_inner cfg env (s\<lparr>co_shutdown_d := None\<rparr>) of
           (s, Inl e) \<Rightarrow> (s, Inl e)
         | (s, Inr _) \<Rightarrow>
             let s = s\<lparr>co_shuttingdown := False\<rparr>
             in case d of
                  None \<Rightarrow> (s, Inl AttributeError)
                | Some d \<Rightarrow>
                    (co_fire d (case failure of None \<Rightarrow> Inr (co_last_processed s) | Some e \<Rightarrow> Inl e) s, Inr ()))"

definition commit_and_stop :: "consumer_config \<Rightarrow> stop_env \<Rightarrow> consumer \<Rightarrow> unit co_res" where
  "commit_and_stop cfg env s =
     (if \<not> has_group cfg then shutdown_end cfg env None s
      else (case commit_request cfg ShutdownCommit ShutdownRetry s of
              (s, Ready (Inr _)) \<Rightarrow> (fst (shutdown_end cfg env None s), Inr ())
            | (s, Ready (Inl e)) \<Rightarrow>
                if e = OperationInProgress then (s, Inr ()) else (fst (shutdown_end cfg env (Some e) s), Inr ())
            | (s, Pending) \<Rightarrow> (s, Inr ())
            | (s, Raised e) \<Rightarrow> (s, Inl e)))"

definition shutdown :: "consumer_config \<Rightarrow> stop_env \<Rightarrow> consumer \<Rightarrow> unit co_res" where
  "shutdown cfg env s =
     (if co_start_d s = None \<or> co_shutdown_d s \<noteq> None then (s, Inl RestopError)
      else
        let s = s\<lparr>co_shuttingdown := True, co_max_attempts := (if co_max_attempts s = 0 then 2 else co_max_attempts s),
              co_shutdown_d := Some (co_next_d s), co_next_d := Suc (co_next_d s)\<rparr>
        in case co_processor s of
             Some (last_offset, rest, _) \<Rightarrow> (s\<lparr>co_processor := Some (last_offset, rest, True)\<rparr>, Inr ())
           | None \<Rightarrow> commit_and_stop cfg env s)"

section \<open>The result of a commit\<close>

definition waiter_done :: "consumer_config \<Rightarrow> stop_env \<Rightarrow> int option result \<Rightarrow> consumer \<Rightarrow> commit_waiter \<Rightarrow> consumer" where
  "waiter_done cfg env result s w =
     (case w of
        UserCommit d \<Rightarrow> co_fire d result s
      | InProgress d \<Rightarrow> co_fire d result s
      | AutoCommit \<Rightarrow> (case result of Inl e \<Rightarrow> handle_auto_commit_error e s | Inr _ \<Rightarrow> s)
      | RetryAuto by_count \<Rightarrow> (case result of Inl e \<Rightarrow> s | Inr _ \<Rightarrow> fst (auto_commit cfg by_count s))
      | ShutdownCommit \<Rightarrow>
          (case result of
             Inl e \<Rightarrow> if e = OperationInProgress then s else fst (shutdown_end cfg env (Some e) s)
           | Inr _ \<Rightarrow> fst (shutdown_end cfg env None s))
      | ShutdownRetry \<Rightarrow> (case result of Inl e \<Rightarrow> s | Inr _ \<Rightarrow> fst (commit_and_stop cfg env s)))"

definition deliver_commit_result :: "consumer_config \<Rightarrow> stop_env \<Rightarrow> int option result \<Rightarrow> consumer \<Rightarrow> consumer" where
  "deliver_commit_result cfg env result s =
     foldl (waiter_done cfg env result) (s\<lparr>co_commit_ds := []\<rparr>) (rev (co_commit_ds s))"

definition commit_answered :: "consumer_config \<Rightarrow> stop_env \<Rightarrow> unit result \<Rightarrow> consumer \<Rightarrow> consumer" where
  "commit_answered cfg env result s =
     (case co_commit_req s of
        None \<Rightarrow> s
      | Some (off, retry_delay, attempt) \<Rightarrow>
          let s = s\<lparr>co_commit_req := None\<rparr>
          in case result of
               Inr _ \<Rightarrow> deliver_commit_result cfg env (Inr off) (s\<lparr>co_last_committed := off\<rparr>)
             | Inl e \<Rightarrow>
                 if commit_retries s e attempt then schedule_commit cfg retry_delay attempt s
                 else deliver_commit_result cfg env (commit_failure s e) s)"

section \<open>Starting and stopping\<close>

text \<open>A shutdown that waits for the processor goes on after the generator.\<close>

definition processor_answered :: "consumer_config \<Rightarrow> stop_env \<Rightarrow> unit result \<Rightarrow> consumer \<Rightarrow> consumer" where
  "processor_answered cfg env result s =
     (let shutdown_waits = (case co_processor s of Some (_, _, w) \<Rightarrow> w | None \<Rightarrow> False);
          s = resume cfg (se_next env) result s
      in if shutdown_waits then fst (commit_and_stop cfg env s) else s)"

definition co_start :: "consumer_config \<Rightarrow> int \<Rightarrow> consumer \<Rightarrow> unit co_res" where
  "co_start cfg start_offset s =
     (if co_start_d s \<noteq> None then (s, Inl RestartError)
      else (case do_fetch cfg (co_emit (Started start_offset) (s\<lparr>co_start_d := Some (co_next_d s), co_start_called := False,
                   co_next_d := Suc (co_next_d s), co_fetch_offset := start_offset\<rparr>)) of
              (s, Inl e) \<Rightarrow> (s, Inl e)
            | (s, Inr _) \<Rightarrow>
                (s\<lparr>co_commit_looper := (co_commit_looper s \<or> has_group cfg \<and> cc_auto_commit_every_s cfg \<notin> {None, Some 0})\<rparr>, Inr ())))"

definition co_stop :: "consumer_config \<Rightarrow> stop_env \<Rightarrow> consumer \<Rightarrow> unit co_res" where
  "co_stop cfg env s =
     (if co_start_d s = None then (s, Inl RestopError)
      else stop_tail cfg env (processor_answered cfg env (se_processor env) (stop_head cfg env s)))"

section \<open>Events\<close>

datatype consumer_event =
    StartConsumer int
  | CommitNow
  | ShutdownConsumer stop_env
  | StopConsumer stop_env
  | RequestFailed exn
  | OffsetAnswer "offset_answer list"
  | FetchAnswer "fetch_response list" stop_env
  | ProcessorAnswer "unit result" stop_env
  | CommitAnswer "unit result" stop_env
  | RetryTimer
  | CommitTimer
  | AutoCommitTimer

text \<open>
  The event as a function; \<open>None\<close> when nothing waits for the event. Calls of the user are always possible,
  an exception that they raise is the caller's.
\<close>

definition co_apply :: "consumer_config \<Rightarrow> consumer \<Rightarrow> consumer_event \<Rightarrow> consumer option" where
  "co_apply cfg s e =
     (case e of
        StartConsumer off \<Rightarrow> Some (fst (co_start cfg off s))
      | CommitNow \<Rightarrow> Some (co_commit cfg s)
      | ShutdownConsumer env \<Rightarrow> Some (fst (shutdown cfg env s))
      | StopConsumer env \<Rightarrow> Some (fst (co_stop cfg env s))
      | RequestFailed x \<Rightarrow>
          (case co_request s of
             Some AskOffset \<Rightarrow> Some (fst (handle_offset_error cfg x s))
           | Some AskCommitted \<Rightarrow> Some (fst (handle_offset_error cfg x s))
           | Some AskMessages \<Rightarrow> Some (fst (handle_fetch_error cfg x s))
           | _ \<Rightarrow> None)
      | OffsetAnswer rs \<Rightarrow>
          if co_request s = Some AskOffset \<or> co_request s = Some AskCommitted
          then Some (fst (handle_offset_response cfg rs s)) else None
      | FetchAnswer rs env \<Rightarrow>
          if co_request s = Some AskMessages then Some (fetch_answered cfg (se_next env) rs s) else None
      | ProcessorAnswer r env \<Rightarrow> if co_processor s \<noteq> None then Some (processor_answered cfg env r s) else None
      | CommitAnswer r env \<Rightarrow> if co_commit_req s \<noteq> None then Some (commit_answered cfg env r s) else None
      | RetryTimer \<Rightarrow> if co_retry_call s = Some True then Some (fst (do_fetch cfg (s\<lparr>co_retry_call := Some False\<rparr>))) else None
      | CommitTimer \<Rightarrow>
          (case co_commit_call s of
             Some (True, retry_delay, attempt) \<Rightarrow>
               Some (fst (send_commit_request retry_delay attempt (s\<lparr>co_commit_call := Some (False, retry_delay, attempt)\<rparr>)))
           | _ \<Rightarrow> None)
      | AutoCommitTimer \<Rightarrow> if co_commit_looper s then Some (fst (auto_commit cfg False s)) else None)"

text \<open>
  Kafka's offsets are not negative; -1 stands for no committed offset. A run consists of events with such
  offsets, and of starts at an offset or at one of the special values.
\<close>

fun plausible :: "consumer_event \<Rightarrow> bool" where
  "plausible (StartConsumer off) = (0 \<le> off \<or> off \<in> {OFFSET_EARLIEST, OFFSET_LATEST, OFFSET_COMMITTED})"
| "plausible (OffsetAnswer rs) =
     (\<forall>r\<in>set rs. case r of Offsets offs \<Rightarrow> \<forall>off\<in>set offs. 0 \<le> off | Committed off \<Rightarrow> off = OFFSET_NOT_COMMITTED \<or> 0 \<le> off)"
| "plausible (FetchAnswer rs env) = (\<forall>r\<in>set rs. frs_messages r \<noteq> None)"
| "plausible _ = True"

definition co_step :: "consumer_config \<Rightarrow> consumer \<Rightarrow> consumer_event \<Rightarrow> consumer \<Rightarrow> bool" where
  "co_step cfg s e t \<longleftrightarrow> plausible e \<and> co_apply cfg s e = Some t"

end
