(* ===== verification/Consumer_Steps.thy ===== *)
theory Consumer_Steps
  imports Consumer
begin

text \<open>
  The runs of the consumer: the locales in which invariants of its runs and relations between the states before and after
  its methods are proved, and from them that no deferred fires twice.
\<close>

abbreviation co_reach :: "consumer_config \<Rightarrow> int \<Rightarrow> int \<Rightarrow> consumer \<Rightarrow> bool" where
  "co_reach cfg b n \<equiv> reach (\<lambda>s. s = consumer_init cfg b n) (co_step cfg)"

fun co_run :: "consumer_config \<Rightarrow> consumer \<Rightarrow> consumer_event list \<Rightarrow> consumer option" where
  "co_run cfg s [] = Some s"
| "co_run cfg s (e # es) =
     (if plausible e then (case co_apply cfg s e of None \<Rightarrow> None | Some t \<Rightarrow> co_run cfg t es) else None)"

lemma co_run_reach: "co_reach cfg b n s \<Longrightarrow> co_run cfg s es = Some t \<Longrightarrow> co_reach cfg b n t"
proof (induction es arbitrary: s)
  case (Cons e es)
  then obtain u where u: "co_step cfg s e u" "co_run cfg u es = Some t"
    by (auto simp: co_step_def split: if_splits option.splits)
  show ?case by (rule Cons.IH [OF reach_step [OF Cons.prems(1) u(1)] u(2)])
qed simp

text \<open>
  A property of the state is kept by the steps when each handler keeps it; it is an invariant of the runs when the new
  consumer has it as well. A locale states each of these once, so that below only the handlers remain to be
  looked at.
\<close>

locale consumer_kept =
  fixes cfg :: consumer_config and P :: "consumer \<Rightarrow> bool"
  assumes start: "P s \<Longrightarrow> plausible (StartConsumer off) \<Longrightarrow> P (fst (co_start cfg off s))"
    and commit: "P s \<Longrightarrow> P (co_commit cfg s)"
    and shutdown: "P s \<Longrightarrow> P (fst (shutdown cfg env s))"
    and stop: "P s \<Longrightarrow> P (fst (co_stop cfg env s))"
    and offset_error: "P s \<Longrightarrow> co_request s = Some AskOffset \<or> co_request s = Some AskCommitted \<Longrightarrow> P (fst (handle_offset_error cfg x s))"
    and fetch_error: "P s \<Longrightarrow> co_request s = Some AskMessages \<Longrightarrow> P (fst (handle_fetch_error cfg x s))"
    and offsets: "P s \<Longrightarrow> co_request s = Some AskOffset \<or> co_request s = Some AskCommitted \<Longrightarrow> plausible (OffsetAnswer os) \<Longrightarrow>
      P (fst (handle_offset_response cfg os s))"
    and fetched: "P s \<Longrightarrow> co_request s = Some AskMessages \<Longrightarrow> P (fetch_answered cfg late rs s)"
    and processed: "P s \<Longrightarrow> co_processor s \<noteq> None \<Longrightarrow> P (processor_answered cfg env r s)"
    and committed: "P s \<Longrightarrow> co_commit_req s \<noteq> None \<Longrightarrow> P (commit_answered cfg env r s)"
    and retry: "P s \<Longrightarrow> co_retry_call s = Some True \<Longrightarrow> P (fst (do_fetch cfg (s\<lparr>co_retry_call := Some False\<rparr>)))"
    and recommit: "P s \<Longrightarrow> co_commit_call s = Some (True, delay, attempt) \<Longrightarrow>
      P (fst (send_commit_request delay attempt (s\<lparr>co_commit_call := Some (False, delay, attempt)\<rparr>)))"
    and auto: "P s \<Longrightarrow> P (fst (auto_commit cfg False s))"
begin

lemma step: "P s \<Longrightarrow> co_step cfg s e t \<Longrightarrow> P t"
  by (cases e)
    (auto simp: co_step_def co_apply_def split: option.splits consumer_request.splits if_splits bool.splits prod.splits
      intro: start commit shutdown stop offset_error fetch_error offsets fetched processed committed retry recommit auto)

lemma run: "P s \<Longrightarrow> co_run cfg s es = Some t \<Longrightarrow> P t"
proof (induction es arbitrary: s)
  case (Cons e es)
  then obtain u where "co_step cfg s e u" "co_run cfg u es = Some t"
    by (auto simp: co_step_def split: if_splits option.splits)
  then show ?case using Cons step by blast
qed simp

end

locale consumer_invariant = consumer_kept cfg P for cfg :: consumer_config and P :: "consumer \<Rightarrow> bool" +
  fixes b n :: int
  assumes init: "P (consumer_init cfg b n)"

sublocale consumer_invariant \<subseteq> step_machine "\<lambda>s. s = consumer_init cfg b n" "co_step cfg" P
  by unfold_locales (auto intro: init step)

section \<open>What the methods do to the deferreds\<close>

fun waiter_d :: "commit_waiter \<Rightarrow> nat list" where
  "waiter_d (UserCommit d) = [d]"
| "waiter_d (InProgress d) = [d]"
| "waiter_d _ = []"

fun unheard :: "consumer_effect \<Rightarrow> bool" where
  "unheard (CFired d r) = False"
| "unheard (Started off) = False"
| "unheard _ = True"

text \<open>The end of \<open>stop\<close>, from the state \<open>t\<close> in which the commit request is cancelled.\<close>

definition stop_close :: "consumer \<Rightarrow> consumer" where
  "stop_close t = t\<lparr>co_commit_call := map_option (\<lambda>(_, x). (False, x)) (co_commit_call t), co_commit_looper := False,
     co_stopping := False\<rparr>"

lemma stop_finish_cases:
  assumes "t = cancel_commit_req cfg env s"
  obtains "stop_finish cfg env s = (t, Inl AlreadyCancelledError)" "\<exists>x. co_commit_call t = Some (False, x)"
  | "stop_finish cfg env s = (stop_close t, Inl AttributeError)" "co_start_d t = None"
  | d where "stop_finish cfg env s = ((stop_close t)\<lparr>co_start_d := None\<rparr>, Inr ())" "co_start_d t = Some d" "co_start_called t"
  | d where "stop_finish cfg env s = (co_fire d (Inr (co_last_processed t)) ((stop_close t)\<lparr>co_start_d := None\<rparr>), Inr ())"
      "co_start_d t = Some d" "\<not> co_start_called t"
proof (cases "\<exists>x y. co_commit_call t = Some (False, x, y)")
  case True
  then show ?thesis using that(1) by (auto simp: stop_finish_def Let_def assms)
next
  case False
  then have "stop_finish cfg env s =
    (case co_start_d t of None \<Rightarrow> (stop_close t, Inl AttributeError)
     | Some d \<Rightarrow> (if co_start_called t then (stop_close t)\<lparr>co_start_d := None\<rparr>
         else co_fire d (Inr (co_last_processed t)) ((stop_close t)\<lparr>co_start_d := None\<rparr>), Inr ()))"
    by (cases "co_commit_call t") (auto simp: stop_finish_def stop_close_def Let_def assms split: bool.split option.split)
  then show ?thesis using that(2-4) by (auto split: option.splits if_splits)
qed

lemma stop_finish_done: "stop_finish cfg env s = (t, Inr r) \<Longrightarrow> co_start_d t = None"
  by (rule stop_finish_cases [OF refl, of cfg env s]) (auto simp: co_fire_def co_emit_def)

lemma end_of_messages_cases:
  "end_of_messages cfg ended s = (t, fe) \<Longrightarrow>
   t = s \<or> (\<exists>n. t = s\<lparr>co_buffer_size := n\<rparr>) \<or> t = fst (start_errback ConsumerFetchSizeTooSmall s)"
  by (auto simp: end_of_messages_def split: sum.splits if_splits option.splits prod.splits)

text \<open>
  A relation between the states before and after a method that hands out no deferred. The laws are about the
  few places where a deferred is fired, dropped or waited for; from them the locale derives the relation for all methods.
\<close>

locale deferred_relation =
  fixes R :: "consumer \<Rightarrow> consumer \<Rightarrow> bool"
  assumes rel_refl: "R s s"
    and rel_trans: "R s t \<Longrightarrow> R t u \<Longrightarrow> R s u"
    and rel_frame: "co_start_d t = co_start_d s \<Longrightarrow> co_start_called t = co_start_called s \<Longrightarrow> co_shutdown_d t = co_shutdown_d s \<Longrightarrow>
      co_commit_ds t = co_commit_ds s \<Longrightarrow> co_next_d t = co_next_d s \<Longrightarrow> co_log t = co_log s @ es \<Longrightarrow> list_all unheard es \<Longrightarrow> R s t"
    and rel_errback: "co_start_d s = Some d \<Longrightarrow> \<not> co_start_called s \<Longrightarrow> R s (co_fire d (Inl e) (s\<lparr>co_start_called := True\<rparr>))"
    and rel_close: "co_start_d s = Some d \<Longrightarrow>
      R s (if co_start_called s then s\<lparr>co_start_d := None\<rparr> else co_fire d r (s\<lparr>co_start_d := None\<rparr>))"
    and rel_wait: "waiter_d w = [] \<Longrightarrow> R s (s\<lparr>co_commit_ds := co_commit_ds s @ [w]\<rparr>)"
    and rel_unwait: "co_commit_ds s = ws @ [w] \<Longrightarrow> waiter_d w = [] \<Longrightarrow> R s (s\<lparr>co_commit_ds := ws\<rparr>)"
    and rel_waited: "co_commit_ds s = ws @ [w] \<Longrightarrow> waiter_d w = [d] \<Longrightarrow> R s (co_fire d r (s\<lparr>co_commit_ds := ws\<rparr>))"
    and rel_extra: "R s t \<Longrightarrow> R (s\<lparr>co_commit_ds := co_commit_ds s @ ws\<rparr>) (t\<lparr>co_commit_ds := co_commit_ds t @ ws\<rparr>)"
    and rel_forget: "R s (s\<lparr>co_shutdown_d := None\<rparr>)"
    and rel_shutdown: "co_shutdown_d s = Some d \<Longrightarrow> R (s\<lparr>co_shutdown_d := None\<rparr>) t \<Longrightarrow> co_start_d t = None \<Longrightarrow>
      R s (co_fire d r (t\<lparr>co_shuttingdown := b\<rparr>))"
begin

lemma fields_rel: "co_start_d t = co_start_d s \<Longrightarrow> co_start_called t = co_start_called s \<Longrightarrow> co_shutdown_d t = co_shutdown_d s \<Longrightarrow>
    co_commit_ds t = co_commit_ds s \<Longrightarrow> co_next_d t = co_next_d s \<Longrightarrow> co_log t = co_log s \<Longrightarrow> R s t"
  by (rule rel_frame [where es = "[]"]) simp_all

lemma emit_rel: "unheard e \<Longrightarrow> co_start_d t = co_start_d s \<Longrightarrow> co_start_called t = co_start_called s \<Longrightarrow> co_shutdown_d t = co_shutdown_d s \<Longrightarrow>
    co_commit_ds t = co_commit_ds s \<Longrightarrow> co_next_d t = co_next_d s \<Longrightarrow> co_log t = co_log s @ [e] \<Longrightarrow> R s t"
  by (rule rel_frame [where es = "[e]"]) simp_all

lemma start_errback_rel: "R s (fst (start_errback e s))"
  using rel_errback rel_refl by (simp add: start_errback_def split: option.split)

lemma retry_fetch_rel: "R s (retry_fetch cfg after s)"
proof (cases "co_stopping s \<or> co_shuttingdown s \<or> co_start_d s = None \<or> co_retry_call s \<noteq> None")
  case False
  then show ?thesis
    by (intro emit_rel [where e = "FetchAfter (case after of None \<Rightarrow> co_retry_delay s | Some t \<Rightarrow> t)"])
      (auto simp: retry_fetch_def co_emit_def Let_def split: option.split)
qed (auto simp: retry_fetch_def rel_refl)

lemma do_fetch_rel: "R s (fst (do_fetch cfg s))"
proof -
  let ?s = "s\<lparr>co_retry_call := None\<rparr>"
  have s: "R s ?s" by (rule fields_rel) simp_all
  have e: "R t (co_emit x (t\<lparr>co_request := q\<rparr>))" if "unheard x" for t x q
    using that by (intro emit_rel [of x]) (simp_all add: co_emit_def)
  define u where "u = (if has_group cfg then (?s, Inr ()) else start_errback InvalidConsumerGroupError ?s)"
  have "R s (fst u)" unfolding u_def using rel_trans [OF s start_errback_rel, of InvalidConsumerGroupError] s by simp
  moreover from this have "R s (co_emit SendOffsetFetch ((fst u)\<lparr>co_request := q\<rparr>))" for q using rel_trans e by simp
  ultimately show ?thesis
    using rel_trans [OF s e] rel_refl unfolding do_fetch_def Let_def u_def [symmetric]
    by (cases u) (auto split: sum.split)
qed

lemma handle_offset_error_rel: "R s (fst (handle_offset_error cfg e s))"
proof -
  have "R s (s\<lparr>co_request := None\<rparr>)" by (rule fields_rel) simp_all
  from this rel_trans [OF this start_errback_rel] rel_trans [OF this retry_fetch_rel] show ?thesis
    by (simp add: handle_offset_error_def Let_def)
qed

lemma handle_fetch_error_rel: "R s (fst (handle_fetch_error cfg e s))"
proof -
  have s: "R s (s\<lparr>co_request := None\<rparr>)" "R s (s\<lparr>co_request := None, co_fetch_offset := off\<rparr>)" for off by (rule fields_rel; simp)+
  from s rel_trans [OF s(1) start_errback_rel] rel_trans [OF s(1) retry_fetch_rel] rel_trans [OF s(2) start_errback_rel]
    rel_trans [OF s(2) retry_fetch_rel] show ?thesis
    by (simp add: handle_fetch_error_def Let_def)
qed

lemma handle_offset_response_rel: "R s (fst (handle_offset_response cfg rs s))"
proof -
  have "R s (s\<lparr>co_request := None, co_retry_delay := x, co_fetch_attempt_count := 1\<rparr>)"
    "R s (s\<lparr>co_request := None, co_retry_delay := x, co_fetch_attempt_count := 1, co_fetch_offset := off\<rparr>)"
    "R s (s\<lparr>co_request := None, co_retry_delay := x, co_fetch_attempt_count := 1, co_fetch_offset := off, co_last_committed := c\<rparr>)"
    for x off c by (rule fields_rel; simp)+
  then show ?thesis using rel_trans [OF _ do_fetch_rel]
    by (auto simp: handle_offset_response_def Let_def split: list.split offset_answer.split)
qed

lemma send_commit_request_rel: "R s (fst (send_commit_request delay attempt s))"
proof (cases "co_commit_req s")
  case None
  then show ?thesis
    by (intro emit_rel [of "SendCommit (co_last_processed s)"]) (simp_all add: send_commit_request_def co_emit_def Let_def)
qed (auto simp: send_commit_request_def Let_def intro: fields_rel)

lemma commit_request_rel:
  assumes "waiter_d w = []" "waiter_d w' = []"
  shows "R s (fst (commit_request cfg w w' s))"
proof -
  have a: "R s (s\<lparr>co_commit_ds := [w]\<rparr>)" if "co_commit_ds s = []" using rel_wait [OF assms(1), of s] that by simp
  obtain t r where c: "send_commit_request (cc_retry_init_delay cfg) 1 (s\<lparr>co_commit_ds := [w]\<rparr>) = (t, r)" by force
  have "R s t" if "co_commit_ds s = []"
    using rel_trans [OF a [OF that] send_commit_request_rel, of "cc_retry_init_delay cfg" 1] by (simp add: c)
  then show ?thesis using rel_wait [OF assms(2)] rel_refl by (simp add: commit_request_def c split: sum.split)
qed

lemma handle_auto_commit_error_rel: "R s (handle_auto_commit_error e s)"
  by (simp add: handle_auto_commit_error_def start_errback_rel rel_refl)

lemma auto_commit_rel: "R s (fst (auto_commit cfg by_count s))"
proof -
  obtain t r where c: "commit_request cfg AutoCommit AutoCommit s = (t, r)" by force
  then have t: "R s t" using commit_request_rel [of AutoCommit AutoCommit s cfg] by simp
  then have "R s (handle_auto_commit_error e t)" for e using rel_trans handle_auto_commit_error_rel by blast
  then show ?thesis using t rel_refl rel_wait [of "RetryAuto by_count" s]
    by (auto simp: auto_commit_def c split: option.split commit_outcome.split sum.split)
qed

lemma schedule_commit_rel: "R s (schedule_commit cfg delay attempt s)"
  by (rule emit_rel [of "CommitAfter (min (delay * REQUEST_RETRY_FACTOR) (cc_retry_max_delay cfg))"])
    (simp_all add: schedule_commit_def co_emit_def Let_def)

lemma cancel_commit_req_rel: "R s (cancel_commit_req cfg env s)"
proof -
  have "R s (s\<lparr>co_commit_req := None\<rparr>)" by (rule fields_rel) simp_all
  from this rel_trans [OF this schedule_commit_rel] show ?thesis
    by (auto simp: cancel_commit_req_def Let_def rel_refl split: option.split)
qed

lemma stop_finish_rel: "R s (fst (stop_finish cfg env s))"
proof -
  define t where "t = cancel_commit_req cfg env s"
  have c: "R t (stop_close t)" by (rule fields_rel) (simp_all add: stop_close_def)
  have "R t (fst (stop_finish cfg env s))"
  proof (rule stop_finish_cases [OF t_def])
    fix d assume "stop_finish cfg env s = ((stop_close t)\<lparr>co_start_d := None\<rparr>, Inr ())" "co_start_d t = Some d" "co_start_called t"
    then show ?thesis using rel_trans [OF c rel_close, of d] by (simp add: stop_close_def)
  next
    fix d assume "stop_finish cfg env s = (co_fire d (Inr (co_last_processed t)) ((stop_close t)\<lparr>co_start_d := None\<rparr>), Inr ())"
      "co_start_d t = Some d" "\<not> co_start_called t"
    then show ?thesis using rel_trans [OF c rel_close, of d "Inr (co_last_processed t)"] by (simp add: stop_close_def)
  qed (simp_all add: c rel_refl)
  then show ?thesis using rel_trans cancel_commit_req_rel unfolding t_def by blast
qed

lemma cancel_commits_rel: "R (s\<lparr>co_commit_ds := rev ws\<rparr>) (cancel_commits cfg env ws s)"
proof (induction ws arbitrary: s)
  case (Cons w ws)
  let ?z = "s\<lparr>co_commit_ds := rev (w # ws)\<rparr>" and ?s = "s\<lparr>co_commit_ds := rev ws\<rparr>"
  have none: "R ?z ?s" if "waiter_d w = []" using rel_unwait [of ?z "rev ws" w] that by simp
  have fire: "R ?z (co_fire d r ?s)" if "waiter_d w = [d]" for d r using rel_waited [of ?z "rev ws" w d r] that by simp
  have IH: "R t (cancel_commits cfg env ws t)" if "co_commit_ds t = rev ws" for t
  proof -
    have "t\<lparr>co_commit_ds := rev ws\<rparr> = t" using that by (cases t) simp
    then show ?thesis using Cons.IH [of t] by simp
  qed
  show ?case
  proof (cases w)
    case (UserCommit d)
    then show ?thesis using rel_trans [OF fire IH, of d "Inl TwistedCancelledError"] by (simp add: co_fire_def co_emit_def)
  next
    case (InProgress d)
    then show ?thesis using rel_trans [OF fire IH, of d "Inl TwistedCancelledError"] by (simp add: co_fire_def co_emit_def)
  next
    case AutoCommit
    have "co_commit_ds (handle_auto_commit_error TwistedCancelledError ?s) = rev ws"
      by (simp add: handle_auto_commit_error_def start_errback_def co_fire_def co_emit_def split: option.split)
    then show ?thesis using AutoCommit rel_trans [OF rel_trans [OF none handle_auto_commit_error_rel] IH] by simp
  next
    case (RetryAuto b)
    then show ?thesis using rel_trans [OF none IH] by simp
  next
    case ShutdownRetry
    then show ?thesis using rel_trans [OF none IH] by simp
  next
    case ShutdownCommit
    let ?t = "?s\<lparr>co_shutdown_d := None\<rparr>"
    let ?u = "cancel_commits cfg env ws (?t\<lparr>co_retry_call := map_option (\<lambda>_. False) (co_retry_call s)\<rparr>)"
    have zs: "R ?z ?s" using none ShutdownCommit by simp
    have st: "R ?s ?t" by (rule rel_forget)
    have "R ?t (?t\<lparr>co_retry_call := map_option (\<lambda>_. False) (co_retry_call s)\<rparr>)" by (rule fields_rel) simp_all
    then have "R ?t ?u" by (rule rel_trans [OF _ IH]) simp
    then have fin: "R ?t (fst (stop_finish cfg env ?u))" using rel_trans stop_finish_rel by blast
    have fired: "R ?z (co_fire d r (v\<lparr>co_shuttingdown := False\<rparr>))" if "stop_finish cfg env ?u = (v, Inr x)" "co_shutdown_d s = Some d" for v x d r
      by (rule rel_trans [OF zs rel_shutdown]) (use that fin stop_finish_done [OF that(1)] in simp_all)
    have "R v (v\<lparr>co_shuttingdown := False\<rparr>)" for v by (rule fields_rel) simp_all
    then have "R ?z v" "R ?z (v\<lparr>co_shuttingdown := False\<rparr>)" if "stop_finish cfg env ?u = (v, x)" for v x
      using rel_trans [OF rel_trans [OF zs st] fin] rel_trans that by (metis fst_conv)+
    moreover have "R ?z (cancel_commits cfg env ws ?t)" by (rule rel_trans [OF rel_trans [OF zs st] IH]) simp
    ultimately show ?thesis using ShutdownCommit fired by (auto simp: Let_def split: option.split prod.split sum.split)
  qed
qed (simp add: rel_refl)

lemma stop_tail_rel: "R s (fst (stop_tail cfg env s))"
proof -
  let ?s = "s\<lparr>co_retry_call := map_option (\<lambda>_. False) (co_retry_call s)\<rparr>"
  have "R s ?s" by (rule fields_rel) simp_all
  moreover have "?s\<lparr>co_commit_ds := rev (rev (co_commit_ds ?s))\<rparr> = ?s" by (cases s) simp
  then have "R ?s (cancel_commits cfg env (rev (co_commit_ds ?s)) ?s)"
    using cancel_commits_rel [where s = ?s and ws = "rev (co_commit_ds ?s)" and cfg = cfg and env = env] by simp
  ultimately have "R s (fst (stop_finish cfg env (cancel_commits cfg env (rev (co_commit_ds ?s)) ?s)))"
    using stop_finish_rel rel_trans by blast
  then show ?thesis by (simp add: stop_tail_def Let_def rel_refl)
qed

lemma stop_head_rel: "R s (stop_head cfg env s)"
proof -
  let ?s = "s\<lparr>co_stopping := True\<rparr>"
  have s: "R s ?s" by (rule fields_rel) simp_all
  define t where "t = (case co_request ?s of
      Some AskOffset \<Rightarrow> fst (handle_offset_error cfg (se_request env) ?s)
    | Some AskCommitted \<Rightarrow> fst (handle_offset_error cfg (se_request env) ?s)
    | Some AskMessages \<Rightarrow> fst (handle_fetch_error cfg (se_request env) ?s)
    | _ \<Rightarrow> ?s)"
  have "R s t"
    unfolding t_def using s rel_trans [OF s handle_offset_error_rel] rel_trans [OF s handle_fetch_error_rel]
    by (simp split: option.split consumer_request.split)
  moreover have "R t (t\<lparr>co_msg_block_d := False, co_request := q\<rparr>)" for q by (rule fields_rel) simp_all
  ultimately have "R s (t\<lparr>co_msg_block_d := False, co_request := q\<rparr>)" for q using rel_trans by blast
  then show ?thesis unfolding stop_head_def Let_def t_def by simp
qed

lemma processor_done_rel: "R s (fst (processor_done cfg r off s))"
proof -
  let ?s = "co_emit (Processed off) (s\<lparr>co_last_processed := Some off\<rparr>)"
  have "R s ?s" by (rule emit_rel [of "Processed off"]) (simp_all add: co_emit_def)
  then have u: "R s (fst (update_processed_offset cfg off s))"
    unfolding update_processed_offset_def using rel_trans auto_commit_rel by blast
  have h: "R t (fst (handle_processor_error e t))" for e t by (simp add: handle_processor_error_def start_errback_rel rel_refl)
  obtain t q where t: "update_processed_offset cfg off s = (t, q)" by force
  with u have "R s (fst (handle_processor_error e t))" for e using rel_trans h by (metis fst_conv)
  then show ?thesis using u h by (simp add: processor_done_def t split: sum.split)
qed

lemma process_next_rel:
  assumes "\<And>t. R t (finish t)"
  shows "R s (process_next cfg late finish rest s)"
proof -
  let ?b = "take (block_size cfg rest) rest"
  let ?s = "co_emit (CallProcessor ?b) (s\<lparr>co_processor := None\<rparr>)"
  have s: "R s ?s" "R s (?s\<lparr>co_processor := q\<rparr>)" for q by (rule emit_rel [of "CallProcessor ?b"]; simp add: co_emit_def)+
  then have "R s (finish (fst (processor_done cfg late off ?s)))" for off
    using rel_trans processor_done_rel assms by meson
  then show ?thesis using assms s by (simp add: process_next_def Let_def)
qed

lemma handle_fetch_now_rel: "R s (fst (handle_fetch_now cfg late rs s))"
proof -
  obtain taken off ended where x: "take_responses (cc_partition cfg) (co_fetch_offset s) rs = (taken, off, ended)"
    by (metis surj_pair)
  let ?s = "s\<lparr>co_retry_delay := cc_retry_init_delay cfg, co_fetch_attempt_count := 1, co_request := None, co_fetch_offset := off\<rparr>"
  have s: "R s ?s" "R s (?s\<lparr>co_buffer_size := n\<rparr>)" for n by (rule fields_rel; simp)+
  obtain t fe where e: "end_of_messages cfg ended ?s = (t, fe)" by force
  then have t: "R s t" using end_of_messages_cases [OF e] s rel_trans [OF s(1) start_errback_rel] by auto
  have b: "R u (u\<lparr>co_msg_block_d := v\<rparr>)" for u v by (rule fields_rel) simp_all
  define u where "u = (if taken = [] then t
    else process_next cfg late (\<lambda>s. s\<lparr>co_msg_block_d := False\<rparr>) (map (sourced cfg) taken) (t\<lparr>co_msg_block_d := True\<rparr>))"
  have "R s u"
    unfolding u_def using t rel_trans [OF rel_trans [OF t b] process_next_rel [OF b]] by simp
  then show ?thesis
    using rel_trans [OF _ retry_fetch_rel] unfolding handle_fetch_now_def x e prod.case Let_def u_def [symmetric]
    by (simp split: fetch_end.split)
qed

lemma fetch_answered_rel: "R s (fetch_answered cfg late rs s)"
proof -
  obtain t r where t: "handle_fetch_now cfg late rs s = (t, r)" by force
  then have "R s t" using handle_fetch_now_rel [of s cfg late rs] by simp
  moreover from this have "R s (fst (handle_fetch_error cfg e t))" for e using rel_trans handle_fetch_error_rel by blast
  moreover have "R s (s\<lparr>co_retry_delay := cc_retry_init_delay cfg, co_fetch_attempt_count := 1, co_request := q\<rparr>)" for q
    by (rule fields_rel) simp_all
  ultimately show ?thesis by (simp add: fetch_answered_def t split: sum.split)
qed

lemma end_block_rel: "R s (end_block cfg late s)"
proof -
  have "R s (s\<lparr>co_msg_block_d := False\<rparr>)" by (rule fields_rel) simp_all
  then show ?thesis
    using rel_trans [OF _ handle_fetch_now_rel] rel_refl by (simp add: end_block_def Let_def split: option.split consumer_request.split)
qed

lemma resume_rel: "R s (resume cfg late r s)"
proof (cases "co_processor s")
  case (Some p)
  obtain off rest w where p: "p = (off, rest, w)" by (metis surj_pair)
  have s: "R s (s\<lparr>co_processor := None\<rparr>)" by (rule fields_rel) simp_all
  obtain t q where t: "processor_done cfg r off (s\<lparr>co_processor := None\<rparr>) = (t, q)" by force
  have "R s t" using rel_trans [OF s processor_done_rel, of cfg r off] by (simp add: t)
  then show ?thesis
    using rel_trans [OF _ process_next_rel [OF end_block_rel]] by (simp add: resume_def Some p t split: sum.split)
qed (simp add: resume_def rel_refl)

lemma stop_inner_rel: "R s (fst (stop_inner cfg env s))"
  using rel_trans [OF rel_trans [OF stop_head_rel resume_rel] stop_tail_rel] by (simp add: stop_inner_def rel_refl)

lemma stop_inner_done: "stop_inner cfg env s = (t, Inr r) \<Longrightarrow> co_start_d t = None"
  by (auto simp: stop_inner_def stop_tail_def Let_def split: if_splits dest: stop_finish_done)

lemma shutdown_end_rel: "R s (fst (shutdown_end cfg env failure s))"
proof -
  let ?s = "s\<lparr>co_shutdown_d := None\<rparr>"
  obtain t r where st: "stop_inner cfg env ?s = (t, r)" by force
  have t: "R ?s t" using stop_inner_rel [of ?s cfg env] by (simp add: st)
  then have s: "R s t" by (rule rel_trans [OF rel_forget])
  have "R t (t\<lparr>co_shuttingdown := False\<rparr>)" by (rule fields_rel) simp_all
  with s have u: "R s (t\<lparr>co_shuttingdown := False\<rparr>)" by (rule rel_trans)
  have "R s (co_fire d q (t\<lparr>co_shuttingdown := False\<rparr>))" if "co_shutdown_d s = Some d" "r = Inr ()" for d q
    by (rule rel_shutdown [OF that(1) t]) (use st that(2) stop_inner_done in blast)
  with s u show ?thesis by (simp add: shutdown_end_def st Let_def split: sum.split option.split)
qed

lemma commit_and_stop_rel: "R s (fst (commit_and_stop cfg env s))"
proof -
  obtain t r where c: "commit_request cfg ShutdownCommit ShutdownRetry s = (t, r)" by force
  then have t: "R s t" using commit_request_rel [of ShutdownCommit ShutdownRetry s cfg] by simp
  then have "R s (fst (shutdown_end cfg env f t))" for f using rel_trans shutdown_end_rel by blast
  with t show ?thesis
    by (auto simp: commit_and_stop_def c shutdown_end_rel split: commit_outcome.split sum.split)
qed

lemma waiter_done_rel: "waiter_d w = [] \<Longrightarrow> R s (waiter_done cfg env r s w)"
  by (cases w) (simp_all add: waiter_done_def handle_auto_commit_error_rel auto_commit_rel shutdown_end_rel
      commit_and_stop_rel rel_refl split: sum.split)

lemma waiters_done_rel: "R (v\<lparr>co_commit_ds := co_commit_ds v @ ws\<rparr>) (foldl (waiter_done cfg env r) v (rev ws))"
proof (induction ws arbitrary: v rule: rev_induct)
  case (snoc w ws)
  let ?z = "v\<lparr>co_commit_ds := co_commit_ds v @ ws @ [w]\<rparr>" and ?t = "waiter_done cfg env r v w"
  have "R ?z (?t\<lparr>co_commit_ds := co_commit_ds ?t @ ws\<rparr>)"
  proof (cases "waiter_d w")
    case Nil
    have "R ?z (v\<lparr>co_commit_ds := co_commit_ds v @ ws\<rparr>)" using rel_unwait [of ?z "co_commit_ds v @ ws" w] Nil by simp
    then show ?thesis by (rule rel_trans) (rule rel_extra [OF waiter_done_rel [OF Nil]])
  next
    case (Cons d ds)
    then have w: "waiter_d w = [d]" "?t = co_fire d r v" by (cases w; simp add: waiter_done_def)+
    moreover have "?t\<lparr>co_commit_ds := co_commit_ds ?t @ ws\<rparr> = co_fire d r (?z\<lparr>co_commit_ds := co_commit_ds v @ ws\<rparr>)"
      unfolding w(2) by (cases v) (simp add: co_fire_def co_emit_def)
    ultimately show ?thesis using rel_waited [of ?z "co_commit_ds v @ ws" w d r] by simp
  qed
  from rel_trans [OF this snoc.IH] show ?case by simp
qed (simp add: rel_refl)

lemma deliver_commit_result_rel: "R s (deliver_commit_result cfg env r s)"
  using waiters_done_rel [of "s\<lparr>co_commit_ds := []\<rparr>" "co_commit_ds s" cfg env r] by (simp add: deliver_commit_result_def)

lemma commit_answered_rel: "R s (commit_answered cfg env r s)"
proof -
  have s: "R s (s\<lparr>co_commit_req := None\<rparr>)" "R s (s\<lparr>co_commit_req := None, co_last_committed := off\<rparr>)" for off
    by (rule fields_rel; simp)+
  show ?thesis
    using rel_trans [OF s(1) schedule_commit_rel] rel_trans [OF s(1) deliver_commit_result_rel]
      rel_trans [OF s(2) deliver_commit_result_rel] rel_refl
    by (simp add: commit_answered_def Let_def split: option.split sum.split)
qed

lemma processor_answered_rel: "R s (processor_answered cfg env r s)"
  using resume_rel [of s cfg "se_next env" r] rel_trans [OF resume_rel commit_and_stop_rel]
  by (simp add: processor_answered_def Let_def)

lemma co_stop_rel: "R s (fst (co_stop cfg env s))"
  using rel_trans [OF rel_trans [OF stop_head_rel processor_answered_rel] stop_tail_rel]
  by (simp add: co_stop_def rel_refl)

lemma calls_rel:
  "R s (fst (do_fetch cfg (s\<lparr>co_retry_call := c\<rparr>)))" "R s (fst (send_commit_request delay attempt (s\<lparr>co_commit_call := k\<rparr>)))"
proof -
  have "R s (s\<lparr>co_retry_call := c\<rparr>)" "R s (s\<lparr>co_commit_call := k\<rparr>)" by (rule fields_rel; simp)+
  then show "R s (fst (do_fetch cfg (s\<lparr>co_retry_call := c\<rparr>)))" "R s (fst (send_commit_request delay attempt (s\<lparr>co_commit_call := k\<rparr>)))"
    using rel_trans do_fetch_rel send_commit_request_rel by meson+
qed

end

section \<open>Deferreds fire at most once\<close>

fun is_cfire :: "nat \<Rightarrow> consumer_effect \<Rightarrow> bool" where
  "is_cfire d (CFired d' r) = (d' = d)"
| "is_cfire d _ = False"

definition cfires :: "nat \<Rightarrow> consumer_effect list \<Rightarrow> nat" where
  "cfires d es = length (filter (is_cfire d) es)"

lemma cfires_simps [simp]:
  "cfires d [] = 0" "cfires d (e # es) = (if is_cfire d e then 1 else 0) + cfires d es"
  "cfires d (es @ es') = cfires d es + cfires d es'"
  by (auto simp: cfires_def)

text \<open>The deferreds that the consumer still holds to fire them.\<close>

definition held :: "consumer \<Rightarrow> nat list" where
  "held s = (if co_start_called s then [] else case co_start_d s of None \<Rightarrow> [] | Some d \<Rightarrow> [d]) @
     (case co_shutdown_d s of None \<Rightarrow> [] | Some d \<Rightarrow> [d]) @ concat (map waiter_d (co_commit_ds s))"

text \<open>How often a deferred has fired, plus how often it is held: this never grows.\<close>

definition weight :: "consumer \<Rightarrow> nat \<Rightarrow> nat" where
  "weight s d = cfires d (co_log s) + count_list (held s) d"

definition spends :: "consumer \<Rightarrow> consumer \<Rightarrow> bool" where
  "spends s t \<longleftrightarrow> (\<forall>d. weight t d \<le> weight s d) \<and> co_next_d t = co_next_d s"

lemma spends_refl [simp]: "spends s s"
  by (simp add: spends_def)

lemma spends_trans: "spends s t \<Longrightarrow> spends t u \<Longrightarrow> spends s u"
  unfolding spends_def by (metis order_trans)

lemmas spend_defs = spends_def weight_def held_def co_emit_def co_fire_def

interpretation spent: deferred_relation spends
proof
  fix s t u :: consumer and es ws w d and r :: "int option result" and e b
  show "spends s s" by simp
  show "spends s t \<Longrightarrow> spends t u \<Longrightarrow> spends s u" by (rule spends_trans)
  show "spends s t" if "co_start_d t = co_start_d s" "co_start_called t = co_start_called s" "co_shutdown_d t = co_shutdown_d s"
    "co_commit_ds t = co_commit_ds s" "co_next_d t = co_next_d s" "co_log t = co_log s @ es" "list_all unheard es"
  proof -
    have "cfires x es = 0" for x using that(7) by (induction es) (auto elim: is_cfire.elims)
    with that show ?thesis by (simp add: spends_def weight_def held_def)
  qed
  show "spends s (co_fire d (Inl e) (s\<lparr>co_start_called := True\<rparr>))" if "co_start_d s = Some d" "\<not> co_start_called s"
    using that by (simp add: spend_defs)
  show "spends s (if co_start_called s then s\<lparr>co_start_d := None\<rparr> else co_fire d r (s\<lparr>co_start_d := None\<rparr>))" if "co_start_d s = Some d"
    using that by (simp add: spend_defs)
  show "spends s (s\<lparr>co_commit_ds := co_commit_ds s @ [w]\<rparr>)" if "waiter_d w = []" using that by (simp add: spend_defs)
  show "spends s (s\<lparr>co_commit_ds := ws\<rparr>)" if "co_commit_ds s = ws @ [w]" "waiter_d w = []" using that by (simp add: spend_defs)
  show "spends s (co_fire d r (s\<lparr>co_commit_ds := ws\<rparr>))" if "co_commit_ds s = ws @ [w]" "waiter_d w = [d]" using that by (simp add: spend_defs)
  show "spends (s\<lparr>co_commit_ds := co_commit_ds s @ ws\<rparr>) (t\<lparr>co_commit_ds := co_commit_ds t @ ws\<rparr>)" if "spends s t"
    using that by (auto simp: spends_def weight_def held_def)
  show "spends s (s\<lparr>co_shutdown_d := None\<rparr>)" by (simp add: spend_defs)
  show "spends s (co_fire d r (t\<lparr>co_shuttingdown := b\<rparr>))" if "co_shutdown_d s = Some d" "spends (s\<lparr>co_shutdown_d := None\<rparr>) t"
  proof -
    have "weight s x = weight (s\<lparr>co_shutdown_d := None\<rparr>) x + (if x = d then 1 else 0)" for x
      using that(1) by (auto simp: weight_def held_def)
    moreover have "weight (co_fire d r (t\<lparr>co_shuttingdown := b\<rparr>)) x = weight t x + (if x = d then 1 else 0)" for x
      by (simp add: weight_def held_def co_fire_def co_emit_def)
    ultimately show ?thesis using that(2) by (auto simp: spends_def co_fire_def co_emit_def)
  qed
qed

definition once_inv :: "consumer \<Rightarrow> bool" where
  "once_inv s \<longleftrightarrow> (\<forall>d. weight s d \<le> (if d < co_next_d s then 1 else 0))"

lemma once_spends: "once_inv s \<Longrightarrow> spends s t \<Longrightarrow> once_inv t"
  unfolding once_inv_def spends_def by (metis order_trans)

text \<open>Handing out a new deferred.\<close>

lemma once_new:
  assumes "once_inv s" "co_next_d t = Suc (co_next_d s)"
    and "\<And>d. weight t d \<le> weight s d + (if d = co_next_d s then 1 else 0)"
  shows "once_inv t"
  unfolding once_inv_def
proof
  fix d
  show "weight t d \<le> (if d < co_next_d t then 1 else 0)"
    using assms(1) [unfolded once_inv_def, rule_format, of d] assms(2) assms(3) [of d] by (auto split: if_splits)
qed

lemma once_start:
  assumes "once_inv s"
  shows "once_inv (fst (co_start cfg off s))"
proof (cases "co_start_d s")
  case None
  let ?s = "co_emit (Started off) (s\<lparr>co_start_d := Some (co_next_d s), co_start_called := False,
     co_next_d := Suc (co_next_d s), co_fetch_offset := off\<rparr>)"
  have "once_inv ?s" using None by (intro once_new [OF assms]) (auto simp: weight_def held_def co_emit_def)
  then have "once_inv (fst (do_fetch cfg ?s))" using once_spends spent.do_fetch_rel by blast
  moreover have "spends t (t\<lparr>co_commit_looper := b\<rparr>)" for t b by (rule spent.fields_rel) simp_all
  ultimately show ?thesis
    using None once_spends by (simp add: co_start_def split: prod.split sum.split)
qed (use assms in \<open>simp add: co_start_def\<close>)

lemma once_shutdown:
  assumes "once_inv s"
  shows "once_inv (fst (shutdown cfg env s))"
proof (cases "co_start_d s = None \<or> co_shutdown_d s \<noteq> None")
  case False
  define t where "t = s\<lparr>co_shuttingdown := True, co_max_attempts := (if co_max_attempts s = 0 then 2 else co_max_attempts s),
     co_shutdown_d := Some (co_next_d s), co_next_d := Suc (co_next_d s)\<rparr>"
  have t: "once_inv t" using False unfolding t_def by (intro once_new [OF assms]) (auto simp: weight_def held_def)
  then have q: "once_inv (t\<lparr>co_processor := q\<rparr>)" for q by (rule once_spends) (rule spent.fields_rel; simp)
  have "shutdown cfg env s = (case co_processor t of
      Some (last_offset, rest, _) \<Rightarrow> (t\<lparr>co_processor := Some (last_offset, rest, True)\<rparr>, Inr ())
    | None \<Rightarrow> commit_and_stop cfg env t)"
    using False by (simp only: shutdown_def Let_def t_def if_False)
  with q once_spends [OF t spent.commit_and_stop_rel] show ?thesis by (simp split: option.split)
qed (use assms in \<open>auto simp: shutdown_def\<close>)

lemma once_commit:
  assumes "once_inv s"
  shows "once_inv (co_commit cfg s)"
proof -
  let ?d = "co_next_d s"
  let ?s = "s\<lparr>co_next_d := Suc ?d\<rparr>" and ?n = "s\<lparr>co_next_d := Suc ?d, co_commit_ds := [UserCommit ?d]\<rparr>"
  have fire: "once_inv (co_fire ?d r ?s)" for r
    by (rule once_new [OF assms]) (simp_all add: weight_def held_def co_fire_def co_emit_def)
  have new: "once_inv ?n" if "co_commit_ds s = []"
    by (rule once_new [OF assms]) (use that in \<open>simp_all add: weight_def held_def\<close>)
  obtain t q where t: "send_commit_request (cc_retry_init_delay cfg) 1 ?n = (t, q)" by force
  have "once_inv t" if "co_commit_ds s = []"
    using once_spends [OF new [OF that] spent.send_commit_request_rel, of "cc_retry_init_delay cfg" 1] by (simp add: t)
  moreover have "once_inv (co_fire ?d r (s\<lparr>co_commit_ds := co_commit_ds s @ [InProgress (Suc ?d)], co_next_d := Suc (Suc ?d)\<rparr>))" for r
    by (rule once_new [OF fire [of r]]) (simp_all add: weight_def held_def co_fire_def co_emit_def)
  ultimately show ?thesis
    using fire by (auto simp: co_commit_def commit_request_def t Let_def split: prod.split sum.split)
qed

interpretation once: consumer_invariant cfg once_inv b n for cfg b n
proof
  show "once_inv (consumer_init cfg b n)" by (simp add: once_inv_def consumer_init_def weight_def held_def)
qed (auto intro: once_start once_commit once_shutdown once_spends [OF _ spent.calls_rel(1)] once_spends [OF _ spent.calls_rel(2)]
    once_spends [OF _ spent.co_stop_rel] once_spends [OF _ spent.handle_offset_error_rel] once_spends [OF _ spent.handle_fetch_error_rel]
    once_spends [OF _ spent.handle_offset_response_rel] once_spends [OF _ spent.fetch_answered_rel]
    once_spends [OF _ spent.processor_answered_rel] once_spends [OF _ spent.commit_answered_rel] once_spends [OF _ spent.auto_commit_rel])

text \<open>
  C18. No deferred of the consumer fires twice: in every run each deferred that \<open>start\<close>, \<open>commit\<close> or \<open>shutdown\<close> returned has
  fired at most once, and one that the consumer still holds (to fire it on stop, with the result of a commit
  or at the end of a shutdown) has not fired and is held only once.
\<close>

theorem consumer_fires_once:
  assumes "co_reach cfg b n s"
  shows "cfires d (co_log s) + count_list (held s) d \<le> (if d < co_next_d s then 1 else 0)"
  using once.reach_invar [OF assms] by (simp add: once_inv_def weight_def)

text \<open>Example: a consumer of partition 0 of the topic t in the group g.\<close>

definition sample_consumer :: "nat \<Rightarrow> consumer_config" where
  "sample_consumer every_n =
     \<lparr>cc_topic = str_lit ''t'', cc_partition = 0, cc_consumer_group = Some (str_lit ''g''), cc_commit_metadata = None,
      cc_auto_commit_every_n = Some every_n, cc_auto_commit_every_s = Some 5, cc_max_buffer_size = Some 200000,
      cc_retry_init_delay = REQUEST_RETRY_MIN_DELAY, cc_retry_max_delay = REQUEST_RETRY_MAX_DELAY,
      cc_auto_offset_reset = None\<rparr>"

definition sample_env :: stop_env where
  "sample_env = \<lparr>se_request = TwistedCancelledError, se_commit = TwistedCancelledError,
     se_processor = Inl TwistedCancelledError, se_next = Inl TwistedCancelledError\<rparr>"

definition sample_fetched :: "int list \<Rightarrow> unit result \<Rightarrow> consumer_event" where
  "sample_fetched offs ended =
     FetchAnswer [\<lparr>frs_topic = str_lit ''t'', frs_partition = 0, frs_error = 0, frs_highwaterMark = 9,
       frs_messages = Some (map (\<lambda>off. \<lparr>oam_offset = off, oam_message = create_message (Some [1]) None\<rparr>) offs, ended)\<rparr>] sample_env"

abbreviation sample_new :: "nat \<Rightarrow> consumer" where
  "sample_new every_n \<equiv> consumer_init (sample_consumer every_n) FETCH_BUFFER_SIZE_BYTES 0"

abbreviation sample_run :: "nat \<Rightarrow> consumer_event list \<Rightarrow> consumer option" where
  "sample_run every_n \<equiv> co_run (sample_consumer every_n) (sample_new every_n)"

lemma sample_consumer_reach: "sample_run every_n es = Some s \<Longrightarrow> co_reach (sample_consumer every_n) FETCH_BUFFER_SIZE_BYTES 0 s"
  by (rule co_run_reach [OF reach_init]) simp_all

text \<open>Two messages are processed and committed, then the consumer shuts down.\<close>

definition sample_committed :: consumer where
  "sample_committed = the (sample_run 2 [StartConsumer 5, sample_fetched [4, 5, 6] (Inr ()), ProcessorAnswer (Inr ()) sample_env,
     CommitAnswer (Inr ()) sample_env, RetryTimer, ShutdownConsumer sample_env])"

lemma sample_committed_run:
  "sample_run 2 [StartConsumer 5, sample_fetched [4, 5, 6] (Inr ()), ProcessorAnswer (Inr ()) sample_env,
     CommitAnswer (Inr ()) sample_env, RetryTimer, ShutdownConsumer sample_env] = Some sample_committed"
  by code_simp

theorem consumer_fires_once_witness:
  "cfires 0 (co_log sample_committed) = 1 \<and> cfires 1 (co_log sample_committed) = 1 \<and> held sample_committed = []"
proof -
  have "co_next_d sample_committed = 2 \<and> 0 < cfires 0 (co_log sample_committed) \<and> 0 < cfires 1 (co_log sample_committed) \<and>
    held sample_committed = []" by code_simp
  then show ?thesis
    using consumer_fires_once [OF sample_consumer_reach [OF sample_committed_run], of 0]
      consumer_fires_once [OF sample_consumer_reach [OF sample_committed_run], of 1] by simp
qed

end
