(* ===== verification/Consumer_Order.thy ===== *)
theory Consumer_Order
  imports Consumer_Steps
begin

text \<open>
  What the consumer may do next, given what it has done: the order in which messages reach the processor,
  the offsets that are committed and the sizes of its fetches, as a condition on every entry of its log.
\<close>

section \<open>Reading the log\<close>

text \<open>Every entry of a log is allowed after the entries before it.\<close>

definition disciplined :: "('e list \<Rightarrow> 'e \<Rightarrow> bool) \<Rightarrow> 'e list \<Rightarrow> bool" where
  "disciplined ok es \<longleftrightarrow> (\<forall>xs e ys. es = xs @ e # ys \<longrightarrow> ok xs e)"

lemma disciplined_Nil [simp]: "disciplined ok []"
  by (simp add: disciplined_def)

lemma disciplined_at: "disciplined ok es \<Longrightarrow> es = xs @ e # ys \<Longrightarrow> ok xs e"
  unfolding disciplined_def by blast

lemma disciplined_snoc [simp]: "disciplined ok (es @ [e]) \<longleftrightarrow> disciplined ok es \<and> ok es e"
proof
  assume d: "disciplined ok (es @ [e])"
  have "ok xs x" if "es = xs @ x # ys" for xs x ys
    using d that unfolding disciplined_def by (metis append.assoc append_Cons)
  then show "disciplined ok es \<and> ok es e" using d by (auto simp: disciplined_def)
next
  assume d: "disciplined ok es \<and> ok es e"
  show "disciplined ok (es @ [e])"
    unfolding disciplined_def
  proof (intro allI impI)
    fix xs x ys assume eq: "es @ [e] = xs @ x # ys"
    then show "ok xs x" using d by (cases ys rule: rev_cases) (auto simp: disciplined_def)
  qed
qed

text \<open>The offset of the block that was processed last, the last offset of the block that the processor was called with.\<close>

fun last_done :: "int option \<Rightarrow> consumer_effect list \<Rightarrow> int option" where
  "last_done a [] = a"
| "last_done a (e # es) = last_done (case e of Processed off \<Rightarrow> Some off | _ \<Rightarrow> a) es"

fun last_called :: "int option \<Rightarrow> consumer_effect list \<Rightarrow> int option" where
  "last_called a [] = a"
| "last_called a (e # es) =
     last_called (case e of CallProcessor block \<Rightarrow> Some (sm_offset (last block)) | _ \<Rightarrow> a) es"

text \<open>The offsets of the messages that were handed to the processor since the consumer was started last.\<close>

fun handed :: "int list \<Rightarrow> consumer_effect list \<Rightarrow> int list" where
  "handed a [] = a"
| "handed a (e # es) =
     handed (case e of Started off \<Rightarrow> [] | CallProcessor block \<Rightarrow> a @ map sm_offset block | _ \<Rightarrow> a) es"

lemma log_append [simp]:
  "last_done a (xs @ ys) = last_done (last_done a xs) ys"
  "last_called a (xs @ ys) = last_called (last_called a xs) ys"
  "handed l (xs @ ys) = handed (handed l xs) ys"
  by (induction xs arbitrary: a l) auto

definition valid_buffer :: "consumer_config \<Rightarrow> int \<Rightarrow> bool" where
  "valid_buffer cfg b \<longleftrightarrow> 0 \<le> b \<and> (\<forall>limit. cc_max_buffer_size cfg = Some limit \<longrightarrow> b \<le> limit)"

definition size_ok :: "consumer_config \<Rightarrow> int \<Rightarrow> int \<Rightarrow> bool" where
  "size_ok cfg b sz \<longleftrightarrow> (valid_buffer cfg b \<longrightarrow> b \<le> sz \<and> (\<forall>limit. cc_max_buffer_size cfg = Some limit \<longrightarrow> sz \<le> limit))"

definition entry_ok :: "consumer_config \<Rightarrow> int \<Rightarrow> consumer_effect list \<Rightarrow> consumer_effect \<Rightarrow> bool" where
  "entry_ok cfg b es e =
     (case e of
        SendCommit off \<Rightarrow> off \<noteq> None \<and> off = last_done None es
      | Processed off \<Rightarrow> last_called None es = Some off
      | CallProcessor block \<Rightarrow>
          block \<noteq> [] \<and> sorted_wrt (<) (map sm_offset block) \<and>
          (cc_auto_offset_reset cfg = None \<longrightarrow> (\<forall>off\<in>set (handed [] es). \<forall>m\<in>set block. off < sm_offset m))
      | SendFetch off sz \<Rightarrow> size_ok cfg b sz
      | _ \<Rightarrow> True)"

section \<open>The invariant\<close>

definition to_come :: "consumer \<Rightarrow> sourced_message list" where
  "to_come s = (case co_processor s of None \<Rightarrow> [] | Some (off, rest, w) \<Rightarrow> rest)"

definition line :: "consumer \<Rightarrow> int list" where
  "line s = handed [] (co_log s) @ map sm_offset (to_come s)"

definition position_ok :: "consumer \<Rightarrow> bool" where
  "position_ok s \<longleftrightarrow> sorted_wrt (<) (line s) \<and>
     (line s \<noteq> [] \<longrightarrow> 0 \<le> co_fetch_offset s \<and> (\<forall>off\<in>set (line s). off < co_fetch_offset s) \<and>
        co_request s \<noteq> Some AskOffset \<and> co_request s \<noteq> Some AskCommitted) \<and>
     (co_request s = Some AskMessages \<or> (\<exists>rs. co_request s = Some (Held rs)) \<longrightarrow> 0 \<le> co_fetch_offset s) \<and>
     (0 \<le> co_fetch_offset s \<or> co_fetch_offset s \<in> {OFFSET_EARLIEST, OFFSET_LATEST, OFFSET_COMMITTED})"

definition log_inv :: "consumer_config \<Rightarrow> int \<Rightarrow> consumer \<Rightarrow> bool" where
  "log_inv cfg b s \<longleftrightarrow> disciplined (entry_ok cfg b) (co_log s) \<and> co_last_processed s = last_done None (co_log s) \<and>
     (co_commit_req s \<noteq> None \<or> co_commit_call s \<noteq> None \<longrightarrow> last_done None (co_log s) \<noteq> None) \<and>
     size_ok cfg b (co_buffer_size s) \<and> sorted_wrt (<) (map sm_offset (to_come s)) \<and>
     (\<forall>off rest w. co_processor s = Some (off, rest, w) \<longrightarrow> last_called None (co_log s) = Some off) \<and>
     (cc_auto_offset_reset cfg = None \<longrightarrow> position_ok s)"

text \<open>Entries and changes that matter to no part of the invariant.\<close>

fun plain_effect :: "consumer_effect \<Rightarrow> bool" where
  "plain_effect (CFired d r) = True"
| "plain_effect (SendOffset off) = True"
| "plain_effect SendOffsetFetch = True"
| "plain_effect (FetchAfter t) = True"
| "plain_effect (CommitAfter t) = True"
| "plain_effect _ = False"

definition quiet :: "consumer_config \<Rightarrow> consumer \<Rightarrow> consumer \<Rightarrow> bool" where
  "quiet cfg s t \<longleftrightarrow> (\<exists>es. co_log t = co_log s @ es \<and> list_all plain_effect es) \<and>
     co_last_processed t = co_last_processed s \<and> co_processor t = co_processor s \<and> co_buffer_size t = co_buffer_size s \<and>
     (co_commit_req t \<noteq> None \<or> co_commit_call t \<noteq> None \<longrightarrow> co_commit_req s \<noteq> None \<or> co_commit_call s \<noteq> None) \<and>
     (cc_auto_offset_reset cfg = None \<longrightarrow> co_fetch_offset t = co_fetch_offset s) \<and>
     (co_request t = co_request s \<or> co_request t = None \<or> co_request t = Some Gone)"

lemma quiet_refl [simp]: "quiet cfg s s"
  by (simp add: quiet_def)

lemma quiet_trans:
  assumes "quiet cfg s t" "quiet cfg t u"
  shows "quiet cfg s u"
proof -
  from assms obtain es fs where "co_log t = co_log s @ es" "list_all plain_effect es" "co_log u = co_log t @ fs" "list_all plain_effect fs"
    unfolding quiet_def by blast
  then have "co_log u = co_log s @ (es @ fs) \<and> list_all plain_effect (es @ fs)" by simp
  then have "\<exists>es. co_log u = co_log s @ es \<and> list_all plain_effect es" by blast
  moreover have "co_request u = co_request s \<or> co_request u = None \<or> co_request u = Some Gone"
    using assms unfolding quiet_def by metis
  moreover have "co_commit_req u \<noteq> None \<or> co_commit_call u \<noteq> None \<longrightarrow> co_commit_req s \<noteq> None \<or> co_commit_call s \<noteq> None"
    using assms unfolding quiet_def by blast
  ultimately show ?thesis using assms unfolding quiet_def by simp
qed

lemma plain_log:
  assumes "list_all plain_effect es"
  shows "last_done a es = a" "last_called a es = a" "handed l es = l"
    "disciplined (entry_ok cfg b) (xs @ es) = disciplined (entry_ok cfg b) xs"
proof -
  show "last_done a es = a" "last_called a es = a" "handed l es = l" using assms
    by (induction es) (auto elim!: plain_effect.elims)
  show "disciplined (entry_ok cfg b) (xs @ es) = disciplined (entry_ok cfg b) xs" using assms
  proof (induction es rule: rev_induct)
    case (snoc e es)
    then have "entry_ok cfg b (xs @ es) e" by (auto simp: entry_ok_def elim!: plain_effect.elims)
    then show ?case using snoc by (simp flip: append_assoc)
  qed simp
qed

lemma quiet_inv:
  assumes "log_inv cfg b s" "quiet cfg s t"
  shows "log_inv cfg b t"
proof -
  from assms(2) obtain es where es: "co_log t = co_log s @ es" "list_all plain_effect es" by (auto simp: quiet_def)
  have "to_come t = to_come s" using assms(2) by (simp add: to_come_def quiet_def)
  moreover from this have "line t = line s" by (simp add: line_def es plain_log)
  moreover have "position_ok t" if "cc_auto_offset_reset cfg = None"
  proof -
    have "position_ok s" "co_fetch_offset t = co_fetch_offset s" using assms that by (simp_all add: log_inv_def quiet_def)
    moreover have "co_request t = co_request s \<or> co_request t = None \<or> co_request t = Some Gone"
      using assms(2) by (simp add: quiet_def)
    ultimately show ?thesis using \<open>line t = line s\<close> unfolding position_ok_def by (elim disjE) simp_all
  qed
  moreover have "co_commit_req t \<noteq> None \<or> co_commit_call t \<noteq> None \<longrightarrow> last_done None (co_log s) \<noteq> None"
    using assms unfolding log_inv_def quiet_def by metis
  ultimately show ?thesis
    using assms unfolding log_inv_def quiet_def by (simp add: es plain_log)
qed

lemma start_errback_quiet: "quiet cfg s (fst (start_errback e s))"
  by (simp add: start_errback_def quiet_def co_fire_def co_emit_def split: option.split)

lemma retry_fetch_quiet: "quiet cfg s (retry_fetch cfg after s)"
  by (simp add: retry_fetch_def quiet_def co_emit_def Let_def split: option.split)

lemmas start_errback_quiet' = quiet_trans [OF _ start_errback_quiet]
lemmas retry_fetch_quiet' = quiet_trans [OF _ retry_fetch_quiet]

lemma quiet_request: "quiet cfg s (s\<lparr>co_request := None\<rparr>)"
  by (simp add: quiet_def)

lemma quiet_reset: "cc_auto_offset_reset cfg \<noteq> None \<Longrightarrow> quiet cfg s (s\<lparr>co_request := None, co_fetch_offset := off\<rparr>)"
  by (auto simp: quiet_def)

lemma handle_offset_error_quiet: "quiet cfg s (fst (handle_offset_error cfg e s))"
  by (simp add: handle_offset_error_def Let_def start_errback_quiet' retry_fetch_quiet' quiet_request)

lemma handle_fetch_error_quiet: "quiet cfg s (fst (handle_fetch_error cfg e s))"
  by (simp add: handle_fetch_error_def Let_def start_errback_quiet' retry_fetch_quiet' quiet_request quiet_reset)

lemma handle_auto_commit_error_quiet: "quiet cfg s (handle_auto_commit_error e s)"
  by (simp add: handle_auto_commit_error_def start_errback_quiet)

lemma cancel_commit_req_quiet: "quiet cfg s (cancel_commit_req cfg env s)"
  by (auto simp: cancel_commit_req_def schedule_commit_def quiet_def co_emit_def Let_def split: option.split)

lemma stop_finish_quiet: "quiet cfg s (fst (stop_finish cfg env s))"
proof -
  define t where "t = cancel_commit_req cfg env s"
  have "quiet cfg t (fst (stop_finish cfg env s))"
    by (rule stop_finish_cases [OF t_def]) (simp_all add: quiet_def stop_close_def co_fire_def co_emit_def)
  then show ?thesis using quiet_trans cancel_commit_req_quiet unfolding t_def by blast
qed

lemma cancel_commits_quiet: "quiet cfg s (cancel_commits cfg env ws s)"
proof (induction ws arbitrary: s)
  case (Cons w ws)
  have f: "quiet cfg s (s\<lparr>co_commit_ds := ds\<rparr>)" "quiet cfg s (s\<lparr>co_shuttingdown := v\<rparr>)" "quiet cfg s (co_fire d r s)"
    "quiet cfg s (s\<lparr>co_shutdown_d := x\<rparr>)" "quiet cfg s (s\<lparr>co_retry_call := y\<rparr>)" for s ds v d r x y
    by (simp_all add: quiet_def co_fire_def co_emit_def)
  let ?t = "s\<lparr>co_commit_ds := rev ws, co_shutdown_d := None\<rparr>"
  let ?u = "cancel_commits cfg env ws (?t\<lparr>co_retry_call := map_option (\<lambda>_. False) (co_retry_call s)\<rparr>)"
  have "quiet cfg s ?t" by (simp add: quiet_def)
  then have u: "quiet cfg s (fst (stop_finish cfg env ?u))" "quiet cfg s (cancel_commits cfg env ws ?t)"
    using quiet_trans f Cons.IH stop_finish_quiet by meson+
  show ?case
  proof (cases w)
    case ShutdownCommit
    have "quiet cfg s ((fst (stop_finish cfg env ?u))\<lparr>co_shuttingdown := False\<rparr>)"
      "quiet cfg s (co_fire d r ((fst (stop_finish cfg env ?u))\<lparr>co_shuttingdown := False\<rparr>))" for d r
      using quiet_trans [OF u(1)] f quiet_trans by meson+
    then show ?thesis using ShutdownCommit u by (auto simp: Let_def split: option.split prod.split sum.split)
  qed (use quiet_trans [OF f(1) Cons.IH] quiet_trans [OF quiet_trans [OF f(1) f(3)] Cons.IH]
      quiet_trans [OF quiet_trans [OF f(1) handle_auto_commit_error_quiet] Cons.IH] in \<open>simp_all add: Let_def\<close>)
qed (simp add: quiet_def)

lemma stop_tail_quiet: "quiet cfg s (fst (stop_tail cfg env s))"
proof -
  have "quiet cfg s (s\<lparr>co_retry_call := map_option (\<lambda>_. False) (co_retry_call s)\<rparr>)" by (simp add: quiet_def)
  then show ?thesis
    using quiet_trans [OF quiet_trans [OF _ cancel_commits_quiet] stop_finish_quiet] by (simp add: stop_tail_def Let_def)
qed

lemma stop_head_quiet: "quiet cfg s (stop_head cfg env s)"
proof -
  let ?s = "s\<lparr>co_stopping := True\<rparr>"
  have s: "quiet cfg s ?s" by (simp add: quiet_def)
  define t where "t = (case co_request ?s of
      Some AskOffset \<Rightarrow> fst (handle_offset_error cfg (se_request env) ?s)
    | Some AskCommitted \<Rightarrow> fst (handle_offset_error cfg (se_request env) ?s)
    | Some AskMessages \<Rightarrow> fst (handle_fetch_error cfg (se_request env) ?s)
    | _ \<Rightarrow> ?s)"
  have st: "quiet cfg s t"
    unfolding t_def using s quiet_trans [OF s handle_offset_error_quiet] quiet_trans [OF s handle_fetch_error_quiet]
    by (simp split: option.split consumer_request.split)
  have "quiet cfg t (t\<lparr>co_msg_block_d := False, co_request := (case co_request t of Some (Held rs) \<Rightarrow> Some Gone | r \<Rightarrow> r)\<rparr>)"
    by (auto simp: quiet_def split: option.split consumer_request.split)
  with st have "quiet cfg s (t\<lparr>co_msg_block_d := False, co_request := (case co_request t of Some (Held rs) \<Rightarrow> Some Gone | r \<Rightarrow> r)\<rparr>)"
    using quiet_trans by blast
  then show ?thesis unfolding stop_head_def Let_def t_def by simp
qed

section \<open>Commits\<close>

text \<open>Changes that leave the order of the messages alone.\<close>

fun calm :: "consumer_effect \<Rightarrow> bool" where
  "calm (CallProcessor block) = False"
| "calm (Started off) = False"
| "calm _ = True"

definition unmoved :: "consumer_config \<Rightarrow> consumer \<Rightarrow> consumer \<Rightarrow> bool" where
  "unmoved cfg s t \<longleftrightarrow> (\<exists>es. co_log t = co_log s @ es \<and> list_all calm es) \<and> co_processor t = co_processor s \<and>
     (cc_auto_offset_reset cfg = None \<longrightarrow> co_fetch_offset t = co_fetch_offset s) \<and>
     (co_request t = co_request s \<or> co_request t = None \<or> co_request t = Some Gone)"

lemma quiet_unmoved: "quiet cfg s t \<Longrightarrow> unmoved cfg s t"
proof -
  have "list_all plain_effect es \<Longrightarrow> list_all calm es" for es by (induction es) (auto elim!: plain_effect.elims)
  then show "quiet cfg s t \<Longrightarrow> unmoved cfg s t" unfolding quiet_def unmoved_def by blast
qed

lemma unmoved_trans:
  assumes "unmoved cfg s t" "unmoved cfg t u"
  shows "unmoved cfg s u"
proof -
  from assms obtain es fs where "co_log t = co_log s @ es" "list_all calm es" "co_log u = co_log t @ fs" "list_all calm fs"
    unfolding unmoved_def by blast
  then have "co_log u = co_log s @ (es @ fs) \<and> list_all calm (es @ fs)" by simp
  then have "\<exists>es. co_log u = co_log s @ es \<and> list_all calm es" by blast
  moreover have "co_request u = co_request s \<or> co_request u = None \<or> co_request u = Some Gone"
    using assms unfolding unmoved_def by metis
  ultimately show ?thesis using assms unfolding unmoved_def by simp
qed

lemma calm_log: "list_all calm es \<Longrightarrow> handed l es = l" "list_all calm es \<Longrightarrow> last_called a es = a"
  by (induction es) (auto elim!: calm.elims)

lemma unmoved_position:
  assumes "unmoved cfg s t" "position_ok (s\<lparr>co_processor := p\<rparr>)" "cc_auto_offset_reset cfg = None"
  shows "position_ok (t\<lparr>co_processor := p\<rparr>)"
proof -
  from assms(1) obtain es where "co_log t = co_log s @ es" "list_all calm es" by (auto simp: unmoved_def)
  then have "line (t\<lparr>co_processor := p\<rparr>) = line (s\<lparr>co_processor := p\<rparr>)" by (simp add: line_def to_come_def calm_log)
  moreover have "co_fetch_offset t = co_fetch_offset s"
    "co_request t = co_request s \<or> co_request t = None \<or> co_request t = Some Gone"
    using assms(1,3) by (simp_all add: unmoved_def)
  ultimately show ?thesis using assms(2) unfolding position_ok_def by (elim disjE) simp_all
qed

lemma unmoved_position_ok:
  assumes "unmoved cfg s t" "position_ok s" "cc_auto_offset_reset cfg = None"
  shows "position_ok t"
proof -
  have "t\<lparr>co_processor := co_processor s\<rparr> = t" using assms(1) by (cases t) (simp add: unmoved_def)
  then show ?thesis using unmoved_position [OF assms(1) _ assms(3), of "co_processor s"] assms(2) by simp
qed

text \<open>A handler of the commits keeps both.\<close>

definition keeps :: "consumer_config \<Rightarrow> int \<Rightarrow> consumer \<Rightarrow> consumer \<Rightarrow> bool" where
  "keeps cfg b s t \<longleftrightarrow> (log_inv cfg b s \<longrightarrow> log_inv cfg b t) \<and> unmoved cfg s t"

lemma quiet_keeps: "quiet cfg s t \<Longrightarrow> keeps cfg b s t"
  unfolding keeps_def using quiet_inv quiet_unmoved by blast

lemma keeps_trans: "keeps cfg b s t \<Longrightarrow> keeps cfg b t u \<Longrightarrow> keeps cfg b s u"
  unfolding keeps_def using unmoved_trans by blast

lemma send_commit_request_keeps:
  assumes "co_last_processed s \<noteq> None"
  shows "keeps cfg b s (fst (send_commit_request delay attempt s))"
proof -
  have st: "unmoved cfg s (fst (send_commit_request delay attempt s))"
    by (simp add: send_commit_request_def unmoved_def co_emit_def Let_def)
  have "log_inv cfg b (fst (send_commit_request delay attempt s))" if "log_inv cfg b s"
  proof -
    have "position_ok (fst (send_commit_request delay attempt s))" if "cc_auto_offset_reset cfg = None"
      using unmoved_position_ok [OF st _ that] \<open>log_inv cfg b s\<close> that by (simp add: log_inv_def)
    moreover have "to_come (fst (send_commit_request delay attempt s)) = to_come s"
      by (simp add: to_come_def send_commit_request_def co_emit_def Let_def)
    ultimately show ?thesis using that assms
      by (auto simp: log_inv_def send_commit_request_def co_emit_def Let_def entry_ok_def)
  qed
  with st show ?thesis by (simp add: keeps_def)
qed

lemma commit_request_keeps: "keeps cfg b s (fst (commit_request cfg w w' s))"
proof -
  have q: "keeps cfg b s (s\<lparr>co_commit_ds := ds\<rparr>)" for ds by (rule quiet_keeps) (simp add: quiet_def)
  have "keeps cfg b s (fst (send_commit_request delay attempt (s\<lparr>co_commit_ds := ds\<rparr>)))"
    if "co_last_processed s \<noteq> None" for delay attempt ds
    using keeps_trans [OF q send_commit_request_keeps] that by simp
  then show ?thesis using q quiet_keeps [OF quiet_refl]
    by (auto simp: commit_request_def split: prod.split sum.split) (metis fst_conv option.distinct(1))+
qed

lemma auto_commit_keeps: "keeps cfg b s (fst (auto_commit cfg by_count s))"
proof -
  obtain t r where c: "commit_request cfg AutoCommit AutoCommit s = (t, r)" by force
  then have t: "keeps cfg b s t" using commit_request_keeps [of cfg b s AutoCommit AutoCommit] by simp
  have "keeps cfg b s (handle_auto_commit_error e t)" for e
    by (rule keeps_trans [OF t quiet_keeps [OF handle_auto_commit_error_quiet]])
  moreover have "keeps cfg b s (s\<lparr>co_commit_ds := ds\<rparr>)" for ds by (rule quiet_keeps) (simp add: quiet_def)
  ultimately show ?thesis using t quiet_keeps [OF quiet_refl]
    by (auto simp: auto_commit_def c split: option.split commit_outcome.split sum.split)
qed

section \<open>Messages\<close>

lemma take_messages_spec:
  "take_messages off ms = (taken, off') \<Longrightarrow>
   sorted_wrt (<) (map oam_offset taken) \<and> (\<forall>m\<in>set taken. off \<le> oam_offset m \<and> oam_offset m < off') \<and> off \<le> off'"
proof (induction ms arbitrary: off taken)
  case (Cons m ms)
  show ?case
  proof (cases "oam_offset m < off")
    case True
    then show ?thesis using Cons by simp
  next
    case False
    then obtain taken' where t: "take_messages (oam_offset m + 1) ms = (taken', off')" "taken = m # taken'"
      using Cons.prems by (auto split: prod.splits)
    from Cons.IH [OF t(1)] False t(2) show ?thesis by fastforce
  qed
qed simp

lemma take_responses_spec:
  "take_responses part off rs = (taken, off', r) \<Longrightarrow>
   sorted_wrt (<) (map oam_offset taken) \<and> (\<forall>m\<in>set taken. off \<le> oam_offset m \<and> oam_offset m < off') \<and> off \<le> off'"
proof (induction part off rs arbitrary: taken off' r rule: take_responses.induct)
  case (2 part off x rs)
  show ?case
  proof (cases "frs_partition x \<noteq> part")
    case True
    then show ?thesis using 2 by simp
  next
    case False
    obtain items ended where g: "(case frs_messages x of None \<Rightarrow> ([], Inr ()) | Some g \<Rightarrow> g) = (items, ended)" by force
    obtain tk o1 where tk: "take_messages off items = (tk, o1)" by force
    note s1 = take_messages_spec [OF tk]
    show ?thesis
    proof (cases ended)
      case (Inl e)
      then show ?thesis using 2 False g tk s1 by simp
    next
      case (Inr u)
      obtain others o2 q where o: "take_responses part o1 rs = (others, o2, q)" by (metis surj_pair)
      have "sorted_wrt (<) (map oam_offset others) \<and> (\<forall>m\<in>set others. o1 \<le> oam_offset m \<and> oam_offset m < o2) \<and> o1 \<le> o2"
        using 2(2) [OF _ g [symmetric] tk [symmetric] Inr o] False by simp
      moreover have "taken = tk @ others" "off' = o2" using 2 False g tk Inr o by simp_all
      ultimately show ?thesis using s1 by (fastforce simp: sorted_wrt_append)
    qed
  qed
qed simp

lemma log_inv_no_processor:
  assumes "log_inv cfg b s"
  shows "log_inv cfg b (s\<lparr>co_processor := None\<rparr>)"
proof -
  have "position_ok (s\<lparr>co_processor := None\<rparr>)" if "position_ok s"
    using that by (auto simp: position_ok_def line_def to_come_def sorted_wrt_append)
  moreover have "to_come (s\<lparr>co_processor := None\<rparr>) = []" by (simp add: to_come_def)
  ultimately show ?thesis using assms by (simp add: log_inv_def)
qed

lemma processor_done_keeps:
  assumes "log_inv cfg b s" "co_processor s = None" "last_called None (co_log s) = Some off"
  shows "log_inv cfg b (fst (processor_done cfg r off s))" "unmoved cfg s (fst (processor_done cfg r off s))"
proof -
  let ?s = "co_emit (Processed off) (s\<lparr>co_last_processed := Some off\<rparr>)"
  have st: "unmoved cfg s ?s" by (simp add: unmoved_def co_emit_def)
  have "log_inv cfg b ?s"
    using assms unmoved_position_ok [OF st] by (auto simp: log_inv_def co_emit_def entry_ok_def to_come_def)
  then have up: "log_inv cfg b (fst (update_processed_offset cfg off s))" "unmoved cfg s (fst (update_processed_offset cfg off s))"
    unfolding update_processed_offset_def using auto_commit_keeps [of cfg b ?s True] unmoved_trans [OF st]
    by (auto simp: keeps_def)
  have err: "keeps cfg b t (fst (handle_processor_error e t))" for e t
    by (rule quiet_keeps) (simp add: handle_processor_error_def start_errback_quiet)
  obtain t q where t: "update_processed_offset cfg off s = (t, q)" by force
  have "log_inv cfg b (fst (processor_done cfg r off s)) \<and> unmoved cfg s (fst (processor_done cfg r off s))"
    using up assms(1) err unmoved_trans by (auto simp: processor_done_def t keeps_def split: sum.split)
  then show "log_inv cfg b (fst (processor_done cfg r off s))" "unmoved cfg s (fst (processor_done cfg r off s))" by simp_all
qed

lemma block_size_pos: "rest \<noteq> [] \<Longrightarrow> take (block_size cfg rest) rest \<noteq> []"
  by (auto simp: block_size_def truthy_def)

text \<open>The messages \<open>rest\<close> can be handed out next.\<close>

definition next_ok :: "consumer_config \<Rightarrow> sourced_message list \<Rightarrow> consumer \<Rightarrow> bool" where
  "next_ok cfg rest s \<longleftrightarrow> sorted_wrt (<) (map sm_offset rest) \<and>
     (cc_auto_offset_reset cfg = None \<longrightarrow> position_ok (s\<lparr>co_processor := Some (0, rest, False)\<rparr>))"

lemma call_processor_inv:
  assumes inv: "log_inv cfg b s" and nx: "next_ok cfg (block @ later) s" and ne: "block \<noteq> []"
  defines "u \<equiv> co_emit (CallProcessor block) (s\<lparr>co_processor := None\<rparr>)"
  shows "log_inv cfg b u" "log_inv cfg b (u\<lparr>co_processor := Some (sm_offset (last block), later, w)\<rparr>)"
proof -
  let ?v = "u\<lparr>co_processor := Some (sm_offset (last block), later, w)\<rparr>"
  have sorted: "sorted_wrt (<) (map sm_offset (block @ later))" using nx by (simp add: next_ok_def)
  have ahead: "\<forall>off\<in>set (handed [] (co_log s)). \<forall>m\<in>set block. off < sm_offset m" if "cc_auto_offset_reset cfg = None"
    using nx that by (auto simp: next_ok_def position_ok_def line_def to_come_def sorted_wrt_append)
  have pos: "position_ok ?v" "position_ok u" if "cc_auto_offset_reset cfg = None"
    using nx that ne by (auto simp: next_ok_def position_ok_def line_def to_come_def sorted_wrt_append u_def co_emit_def)
  have entry: "entry_ok cfg b (co_log s) (CallProcessor block)"
    using ne sorted ahead by (simp add: entry_ok_def sorted_wrt_append)
  show "log_inv cfg b u" using inv entry pos(2) by (simp add: log_inv_def u_def co_emit_def to_come_def)
  show "log_inv cfg b ?v"
    using inv entry pos(1) sorted by (simp add: log_inv_def u_def co_emit_def to_come_def sorted_wrt_append)
qed

lemma process_next_inv:
  assumes inv: "log_inv cfg b s" and nx: "next_ok cfg rest s" and fin: "\<And>t. log_inv cfg b t \<Longrightarrow> log_inv cfg b (finish t)"
  shows "log_inv cfg b (process_next cfg late finish rest s)"
proof (cases "rest = [] \<or> co_shuttingdown s")
  case True
  then show ?thesis using fin [OF inv] by (auto simp: process_next_def)
next
  case False
  let ?n = "block_size cfg rest"
  let ?u = "co_emit (CallProcessor (take ?n rest)) (s\<lparr>co_processor := None\<rparr>)"
  have ne: "take ?n rest \<noteq> []" using False block_size_pos by blast
  have nx': "next_ok cfg (take ?n rest @ drop ?n rest) s" using nx by simp
  note call = call_processor_inv [OF inv nx' ne]
  have "last_called None (co_log ?u) = Some (sm_offset (last (take ?n rest)))" "co_processor ?u = None"
    by (simp_all add: co_emit_def)
  then have "log_inv cfg b (finish (fst (processor_done cfg late (sm_offset (last (take ?n rest))) ?u)))"
    using fin processor_done_keeps(1) [OF call(1)] by blast
  then show ?thesis using False call(2) by (simp add: process_next_def Let_def)
qed

section \<open>Fetches\<close>

lemma size_grows: "size_ok cfg b sz \<Longrightarrow> grow_buffer cfg sz = Some sz' \<Longrightarrow> size_ok cfg b sz'"
  by (auto simp: size_ok_def grow_buffer_def valid_buffer_def Let_def min_def split: option.splits if_splits)

lemma end_of_messages_inv:
  assumes "log_inv cfg b s" "next_ok cfg rest s" "end_of_messages cfg ended s = (t, fe)"
  shows "log_inv cfg b t" "next_ok cfg rest t"
proof -
  consider "t = s" | sz where "t = s\<lparr>co_buffer_size := sz\<rparr>" "size_ok cfg b sz" | "quiet cfg s t"
    using assms(1,3) size_grows [of cfg b "co_buffer_size s"] start_errback_quiet [of cfg s ConsumerFetchSizeTooSmall]
    by (auto simp: end_of_messages_def log_inv_def split: sum.splits if_splits option.splits prod.splits)
  then have "log_inv cfg b t \<and> next_ok cfg rest t"
  proof cases
    case 2
    then show ?thesis using assms(1,2) by (simp add: log_inv_def next_ok_def position_ok_def line_def to_come_def)
  next
    case 3
    then show ?thesis
      using assms(2) quiet_inv [OF assms(1)] unmoved_position [OF quiet_unmoved] unfolding next_ok_def by blast
  qed (use assms in simp)
  then show "log_inv cfg b t" "next_ok cfg rest t" by simp_all
qed

lemma log_inv_block [simp]: "log_inv cfg b (s\<lparr>co_msg_block_d := v\<rparr>) = log_inv cfg b s"
proof
  assume "log_inv cfg b (s\<lparr>co_msg_block_d := v\<rparr>)"
  moreover have "quiet cfg (s\<lparr>co_msg_block_d := v\<rparr>) s" by (simp add: quiet_def)
  ultimately show "log_inv cfg b s" by (rule quiet_inv)
next
  assume "log_inv cfg b s"
  moreover have "quiet cfg s (s\<lparr>co_msg_block_d := v\<rparr>)" by (simp add: quiet_def)
  ultimately show "log_inv cfg b (s\<lparr>co_msg_block_d := v\<rparr>)" by (rule quiet_inv)
qed

lemma handle_fetch_now_inv:
  assumes inv: "log_inv cfg b s" and pos: "cc_auto_offset_reset cfg = None \<Longrightarrow> 0 \<le> co_fetch_offset s"
  shows "log_inv cfg b (fst (handle_fetch_now cfg late rs s))"
proof -
  obtain taken off ended where x: "take_responses (cc_partition cfg) (co_fetch_offset s) rs = (taken, off, ended)"
    by (metis surj_pair)
  note spec = take_responses_spec [OF x]
  define t where "t = s\<lparr>co_retry_delay := cc_retry_init_delay cfg, co_fetch_attempt_count := 1, co_request := None, co_fetch_offset := off\<rparr>"
  let ?rest = "map (sourced cfg) taken"
  have rest: "map sm_offset ?rest = map oam_offset taken" by (simp add: sourced_def)
  have h: "\<forall>o'\<in>set (handed [] (co_log s)). o' < co_fetch_offset s" if "cc_auto_offset_reset cfg = None"
    using inv that by (cases "handed [] (co_log s) = []") (auto simp: log_inv_def position_ok_def line_def)
  have "position_ok t" if "cc_auto_offset_reset cfg = None"
  proof -
    have "position_ok s" "line t = line s" using inv that by (simp_all add: log_inv_def t_def line_def to_come_def)
    moreover have "co_fetch_offset s \<le> off" "0 \<le> off" using spec pos [OF that] by simp_all
    ultimately show ?thesis unfolding position_ok_def t_def by (auto intro: less_le_trans)
  qed
  moreover have "to_come t = to_come s" by (simp add: t_def to_come_def)
  ultimately have ti: "log_inv cfg b t" using inv by (simp add: log_inv_def t_def)
  have "position_ok (t\<lparr>co_processor := Some (0, ?rest, False)\<rparr>)" if "cc_auto_offset_reset cfg = None"
  proof -
    have "sorted_wrt (<) (handed [] (co_log s))" using inv that by (simp add: log_inv_def position_ok_def line_def sorted_wrt_append)
    moreover note h [OF that]
    moreover have "line (t\<lparr>co_processor := Some (0, ?rest, False)\<rparr>) = handed [] (co_log s) @ map oam_offset taken"
      by (simp add: line_def to_come_def t_def rest del: map_map)
    ultimately show ?thesis
      using spec pos [OF that] by (fastforce simp: position_ok_def t_def sorted_wrt_append)
  qed
  then have tn: "next_ok cfg ?rest t" using spec by (simp only: next_ok_def rest) simp
  obtain u fe where e: "end_of_messages cfg ended t = (u, fe)" by force
  note u = end_of_messages_inv [OF ti tn e]
  have "log_inv cfg b (process_next cfg late (\<lambda>s. s\<lparr>co_msg_block_d := False\<rparr>) ?rest (u\<lparr>co_msg_block_d := True\<rparr>))"
    using u by (intro process_next_inv) (simp_all add: next_ok_def position_ok_def line_def to_come_def)
  then have "log_inv cfg b (if taken = [] then u else process_next cfg late (\<lambda>s. s\<lparr>co_msg_block_d := False\<rparr>) ?rest (u\<lparr>co_msg_block_d := True\<rparr>))"
    (is "log_inv cfg b ?v") using u by simp
  moreover from this have "log_inv cfg b (retry_fetch cfg (Some 0) ?v)" by (rule quiet_inv [OF _ retry_fetch_quiet])
  ultimately show ?thesis
    unfolding handle_fetch_now_def x prod.case t_def [symmetric] e Let_def by (cases fe) simp_all
qed

lemma fetch_answered_inv:
  assumes "log_inv cfg b s" "co_request s = Some AskMessages"
  shows "log_inv cfg b (fetch_answered cfg late rs s)"
proof -
  have pos: "0 \<le> co_fetch_offset s" if "cc_auto_offset_reset cfg = None"
    using assms that by (simp add: log_inv_def position_ok_def)
  obtain t r where t: "handle_fetch_now cfg late rs s = (t, r)" by force
  have "log_inv cfg b t" using handle_fetch_now_inv [OF assms(1) pos, of late rs] by (simp add: t)
  then have "log_inv cfg b (fst (handle_fetch_error cfg e t))" for e by (rule quiet_inv [OF _ handle_fetch_error_quiet])
  moreover have "log_inv cfg b (s\<lparr>co_retry_delay := x, co_fetch_attempt_count := n, co_request := Some (Held rs)\<rparr>)" for x n
    using assms by (simp add: log_inv_def position_ok_def line_def to_come_def)
  ultimately show ?thesis using \<open>log_inv cfg b t\<close> by (simp add: fetch_answered_def t split: sum.split)
qed

lemma end_block_inv:
  assumes "log_inv cfg b s"
  shows "log_inv cfg b (end_block cfg late s)"
proof -
  have "log_inv cfg b (fst (handle_fetch_now cfg late rs (s\<lparr>co_msg_block_d := False\<rparr>)))" if "co_request s = Some (Held rs)" for rs
  proof (rule handle_fetch_now_inv)
    show "0 \<le> co_fetch_offset (s\<lparr>co_msg_block_d := False\<rparr>)" if "cc_auto_offset_reset cfg = None"
      using assms that \<open>co_request s = _\<close> by (simp add: log_inv_def position_ok_def)
  qed (simp add: assms)
  then show ?thesis using assms by (simp add: end_block_def Let_def split: option.split consumer_request.split)
qed

lemma resume_inv:
  assumes inv: "log_inv cfg b s"
  shows "log_inv cfg b (resume cfg late r s)"
proof (cases "co_processor s")
  case (Some p)
  obtain off rest w where p: "co_processor s = Some (off, rest, w)" using Some by (metis surj_pair)
  let ?s = "s\<lparr>co_processor := None\<rparr>"
  have called: "last_called None (co_log ?s) = Some off" using inv p by (simp add: log_inv_def)
  note fin = processor_done_keeps [OF log_inv_no_processor [OF inv] _ called, of r]
  obtain t q where t: "processor_done cfg r off ?s = (t, q)" by force
  have "position_ok (s\<lparr>co_processor := Some (0, rest, False)\<rparr>)" if "cc_auto_offset_reset cfg = None"
    using inv p that by (simp add: log_inv_def position_ok_def line_def to_come_def)
  then have "next_ok cfg rest t"
    using inv p fin(2) unmoved_position [of cfg ?s t "Some (0, rest, False)"] by (simp add: next_ok_def t log_inv_def to_come_def)
  then have "log_inv cfg b (process_next cfg late (end_block cfg late) rest t)"
    using fin(1) end_block_inv by (intro process_next_inv) (simp_all add: t)
  then show ?thesis using fin(1) by (simp add: resume_def p t split: sum.split)
qed (simp add: resume_def inv)

section \<open>Shutting down\<close>

lemma stop_inner_inv: "log_inv cfg b s \<Longrightarrow> log_inv cfg b (fst (stop_inner cfg env s))"
  by (simp add: stop_inner_def quiet_inv [OF _ stop_tail_quiet] resume_inv quiet_inv [OF _ stop_head_quiet])

lemma shutdown_end_inv:
  assumes "log_inv cfg b s"
  shows "log_inv cfg b (fst (shutdown_end cfg env failure s))"
proof -
  have "log_inv cfg b (s\<lparr>co_shutdown_d := None\<rparr>)" by (rule quiet_inv [OF assms]) (simp add: quiet_def)
  moreover obtain t r where st: "stop_inner cfg env (s\<lparr>co_shutdown_d := None\<rparr>) = (t, r)" by force
  ultimately have t: "log_inv cfg b t" using stop_inner_inv by (metis fst_conv)
  have "log_inv cfg b (t\<lparr>co_shuttingdown := False\<rparr>)" "log_inv cfg b (co_fire d q (t\<lparr>co_shuttingdown := False\<rparr>))" for d q
    by (rule quiet_inv [OF t]; simp add: quiet_def co_fire_def co_emit_def)+
  then show ?thesis using t by (simp add: shutdown_end_def st Let_def split: sum.split option.split)
qed

lemma commit_and_stop_inv:
  assumes "log_inv cfg b s"
  shows "log_inv cfg b (fst (commit_and_stop cfg env s))"
proof -
  obtain t r where c: "commit_request cfg ShutdownCommit ShutdownRetry s = (t, r)" by force
  then have "log_inv cfg b t" using commit_request_keeps [of cfg b s ShutdownCommit ShutdownRetry] assms by (simp add: keeps_def)
  then show ?thesis using shutdown_end_inv assms
    by (auto simp: commit_and_stop_def c split: commit_outcome.split sum.split)
qed

lemma deliver_commit_result_inv:
  assumes "log_inv cfg b s"
  shows "log_inv cfg b (deliver_commit_result cfg env r s)"
proof -
  have w: "log_inv cfg b (waiter_done cfg env r s w)" if "log_inv cfg b s" for s w
  proof -
    have "log_inv cfg b (co_fire d q s)" for d q by (rule quiet_inv [OF that]) (simp add: quiet_def co_fire_def co_emit_def)
    then show ?thesis using that auto_commit_keeps [of cfg b s]
      by (cases w) (simp_all add: waiter_done_def quiet_inv [OF _ handle_auto_commit_error_quiet] shutdown_end_inv
          commit_and_stop_inv keeps_def split: sum.split)
  qed
  have "log_inv cfg b s \<Longrightarrow> log_inv cfg b (foldl (waiter_done cfg env r) s ws)" for s ws
    by (induction ws arbitrary: s) (simp_all add: w)
  moreover have "log_inv cfg b (s\<lparr>co_commit_ds := []\<rparr>)" by (rule quiet_inv [OF assms]) (simp add: quiet_def)
  ultimately show ?thesis by (simp add: deliver_commit_result_def)
qed

lemma commit_answered_inv:
  assumes "log_inv cfg b s"
  shows "log_inv cfg b (commit_answered cfg env r s)"
proof -
  have q: "log_inv cfg b (s\<lparr>co_commit_req := None\<rparr>)" "log_inv cfg b (s\<lparr>co_commit_req := None, co_last_committed := c\<rparr>)" for c
    by (rule quiet_inv [OF assms]; simp add: quiet_def)+
  have "log_inv cfg b (schedule_commit cfg delay attempt (s\<lparr>co_commit_req := None\<rparr>))" if "co_commit_req s \<noteq> None" for delay attempt
    using that by (intro quiet_inv [OF assms]) (simp add: schedule_commit_def quiet_def co_emit_def Let_def)
  then show ?thesis using q deliver_commit_result_inv assms
    by (auto simp: commit_answered_def Let_def split: option.split sum.split)
qed

lemma processor_answered_inv: "log_inv cfg b s \<Longrightarrow> log_inv cfg b (processor_answered cfg env r s)"
  by (simp add: processor_answered_def Let_def resume_inv commit_and_stop_inv)

section \<open>A stopped consumer is idle\<close>

definition idle_ok :: "consumer \<Rightarrow> bool" where
  "idle_ok s \<longleftrightarrow> (co_start_d s = None \<longrightarrow> co_processor s = None \<and>
     (co_request s = None \<or> co_request s = Some Gone) \<and> co_retry_call s \<noteq> Some True)"

text \<open>Changes that keep the consumer started or stopped, and do not wake up a stopped one.\<close>

definition sleeps :: "consumer_config \<Rightarrow> consumer \<Rightarrow> consumer \<Rightarrow> bool" where
  "sleeps cfg s t \<longleftrightarrow> unmoved cfg s t \<and> co_start_d t = co_start_d s \<and> co_stopping t = co_stopping s \<and>
     co_msg_block_d t = co_msg_block_d s \<and> (co_retry_call t = co_retry_call s \<or> co_start_d s \<noteq> None)"

lemma sleeps_idle: "idle_ok s \<Longrightarrow> sleeps cfg s t \<Longrightarrow> idle_ok t"
  by (auto simp: idle_ok_def sleeps_def unmoved_def)

lemma sleeps_trans:
  assumes "sleeps cfg s t" "sleeps cfg t u"
  shows "sleeps cfg s u"
  using assms unmoved_trans [of cfg s t u] unfolding sleeps_def by auto

lemma quiet_sleeps:
  assumes "quiet cfg s t" "co_start_d t = co_start_d s" "co_stopping t = co_stopping s" "co_msg_block_d t = co_msg_block_d s"
    "co_retry_call t = co_retry_call s \<or> co_start_d s \<noteq> None"
  shows "sleeps cfg s t"
  using assms quiet_unmoved by (auto simp: sleeps_def)

lemma sleeps_refl: "sleeps cfg s s"
  by (simp add: quiet_sleeps)

lemma start_errback_sleeps: "sleeps cfg s (fst (start_errback e s))"
  by (rule quiet_sleeps [OF start_errback_quiet]) (simp_all add: start_errback_def co_fire_def co_emit_def split: option.split)

lemma retry_fetch_sleeps: "sleeps cfg s (retry_fetch cfg after s)"
  by (rule quiet_sleeps [OF retry_fetch_quiet]) (auto simp: retry_fetch_def co_emit_def Let_def split: option.split)

lemma request_sleeps:
  "sleeps cfg s (s\<lparr>co_request := None\<rparr>)"
  "cc_auto_offset_reset cfg \<noteq> None \<Longrightarrow> sleeps cfg s (s\<lparr>co_request := None, co_fetch_offset := off\<rparr>)"
  by (rule quiet_sleeps [OF quiet_request], simp_all) (rule quiet_sleeps [OF quiet_reset], auto)

lemmas errback_sleeps' = sleeps_trans [OF _ start_errback_sleeps]
lemmas retry_sleeps' = sleeps_trans [OF _ retry_fetch_sleeps]

lemma errors_sleep:
  "sleeps cfg s (fst (handle_offset_error cfg e s))" "sleeps cfg s (fst (handle_fetch_error cfg e s))"
  by (simp_all add: handle_offset_error_def handle_fetch_error_def Let_def errback_sleeps' retry_sleeps' request_sleeps)

lemma handle_auto_commit_error_sleeps: "sleeps cfg s (handle_auto_commit_error e s)"
  by (simp add: handle_auto_commit_error_def start_errback_sleeps sleeps_refl)

lemma send_commit_request_sleeps: "sleeps cfg s (fst (send_commit_request delay attempt s))"
  by (simp add: sleeps_def unmoved_def send_commit_request_def co_emit_def Let_def)

lemma commit_request_sleeps: "sleeps cfg s (fst (commit_request cfg w w' s))"
proof -
  have q: "sleeps cfg s (s\<lparr>co_commit_ds := ds\<rparr>)" for ds by (simp add: sleeps_def unmoved_def)
  obtain t r where t: "send_commit_request (cc_retry_init_delay cfg) 1 (s\<lparr>co_commit_ds := [w]\<rparr>) = (t, r)" by force
  have "sleeps cfg s (fst (send_commit_request (cc_retry_init_delay cfg) 1 (s\<lparr>co_commit_ds := [w]\<rparr>)))"
    by (rule sleeps_trans [OF q send_commit_request_sleeps])
  then show ?thesis using q sleeps_refl by (simp add: commit_request_def t split: sum.split)
qed

lemma auto_commit_sleeps: "sleeps cfg s (fst (auto_commit cfg by_count s))"
proof -
  obtain t r where t: "commit_request cfg AutoCommit AutoCommit s = (t, r)" by force
  have st: "sleeps cfg s t" using commit_request_sleeps [of cfg s AutoCommit AutoCommit] by (simp add: t)
  have "sleeps cfg s (handle_auto_commit_error e t)" for e by (rule sleeps_trans [OF st handle_auto_commit_error_sleeps])
  moreover have "sleeps cfg s (s\<lparr>co_commit_ds := ds\<rparr>)" for ds by (simp add: sleeps_def unmoved_def)
  ultimately show ?thesis using st sleeps_refl
    by (auto simp: auto_commit_def t split: option.split commit_outcome.split sum.split)
qed

lemma processor_done_sleeps: "sleeps cfg s (fst (processor_done cfg r off s))"
proof -
  let ?s = "co_emit (Processed off) (s\<lparr>co_last_processed := Some off\<rparr>)"
  have "sleeps cfg s ?s" by (simp add: sleeps_def unmoved_def co_emit_def)
  then have u: "sleeps cfg s (fst (update_processed_offset cfg off s))"
    unfolding update_processed_offset_def using sleeps_trans auto_commit_sleeps by blast
  have h: "sleeps cfg t (fst (handle_processor_error e t))" for e t
    by (simp add: handle_processor_error_def start_errback_sleeps sleeps_refl)
  obtain t q where t: "update_processed_offset cfg off s = (t, q)" by force
  with u have "sleeps cfg s (fst (handle_processor_error e t))" for e using sleeps_trans h by (metis fst_conv)
  then show ?thesis using u h by (simp add: processor_done_def t split: sum.split)
qed

lemma process_next_idle:
  assumes "idle_ok s" "\<And>t. idle_ok t \<Longrightarrow> idle_ok (finish t)"
  shows "idle_ok (process_next cfg late finish rest s)"
proof -
  let ?u = "co_emit (CallProcessor (take (block_size cfg rest) rest)) (s\<lparr>co_processor := None\<rparr>)"
  have "idle_ok ?u" using assms(1) by (simp add: idle_ok_def co_emit_def)
  then have "idle_ok (finish (fst (processor_done cfg late off ?u)))" for off using assms(2) sleeps_idle processor_done_sleeps by blast
  then show ?thesis using assms by (auto simp: process_next_def Let_def idle_ok_def co_emit_def)
qed

lemma handle_fetch_now_idle:
  assumes "idle_ok s"
  shows "idle_ok (fst (handle_fetch_now cfg late rs s))"
proof -
  obtain taken off ended where x: "take_responses (cc_partition cfg) (co_fetch_offset s) rs = (taken, off, ended)"
    by (metis surj_pair)
  define t where "t = s\<lparr>co_retry_delay := cc_retry_init_delay cfg, co_fetch_attempt_count := 1, co_request := None, co_fetch_offset := off\<rparr>"
  have t: "idle_ok t" using assms by (simp add: idle_ok_def t_def)
  obtain u fe where e: "end_of_messages cfg ended t = (u, fe)" by force
  have "idle_ok u" using end_of_messages_cases [OF e] t sleeps_idle [OF t start_errback_sleeps] by (auto simp: idle_ok_def)
  then have u: "idle_ok (u\<lparr>co_msg_block_d := True\<rparr>)" "idle_ok u" by (simp_all add: idle_ok_def)
  have block: "idle_ok v \<Longrightarrow> idle_ok (v\<lparr>co_msg_block_d := False\<rparr>)" for v by (simp add: idle_ok_def)
  have "idle_ok (if taken = [] then u
    else process_next cfg late (\<lambda>s. s\<lparr>co_msg_block_d := False\<rparr>) (map (sourced cfg) taken) (u\<lparr>co_msg_block_d := True\<rparr>))"
    (is "idle_ok ?v") using u process_next_idle [OF u(1) block] by simp
  moreover from this have "idle_ok (retry_fetch cfg (Some 0) ?v)" by (rule sleeps_idle [OF _ retry_fetch_sleeps])
  ultimately show ?thesis
    unfolding handle_fetch_now_def x prod.case t_def [symmetric] e Let_def by (cases fe) simp_all
qed

lemma end_block_idle:
  assumes "idle_ok s"
  shows "idle_ok (end_block cfg late s)"
proof -
  have "idle_ok (s\<lparr>co_msg_block_d := False\<rparr>)" using assms by (simp add: idle_ok_def)
  with assms handle_fetch_now_idle [OF this] show ?thesis
    by (simp add: end_block_def Let_def split: option.split consumer_request.split)
qed

lemma resume_idle:
  assumes "idle_ok s"
  shows "idle_ok (resume cfg late r s)"
proof (cases "co_processor s")
  case (Some p)
  obtain off rest w where p: "co_processor s = Some (off, rest, w)" using Some by (metis surj_pair)
  obtain t q where t: "processor_done cfg r off (s\<lparr>co_processor := None\<rparr>) = (t, q)" by force
  have "idle_ok (s\<lparr>co_processor := None\<rparr>)" using assms by (simp add: idle_ok_def)
  then have "idle_ok t" using sleeps_idle processor_done_sleeps t by (metis fst_conv)
  then show ?thesis using process_next_idle [of t] end_block_idle by (simp add: resume_def p t split: sum.split)
qed (simp add: resume_def assms)

text \<open>After the first part of \<open>stop\<close> neither a request nor the processor is left.\<close>

definition cancelled :: "consumer \<Rightarrow> bool" where
  "cancelled s \<longleftrightarrow> co_processor s = None \<and> (co_request s = None \<or> co_request s = Some Gone)"

lemma resume_stopping:
  assumes "co_stopping s" "\<not> co_msg_block_d s" "co_request s = None \<or> co_request s = Some Gone"
  shows "cancelled (resume cfg late r s)"
proof (cases "co_processor s")
  case (Some p)
  obtain off rest w where p: "co_processor s = Some (off, rest, w)" using Some by (metis surj_pair)
  obtain t q where t: "processor_done cfg r off (s\<lparr>co_processor := None\<rparr>) = (t, q)" by force
  have ts: "cancelled t" "co_stopping t" "\<not> co_msg_block_d t"
    using processor_done_sleeps [of cfg "s\<lparr>co_processor := None\<rparr>" r off] assms unfolding t
    by (auto simp: sleeps_def unmoved_def cancelled_def)
  let ?u = "co_emit (CallProcessor (take (block_size cfg rest) rest)) (t\<lparr>co_processor := None\<rparr>)"
  have u: "cancelled (fst (processor_done cfg late off' ?u))" "\<not> co_msg_block_d (fst (processor_done cfg late off' ?u))" "co_stopping ?u" for off'
    using ts processor_done_sleeps [of cfg ?u late off'] by (auto simp: sleeps_def unmoved_def cancelled_def co_emit_def)
  have e: "end_block cfg late v = v" if "\<not> co_msg_block_d v" for v using that by (simp add: end_block_def)
  have "cancelled (process_next cfg late (end_block cfg late) rest t)"
    using ts u by (simp add: process_next_def Let_def e)
  with ts show ?thesis by (simp add: resume_def p t split: sum.split)
qed (use assms in \<open>simp add: resume_def cancelled_def\<close>)

lemma stop_head_stopping:
  "co_stopping (stop_head cfg env s)" "\<not> co_msg_block_d (stop_head cfg env s)"
  "co_request (stop_head cfg env s) = None \<or> co_request (stop_head cfg env s) = Some Gone"
proof -
  let ?s = "s\<lparr>co_stopping := True\<rparr>"
  have "co_request (fst (start_errback e u)) = co_request u" "co_request (retry_fetch cfg after u) = co_request u" for e u after
    by (simp_all add: start_errback_def retry_fetch_def co_fire_def co_emit_def Let_def split: option.split)
  then have "co_request (fst (handle_offset_error cfg e ?s)) = None" "co_request (fst (handle_fetch_error cfg e ?s)) = None" for e
    by (simp_all add: handle_offset_error_def handle_fetch_error_def Let_def)
  moreover have "co_stopping (fst (handle_offset_error cfg e ?s))" "co_stopping (fst (handle_fetch_error cfg e ?s))" for e
    using errors_sleep [where s = ?s and cfg = cfg and e = e] by (simp_all add: sleeps_def)
  ultimately show "co_stopping (stop_head cfg env s)" "\<not> co_msg_block_d (stop_head cfg env s)"
    "co_request (stop_head cfg env s) = None \<or> co_request (stop_head cfg env s) = Some Gone"
    by (simp_all add: stop_head_def Let_def split: option.split consumer_request.split)
qed

lemma stop_finish_retry: "co_retry_call (fst (stop_finish cfg env s)) = co_retry_call s"
proof -
  define t where "t = cancel_commit_req cfg env s"
  have "co_retry_call t = co_retry_call s"
    unfolding t_def by (auto simp: cancel_commit_req_def schedule_commit_def co_emit_def Let_def split: option.split)
  moreover have "co_retry_call (fst (stop_finish cfg env s)) = co_retry_call t"
    by (rule stop_finish_cases [OF t_def]) (simp_all add: stop_close_def co_fire_def co_emit_def)
  ultimately show ?thesis by simp
qed

lemma cancel_commits_retry:
  "co_retry_call s \<noteq> Some True \<Longrightarrow> co_retry_call (cancel_commits cfg env ws s) \<noteq> Some True"
proof (induction ws arbitrary: s)
  case (Cons w ws)
  have e: "co_retry_call (handle_auto_commit_error x u) = co_retry_call u" for x u
    by (simp add: handle_auto_commit_error_def start_errback_def co_fire_def co_emit_def split: option.split)
  let ?u = "cancel_commits cfg env ws (s\<lparr>co_commit_ds := rev ws, co_shutdown_d := None,
    co_retry_call := map_option (\<lambda>_. False) (co_retry_call s)\<rparr>)"
  have "co_retry_call (fst (stop_finish cfg env ?u)) \<noteq> Some True" unfolding stop_finish_retry by (rule Cons.IH) (cases "co_retry_call s"; simp)
  moreover have "co_retry_call (cancel_commits cfg env ws u) \<noteq> Some True" if "co_retry_call u = co_retry_call s" for u
    using Cons that by simp
  ultimately show ?case
  proof (cases w)
    case ShutdownCommit
    obtain v q where v: "stop_finish cfg env ?u = (v, q)" by force
    with \<open>co_retry_call (fst (stop_finish cfg env ?u)) \<noteq> Some True\<close> have "co_retry_call v \<noteq> Some True" by simp
    then have "co_retry_call (v\<lparr>co_shuttingdown := False\<rparr>) \<noteq> Some True" "co_retry_call (co_fire d x (v\<lparr>co_shuttingdown := False\<rparr>)) \<noteq> Some True" for d x
      by (simp_all add: co_fire_def co_emit_def)
    then show ?thesis using ShutdownCommit v \<open>co_retry_call v \<noteq> Some True\<close> \<open>\<And>u. co_retry_call u = co_retry_call s \<Longrightarrow> _\<close>
      by (simp add: Let_def split: option.split sum.split)
  qed (simp_all add: Let_def co_fire_def co_emit_def e)
qed simp

lemma stop_tail_idle:
  assumes "cancelled s"
  shows "idle_ok (fst (stop_tail cfg env s))"
proof -
  let ?s = "s\<lparr>co_retry_call := map_option (\<lambda>_. False) (co_retry_call s)\<rparr>"
  let ?t = "cancel_commits cfg env (rev (co_commit_ds ?s)) ?s"
  have "co_retry_call ?t \<noteq> Some True" by (rule cancel_commits_retry) (cases "co_retry_call s"; simp)
  then have "co_retry_call (fst (stop_finish cfg env ?t)) \<noteq> Some True" unfolding stop_finish_retry .
  then have "co_retry_call (fst (stop_tail cfg env s)) \<noteq> Some True" by (simp add: stop_tail_def Let_def)
  moreover have "cancelled (fst (stop_tail cfg env s))" using assms stop_tail_quiet [of cfg s env] by (auto simp: quiet_def cancelled_def)
  ultimately show ?thesis by (simp add: idle_ok_def cancelled_def)
qed

lemma stop_inner_idle: "idle_ok s \<Longrightarrow> idle_ok (fst (stop_inner cfg env s))"
  using stop_tail_idle [OF resume_stopping [OF stop_head_stopping]] by (simp add: stop_inner_def)

lemma shutdown_end_idle:
  assumes "idle_ok s"
  shows "idle_ok (fst (shutdown_end cfg env failure s))"
proof -
  obtain t r where st: "stop_inner cfg env (s\<lparr>co_shutdown_d := None\<rparr>) = (t, r)" by force
  have "idle_ok (s\<lparr>co_shutdown_d := None\<rparr>)" using assms by (simp add: idle_ok_def)
  from stop_inner_idle [OF this, of cfg env] have "idle_ok t" by (simp add: st)
  then show ?thesis
    by (simp add: shutdown_end_def st Let_def idle_ok_def co_fire_def co_emit_def split: sum.split option.split)
qed

lemma commit_and_stop_idle:
  assumes "idle_ok s"
  shows "idle_ok (fst (commit_and_stop cfg env s))"
proof -
  obtain t r where c: "commit_request cfg ShutdownCommit ShutdownRetry s = (t, r)" by force
  then have "idle_ok t" using sleeps_idle [OF assms commit_request_sleeps, of cfg ShutdownCommit ShutdownRetry] by simp
  then show ?thesis using shutdown_end_idle assms
    by (auto simp: commit_and_stop_def c split: commit_outcome.split sum.split)
qed

lemma deliver_commit_result_idle:
  assumes "idle_ok s"
  shows "idle_ok (deliver_commit_result cfg env r s)"
proof -
  have w: "idle_ok (waiter_done cfg env r t w)" if "idle_ok t" for t w
  proof -
    have "idle_ok (co_fire d q t)" for d q using that by (simp add: idle_ok_def co_fire_def co_emit_def)
    then show ?thesis using that
      by (cases w) (simp_all add: waiter_done_def shutdown_end_idle commit_and_stop_idle sleeps_idle [OF _ auto_commit_sleeps]
          sleeps_idle [OF _ handle_auto_commit_error_sleeps] split: sum.split)
  qed
  have "idle_ok t \<Longrightarrow> idle_ok (foldl (waiter_done cfg env r) t ws)" for t ws
    by (induction ws arbitrary: t) (simp_all add: w)
  then show ?thesis using assms by (simp add: deliver_commit_result_def idle_ok_def)
qed

section \<open>Every event keeps the invariant\<close>

lemma do_fetch_inv:
  assumes inv: "log_inv cfg b s"
  shows "log_inv cfg b (fst (do_fetch cfg s))"
proof (cases "co_request s")
  case None
  define t where "t = s\<lparr>co_retry_call := None\<rparr>"
  have t: "log_inv cfg b t" unfolding t_def by (rule quiet_inv [OF inv]) (simp add: quiet_def)
  have neg: "OFFSET_EARLIEST < 0" "OFFSET_LATEST < 0" "OFFSET_COMMITTED < 0"
    by (simp_all add: OFFSET_EARLIEST_def OFFSET_LATEST_def OFFSET_COMMITTED_def)
  have ask: "log_inv cfg b (co_emit e (u\<lparr>co_request := Some q\<rparr>))"
    if "log_inv cfg b u" "plain_effect e" "q = AskOffset \<or> q = AskCommitted" "co_fetch_offset u < 0" for u e q
  proof -
    have "log_inv cfg b (u\<lparr>co_request := Some q\<rparr>)"
      using that by (auto simp: log_inv_def position_ok_def line_def to_come_def)
    moreover have "quiet cfg (u\<lparr>co_request := Some q\<rparr>) (co_emit e (u\<lparr>co_request := Some q\<rparr>))"
      using that by (simp add: quiet_def co_emit_def)
    ultimately show ?thesis by (rule quiet_inv)
  qed
  have fetch: "log_inv cfg b (co_emit (SendFetch (co_fetch_offset t) (co_buffer_size t)) (t\<lparr>co_request := Some AskMessages\<rparr>))"
    if "co_fetch_offset t \<notin> {OFFSET_EARLIEST, OFFSET_LATEST, OFFSET_COMMITTED}"
    using t that by (auto simp: log_inv_def co_emit_def entry_ok_def position_ok_def line_def to_come_def)
  obtain u r where u: "(if has_group cfg then (t, Inr ()) else start_errback InvalidConsumerGroupError t) = (u, r)" by force
  have "u = t \<or> u = fst (start_errback InvalidConsumerGroupError t)" using u by (auto split: if_splits)
  then have "log_inv cfg b u" "co_fetch_offset u = co_fetch_offset t"
    using t quiet_inv [OF t start_errback_quiet] by (auto simp: start_errback_def co_fire_def co_emit_def split: option.splits)
  then have "log_inv cfg b (fst (case r of Inl e \<Rightarrow> (u, Inl e) | Inr _ \<Rightarrow> (co_emit SendOffsetFetch (u\<lparr>co_request := Some AskCommitted\<rparr>), Inr ())))"
    if "co_fetch_offset t = OFFSET_COMMITTED" using that neg ask [of u SendOffsetFetch AskCommitted] by (simp split: sum.split)
  moreover have "log_inv cfg b (co_emit (SendOffset (co_fetch_offset t)) (t\<lparr>co_request := Some AskOffset\<rparr>))"
    if "co_fetch_offset t = OFFSET_EARLIEST \<or> co_fetch_offset t = OFFSET_LATEST" using that neg t by (intro ask) auto
  ultimately show ?thesis using fetch None
    unfolding do_fetch_def Let_def t_def [symmetric] u by (auto simp: t_def)
next
  case (Some q)
  then show ?thesis using inv by (simp add: do_fetch_def)
qed

lemma do_fetch_start [simp]:
  "co_start_d (fst (do_fetch cfg s)) = co_start_d s" "co_processor (fst (do_fetch cfg s)) = co_processor s"
  by (auto simp: do_fetch_def co_emit_def co_fire_def start_errback_def Let_def split: option.split)

lemma co_start_inv:
  assumes "log_inv cfg b s" "idle_ok s" "plausible (StartConsumer off)"
  shows "log_inv cfg b (fst (co_start cfg off s))" "idle_ok (fst (co_start cfg off s))"
proof -
  have "log_inv cfg b (fst (co_start cfg off s)) \<and> idle_ok (fst (co_start cfg off s))"
  proof (cases "co_start_d s")
    case None
    define t where "t = co_emit (Started off) (s\<lparr>co_start_d := Some (co_next_d s), co_start_called := False,
      co_next_d := Suc (co_next_d s), co_fetch_offset := off\<rparr>)"
    have idle: "co_processor s = None" "co_request s = None \<or> co_request s = Some Gone"
      using None assms(2) by (simp_all add: idle_ok_def)
    have "to_come t = []" "line t = []" using idle by (simp_all add: t_def to_come_def line_def co_emit_def)
    moreover have "position_ok t" if "cc_auto_offset_reset cfg = None"
      using assms(3) \<open>line t = []\<close> idle by (auto simp: position_ok_def t_def co_emit_def)
    ultimately have t: "log_inv cfg b t" using assms(1) idle by (simp add: log_inv_def t_def co_emit_def entry_ok_def)
    obtain u r where u: "do_fetch cfg t = (u, r)" by force
    have "log_inv cfg b u" using do_fetch_inv [OF t] by (simp add: u)
    moreover have "co_start_d u \<noteq> None" using do_fetch_start(1) [of cfg t] unfolding u by (simp add: t_def co_emit_def)
    moreover have "quiet cfg u (u\<lparr>co_commit_looper := v\<rparr>)" for v by (simp add: quiet_def)
    ultimately have "log_inv cfg b (u\<lparr>co_commit_looper := v\<rparr>)" "idle_ok (u\<lparr>co_commit_looper := v\<rparr>)" "idle_ok u" for v
      using quiet_inv by (auto simp: idle_ok_def)
    then show ?thesis using None u \<open>log_inv cfg b u\<close> by (simp add: co_start_def t_def split: sum.split)
  qed (use assms in \<open>simp add: co_start_def\<close>)
  then show "log_inv cfg b (fst (co_start cfg off s))" "idle_ok (fst (co_start cfg off s))" by simp_all
qed

lemma idle_running: "co_start_d s \<noteq> None \<Longrightarrow> idle_ok s"
  by (auto simp: idle_ok_def)

lemma commit_and_stop_cancelled:
  assumes "cancelled s"
  shows "cancelled (fst (commit_and_stop cfg env s))"
proof -
  have stop: "cancelled (fst (stop_inner cfg env u))" if "cancelled u" for u
  proof -
    let ?v = "resume cfg (se_next env) (se_processor env) (stop_head cfg env u)"
    have "cancelled ?v" by (rule resume_stopping [OF stop_head_stopping])
    then have "cancelled (fst (stop_tail cfg env ?v))" using stop_tail_quiet [of cfg ?v env] by (auto simp: quiet_def cancelled_def)
    then show ?thesis using that by (simp add: stop_inner_def)
  qed
  have shut: "cancelled (fst (shutdown_end cfg env failure u))" if "cancelled u" for failure u
  proof -
    obtain v r where v: "stop_inner cfg env (u\<lparr>co_shutdown_d := None\<rparr>) = (v, r)" by force
    have "cancelled (u\<lparr>co_shutdown_d := None\<rparr>)" using that by (simp add: cancelled_def)
    from stop [OF this] have "cancelled v" by (simp add: v)
    then show ?thesis
      by (simp add: shutdown_end_def v Let_def cancelled_def co_fire_def co_emit_def split: sum.split option.split)
  qed
  obtain t r where c: "commit_request cfg ShutdownCommit ShutdownRetry s = (t, r)" by force
  have "cancelled t" using commit_request_sleeps [of cfg s ShutdownCommit ShutdownRetry] assms unfolding c
    by (auto simp: sleeps_def unmoved_def cancelled_def)
  then show ?thesis using shut assms by (auto simp: commit_and_stop_def c split: commit_outcome.split sum.split)
qed

lemma co_stop_inv:
  assumes "log_inv cfg b s" "idle_ok s"
  shows "log_inv cfg b (fst (co_stop cfg env s)) \<and> idle_ok (fst (co_stop cfg env s))"
proof -
  have "cancelled (resume cfg (se_next env) (se_processor env) (stop_head cfg env s))"
    by (rule resume_stopping [OF stop_head_stopping])
  then have "cancelled (processor_answered cfg env (se_processor env) (stop_head cfg env s))"
    by (simp add: processor_answered_def Let_def commit_and_stop_cancelled)
  then show ?thesis using assms
    by (simp add: co_stop_def stop_tail_idle quiet_inv [OF _ stop_tail_quiet] processor_answered_inv quiet_inv [OF _ stop_head_quiet])
qed

lemma co_commit_inv:
  assumes "log_inv cfg b s" "idle_ok s"
  shows "log_inv cfg b (co_commit cfg s) \<and> idle_ok (co_commit cfg s)"
proof -
  let ?d = "co_next_d s"
  let ?s = "s\<lparr>co_next_d := Suc ?d\<rparr>"
  have s: "log_inv cfg b ?s" "idle_ok ?s"
    by (rule quiet_inv [OF assms(1)], simp add: quiet_def) (use assms in \<open>simp add: idle_ok_def\<close>)
  obtain t r where c: "commit_request cfg (UserCommit ?d) (InProgress (Suc ?d)) ?s = (t, r)" by force
  have t: "log_inv cfg b t" "idle_ok t"
    using commit_request_keeps [of cfg b ?s "UserCommit ?d" "InProgress (Suc ?d)"] s
      sleeps_idle [OF s(2) commit_request_sleeps, of cfg "UserCommit ?d" "InProgress (Suc ?d)"] unfolding c by (simp_all add: keeps_def)
  have "log_inv cfg b (co_fire ?d q t)" "log_inv cfg b (co_fire ?d q (t\<lparr>co_next_d := n\<rparr>))" for q n
    by (rule quiet_inv [OF t(1)]; simp add: quiet_def co_fire_def co_emit_def)+
  moreover have "idle_ok (co_fire ?d q t)" "idle_ok (co_fire ?d q (t\<lparr>co_next_d := n\<rparr>))" for q n
    using t(2) by (simp_all add: idle_ok_def co_fire_def co_emit_def)
  ultimately show ?thesis using t by (simp add: co_commit_def c Let_def split: commit_outcome.split)
qed

lemma shutdown_inv:
  assumes "log_inv cfg b s" "idle_ok s"
  shows "log_inv cfg b (fst (shutdown cfg env s)) \<and> idle_ok (fst (shutdown cfg env s))"
proof (cases "co_start_d s = None \<or> co_shutdown_d s \<noteq> None")
  case False
  define t where "t = s\<lparr>co_shuttingdown := True, co_max_attempts := (if co_max_attempts s = 0 then 2 else co_max_attempts s),
     co_shutdown_d := Some (co_next_d s), co_next_d := Suc (co_next_d s)\<rparr>"
  have t: "log_inv cfg b t" "idle_ok t" unfolding t_def
    by (rule quiet_inv [OF assms(1)], simp add: quiet_def) (use False in \<open>auto simp: idle_ok_def\<close>)
  have w: "log_inv cfg b (t\<lparr>co_processor := Some (off, rest, w)\<rparr>)" if "co_processor t = Some (off, rest, w')" for off rest w w'
    using t(1) that unfolding log_inv_def position_ok_def line_def to_come_def by simp
  have "idle_ok (t\<lparr>co_processor := q\<rparr>)" for q using False by (auto simp: idle_ok_def t_def)
  moreover have "shutdown cfg env s = (case co_processor t of
      Some (last_offset, rest, _) \<Rightarrow> (t\<lparr>co_processor := Some (last_offset, rest, True)\<rparr>, Inr ())
    | None \<Rightarrow> commit_and_stop cfg env t)"
    using False by (simp only: shutdown_def Let_def t_def if_False)
  ultimately show ?thesis using w commit_and_stop_inv [OF t(1)] commit_and_stop_idle [OF t(2)] by (simp split: option.split)
qed (use assms in \<open>auto simp: shutdown_def\<close>)

lemma handle_offset_response_inv:
  assumes inv: "log_inv cfg b s" and ask: "co_request s = Some AskOffset \<or> co_request s = Some AskCommitted"
    and ok: "plausible (OffsetAnswer os)"
  shows "log_inv cfg b (fst (handle_offset_response cfg os s))"
proof -
  let ?s = "s\<lparr>co_request := None, co_retry_delay := cc_retry_init_delay cfg, co_fetch_attempt_count := 1\<rparr>"
  have s: "log_inv cfg b ?s" by (rule quiet_inv [OF inv]) (simp add: quiet_def)
  have off: "log_inv cfg b (?s\<lparr>co_fetch_offset := off\<rparr>)" if "0 \<le> off \<or> off = OFFSET_EARLIEST \<or> off = OFFSET_LATEST" for off
    using inv ask that by (auto simp: log_inv_def position_ok_def line_def to_come_def)
  have com: "log_inv cfg b (?s\<lparr>co_fetch_offset := off + 1, co_last_committed := Some off\<rparr>)" if "0 \<le> off" for off
    by (rule quiet_inv [OF off [of "off + 1"]]) (use that in \<open>simp_all add: quiet_def\<close>)
  show ?thesis using ok s
    by (auto simp: handle_offset_response_def Let_def split: list.split offset_answer.split intro!: do_fetch_inv off com)
qed

lemma handle_offset_response_start [simp]: "co_start_d (fst (handle_offset_response cfg os s)) = co_start_d s"
  by (simp add: handle_offset_response_def Let_def split: list.split offset_answer.split)

lemma asking_runs: "idle_ok s \<Longrightarrow> co_request s = Some q \<Longrightarrow> q \<noteq> Gone \<Longrightarrow> co_start_d s \<noteq> None"
  by (auto simp: idle_ok_def)

lemma fetch_answered_idle:
  assumes "idle_ok s" "co_request s = Some AskMessages"
  shows "idle_ok (fetch_answered cfg late rs s)"
proof -
  obtain t r where t: "handle_fetch_now cfg late rs s = (t, r)" by force
  have "idle_ok t" using handle_fetch_now_idle [OF assms(1), of cfg late rs] by (simp add: t)
  moreover from this have "idle_ok (fst (handle_fetch_error cfg e t))" for e by (rule sleeps_idle [OF _ errors_sleep(2)])
  moreover have "co_start_d s \<noteq> None" using asking_runs [OF assms] by simp
  ultimately show ?thesis by (auto simp: fetch_answered_def t intro: idle_running split: sum.split)
qed

lemma commit_answered_idle:
  assumes "idle_ok s"
  shows "idle_ok (commit_answered cfg env r s)"
proof -
  have "idle_ok (s\<lparr>co_commit_req := None\<rparr>)" "idle_ok (s\<lparr>co_commit_req := None, co_last_committed := c\<rparr>)" for c
    using assms by (simp_all add: idle_ok_def)
  moreover from this have "idle_ok (schedule_commit cfg delay attempt (s\<lparr>co_commit_req := None\<rparr>))" for delay attempt
    by (simp add: schedule_commit_def idle_ok_def co_emit_def Let_def)
  ultimately show ?thesis using assms
    by (simp add: commit_answered_def deliver_commit_result_idle Let_def split: option.split sum.split)
qed

lemma timers_inv:
  assumes "log_inv cfg b s" "idle_ok s"
  shows "co_retry_call s = Some True \<Longrightarrow>
      log_inv cfg b (fst (do_fetch cfg (s\<lparr>co_retry_call := Some False\<rparr>))) \<and> idle_ok (fst (do_fetch cfg (s\<lparr>co_retry_call := Some False\<rparr>)))"
    and "co_commit_call s = Some call \<Longrightarrow> log_inv cfg b (fst (send_commit_request delay attempt (s\<lparr>co_commit_call := Some call'\<rparr>))) \<and>
      idle_ok (fst (send_commit_request delay attempt (s\<lparr>co_commit_call := Some call'\<rparr>)))"
proof -
  assume "co_retry_call s = Some True"
  then have "co_start_d s \<noteq> None" using assms(2) by (auto simp: idle_ok_def)
  moreover have "log_inv cfg b (s\<lparr>co_retry_call := Some False\<rparr>)" by (rule quiet_inv [OF assms(1)]) (simp add: quiet_def)
  ultimately show "log_inv cfg b (fst (do_fetch cfg (s\<lparr>co_retry_call := Some False\<rparr>))) \<and>
      idle_ok (fst (do_fetch cfg (s\<lparr>co_retry_call := Some False\<rparr>)))"
    using do_fetch_inv by (auto intro: idle_running)
next
  assume call: "co_commit_call s = Some call"
  let ?s = "s\<lparr>co_commit_call := Some call'\<rparr>"
  have "log_inv cfg b ?s" by (rule quiet_inv [OF assms(1)]) (simp add: quiet_def call)
  moreover have "co_last_processed ?s \<noteq> None" using assms(1) call by (auto simp: log_inv_def)
  moreover have "idle_ok ?s" using assms(2) by (simp add: idle_ok_def)
  ultimately show "log_inv cfg b (fst (send_commit_request delay attempt ?s)) \<and> idle_ok (fst (send_commit_request delay attempt ?s))"
    using send_commit_request_keeps [of ?s cfg b] sleeps_idle [OF _ send_commit_request_sleeps] by (auto simp: keeps_def)
qed

interpretation order: consumer_invariant cfg "\<lambda>s. log_inv cfg b s \<and> idle_ok s" b n for cfg b n
proof
  show "log_inv cfg b (consumer_init cfg b n) \<and> idle_ok (consumer_init cfg b n)"
    by (simp add: consumer_init_def log_inv_def idle_ok_def to_come_def position_ok_def line_def size_ok_def valid_buffer_def)
next
  fix s assume s: "log_inv cfg b s \<and> idle_ok s"
  show "log_inv cfg b (fst (auto_commit cfg False s)) \<and> idle_ok (fst (auto_commit cfg False s))"
    using s auto_commit_keeps [of cfg b s False] sleeps_idle [OF _ auto_commit_sleeps] by (auto simp: keeps_def)
next
  fix s os assume s: "log_inv cfg b s \<and> idle_ok s" and ask: "co_request s = Some AskOffset \<or> co_request s = Some AskCommitted"
    and ok: "plausible (OffsetAnswer os)"
  from s ask have "co_start_d s \<noteq> None" using asking_runs by blast
  then have "idle_ok (fst (handle_offset_response cfg os s))" by (auto intro: idle_running)
  then show "log_inv cfg b (fst (handle_offset_response cfg os s)) \<and> idle_ok (fst (handle_offset_response cfg os s))"
    using handle_offset_response_inv [OF _ ask ok] s by blast
next
  fix s env r assume "log_inv cfg b s \<and> idle_ok s"
  then show "log_inv cfg b (processor_answered cfg env r s) \<and> idle_ok (processor_answered cfg env r s)"
    using processor_answered_inv by (auto simp: processor_answered_def Let_def resume_idle commit_and_stop_idle)
next
  fix s off assume "log_inv cfg b s \<and> idle_ok s" and ok: "plausible (StartConsumer off)"
  then show "log_inv cfg b (fst (co_start cfg off s)) \<and> idle_ok (fst (co_start cfg off s))"
    using co_start_inv [OF _ _ ok] by blast
qed (auto intro: co_commit_inv [THEN conjunct1] co_commit_inv [THEN conjunct2] shutdown_inv [THEN conjunct1] shutdown_inv [THEN conjunct2]
    co_stop_inv [THEN conjunct1] co_stop_inv [THEN conjunct2] fetch_answered_inv fetch_answered_idle commit_answered_inv
    commit_answered_idle timers_inv(1) [THEN conjunct1] timers_inv(1) [THEN conjunct2] timers_inv(2) [THEN conjunct1]
    timers_inv(2) [THEN conjunct2] quiet_inv [OF _ handle_offset_error_quiet] quiet_inv [OF _ handle_fetch_error_quiet]
    sleeps_idle [OF _ errors_sleep(1)] sleeps_idle [OF _ errors_sleep(2)])

section \<open>What the runs show\<close>

text \<open>
  C16. Messages are processed in the order of their offsets and none twice: in every run of a consumer without
  \<open>auto_offset_reset\<close>, the offsets of the messages that the processor has been called with since the last start, followed
  by those that are lined up for it, increase strictly, and the next fetch asks for messages behind all of them.
\<close>

theorem processing_order:
  assumes "co_reach cfg b n s" "cc_auto_offset_reset cfg = None"
  shows "sorted_wrt (<) (handed [] (co_log s) @ map sm_offset (to_come s)) \<and>
    (\<forall>off\<in>set (handed [] (co_log s) @ map sm_offset (to_come s)). off < co_fetch_offset s)"
proof -
  have "position_ok s" using order.reach_invar [OF assms(1)] assms(2) by (simp add: log_inv_def)
  then show ?thesis unfolding position_ok_def line_def [symmetric] by force
qed

text \<open>Example: the messages of a fetch are processed one by one while the next fetch waits.\<close>

definition sample_processing :: consumer where
  "sample_processing = the (sample_run 1 [StartConsumer 5, sample_fetched [4, 5, 6, 7] (Inr ()), ProcessorAnswer (Inr ()) sample_env])"

lemma sample_processing_run:
  "sample_run 1 [StartConsumer 5, sample_fetched [4, 5, 6, 7] (Inr ()), ProcessorAnswer (Inr ()) sample_env] = Some sample_processing"
  by code_simp

theorem processing_order_witness:
  "handed [] (co_log sample_processing) = [5, 6] \<and> map sm_offset (to_come sample_processing) = [7] \<and> 7 < co_fetch_offset sample_processing"
proof -
  have "handed [] (co_log sample_processing) = [5, 6] \<and> map sm_offset (to_come sample_processing) = [7]" by code_simp
  moreover have "cc_auto_offset_reset (sample_consumer 1) = None" by (simp add: sample_consumer_def)
  ultimately show ?thesis using processing_order [OF sample_consumer_reach [OF sample_processing_run]] by simp
qed

lemma last_done_entry: "last_done a xs = Some p \<Longrightarrow> a = Some p \<or> (\<exists>us ws. xs = us @ Processed p # ws)"
proof (induction xs arbitrary: a)
  case (Cons e es)
  then have "last_done (case e of Processed off \<Rightarrow> Some off | _ \<Rightarrow> a) es = Some p" by simp
  from Cons.IH [OF this] show ?case
  proof
    assume "(case e of Processed off \<Rightarrow> Some off | _ \<Rightarrow> a) = Some p"
    then have "a = Some p \<or> e = Processed p" by (cases e) auto
    then show ?thesis by (metis append_Nil)
  qed (metis append_Cons)
qed simp

lemma last_called_entry:
  "last_called a xs = Some p \<Longrightarrow> a = Some p \<or> (\<exists>block. CallProcessor block \<in> set xs \<and> sm_offset (last block) = p)"
proof (induction xs arbitrary: a)
  case (Cons e es)
  then have "last_called (case e of CallProcessor block \<Rightarrow> Some (sm_offset (last block)) | _ \<Rightarrow> a) es = Some p" by simp
  from Cons.IH [OF this] show ?case
  proof
    assume "(case e of CallProcessor block \<Rightarrow> Some (sm_offset (last block)) | _ \<Rightarrow> a) = Some p"
    then show ?thesis by (cases e) auto
  qed auto
qed simp

text \<open>
  C17. The consumer commits what has been processed: each commit request in a run carries the offset recorded when
  processing succeeded most recently, and the processor was called before with a block of messages that ends at this offset.
\<close>

theorem commits_processed_offset:
  assumes "co_reach cfg b n s" "co_log s = xs @ SendCommit off # ys"
  shows "\<exists>p us vs block. off = Some p \<and> last_done None xs = Some p \<and> xs = us @ Processed p # vs \<and>
    CallProcessor block \<in> set us \<and> block \<noteq> [] \<and> sm_offset (last block) = p"
proof -
  have d: "disciplined (entry_ok cfg b) (co_log s)" using order.reach_invar [OF assms(1)] by (simp add: log_inv_def)
  then have "entry_ok cfg b xs (SendCommit off)" using assms(2) by (simp add: disciplined_def)
  then obtain p where p: "off = Some p" "last_done None xs = Some p" by (auto simp: entry_ok_def)
  from last_done_entry [OF p(2)] obtain us ws where us: "xs = us @ Processed p # ws" by auto
  then have "co_log s = us @ Processed p # ws @ SendCommit off # ys" using assms(2) by simp
  then have "entry_ok cfg b us (Processed p)" by (rule disciplined_at [OF d])
  then obtain block where block: "CallProcessor block \<in> set us" "sm_offset (last block) = p"
    using last_called_entry by (fastforce simp: entry_ok_def)
  from split_list [OF block(1)] obtain as bs where "us = as @ CallProcessor block # bs" by blast
  then have "co_log s = as @ CallProcessor block # (bs @ Processed p # ws @ SendCommit off # ys)" using us assms(2) by simp
  then have "entry_ok cfg b as (CallProcessor block)" by (rule disciplined_at [OF d])
  then have "block \<noteq> []" by (simp add: entry_ok_def)
  then show ?thesis using p us block by blast
qed

theorem commits_processed_offset_witness:
  "\<exists>p us vs. take 5 (co_log sample_committed) = us @ Processed p # vs \<and> p = 6"
proof -
  have "co_log sample_committed = take 5 (co_log sample_committed) @ SendCommit (Some 6) # drop 6 (co_log sample_committed)" by code_simp
  from commits_processed_offset [OF sample_consumer_reach [OF sample_committed_run] this] show ?thesis by blast
qed

lemma consumer_create_buffer:
  assumes "consumer_create a = Inr (cfg, s)"
  shows "s = consumer_init cfg (ca_buffer_size a) (ca_request_retry_max_attempts a)" "cc_max_buffer_size cfg = ca_max_buffer_size a"
    "ca_max_buffer_size a = Some limit \<Longrightarrow> ca_buffer_size a \<le> limit"
proof -
  define too_big where "too_big = (case ca_max_buffer_size a of None \<Rightarrow> False | Some m \<Rightarrow> ca_buffer_size a > m)"
  have "s = consumer_init cfg (ca_buffer_size a) (ca_request_retry_max_attempts a) \<and>
    cc_max_buffer_size cfg = ca_max_buffer_size a \<and> \<not> too_big"
    using assms unfolding consumer_create_def rbind_eq_Inr too_big_def [symmetric] Let_def
    by (elim exE conjE) (auto split: prod.splits if_split_asm)
  then show "s = consumer_init cfg (ca_buffer_size a) (ca_request_retry_max_attempts a)" "cc_max_buffer_size cfg = ca_max_buffer_size a"
    "ca_max_buffer_size a = Some limit \<Longrightarrow> ca_buffer_size a \<le> limit" by (simp_all add: too_big_def)
qed

text \<open>
  C19. The buffer size of every fetch request lies between the \<open>buffer_size\<close> that the consumer was constructed with and
  its \<open>max_buffer_size\<close>, however often the buffer has grown; the constructor refuses arguments for which there is no such size.
\<close>

theorem fetch_sizes_bounded:
  assumes "consumer_create a = Inr (cfg, init)" "0 \<le> ca_buffer_size a"
    and "reach (\<lambda>s. s = init) (co_step cfg) s" "SendFetch off sz \<in> set (co_log s)"
  shows "ca_buffer_size a \<le> sz \<and> (case ca_max_buffer_size a of None \<Rightarrow> True | Some limit \<Rightarrow> sz \<le> limit)"
proof -
  let ?b = "ca_buffer_size a"
  have a: "init = consumer_init cfg ?b (ca_request_retry_max_attempts a)" "cc_max_buffer_size cfg = ca_max_buffer_size a"
    "\<And>limit. ca_max_buffer_size a = Some limit \<Longrightarrow> ?b \<le> limit"
    using consumer_create_buffer [OF assms(1)] by simp_all
  then have "disciplined (entry_ok cfg ?b) (co_log s)"
    using order.reach_invar [of cfg ?b "ca_request_retry_max_attempts a" s] assms(3) by (simp add: log_inv_def)
  moreover from split_list [OF assms(4)] obtain xs ys where "co_log s = xs @ SendFetch off sz # ys" by blast
  ultimately have "entry_ok cfg ?b xs (SendFetch off sz)" by (rule disciplined_at)
  then have "size_ok cfg ?b sz" by (simp add: entry_ok_def)
  then show ?thesis using a assms(2) by (auto simp: size_ok_def valid_buffer_def split: option.split)
qed

definition sample_args :: consumer_args where
  "sample_args = \<lparr>ca_topic = PyStr (str_lit ''t''), ca_partition = 0, ca_consumer_group = PyNone, ca_commit_metadata = PyNone,
     ca_auto_commit_every_n = None, ca_auto_commit_every_ms = None, ca_buffer_size = FETCH_BUFFER_SIZE_BYTES,
     ca_max_buffer_size = Some 200000, ca_request_retry_init_delay = 1, ca_request_retry_max_delay = 2,
     ca_request_retry_max_attempts = 0, ca_auto_offset_reset = None\<rparr>"

definition sample_config :: consumer_config where
  "sample_config = fst (projr (consumer_create sample_args))"

definition sample_grown :: consumer where
  "sample_grown = the (co_run sample_config (consumer_init sample_config FETCH_BUFFER_SIZE_BYTES 0)
     [StartConsumer 5, sample_fetched [] (Inl ConsumerFetchSizeTooSmall), RetryTimer])"

theorem fetch_sizes_bounded_witness:
  "\<exists>sz. SendFetch 5 sz \<in> set (co_log sample_grown) \<and> FETCH_BUFFER_SIZE_BYTES < sz \<and> sz \<le> 200000"
proof -
  let ?init = "consumer_init sample_config FETCH_BUFFER_SIZE_BYTES 0"
  have c: "consumer_create sample_args = Inr (sample_config, ?init)" by code_simp
  have "co_run sample_config ?init [StartConsumer 5, sample_fetched [] (Inl ConsumerFetchSizeTooSmall), RetryTimer] = Some sample_grown"
    by code_simp
  then have reach: "co_reach sample_config FETCH_BUFFER_SIZE_BYTES 0 sample_grown"
    using co_run_reach [OF reach_init] by blast
  have sent: "SendFetch 5 200000 \<in> set (co_log sample_grown)" by code_simp
  have "ca_max_buffer_size sample_args = Some 200000" "0 \<le> ca_buffer_size sample_args"
    by (simp_all add: sample_args_def FETCH_BUFFER_SIZE_BYTES_def)
  with fetch_sizes_bounded [OF c _ reach sent] sent show ?thesis by (auto simp: FETCH_BUFFER_SIZE_BYTES_def)
qed

lemma take_messages_sorted:
  "sorted_wrt (<) (map oam_offset ms) \<Longrightarrow> take_messages off ms = (filter (\<lambda>m. off \<le> oam_offset m) ms,
     if filter (\<lambda>m. off \<le> oam_offset m) ms = [] then off else oam_offset (last ms) + 1)"
proof (induction ms arbitrary: off)
  case (Cons m ms)
  have later: "oam_offset m < oam_offset x" if "x \<in> set ms" for x using Cons.prems that by simp
  show ?case
  proof (cases "oam_offset m < off")
    case True
    then show ?thesis using Cons by auto
  next
    case False
    have "filter (\<lambda>x. oam_offset m + 1 \<le> oam_offset x) ms = ms" "filter (\<lambda>x. off \<le> oam_offset x) ms = ms"
      using later False by (auto simp: filter_id_conv dest: later)
    then show ?thesis using Cons False by auto
  qed
qed simp

text \<open>What is taken of a response goes to the processor: the first block at once, the rest when the processor has answered.\<close>

definition lined_up :: "consumer_config \<Rightarrow> offset_and_message list \<Rightarrow> consumer \<Rightarrow> consumer \<Rightarrow> bool" where
  "lined_up cfg taken s t \<longleftrightarrow>
     (\<exists>es. set es \<subseteq> {FetchAfter 0} \<and>
       (if taken = [] then co_log t = co_log s @ es \<and> co_processor t = None
        else (\<exists>block rest. block \<noteq> [] \<and> block @ rest = map (sourced cfg) taken \<and> co_log t = co_log s @ CallProcessor block # es \<and>
                co_processor t = Some (sm_offset (last block), rest, False))))"

lemma taken_lined_up:
  assumes "co_request s = Some AskMessages" "\<not> co_msg_block_d s" "co_processor s = None"
    and "\<not> co_shuttingdown s" "\<not> co_stopping s" "co_start_d s \<noteq> None"
    and "take_responses (cc_partition cfg) (co_fetch_offset s) rs = (taken, off, Inr ())"
  shows "lined_up cfg taken s (fetch_answered cfg late rs s) \<and> co_fetch_offset (fetch_answered cfg late rs s) = off"
proof -
  define t where "t = s\<lparr>co_retry_delay := cc_retry_init_delay cfg, co_fetch_attempt_count := 1, co_request := None, co_fetch_offset := off\<rparr>"
  let ?ms = "map (sourced cfg) taken"
  define v where "v = (if taken = [] then t
    else process_next cfg late (\<lambda>s. s\<lparr>co_msg_block_d := False\<rparr>) ?ms (t\<lparr>co_msg_block_d := True\<rparr>))"
  have w: "fetch_answered cfg late rs s = retry_fetch cfg (Some 0) v"
    unfolding fetch_answered_def handle_fetch_now_def assms(7)
    using assms(2) by (simp add: end_of_messages_def v_def t_def)
  have r: "\<exists>es. set es \<subseteq> {FetchAfter 0} \<and> co_log (retry_fetch cfg (Some 0) v) = co_log v @ es"
    "co_processor (retry_fetch cfg (Some 0) v) = co_processor v" "co_fetch_offset (retry_fetch cfg (Some 0) v) = co_fetch_offset v"
    by (auto simp: retry_fetch_def co_emit_def Let_def)
  have n: "0 < block_size cfg ?ms" if "taken \<noteq> []" using that by (auto simp: block_size_def truthy_def)
  obtain d where d: "co_start_d s = Some d" using assms(6) by blast
  show ?thesis
  proof (cases "taken = []")
    case True
    with r assms(3) show ?thesis by (auto simp: lined_up_def w v_def t_def)
  next
    case False
    then have "co_log v = co_log s @ [CallProcessor (take (block_size cfg ?ms) ?ms)] \<and> co_fetch_offset v = off \<and>
        co_processor v = Some (sm_offset (last (take (block_size cfg ?ms) ?ms)), drop (block_size cfg ?ms) ?ms, False)"
      using assms(4,5) d by (simp add: v_def t_def process_next_def co_emit_def Let_def)
    moreover have "take (block_size cfg ?ms) ?ms \<noteq> []" using False n by simp
    ultimately show ?thesis using r False unfolding lined_up_def w
      by (metis append_Cons append_Nil append_assoc append_take_drop_id)
  qed
qed

text \<open>
  No message of a response is lost: when no block is being processed and no shutdown is under way, the messages of a
  response for this partition whose offsets are not below the fetch offset are lined up for the processor, all of them and
  in their order, behind those of earlier responses, and the fetch offset moves behind the last one.
\<close>

theorem response_lined_up:
  assumes "co_request s = Some AskMessages" "\<not> co_msg_block_d s" "co_processor s = None"
    and "\<not> co_shuttingdown s" "\<not> co_stopping s" "co_start_d s \<noteq> None"
    and "frs_partition r = cc_partition cfg" "frs_messages r = Some (ms, Inr ())" "sorted_wrt (<) (map oam_offset ms)"
  shows "handed [] (co_log (fetch_answered cfg late [r] s)) @ map sm_offset (to_come (fetch_answered cfg late [r] s)) =
      handed [] (co_log s) @ filter (\<lambda>off. co_fetch_offset s \<le> off) (map oam_offset ms) \<and>
    co_fetch_offset (fetch_answered cfg late [r] s) =
      (if \<exists>m\<in>set ms. co_fetch_offset s \<le> oam_offset m then oam_offset (last ms) + 1 else co_fetch_offset s)"
proof -
  define taken where "taken = filter (\<lambda>m. co_fetch_offset s \<le> oam_offset m) ms"
  define off where "off = (if taken = [] then co_fetch_offset s else oam_offset (last ms) + 1)"
  have x: "take_responses (cc_partition cfg) (co_fetch_offset s) [r] = (taken, off, Inr ())"
    using take_messages_sorted [OF assms(9), of "co_fetch_offset s"] assms(7,8) by (simp add: taken_def off_def)
  note up = taken_lined_up [OF assms(1-6) x, of late]
  then obtain es where es: "set es \<subseteq> {FetchAfter 0}" and t: "if taken = []
      then co_log (fetch_answered cfg late [r] s) = co_log s @ es \<and> co_processor (fetch_answered cfg late [r] s) = None
      else (\<exists>block rest. block \<noteq> [] \<and> block @ rest = map (sourced cfg) taken \<and>
        co_log (fetch_answered cfg late [r] s) = co_log s @ CallProcessor block # es \<and>
        co_processor (fetch_answered cfg late [r] s) = Some (sm_offset (last block), rest, False))"
    unfolding lined_up_def by blast
  have quiet: "handed a es = a" for a using es by (induction es arbitrary: a) auto
  have "map oam_offset taken = filter (\<lambda>off. co_fetch_offset s \<le> off) (map oam_offset ms)"
    by (simp add: taken_def filter_map comp_def)
  moreover have "map sm_offset (map (sourced cfg) taken) = map oam_offset taken" by (simp add: sourced_def comp_def)
  ultimately have "handed [] (co_log (fetch_answered cfg late [r] s)) @ map sm_offset (to_come (fetch_answered cfg late [r] s)) =
      handed [] (co_log s) @ filter (\<lambda>off. co_fetch_offset s \<le> off) (map oam_offset ms)"
    using t quiet by (auto simp: to_come_def split: if_splits simp flip: map_append)
  with up show ?thesis by (auto simp: off_def taken_def filter_empty_conv)
qed

theorem response_lined_up_witness:
  "\<exists>s. sample_run 2 [StartConsumer 5] = Some s \<and>
     co_fetch_offset (fetch_answered (sample_consumer 2) (Inr ()) [\<lparr>frs_topic = str_lit ''t'', frs_partition = 0, frs_error = 0,
       frs_highwaterMark = 9, frs_messages = Some ([\<lparr>oam_offset = 4, oam_message = create_message None None\<rparr>,
         \<lparr>oam_offset = 7, oam_message = create_message None None\<rparr>], Inr ())\<rparr>] s) = 8"
proof -
  define s where "s = the (sample_run 2 [StartConsumer 5])"
  have s: "sample_run 2 [StartConsumer 5] = Some s" "co_request s = Some AskMessages" "\<not> co_msg_block_d s" "co_processor s = None"
    "\<not> co_shuttingdown s" "\<not> co_stopping s" "co_start_d s \<noteq> None" "co_fetch_offset s = 5"
    unfolding s_def by code_simp+
  show ?thesis using s(1,8) response_lined_up [OF s(2-7), of _ "sample_consumer 2"] by (simp add: sample_consumer_def)
qed

end
