(* ===== verification/Fetch_Path.thy ===== *)
theory Fetch_Path
  imports Consumer_Order
begin

text \<open>
  The way of a message from a broker to the processor of a \<open>Consumer\<close>: the consumer asks the client for messages from its
  fetch offset on, the client sends the encoded request to the leader and decodes what the leader answers, and the consumer
  lines up what it has not had yet. A broker cuts a message set at the size that the consumer asked for; what follows then is
  the second part of this theory.
\<close>

section \<open>Request and response\<close>

text \<open>The \<open>FetchRequest\<close> of a \<open>SendFetch\<close> effect.\<close>

definition fetch_payload :: "consumer_config \<Rightarrow> int \<Rightarrow> int \<Rightarrow> fetch_request" where
  "fetch_payload cfg off sz =
     \<lparr>frq_topic = cc_topic cfg, frq_partition = cc_partition cfg, frq_offset = off, frq_max_bytes = sz\<rparr>"

abbreviation fetch_key :: "fetch_request \<Rightarrow> pystr \<times> int" where
  "fetch_key p \<equiv> (frq_topic p, frq_partition p)"

text \<open>A fetch request is under way and no messages are being processed.\<close>

definition awaiting :: "consumer \<Rightarrow> bool" where
  "awaiting s \<longleftrightarrow> co_request s = Some AskMessages \<and> \<not> co_msg_block_d s \<and> co_processor s = None \<and>
     \<not> co_shuttingdown s \<and> \<not> co_stopping s \<and> co_start_d s \<noteq> None"

text \<open>A request for one payload: it is routed to the broker that the cache names, which is asked for its encoding.\<close>

definition asks :: "client_env \<Rightarrow> ('p \<Rightarrow> pystr \<times> int) \<Rightarrow> (bytes \<Rightarrow> int \<Rightarrow> 'p list \<Rightarrow> bytes result) \<Rightarrow> 'p \<Rightarrow>
     kafka_client \<Rightarrow> broker_metadata \<Rightarrow> bytes \<Rightarrow> kafka_client \<Rightarrow> nat \<Rightarrow> bool" where
  "asks env key enc p k b req k2 d \<longleftrightarrow>
     (\<exists>k1 c. route env None key [p] [] k = (k1, Inr [(b, [p])]) \<and> named_by None (key p) k1 b \<and>
        send_groups env enc True [(b, [p])] k1 = (k2, Inr [(bm_node_id b, d, [p])]) \<and>
        enc (kc_clientId k1) c [p] = Inr req \<and> asked_at k2 (bm_node_id b) req d)"

lemma single_route:
  assumes "route env None key [p] [] k = (k1, Inr groups)"
  shows "\<exists>b. groups = [(b, [p])] \<and> named_by None (key p) k1 b"
  using assms broker_of_named [of env None "key p" k k1] by (auto simp: cbind_eq_Inr)

lemma single_sent:
  assumes "send_groups env enc ex [(b, [p])] k = (k1, Inr sent)"
  shows "\<exists>c req d. sent = [(bm_node_id b, d, [p])] \<and> enc (kc_clientId k) c [p] = Inr req \<and> asked_at k1 (bm_node_id b) req d"
  using send_groups_asked [OF assms] by (auto simp: list_all2_Cons1)

lemma aware_request_steps:
  assumes "send_broker_aware_request env key rkey [p] enc (Some dec) None k = (k', Inr res)"
  shows "\<exists>b req k2 d. asks env key enc p k b req k2 d \<and>
    (case await_all env [(bm_node_id b, d, [p])] k2 of (s, results) \<Rightarrow>
       (case tally_results (Some dec) rkey (zip results [[p]]) ([], []) of
          Inl e \<Rightarrow> (s, Inl e)
        | Inr (acc, failed_payloads) \<Rightarrow>
            let responses = List.map_filter (\<lambda>k. dict_get acc k) (map key [p])
            in if failed_payloads \<noteq> [] then (reset_all_metadata s, Inr (FailedPayloads responses failed_payloads))
               else (s, Inr (Responses responses)))) = (k', Inr res)"
proof -
  from assms obtain k1 groups k2 sent where g: "route env None key [p] [] k = (k1, Inr groups)"
    and snt: "send_groups env enc True groups k1 = (k2, Inr sent)"
    and out: "(case await_all env sent k2 of (s, results) \<Rightarrow>
       (case tally_results (Some dec) rkey (zip results (map (snd \<circ> snd) sent)) ([], []) of
          Inl e \<Rightarrow> (s, Inl e)
        | Inr (acc, failed_payloads) \<Rightarrow>
            let responses = List.map_filter (\<lambda>k. dict_get acc k) (map key [p])
            in if failed_payloads \<noteq> [] then (reset_all_metadata s, Inr (FailedPayloads responses failed_payloads))
               else (s, Inr (Responses responses)))) = (k', Inr res)"
    by (auto simp: send_broker_aware_request_def cbind_eq_Inr simp del: route.simps send_groups.simps)
  from single_route [OF g] obtain b where b: "groups = [(b, [p])]" "named_by None (key p) k1 b" by blast
  from single_sent [OF snt [unfolded b(1)]] obtain c req d where d: "sent = [(bm_node_id b, d, [p])]"
    "enc (kc_clientId k1) c [p] = Inr req" "asked_at k2 (bm_node_id b) req d" by blast
  have m: "map (snd \<circ> snd) [(bm_node_id b, d, [p])] = [[p]]" by simp
  have "asks env key enc p k b req k2 d" using g snt b d unfolding asks_def by blast
  with out [unfolded d(1), unfolded m] show ?thesis by blast
qed

lemma client_returns_fetched:
  assumes "send_fetch_request env cenv [p] True Inr wait min_bytes k = (k', Inr out)"
    and "\<And>t n d k. snd (ce_wait env t n d k) = Some (Inr (Some data))"
    and "broker_response fetch_entry c [(frq_topic p, [(frq_partition p, 0, hw, ss, rest)])] = Inr data"
    and "list_all (stored_ok cenv) ss" "cut_entry rest"
  shows "out = Responses [\<lparr>frs_topic = frq_topic p, frs_partition = frq_partition p, frs_error = 0, frs_highwaterMark = hw,
      frs_messages = Some (log_items ss, set_end ss rest)\<rparr>]"
    and "\<exists>b req k2 d. asks env fetch_key (\<lambda>cid c ps. encode_fetch_request cid c ps wait min_bytes) p k b req k2 d"
proof -
  let ?r = "\<lparr>frs_topic = frq_topic p, frs_partition = frq_partition p, frs_error = 0, frs_highwaterMark = hw,
      frs_messages = Some (log_items ss, set_end ss rest)\<rparr>"
  have dec: "decode_fetch_response cenv data = ([?r], Inr (int (length data)))"
    using fetch_response_decodes [OF assms(3)] assms(4,5) by (simp add: all_parts_def)
  let ?enc = "\<lambda>cid c ps. encode_fetch_request cid c ps wait min_bytes"
  let ?req = "send_broker_aware_request env fetch_key (\<lambda>r. (frs_topic r, frs_partition r)) [p] ?enc (Some (decode_fetch_response cenv)) None k"
  have resp: "res = Responses [?r]" if "?req = (k2, Inr res)" for k2 res
  proof -
    from aware_request_steps [OF that] obtain n k3 d where out: "(case await_all env [(n, d, [p])] k3 of (s, results) \<Rightarrow>
         (case tally_results (Some (decode_fetch_response cenv)) (\<lambda>r. (frs_topic r, frs_partition r)) (zip results [[p]]) ([], []) of
            Inl e \<Rightarrow> (s, Inl e)
          | Inr (acc, failed_payloads) \<Rightarrow>
              let responses = List.map_filter (\<lambda>k. dict_get acc k) (map fetch_key [p])
              in if failed_payloads \<noteq> [] then (reset_all_metadata s, Inr (FailedPayloads responses failed_payloads))
                 else (s, Inr (Responses responses)))) = (k2, Inr res)"
      by blast
    obtain k4 r where k4: "await_broker env None n d k3 = (k4, r)" by force
    then have "r = Inr (Some data)" using assms(2) [of "request_timeout None k3" n d k3]
      by (auto simp: await_broker_def split: prod.splits option.splits)
    with k4 have "await_all env [(n, d, [p])] k3 = (k4, [Inr (Some data)])" by simp
    with out show ?thesis by (simp add: dec Let_def List.map_filter_def)
  qed
  from assms(1) obtain k1 res where q: "?req = (k1, Inr res)"
    by (auto simp: send_fetch_request_def finish_request_def cbind_eq_Inr split: if_splits)
  show "\<exists>b req k2 d. asks env fetch_key ?enc p k b req k2 d" using aware_request_steps [OF q] by blast
  show "out = Responses [?r]" using assms(1)
    by (auto simp: send_fetch_request_def finish_request_def cbind_eq_Inr raise_for_errno_def split: if_splits dest: resp)
qed

lemma awaiting_lined_up:
  assumes "awaiting s" "take_responses (cc_partition cfg) (co_fetch_offset s) rs = (taken, off, Inr ())"
  shows "lined_up cfg taken s (fetch_answered cfg late rs s) \<and> co_fetch_offset (fetch_answered cfg late rs s) = off"
  using assms by (simp add: awaiting_def taken_lined_up)

text \<open>The messages whose offsets are not below \<open>start\<close>, and where the next fetch goes.\<close>

definition unseen :: "int \<Rightarrow> offset_and_message list \<Rightarrow> offset_and_message list" where
  "unseen start items = filter (\<lambda>m. start \<le> oam_offset m) items"

definition behind :: "int \<Rightarrow> offset_and_message list \<Rightarrow> int" where
  "behind start items = (if unseen start items = [] then start else oam_offset (last items) + 1)"

lemma take_unseen:
  "sorted_wrt (<) (map oam_offset items) \<Longrightarrow> take_messages start items = (unseen start items, behind start items)"
  by (simp add: take_messages_sorted unseen_def behind_def)

text \<open>
  C4. What a broker has is what the processor gets. When \<open>_do_fetch\<close> asks for messages, it asks the client for the consumer's partition,
  from the fetch offset on and with the buffer size as the limit. The client hands one request to the client of the broker that its
  cache names as the partition's leader, and a broker reads in it this partition, offset and limit. When the broker answers with
  entries of its log (messages, and messages compressed with gzip or Snappy, with increasing offsets, the last entry possibly cut off) that
  hold at least one message or are not cut, the messages whose offset is not below
  the fetch offset, no others, are handed to the processor in order, the first block at once and the rest lined up,
  and the fetch offset moves behind the last one.
\<close>

theorem fetched_messages_processed:
  assumes "do_fetch cfg s0 = (s, Inr ())" "co_request s0 = None" "0 \<le> co_fetch_offset s0" "last (co_log s) = SendFetch off sz"
    and "send_fetch_request env cenv [fetch_payload cfg off sz] True Inr wait min_bytes k = (k', Inr out)"
    and "\<And>t n d k. snd (ce_wait env t n d k) = Some (Inr (Some data))"
    and "broker_response fetch_entry c [(cc_topic cfg, [(cc_partition cfg, 0, hw, ss, rest)])] = Inr data"
    and "list_all (stored_ok cenv) ss" "cut_entry rest" "rest = [] \<or> log_items ss \<noteq> []" "sorted_wrt (<) (map oam_offset (log_items ss))"
    and "awaiting s1" "co_fetch_offset s1 = co_fetch_offset s"
  shows "\<exists>b req k2 d topics rs.
    asks env fetch_key (\<lambda>cid c ps. encode_fetch_request cid c ps wait min_bytes) (fetch_payload cfg off sz) k b req k2 d \<and>
    parse_fetch_request req = Inr ((- 1, wait, min_bytes), topics) \<and>
    Requests.asked topics (cc_topic cfg) (cc_partition cfg) = Some (co_fetch_offset s0, co_buffer_size s0) \<and>
    out = Responses rs \<and> lined_up cfg (unseen (co_fetch_offset s0) (log_items ss)) s1 (fetch_answered cfg late rs s1) \<and>
    co_fetch_offset (fetch_answered cfg late rs s1) = behind (co_fetch_offset s0) (log_items ss)"
proof -
  have s: "s = co_emit (SendFetch (co_fetch_offset s0) (co_buffer_size s0)) (s0\<lparr>co_retry_call := None, co_request := Some AskMessages\<rparr>)"
    using assms(1-3) by (auto simp: do_fetch_def Let_def OFFSET_EARLIEST_def OFFSET_LATEST_def OFFSET_COMMITTED_def)
  then have off: "off = co_fetch_offset s0" "sz = co_buffer_size s0" and same: "co_fetch_offset s1 = co_fetch_offset s0"
    using assms(4,13) by (simp_all add: co_emit_def)
  let ?p = "fetch_payload cfg off sz"
  have p: "frq_topic ?p = cc_topic cfg" "frq_partition ?p = cc_partition cfg" "frq_offset ?p = off" "frq_max_bytes ?p = sz"
    by (simp_all add: fetch_payload_def)
  let ?r = "\<lparr>frs_topic = cc_topic cfg, frs_partition = cc_partition cfg, frs_error = 0, frs_highwaterMark = hw,
      frs_messages = Some (log_items ss, Inr ())\<rparr>"
  have "set_end ss rest = Inr ()" using assms(10) by (auto simp: set_end_def)
  with client_returns_fetched(1) [OF assms(5,6), unfolded p, OF assms(7-9)] have out: "out = Responses [?r]" by simp
  from client_returns_fetched(2) [OF assms(5,6), unfolded p, OF assms(7-9)] obtain b req k2 d where
    a: "asks env fetch_key (\<lambda>cid c ps. encode_fetch_request cid c ps wait min_bytes) ?p k b req k2 d" by blast
  then obtain cid c' where "encode_fetch_request cid c' [?p] wait min_bytes = Inr req" by (auto simp: asks_def)
  from fetch_request_read [OF this] obtain topics where topics: "parse_fetch_request req = Inr ((- 1, wait, min_bytes), topics)"
    "Requests.asked topics (cc_topic cfg) (cc_partition cfg) = Some (off, sz)"
    by (auto simp: last_payload_def p)
  have "take_responses (cc_partition cfg) (co_fetch_offset s1) [?r] =
      (unseen (co_fetch_offset s0) (log_items ss), behind (co_fetch_offset s0) (log_items ss), Inr ())"
    by (simp add: take_unseen [OF assms(11)] same)
  from awaiting_lined_up [OF assms(12) this, of late] a topics out off show ?thesis by blast
qed

section \<open>Messages that do not fit\<close>

text \<open>How a buffer grows, and when it does not.\<close>

definition grown :: "consumer_config \<Rightarrow> int \<Rightarrow> int" where
  "grown cfg sz =
     (let n = sz * (if sz \<le> 2 ^ 20 then 16 else 2)
      in case cc_max_buffer_size cfg of None \<Rightarrow> n | Some limit \<Rightarrow> min n limit)"

lemma grow_buffer_eq:
  "grow_buffer cfg sz = (if \<exists>limit. cc_max_buffer_size cfg = Some limit \<and> limit \<le> sz then None else Some (grown cfg sz))"
  by (auto simp: grow_buffer_def grown_def Let_def split: option.splits)

lemma grown_grows: "0 < sz \<Longrightarrow> \<not> (\<exists>limit. cc_max_buffer_size cfg = Some limit \<and> limit \<le> sz) \<Longrightarrow> sz < grown cfg sz"
  by (auto simp: grown_def Let_def split: option.splits)

lemma too_small_answered:
  assumes "awaiting s" "frs_partition r = cc_partition cfg" "frs_messages r = Some ([], Inl ConsumerFetchSizeTooSmall)"
    and "co_retry_call s = None" "\<not> co_start_called s"
  shows "fetch_answered cfg late [r] s =
    (let s = s\<lparr>co_retry_delay := cc_retry_init_delay cfg, co_fetch_attempt_count := 1, co_request := None\<rparr>
     in case grow_buffer cfg (co_buffer_size s) of
          Some sz \<Rightarrow> co_emit (FetchAfter 0) (s\<lparr>co_buffer_size := sz, co_fetch_attempt_count := 2, co_retry_call := Some True\<rparr>)
        | None \<Rightarrow> co_fire (the (co_start_d s)) (Inl ConsumerFetchSizeTooSmall) (s\<lparr>co_start_called := True\<rparr>))"
  using assms by (auto simp: awaiting_def fetch_answered_def handle_fetch_now_def end_of_messages_def start_errback_def
      retry_fetch_def co_emit_def co_fire_def Let_def split: option.splits)

text \<open>
  C20. The broker cuts a message set at the limit of the request. When at least one message (uncompressed, or in a compressed
  entry) comes before the cut, those are processed as if the rest had not been there, and the next fetch asks for the one that was cut. When
  none does, nothing is processed and the fetch offset stays. Then, if there is a \<open>max_buffer_size\<close> and the buffer has reached it, the deferred of
  \<open>start\<close> fails with \<open>ConsumerFetchSizeTooSmall\<close> and no fetch is scheduled; and otherwise the consumer fetches again at once with a larger
  buffer: 16 times the size up to a size of 1 MiB and twice the size above, but at most \<open>max_buffer_size\<close>.
\<close>

theorem cut_response_handled:
  assumes "awaiting s" "co_retry_call s = None" "\<not> co_start_called s" "0 < co_buffer_size s" "frs_partition r = cc_partition cfg"
    and "encode_log (map stored_entry ss) = Inr bs" "list_all (stored_ok env) ss" "cut_entry rest" "rest \<noteq> []"
    and "sorted_wrt (<) (map oam_offset (log_items ss))" "frs_messages r = message_set_iter env (Some (bs @ rest))"
    and "t = fetch_answered cfg late [r] s"
  shows "if log_items ss \<noteq> [] then lined_up cfg (unseen (co_fetch_offset s) (log_items ss)) s t \<and>
      co_fetch_offset t = behind (co_fetch_offset s) (log_items ss)
    else co_fetch_offset t = co_fetch_offset s \<and> co_processor t = None \<and>
      (if \<exists>limit. cc_max_buffer_size cfg = Some limit \<and> limit \<le> co_buffer_size s
       then co_log t = co_log s @ [CFired (the (co_start_d s)) (Inl ConsumerFetchSizeTooSmall)] \<and> co_retry_call t = None
       else co_buffer_size t = grown cfg (co_buffer_size s) \<and> co_buffer_size s < grown cfg (co_buffer_size s) \<and>
         co_log t = co_log s @ [FetchAfter 0] \<and> co_retry_call t = Some True)"
proof (cases "log_items ss = []")
  case True
  with log_decodes [OF assms(6-8)] assms(9,11) have "frs_messages r = Some ([], Inl ConsumerFetchSizeTooSmall)"
    by (simp add: message_set_iter_def)
  from too_small_answered [OF assms(1,5) this assms(2,3), of late] True assms(1,2,12) grown_grows [OF assms(4), of cfg] show ?thesis
    by (auto simp: awaiting_def co_emit_def co_fire_def Let_def grow_buffer_eq)
next
  case False
  with log_decodes [OF assms(6-8)] assms(11) have "frs_messages r = Some (log_items ss, Inr ())"
    by (simp add: message_set_iter_def)
  then have "take_responses (cc_partition cfg) (co_fetch_offset s) [r] =
      (unseen (co_fetch_offset s) (log_items ss), behind (co_fetch_offset s) (log_items ss), Inr ())"
    using assms(5) by (simp add: take_unseen [OF assms(10)])
  from awaiting_lined_up [OF assms(1) this, of late] False show ?thesis by (simp add: assms(12))
qed

text \<open>One round: the answer has room for no message, and the next fetch goes out at once.\<close>

lemma one_round:
  assumes "awaiting s" "co_retry_call s = None" "\<not> co_start_called s" "frs_partition r = cc_partition cfg"
    and "frs_messages r = Some ([], Inl ConsumerFetchSizeTooSmall)" "grow_buffer cfg (co_buffer_size s) = Some sz" "0 \<le> co_fetch_offset s"
  shows "\<exists>t. co_run cfg s [FetchAnswer [r] env, RetryTimer] = Some t \<and> awaiting t \<and> co_retry_call t = None \<and> \<not> co_start_called t \<and>
    co_fetch_offset t = co_fetch_offset s \<and> co_buffer_size t = sz \<and> last (co_log t) = SendFetch (co_fetch_offset s) sz"
  using too_small_answered [OF assms(1,4,5,2,3), of "se_next env"] assms
  by (simp add: awaiting_def co_apply_def co_emit_def do_fetch_def Let_def OFFSET_EARLIEST_def OFFSET_LATEST_def OFFSET_COMMITTED_def)

lemma co_run_append:
  "co_run cfg s (es @ fs) = (case co_run cfg s es of None \<Rightarrow> None | Some t \<Rightarrow> co_run cfg t fs)"
  by (induction es arbitrary: s) (auto split: option.splits)

text \<open>A response with no room for a message.\<close>

definition no_room :: "consumer_config \<Rightarrow> fetch_response \<Rightarrow> bool" where
  "no_room cfg r \<longleftrightarrow> frs_partition r = cc_partition cfg \<and> frs_messages r = Some ([], Inl ConsumerFetchSizeTooSmall)"

definition rounds :: "stop_env \<Rightarrow> (nat \<Rightarrow> fetch_response) \<Rightarrow> nat \<Rightarrow> consumer_event list" where
  "rounds env r j = concat (map (\<lambda>i. [FetchAnswer [r i] env, RetryTimer]) [0..<j])"

lemma rounds_Suc: "rounds env r (Suc j) = [FetchAnswer [r 0] env, RetryTimer] @ rounds env (\<lambda>i. r (Suc i)) j"
  by (simp add: rounds_def upt_conv_Cons map_Suc_upt [symmetric] comp_def del: upt_Suc)

text \<open>
  C21. A message that does not fit is asked for with enough room in the end: if \<open>max_buffer_size\<close> allows for \<open>n\<close> bytes,
  then, however small the buffer of the fetch request under way is, after finitely many responses that have no room for a message
  the consumer has sent a fetch request for the same offset whose limit is \<open>n\<close> bytes at least and waits for the answer, and its \<open>start\<close>
  deferred has not failed.
\<close>

theorem large_message_asked_for:
  assumes "awaiting s" "co_retry_call s = None" "\<not> co_start_called s" "0 \<le> co_fetch_offset s" "0 < co_buffer_size s"
    and "last (co_log s) = SendFetch (co_fetch_offset s) (co_buffer_size s)" "\<And>i. no_room cfg (r i)"
    and "\<forall>limit. cc_max_buffer_size cfg = Some limit \<longrightarrow> n \<le> limit"
  shows "\<exists>j t sz. co_run cfg s (rounds env r j) = Some t \<and> awaiting t \<and> \<not> co_start_called t \<and>
    last (co_log t) = SendFetch (co_fetch_offset s) sz \<and> n \<le> sz"
  using assms(1-7)
proof (induction "nat (n - co_buffer_size s)" arbitrary: s r rule: less_induct)
  case less
  show ?case
  proof (cases "n \<le> co_buffer_size s")
    case True
    with less.prems show ?thesis by (intro exI [of _ 0] exI [of _ s] exI [of _ "co_buffer_size s"]) (simp add: rounds_def)
  next
    case False
    then have small: "\<not> (\<exists>limit. cc_max_buffer_size cfg = Some limit \<and> limit \<le> co_buffer_size s)" using assms(8) by fastforce
    note lt = grown_grows [OF less.prems(5) small]
    have r: "frs_partition (r 0) = cc_partition cfg" "frs_messages (r 0) = Some ([], Inl ConsumerFetchSizeTooSmall)"
      using less.prems(7) [of 0] by (simp_all add: no_room_def)
    have "grow_buffer cfg (co_buffer_size s) = Some (grown cfg (co_buffer_size s))" using small by (simp add: grow_buffer_eq)
    from one_round [OF less.prems(1-3) r this less.prems(4)] obtain u where u:
      "co_run cfg s [FetchAnswer [r 0] env, RetryTimer] = Some u" "awaiting u" "co_retry_call u = None" "\<not> co_start_called u"
      "co_fetch_offset u = co_fetch_offset s" "co_buffer_size u = grown cfg (co_buffer_size s)"
      "last (co_log u) = SendFetch (co_fetch_offset s) (grown cfg (co_buffer_size s))" by blast
    have "nat (n - co_buffer_size u) < nat (n - co_buffer_size s)" using False lt by (simp add: u(6))
    from less.hyps [OF this u(2-4), of "\<lambda>i. r (Suc i)"] u(5-7) lt less.prems(4,5,7) obtain j t sz where t:
      "co_run cfg u (rounds env (\<lambda>i. r (Suc i)) j) = Some t" "awaiting t" "\<not> co_start_called t"
      "last (co_log t) = SendFetch (co_fetch_offset s) sz" "n \<le> sz" by auto
    from u(1) t(1) have "co_run cfg s (rounds env r (Suc j)) = Some t"
      unfolding rounds_Suc co_run_append by simp
    with t show ?thesis by blast
  qed
qed

section \<open>Examples\<close>

definition sample_starting :: consumer where
  "sample_starting = (the (sample_run 2 []))\<lparr>co_start_d := Some 0, co_fetch_offset := 42\<rparr>"

definition sample_fetching :: consumer where
  "sample_fetching = the (sample_run 2 [StartConsumer 42])"

lemma sample_fetching_run:
  "awaiting sample_fetching" "co_retry_call sample_fetching = None" "\<not> co_start_called sample_fetching"
  "co_fetch_offset sample_fetching = 42" "co_buffer_size sample_fetching = 131072" "last (co_log sample_fetching) = SendFetch 42 131072"
  unfolding awaiting_def sample_fetching_def by code_simp+

definition answering_env :: "bytes \<Rightarrow> client_env" where
  "answering_env data = example_env\<lparr>ce_wait := \<lambda>t n d s. (s, Some (Inr (Some data)))\<rparr>"

lemma sample_fetch_returns:
  assumes "broker_response fetch_entry 9 [(str_lit ''t'', [(0, 0, 50, sample_stored 41 43 44, [])])] = Inr data"
  shows "\<exists>k out. send_fetch_request (answering_env data) marking_env [fetch_payload (sample_consumer 2) 42 131072] True Inr 100 1
      example_client = (k, Inr out)"
proof -
  have dec: "decode_fetch_response marking_env data =
      ([\<lparr>frs_topic = str_lit ''t'', frs_partition = 0, frs_error = 0, frs_highwaterMark = 50,
         frs_messages = Some (log_items (sample_stored 41 43 44), set_end (sample_stored 41 43 44) [])\<rparr>], Inr (int (length data)))"
    using fetch_response_decodes [OF assms, of marking_env] sample_stored_ok(1) [of 41 43 44] by (simp add: all_parts_def cut_entry_def)
  have p: "fetch_payload (sample_consumer 2) 42 131072 = \<lparr>frq_topic = str_lit ''t'', frq_partition = 0, frq_offset = 42, frq_max_bytes = 131072\<rparr>"
    by (simp add: fetch_payload_def sample_consumer_def)
  show ?thesis
    by (simp add: p dec send_fetch_request_def finish_request_def send_broker_aware_request_def answering_env_def example_env_def
        example_client_def example_broker_def broker_of_def get_leader_for_partition_def leader_def fresh_client_simps
        get_brokerclient_def next_id_def make_request_to_broker_def bc_makeRequest_def bc_init_def bc_connect_def try_connect_def emit_def
        await_broker_def encode_fetch_request_def FETCH_KEY_def group_by_topic_and_partition_def group_step_def encode_topics_def
        encode_topic_def encode_fetch_item_def wire_eval raise_for_errno_def List.map_filter_def Let_def)
qed

theorem fetched_messages_processed_witness:
  "\<exists>(b :: broker_metadata) req k2 d topics rs. bm_node_id b = 1 \<and> asked_at k2 1 req d \<and> parse_fetch_request req = Inr ((- 1, 100, 1), topics) \<and>
     Requests.asked topics (str_lit ''t'') 0 = Some (42, 131072) \<and>
     lined_up (sample_consumer 2) [as_item (43, create_message (Some [104, 105]) None), as_item (44, create_message None (Some [1]))]
       sample_fetching (fetch_answered (sample_consumer 2) (Inr ()) rs sample_fetching) \<and>
     co_fetch_offset (fetch_answered (sample_consumer 2) (Inr ()) rs sample_fetching) = 45"
proof -
  obtain data where d: "broker_response fetch_entry 9 [(str_lit ''t'', [(0, 0, 50, sample_stored 41 43 44, [])])] = Inr data"
    using sample_fetch_encodes by blast
  have cfg: "cc_topic (sample_consumer 2) = str_lit ''t''" "cc_partition (sample_consumer 2) = 0" by (simp_all add: sample_consumer_def)
  from sample_fetch_returns [OF d] obtain k out where r: "send_fetch_request (answering_env data) marking_env
      [fetch_payload (sample_consumer 2) 42 131072] True Inr 100 1 example_client = (k, Inr out)" by blast
  have w: "\<And>t n d k. snd (ce_wait (answering_env data) t n d k) = Some (Inr (Some data))" by (simp add: answering_env_def)
  have start: "do_fetch (sample_consumer 2) sample_starting = (fst (do_fetch (sample_consumer 2) sample_starting), Inr ())"
    "co_request sample_starting = None" "0 \<le> co_fetch_offset sample_starting"
    "last (co_log (fst (do_fetch (sample_consumer 2) sample_starting))) = SendFetch 42 131072"
    "co_fetch_offset sample_starting = 42" "co_buffer_size sample_starting = 131072"
    "co_fetch_offset sample_fetching = co_fetch_offset (fst (do_fetch (sample_consumer 2) sample_starting))"
    unfolding sample_starting_def sample_fetching_def by code_simp+
  have sorted: "sorted_wrt (<) (map oam_offset (log_items (sample_stored 41 43 44)))" by (simp add: sample_stored_items as_item_def)
  have none: "cut_entry []" "[] = [] \<or> log_items (sample_stored 41 43 44) \<noteq> []" by (simp_all add: cut_entry_def)
  have ok: "list_all (stored_ok marking_env) (sample_stored 41 43 44)" by (rule sample_stored_ok) simp_all
  from fetched_messages_processed [OF start(1-4) r w, unfolded cfg, OF d ok none sorted sample_fetching_run(1) start(7), of "Inr ()"]
  obtain b req k2 d' topics rs where x: "asks (answering_env data) fetch_key (\<lambda>cid c ps. encode_fetch_request cid c ps 100 1)
      (fetch_payload (sample_consumer 2) 42 131072) example_client b req k2 d'"
    "parse_fetch_request req = Inr ((- 1, 100, 1), topics)" "Requests.asked topics (str_lit ''t'') 0 = Some (42, 131072)"
    "lined_up (sample_consumer 2) (unseen 42 (log_items (sample_stored 41 43 44))) sample_fetching
       (fetch_answered (sample_consumer 2) (Inr ()) rs sample_fetching)"
    "co_fetch_offset (fetch_answered (sample_consumer 2) (Inr ()) rs sample_fetching) = behind 42 (log_items (sample_stored 41 43 44))"
    unfolding start(5,6) by blast
  have "b = example_broker 1" using x(1)
    by (auto simp: asks_def fetch_payload_def cfg example_client_def broker_of_def get_leader_for_partition_def leader_def)
  then have "bm_node_id b = 1" by (simp add: example_broker_def)
  moreover from x(1) have "asked_at k2 (bm_node_id b) req d'" by (auto simp: asks_def)
  moreover have "unseen 42 (log_items (sample_stored 41 43 44)) =
      [as_item (43, create_message (Some [104, 105]) None), as_item (44, create_message None (Some [1]))]"
    "behind 42 (log_items (sample_stored 41 43 44)) = 45"
    by (simp_all add: unseen_def behind_def sample_stored_items as_item_def)
  ultimately show ?thesis using x(2-5) by (intro exI [of _ b] exI [of _ req] exI [of _ k2] exI [of _ d'] exI [of _ topics] exI [of _ rs]) simp
qed

theorem cut_response_handled_witness:
  "\<exists>b. b \<noteq> [] \<and> co_buffer_size (fetch_answered (sample_consumer 2) (Inr ()) [\<lparr>frs_topic = str_lit ''t'', frs_partition = 0, frs_error = 0,
       frs_highwaterMark = 43, frs_messages = message_set_iter marking_env (Some b)\<rparr>] sample_fetching) = 200000"
proof -
  let ?m = "create_message (Some [104, 105]) None"
  have "list_all (\<lambda>(off, m). encodable m \<and> 0 \<le> off \<and> off < 2 ^ 62) [(42 :: int, ?m)]" by (simp add: create_message_def encodable_def)
  from encode_log_total [OF this] obtain e where e: "encode_log [(42, ?m)] = Inr e" "7 < length e" by auto
  have cut: "cut_entry (take 7 e)" unfolding cut_entry_def
    using e by (intro disjI2 exI [of _ 42] exI [of _ ?m] exI [of _ e] exI [of _ 7]) simp
  have some: "take 7 e \<noteq> []" using e(2) by auto
  have none: "encode_log (map stored_entry []) = Inr []" "list_all (stored_ok marking_env) []" by simp_all
  have pos: "0 < co_buffer_size sample_fetching" by (simp add: sample_fetching_run)
  let ?r = "\<lparr>frs_topic = str_lit ''t'', frs_partition = 0, frs_error = 0, frs_highwaterMark = 43,
      frs_messages = message_set_iter marking_env (Some ([] @ take 7 e))\<rparr>"
  have part: "frs_partition ?r = cc_partition (sample_consumer 2)" by (simp add: sample_consumer_def)
  have grow: "grown (sample_consumer 2) (co_buffer_size sample_fetching) = 200000"
    "\<not> (\<exists>limit. cc_max_buffer_size (sample_consumer 2) = Some limit \<and> limit \<le> co_buffer_size sample_fetching)"
    by (simp_all add: sample_fetching_run grown_def sample_consumer_def)
  have ms: "frs_messages ?r = message_set_iter marking_env (Some ([] @ take 7 e))" by simp
  from cut_response_handled [OF sample_fetching_run(1-3) pos part none cut some _ ms refl, of "Inr ()"] grow
  have "co_buffer_size (fetch_answered (sample_consumer 2) (Inr ()) [?r] sample_fetching) = 200000" by auto
  with some show ?thesis by (intro exI [of _ "take 7 e"]) simp
qed

theorem large_message_asked_for_witness:
  "\<exists>j t sz. co_run (sample_consumer 2) sample_fetching (rounds sample_env
      (\<lambda>_. \<lparr>frs_topic = str_lit ''t'', frs_partition = 0, frs_error = 0, frs_highwaterMark = 9,
        frs_messages = Some ([], Inl ConsumerFetchSizeTooSmall)\<rparr>) j) = Some t \<and>
     last (co_log t) = SendFetch 42 sz \<and> 150000 \<le> sz"
proof -
  let ?r = "\<lparr>frs_topic = str_lit ''t'', frs_partition = 0, frs_error = 0, frs_highwaterMark = 9,
      frs_messages = Some ([], Inl ConsumerFetchSizeTooSmall)\<rparr>"
  have pos: "0 \<le> co_fetch_offset sample_fetching" "0 < co_buffer_size sample_fetching"
    "last (co_log sample_fetching) = SendFetch (co_fetch_offset sample_fetching) (co_buffer_size sample_fetching)"
    by (simp_all add: sample_fetching_run)
  have "\<And>i. no_room (sample_consumer 2) ((\<lambda>i :: nat. ?r) i)" by (simp add: no_room_def sample_consumer_def)
  from large_message_asked_for [OF sample_fetching_run(1-3) pos this, of 150000 sample_env]
  show ?thesis by (auto simp: sample_fetching_run(4) sample_consumer_def)
qed

end
