(* ===== verification/Consumer_Faults.thy ===== *)
theory Consumer_Faults
  imports Consumer_Order
begin

text \<open>
  Runs of the consumer from which it does not recover, and runs that differ from what the documentation of the
  class promises.
\<close>

section \<open>A restarted consumer that never fetches\<close>

fun asks :: "consumer_effect \<Rightarrow> bool" where
  "asks (SendOffset off) = True"
| "asks SendOffsetFetch = True"
| "asks (SendFetch off sz) = True"
| "asks _ = False"

text \<open>
  \<open>stop\<close> came while a response waited for the block of messages, so that a request that has fired is left in
  \<open>_request_d\<close>; \<open>k\<close> are the requests sent so far.
\<close>

definition gone :: "consumer_effect list \<Rightarrow> consumer \<Rightarrow> bool" where
  "gone k s \<longleftrightarrow> co_request s = Some Gone \<and> filter asks (co_log s) = k"

lemma gone_update [simp]:
  "gone k (co_fetch_offset_update f1 s) = gone k s" "gone k (co_last_processed_update f2 s) = gone k s"
  "gone k (co_last_committed_update f2 s) = gone k s" "gone k (co_stopping_update f3 s) = gone k s"
  "gone k (co_shuttingdown_update f3 s) = gone k s" "gone k (co_shutdown_d_update f4 s) = gone k s"
  "gone k (co_commit_looper_update f3 s) = gone k s" "gone k (co_commit_ds_update f5 s) = gone k s"
  "gone k (co_commit_req_update f6 s) = gone k s" "gone k (co_start_d_update f4 s) = gone k s"
  "gone k (co_start_called_update f3 s) = gone k s" "gone k (co_retry_call_update f7 s) = gone k s"
  "gone k (co_commit_call_update f8 s) = gone k s" "gone k (co_msg_block_d_update f3 s) = gone k s"
  "gone k (co_processor_update f9 s) = gone k s" "gone k (co_retry_delay_update f10 s) = gone k s"
  "gone k (co_fetch_attempt_count_update f1 s) = gone k s" "gone k (co_max_attempts_update f1 s) = gone k s"
  "gone k (co_next_d_update f11 s) = gone k s"
  by (simp_all add: gone_def)

lemma gone_emit [simp]: "gone k (co_fire d r s) = gone k s" "\<not> asks e \<Longrightarrow> gone k (co_emit e s) = gone k s"
  by (simp_all add: gone_def co_fire_def co_emit_def)

lemma gone_basic [simp]:
  assumes "gone k s"
  shows "gone k (fst (start_errback e s))" "gone k (retry_fetch cfg after s)" "gone k (fst (do_fetch cfg s))"
    "gone k (fst (send_commit_request delay attempt s))" "gone k (handle_auto_commit_error e s)"
    "gone k (schedule_commit cfg delay attempt s)" "gone k (cancel_commit_req cfg env s)" "gone k (stop_head cfg env s)"
  using assms
  by (auto simp: start_errback_def retry_fetch_def do_fetch_def send_commit_request_def handle_auto_commit_error_def
      schedule_commit_def cancel_commit_req_def stop_head_def Let_def split: option.split) (auto simp: gone_def)

lemma gone_commit_request [simp]: "gone k s \<Longrightarrow> gone k (fst (commit_request cfg w w' s))"
  by (simp add: commit_request_def split_beta split: sum.split)

lemma gone_auto_commit [simp]: "gone k s \<Longrightarrow> gone k (fst (auto_commit cfg by_count s))"
  by (auto simp: auto_commit_def split_beta split: option.split commit_outcome.split sum.split)

lemma gone_processor_done [simp]: "gone k s \<Longrightarrow> gone k (fst (processor_done cfg r off s))"
  by (simp add: processor_done_def handle_processor_error_def update_processed_offset_def split_beta split: sum.split)

lemma gone_end_block [simp]: "gone k s \<Longrightarrow> gone k (end_block cfg late s)"
  by (simp add: end_block_def Let_def) (simp add: gone_def)

lemma gone_resume [simp]: "gone k s \<Longrightarrow> gone k (resume cfg late r s)"
  by (simp add: resume_def process_next_def Let_def split_beta split: option.split sum.split)

lemma gone_stop_finish [simp]: "gone k s \<Longrightarrow> gone k (fst (stop_finish cfg env s))"
  by (auto simp: stop_finish_def Let_def split: option.split bool.split)

lemma gone_cancel_commits [simp]: "gone k s \<Longrightarrow> gone k (cancel_commits cfg env ws s)"
  by (induction ws arbitrary: s) (simp_all add: Let_def split_beta split: commit_waiter.split sum.split option.split)

lemma gone_stop_tail [simp]: "gone k s \<Longrightarrow> gone k (fst (stop_tail cfg env s))"
  by (simp add: stop_tail_def Let_def)

lemma gone_stop_inner [simp]: "gone k s \<Longrightarrow> gone k (fst (stop_inner cfg env s))"
  by (simp add: stop_inner_def)

lemma gone_shutdown_end [simp]: "gone k s \<Longrightarrow> gone k (fst (shutdown_end cfg env failure s))"
  by (simp add: shutdown_end_def Let_def split_beta split: sum.split option.split)

lemma gone_commit_and_stop [simp]: "gone k s \<Longrightarrow> gone k (fst (commit_and_stop cfg env s))"
  by (simp add: commit_and_stop_def split_beta split: commit_outcome.split sum.split)

lemma gone_processor_answered [simp]: "gone k s \<Longrightarrow> gone k (processor_answered cfg env r s)"
  by (simp add: processor_answered_def Let_def)

lemma gone_co_stop [simp]: "gone k s \<Longrightarrow> gone k (fst (co_stop cfg env s))"
  by (simp add: co_stop_def)

lemma gone_commit_answered [simp]: "gone k s \<Longrightarrow> gone k (commit_answered cfg env r s)"
proof -
  have w: "gone k (waiter_done cfg env q t w)" if "gone k t" for q t w
    using that by (simp add: waiter_done_def split: commit_waiter.split sum.split)
  have "gone k (foldl (waiter_done cfg env q) t ws)" if "gone k t" for q t ws
    using that by (induction ws arbitrary: t) (simp_all add: w)
  then show "gone k s \<Longrightarrow> gone k (commit_answered cfg env r s)"
    by (simp add: commit_answered_def deliver_commit_result_def Let_def split: option.split sum.split)
qed

lemma gone_calls [simp]:
  "gone k s \<Longrightarrow> gone k (fst (co_start cfg off s))" "gone k s \<Longrightarrow> gone k (co_commit cfg s)" "gone k s \<Longrightarrow> gone k (fst (shutdown cfg env s))"
  by (simp_all add: co_start_def co_commit_def shutdown_def Let_def split_beta split: sum.split option.split commit_outcome.split)

interpretation lost: consumer_kept cfg "gone k" for cfg k
  by unfold_locales (simp_all, auto simp: gone_def)

text \<open>Example: three messages in blocks of two, the next response comes during the first block.\<close>

definition sample_waiting :: consumer where
  "sample_waiting = the (sample_run 2 [StartConsumer 5, sample_fetched [5, 6, 7] (Inr ()), RetryTimer, sample_fetched [8] (Inr ())])"

definition sample_lost :: consumer where
  "sample_lost = the (co_apply (sample_consumer 2) sample_waiting (StopConsumer sample_env))"

lemma sample_waiting_run:
  "sample_run 2 [StartConsumer 5, sample_fetched [5, 6, 7] (Inr ()), RetryTimer, sample_fetched [8] (Inr ())] = Some sample_waiting"
  "co_step (sample_consumer 2) sample_waiting (StopConsumer sample_env) sample_lost" "co_start_d sample_lost = None"
  "co_request sample_lost = Some Gone"
  by code_simp+

text \<open>
  A consumer may be restarted once stopped, says its documentation. There is a run in which it is stopped
  while a response waits for the block of messages before it, and then \<open>_request_d\<close> is kept although nothing will clear it; in
  every continuation from such a state, whatever happens and however often the consumer is started, no fetch and no offset
  request is sent.
\<close>

theorem restarted_consumer_hangs:
  "(\<exists>cfg b n s env t. co_reach cfg b n s \<and> co_step cfg s (StopConsumer env) t \<and> co_start_d t = None \<and> co_request t = Some Gone) \<and>
   (\<forall>cfg s es t. co_request s = Some Gone \<longrightarrow> co_run cfg s es = Some t \<longrightarrow> filter asks (co_log t) = filter asks (co_log s))"
proof (intro conjI allI impI)
  show "\<exists>cfg b n s env t. co_reach cfg b n s \<and> co_step cfg s (StopConsumer env) t \<and> co_start_d t = None \<and> co_request t = Some Gone"
    using sample_consumer_reach [OF sample_waiting_run(1)] sample_waiting_run(2-4) by blast
next
  fix cfg s es t assume "co_request s = Some Gone" "co_run cfg s es = Some t"
  with lost.run [of "filter asks (co_log s)" s cfg es t] show "filter asks (co_log t) = filter asks (co_log s)" by (simp add: gone_def)
qed

definition sample_restarted :: consumer where
  "sample_restarted = the (co_run (sample_consumer 2) sample_lost [StartConsumer 0])"

theorem restarted_consumer_hangs_witness:
  "co_start_d sample_restarted \<noteq> None \<and> filter asks (co_log sample_restarted) = filter asks (co_log sample_lost)"
proof -
  have "co_run (sample_consumer 2) sample_lost [StartConsumer 0] = Some sample_restarted" "co_start_d sample_restarted \<noteq> None"
    by code_simp+
  with restarted_consumer_hangs sample_waiting_run(4) show ?thesis by blast
qed

section \<open>A shutdown that never ends\<close>

fun for_shutdown :: "commit_waiter \<Rightarrow> bool" where
  "for_shutdown ShutdownCommit = True"
| "for_shutdown ShutdownRetry = True"
| "for_shutdown _ = False"

text \<open>The deferred of a shutdown that neither a commit nor the processor is going to continue.\<close>

definition stranded :: "nat \<Rightarrow> consumer \<Rightarrow> bool" where
  "stranded d s \<longleftrightarrow> co_shutdown_d s = Some d \<and> (\<forall>w\<in>set (co_commit_ds s). \<not> for_shutdown w) \<and>
     (\<forall>off rest w. co_processor s = Some (off, rest, w) \<longrightarrow> \<not> w)"

lemma stranded_update [simp]:
  "stranded d (co_fetch_offset_update f1 s) = stranded d s" "stranded d (co_last_processed_update f2 s) = stranded d s"
  "stranded d (co_last_committed_update f2 s) = stranded d s" "stranded d (co_stopping_update f3 s) = stranded d s"
  "stranded d (co_shuttingdown_update f3 s) = stranded d s" "stranded d (co_buffer_size_update f1 s) = stranded d s"
  "stranded d (co_commit_looper_update f3 s) = stranded d s" "stranded d (co_request_update f5 s) = stranded d s"
  "stranded d (co_commit_req_update f6 s) = stranded d s" "stranded d (co_start_d_update f4 s) = stranded d s"
  "stranded d (co_start_called_update f3 s) = stranded d s" "stranded d (co_retry_call_update f7 s) = stranded d s"
  "stranded d (co_commit_call_update f8 s) = stranded d s" "stranded d (co_msg_block_d_update f3 s) = stranded d s"
  "stranded d (co_log_update f9 s) = stranded d s" "stranded d (co_retry_delay_update f10 s) = stranded d s"
  "stranded d (co_fetch_attempt_count_update f1 s) = stranded d s" "stranded d (co_max_attempts_update f1 s) = stranded d s"
  "stranded d (co_next_d_update f11 s) = stranded d s"
  by (simp_all add: stranded_def)

lemma stranded_waiters [simp]:
  "stranded d s \<Longrightarrow> list_all (\<lambda>w. \<not> for_shutdown w) ws \<Longrightarrow> stranded d (s\<lparr>co_commit_ds := ws\<rparr>)"
  "stranded d s \<Longrightarrow> \<not> for_shutdown w \<Longrightarrow> stranded d (s\<lparr>co_commit_ds := co_commit_ds s @ [w]\<rparr>)"
  "stranded d s \<Longrightarrow> stranded d (s\<lparr>co_processor := None\<rparr>)" "stranded d s \<Longrightarrow> stranded d (s\<lparr>co_processor := Some (off, rest, False)\<rparr>)"
  "stranded d s \<Longrightarrow> list_all (\<lambda>w. \<not> for_shutdown w) (co_commit_ds s)"
  by (auto simp: stranded_def list_all_iff)

lemma stranded_emit [simp]: "stranded d (co_fire d' r s) = stranded d s" "stranded d (co_emit e s) = stranded d s"
  by (simp_all add: co_fire_def co_emit_def)

lemma stranded_basic [simp]:
  assumes "stranded d s"
  shows "stranded d (fst (start_errback e s))" "stranded d (retry_fetch cfg after s)" "stranded d (fst (do_fetch cfg s))"
    "stranded d (fst (send_commit_request delay attempt s))" "stranded d (handle_auto_commit_error e s)"
    "stranded d (schedule_commit cfg delay attempt s)" "stranded d (cancel_commit_req cfg env s)"
  using assms
  by (auto simp: start_errback_def retry_fetch_def do_fetch_def send_commit_request_def handle_auto_commit_error_def
      schedule_commit_def cancel_commit_req_def Let_def split_beta split: option.split sum.split)

lemma stranded_fetch [simp]:
  assumes "stranded d s"
  shows "stranded d (fst (handle_offset_error cfg e s))" "stranded d (fst (handle_fetch_error cfg e s))"
    "stranded d (fst (handle_offset_response cfg os s))" "stranded d (stop_head cfg env s)"
proof -
  show e: "stranded d (fst (handle_offset_error cfg e s))" "stranded d (fst (handle_fetch_error cfg e s))"
    using assms by (simp_all add: handle_offset_error_def handle_fetch_error_def Let_def)
  show "stranded d (fst (handle_offset_response cfg os s))"
    using assms by (simp add: handle_offset_response_def Let_def split: list.split offset_answer.split)
  show "stranded d (stop_head cfg env s)"
    using assms by (simp add: stop_head_def Let_def handle_offset_error_def handle_fetch_error_def split: option.split consumer_request.split)
qed

lemma stranded_commit_request [simp]:
  "stranded d s \<Longrightarrow> \<not> for_shutdown w \<Longrightarrow> \<not> for_shutdown w' \<Longrightarrow> stranded d (fst (commit_request cfg w w' s))"
  by (simp add: commit_request_def split_beta split: sum.split)

lemma stranded_auto_commit [simp]: "stranded d s \<Longrightarrow> stranded d (fst (auto_commit cfg by_count s))"
  by (auto simp: auto_commit_def split_beta split: option.split commit_outcome.split sum.split)

lemma stranded_processor_done [simp]: "stranded d s \<Longrightarrow> stranded d (fst (processor_done cfg r off s))"
  by (simp add: processor_done_def handle_processor_error_def update_processed_offset_def split_beta split: sum.split)

lemma stranded_process_next [simp]:
  "stranded d s \<Longrightarrow> (\<And>t. stranded d t \<Longrightarrow> stranded d (finish t)) \<Longrightarrow> stranded d (process_next cfg late finish rest s)"
  by (simp add: process_next_def Let_def)

lemma stranded_handle_fetch_now [simp]: "stranded d s \<Longrightarrow> stranded d (fst (handle_fetch_now cfg late rs s))"
  by (simp add: handle_fetch_now_def end_of_messages_def Let_def split_beta split: fetch_end.split sum.split option.split)

lemma stranded_block [simp]:
  assumes "stranded d s"
  shows "stranded d (fetch_answered cfg late rs s)" "stranded d (end_block cfg late s)" "stranded d (resume cfg late r s)"
proof -
  have e: "stranded d (end_block cfg late t)" if "stranded d t" for t
    using that by (simp add: end_block_def Let_def split: option.split consumer_request.split)
  show "stranded d (fetch_answered cfg late rs s)" "stranded d (end_block cfg late s)" "stranded d (resume cfg late r s)"
    using assms by (simp_all add: fetch_answered_def e resume_def split_beta split: option.split sum.split)
qed

lemma stranded_stop_finish [simp]: "stranded d s \<Longrightarrow> stranded d (fst (stop_finish cfg env s))"
  by (auto simp: stop_finish_def Let_def split: option.split bool.split)

lemma stranded_cancel_commits [simp]:
  "stranded d s \<Longrightarrow> list_all (\<lambda>w. \<not> for_shutdown w) ws \<Longrightarrow> stranded d (cancel_commits cfg env ws s)"
proof (induction ws arbitrary: s)
  case (Cons w ws)
  then show ?case by (cases w) (simp_all add: Let_def list_all_rev)
qed simp

lemma stranded_stop_tail [simp]: "stranded d s \<Longrightarrow> stranded d (fst (stop_tail cfg env s))"
  by (simp add: stop_tail_def Let_def list_all_rev)

lemma stranded_processor_answered [simp]: "stranded d s \<Longrightarrow> stranded d (processor_answered cfg env r s)"
proof -
  assume s: "stranded d s"
  then have "\<not> (case co_processor s of Some (_, _, w) \<Rightarrow> w | None \<Rightarrow> False)" by (auto simp: stranded_def split: option.split)
  with s show ?thesis by (simp add: processor_answered_def Let_def)
qed

lemma stranded_commit_answered [simp]: "stranded d s \<Longrightarrow> stranded d (commit_answered cfg env r s)"
proof -
  have w: "stranded d (waiter_done cfg env q t w)" if "stranded d t" "\<not> for_shutdown w" for q t w
    using that by (cases w) (simp_all add: waiter_done_def split: sum.split)
  have f: "stranded d (foldl (waiter_done cfg env q) t ws)" if "stranded d t" "list_all (\<lambda>w. \<not> for_shutdown w) ws" for q t ws
    using that by (induction ws arbitrary: t) (simp_all add: w)
  have "stranded d (deliver_commit_result cfg env q t)" if "stranded d t" for q t
    using that by (simp add: deliver_commit_result_def f list_all_rev)
  then show "stranded d s \<Longrightarrow> stranded d (commit_answered cfg env r s)"
    by (simp add: commit_answered_def Let_def split: option.split sum.split)
qed

lemma stranded_calls [simp]:
  "stranded d s \<Longrightarrow> stranded d (fst (co_start cfg off s))" "stranded d s \<Longrightarrow> stranded d (co_commit cfg s)"
  "stranded d s \<Longrightarrow> stranded d (fst (co_stop cfg env s))" "stranded d s \<Longrightarrow> fst (shutdown cfg env s) = s"
  by (simp_all add: co_start_def co_commit_def co_stop_def Let_def split_beta split: sum.split commit_outcome.split)
    (simp add: shutdown_def stranded_def)

interpretation stuck: consumer_kept cfg "stranded d" for cfg d
  by unfold_locales simp_all

text \<open>Example: a shutdown finds a commit under way, and this commit fails.\<close>

definition sample_stuck :: consumer where
  "sample_stuck = the (sample_run 2 [StartConsumer 5, sample_fetched [5] (Inr ()), ProcessorAnswer (Inr ()) sample_env,
     ShutdownConsumer sample_env, CommitAnswer (Inl (BrokerResponse UnknownMemberId)) sample_env])"

lemma sample_stuck_run:
  "sample_run 2 [StartConsumer 5, sample_fetched [5] (Inr ()), ProcessorAnswer (Inr ()) sample_env,
     ShutdownConsumer sample_env, CommitAnswer (Inl (BrokerResponse UnknownMemberId)) sample_env] = Some sample_stuck"
  "co_shutdown_d sample_stuck = Some 1" "co_commit_ds sample_stuck = []" "co_processor sample_stuck = None"
  by code_simp+

lemma sample_stuck_stranded: "stranded 1 sample_stuck"
  by (simp add: stranded_def sample_stuck_run)

text \<open>
  The deferred of \<open>shutdown\<close> may never fire: when a commit of somebody else is under way, the shutdown waits for it with a callback
  and no errback. (The failure of a commit that the shutdown itself has begun does fail the deferred.) There is a run in which
  an automatic commit that the shutdown waits for fails, and in every continuation, whatever happens and
  even when the consumer is stopped, the deferred does not fire.
\<close>

theorem shutdown_never_fires:
  "(\<exists>cfg b n s d. co_reach cfg b n s \<and> stranded d s) \<and>
   (\<forall>cfg b n s d es t. co_reach cfg b n s \<longrightarrow> stranded d s \<longrightarrow> co_run cfg s es = Some t \<longrightarrow> cfires d (co_log t) = 0)"
proof (intro conjI allI impI)
  show "\<exists>cfg b n s d. co_reach cfg b n s \<and> stranded d s"
    using sample_consumer_reach [OF sample_stuck_run(1)] sample_stuck_stranded by blast
next
  fix cfg b n s d es t assume r: "co_reach cfg b n s" and s: "stranded d s" and run: "co_run cfg s es = Some t"
  have "once_inv t" by (rule once.reach_invar [OF co_run_reach [OF r run]])
  then have "cfires d (co_log t) + count_list (held t) d \<le> 1" by (auto simp: once_inv_def weight_def split: if_splits dest: spec [of _ d])
  moreover have "co_shutdown_d t = Some d" using stuck.run [OF s run] by (simp add: stranded_def)
  then have "0 < count_list (held t) d" by (simp add: held_def)
  ultimately show "cfires d (co_log t) = 0" by simp
qed

theorem shutdown_never_fires_witness:
  "\<exists>t. co_run (sample_consumer 2) sample_stuck [StopConsumer sample_env] = Some t \<and> co_start_d t = None \<and> cfires 1 (co_log t) = 0"
proof -
  define t where "t = the (co_run (sample_consumer 2) sample_stuck [StopConsumer sample_env])"
  have run: "co_run (sample_consumer 2) sample_stuck [StopConsumer sample_env] = Some t" "co_start_d t = None"
    unfolding t_def by code_simp+
  with shutdown_never_fires sample_consumer_reach [OF sample_stuck_run(1)] sample_stuck_stranded show ?thesis by blast
qed

section \<open>Other runs\<close>

text \<open>
  A block that the processor failed on does not stop the consumer: the next block is processed, and the commit of its
  offset covers the messages that failed.
\<close>

theorem failed_block_committed:
  "\<exists>s block off. co_reach (sample_consumer 2) FETCH_BUFFER_SIZE_BYTES 0 s \<and> CallProcessor block \<in> set (co_log s) \<and>
     Processed (sm_offset (last block)) \<notin> set (co_log s) \<and> SendCommit (Some off) \<in> set (co_log s) \<and> sm_offset (last block) < off"
proof -
  let ?es = "[StartConsumer 5, sample_fetched [5, 6, 7] (Inr ()), ProcessorAnswer (Inl OtherError) sample_env,
     ProcessorAnswer (Inr ()) sample_env]"
  define s where "s = the (sample_run 2 ?es)"
  have "sample_run 2 ?es = Some s" unfolding s_def by code_simp
  then have "co_reach (sample_consumer 2) FETCH_BUFFER_SIZE_BYTES 0 s" by (rule sample_consumer_reach)
  moreover have called: "last_called None (take 4 (co_log s)) = Some 6" and "Processed 6 \<notin> set (co_log s)" "SendCommit (Some 7) \<in> set (co_log s)" unfolding s_def by code_simp+
  moreover obtain block where "CallProcessor block \<in> set (co_log s)" "sm_offset (last block) = 6"
    using last_called_entry [OF called] by (auto dest: in_set_takeD)
  ultimately have "co_reach (sample_consumer 2) FETCH_BUFFER_SIZE_BYTES 0 s \<and> CallProcessor block \<in> set (co_log s) \<and>
     Processed (sm_offset (last block)) \<notin> set (co_log s) \<and> SendCommit (Some 7) \<in> set (co_log s) \<and> sm_offset (last block) < 7" by simp
  then show ?thesis by blast
qed

text \<open>
  \<open>stop\<close> during an automatic commit fails the deferred of \<open>start\<close> with \<open>CancelledError\<close>, although the consumer is still to
  call it with the last processed offset.
\<close>

theorem stop_fails_start:
  "case sample_run 2 [StartConsumer 5, sample_fetched [5] (Inr ()), ProcessorAnswer (Inr ()) sample_env, StopConsumer sample_env] of None \<Rightarrow> False | Some s \<Rightarrow>
     co_start_d s = None \<and> CFired 0 (Inl TwistedCancelledError) \<in> set (co_log s)"
  by code_simp

text \<open>
  \<open>stop\<close> keeps the delayed call of a commit that it has cancelled. After a restart the next \<open>stop\<close> cancels it again,
  which raises, and the consumer is not stopped.
\<close>

theorem second_stop_raises:
  "case sample_run 2 [StartConsumer 5, sample_fetched [5] (Inr ()), ProcessorAnswer (Inr ()) sample_env,
       CommitAnswer (Inl (BrokerResponse CoordinatorNotAvailable)) sample_env, StopConsumer sample_env, StartConsumer 6] of None \<Rightarrow> False | Some s \<Rightarrow>
     (case co_stop (sample_consumer 2) sample_env s of (t, r) \<Rightarrow> r = Inl AlreadyCancelledError \<and> co_start_d t \<noteq> None)"
  by code_simp

text \<open>\<open>stop\<close> calls the processor with the messages that follow the block it cancels.\<close>

theorem stop_calls_processor:
  "case sample_run 2 [StartConsumer 5, sample_fetched [5, 6, 7] (Inr ())] of None \<Rightarrow> False | Some s \<Rightarrow>
     handed [] (co_log s) = [5, 6] \<and> handed [] (co_log (fst (co_stop (sample_consumer 2) sample_env s))) = [5, 6, 7]"
  by code_simp

text \<open>
  A response that cannot be decoded ends the fetching without a word when it had to wait for the block before it: no request
  and no timer is left, and the deferred of \<open>start\<close> has not fired. The same response is retried when it does not have to wait.
\<close>

theorem waiting_response_error_lost:
  "(case sample_run 2 [StartConsumer 5, sample_fetched [5] (Inr ()), RetryTimer, sample_fetched [] (Inl ChecksumError),
       ProcessorAnswer (Inr ()) sample_env] of None \<Rightarrow> False | Some s \<Rightarrow> co_request s = None \<and> co_retry_call s = None \<and>
     co_processor s = None \<and> co_start_d s = Some 0 \<and> cfires 0 (co_log s) = 0) \<and>
   (case sample_run 2 [StartConsumer 5, sample_fetched [] (Inl ChecksumError)] of None \<Rightarrow> False | Some t \<Rightarrow> co_retry_call t = Some True)"
  by code_simp

text \<open>Without a group a start at the committed offset fails its deferred and sends the request all the same.\<close>

theorem committed_without_group:
  "case co_run sample_config (consumer_init sample_config FETCH_BUFFER_SIZE_BYTES 0) [StartConsumer OFFSET_COMMITTED] of None \<Rightarrow> False | Some s \<Rightarrow>
     co_log s = [Started OFFSET_COMMITTED, CFired 0 (Inl InvalidConsumerGroupError), SendOffsetFetch]"
  by code_simp

end
