(* ===== verification/Group_Assignment.thy ===== *)
theory Group_Assignment
  imports Responses "HOL-Library.List_Lexorder" "HOL-Library.Product_Lexorder"
begin

text \<open>
  \<open>_ConsumerProtocol\<close> in \<open>afkak/_group.py\<close>: the consumer embedded protocol by which the leader
  of a group divides the partitions of the subscribed topics among the members.

  The search for a subscribed member walks an endless cycle, so \<open>seek\<close> is a partial function
  (\<open>None\<close> would be the endless loop the comment in the source speaks of), and the theorems show
  that it returns. The set \<open>all_topics\<close> is a list without repetitions: the order in which
  Python visits a set does not matter, because the list built from it is sorted.
\<close>

section \<open>The protocol\<close>

type_synonym member_table = "(pystr, join_group_protocol_metadata) dict"
type_synonym topic_assignment = "(pystr, int list) dict"
type_synonym group_assignment = "(pystr, topic_assignment) dict"

definition protocol_type :: pystr where
  "protocol_type = str_lit ''consumer''"

definition join_group_protocols :: "pystr list \<Rightarrow> join_group_request_protocol list result" where
  "join_group_protocols topics =
     rbind (encode_join_group_protocol_metadata 0 topics (Some [])) (\<lambda>metadata.
       Inr [\<lparr>jgp_protocol_name = protocol_type, jgp_protocol_metadata = Some metadata\<rparr>])"

definition all_topics_of :: "member_table \<Rightarrow> pystr list" where
  "all_topics_of member_metadata = remdups (concat (map jgm_subscriptions (dict_values member_metadata)))"

definition subscribed :: "member_table \<Rightarrow> pystr \<Rightarrow> pystr \<Rightarrow> bool" where
  "subscribed member_metadata member_id topic \<longleftrightarrow>
     (case dict_get member_metadata member_id of
        None \<Rightarrow> False | Some md \<Rightarrow> topic \<in> set (jgm_subscriptions md))"

text \<open>
  \<open>member_id = next(member_iter)\<close>, repeated while the member is not subscribed; the cycle over
  the sorted member ids is a position that counts all \<open>next\<close> calls.
\<close>

partial_function (option) seek ::
    "member_table \<Rightarrow> pystr list \<Rightarrow> pystr \<Rightarrow> nat \<Rightarrow> (pystr \<times> nat) option" where
  "seek member_metadata members topic i =
     (let member_id = members ! (i mod length members)
      in if subscribed member_metadata member_id topic then Some (member_id, Suc i)
         else seek member_metadata members topic (Suc i))"

text \<open>\<open>assignment[member_id][topic].append(partition)\<close> on nested default dictionaries.\<close>

definition assign :: "pystr \<Rightarrow> pystr \<Rightarrow> int \<Rightarrow> group_assignment \<Rightarrow> group_assignment" where
  "assign member_id topic part assignment =
     (let inner = (case dict_get assignment member_id of None \<Rightarrow> [] | Some d \<Rightarrow> d);
          ps = (case dict_get inner topic of None \<Rightarrow> [] | Some ps \<Rightarrow> ps)
      in dict_set member_id (dict_set topic (ps @ [part]) inner) assignment)"

fun assign_all ::
    "member_table \<Rightarrow> pystr list \<Rightarrow> (pystr \<times> int) list \<Rightarrow> nat \<Rightarrow> group_assignment \<Rightarrow> group_assignment option" where
  "assign_all member_metadata members [] i assignment = Some assignment"
| "assign_all member_metadata members ((topic, part) # tps) i assignment =
     Option.bind (seek member_metadata members topic i) (\<lambda>(member_id, i).
       assign_all member_metadata members tps i (assign member_id topic part assignment))"

definition all_topic_partitions :: "pystr list \<Rightarrow> topic_assignment \<Rightarrow> (pystr \<times> int) list result" where
  "all_topic_partitions all_topics topic_partitions =
     (if \<forall>t\<in>set all_topics. dict_get topic_partitions t \<noteq> None
      then Inr (sort (concat (map (\<lambda>t. map (Pair t) (the (dict_get topic_partitions t))) all_topics)))
      else Inl (NeedTopicPartitions all_topics))"

definition round_robin_assignment ::
    "member_table \<Rightarrow> topic_assignment \<Rightarrow> group_assignment result option" where
  "round_robin_assignment member_metadata topic_partitions =
     (let all_topics = all_topics_of member_metadata
      in if all_topics = [] then Some (Inl AssertionError)
         else (case all_topic_partitions all_topics topic_partitions of
                 Inl e \<Rightarrow> Some (Inl e)
               | Inr tps \<Rightarrow>
                   map_option Inr
                     (assign_all member_metadata (sort (dict_keys member_metadata)) tps 0 [])))"

definition decode_member :: "join_group_response_member \<Rightarrow> (pystr \<times> join_group_protocol_metadata) result" where
  "decode_member member =
     (case jgr_member_metadata member of
        None \<Rightarrow> Inl TypeError
      | Some b \<Rightarrow> rbind (decode_join_group_protocol_metadata b) (\<lambda>md. Inr (jgr_member_id member, md)))"

fun decode_members :: "join_group_response_member list \<Rightarrow> member_table \<Rightarrow> member_table result" where
  "decode_members [] member_metadata = Inr member_metadata"
| "decode_members (member # members) member_metadata =
     rbind (decode_member member) (\<lambda>(member_id, md).
       decode_members members (dict_set member_id md member_metadata))"

fun encode_assignments ::
    "group_assignment \<Rightarrow> join_group_response_member list \<Rightarrow> sync_group_request_member list result" where
  "encode_assignments assignments [] = Inr []"
| "encode_assignments assignments (member # members) =
     rbind (encode_sync_group_member_assignment 0
              (case dict_get assignments (jgr_member_id member) of None \<Rightarrow> [] | Some d \<Rightarrow> d) (Some []))
       (\<lambda>encoded. rbind (encode_assignments assignments members) (\<lambda>rest.
          Inr (\<lparr>sgm_member_id = jgr_member_id member, sgm_member_metadata = Some encoded\<rparr> # rest)))"

definition generate_assignments ::
    "join_group_response_member list \<Rightarrow> topic_assignment \<Rightarrow> sync_group_request_member list result option" where
  "generate_assignments members topic_partitions =
     (case decode_members members [] of
        Inl e \<Rightarrow> Some (Inl e)
      | Inr member_metadata \<Rightarrow>
          map_option (\<lambda>r. rbind r (\<lambda>assignments. encode_assignments assignments members))
            (round_robin_assignment member_metadata topic_partitions))"

definition decode_assignment :: "bytes option \<Rightarrow> topic_assignment result" where
  "decode_assignment assignment =
     (case assignment of
        None \<Rightarrow> Inl TypeError
      | Some b \<Rightarrow> rbind (decode_sync_group_member_assignment b) (\<lambda>a. Inr (sga_assignments a)))"

section \<open>The search returns\<close>

lemma seek_within:
  "subscribed md (ms ! ((i + d) mod length ms)) t \<Longrightarrow>
   \<exists>e\<le>d. subscribed md (ms ! ((i + e) mod length ms)) t \<and>
         (\<forall>j<e. \<not> subscribed md (ms ! ((i + j) mod length ms)) t) \<and>
         seek md ms t i = Some (ms ! ((i + e) mod length ms), Suc (i + e))"
proof (induction d arbitrary: i)
  case 0
  then show ?case by (subst seek.simps) (simp add: Let_def)
next
  case (Suc d)
  show ?case
  proof (cases "subscribed md (ms ! (i mod length ms)) t")
    case True
    then show ?thesis by (intro exI [of _ 0]) (subst seek.simps, simp add: Let_def)
  next
    case False
    from Suc.IH [of "Suc i"] Suc.prems obtain e where e: "e \<le> d"
      "subscribed md (ms ! ((Suc i + e) mod length ms)) t"
      "\<forall>j<e. \<not> subscribed md (ms ! ((Suc i + j) mod length ms)) t"
      "seek md ms t (Suc i) = Some (ms ! ((Suc i + e) mod length ms), Suc (Suc i + e))" by auto
    have "\<not> subscribed md (ms ! ((i + j) mod length ms)) t" if "j < Suc e" for j
      using that False e(3) by (cases j) auto
    with e False show ?thesis by (intro exI [of _ "Suc e"]) (subst seek.simps, simp add: Let_def)
  qed
qed

lemma seek_returns:
  assumes "m \<in> set ms" "subscribed md m t"
  shows "\<exists>m' i'. seek md ms t i = Some (m', i') \<and> m' \<in> set ms \<and> subscribed md m' t"
proof -
  from assms(1) obtain k where k: "k < length ms" "ms ! k = m" by (auto simp: in_set_conv_nth)
  let ?d = "k + length ms * i - i"
  have "i \<le> length ms * i" using k(1) by (cases "length ms") auto
  then have "i + ?d = k + length ms * i" by (metis le_add_diff_inverse trans_le_add2)
  then have "subscribed md (ms ! ((i + ?d) mod length ms)) t" using k assms(2) by simp
  from seek_within [OF this] obtain e where
    "subscribed md (ms ! ((i + e) mod length ms)) t"
    "seek md ms t i = Some (ms ! ((i + e) mod length ms), Suc (i + e))" by blast
  moreover have "ms ! ((i + e) mod length ms) \<in> set ms" using k(1) by (intro nth_mem mod_less_divisor) auto
  ultimately show ?thesis by blast
qed

section \<open>Who owns what\<close>

definition assigned :: "group_assignment \<Rightarrow> pystr \<Rightarrow> pystr \<Rightarrow> int list" where
  "assigned a m t =
     (case dict_get a m of
        None \<Rightarrow> []
      | Some d \<Rightarrow> (case dict_get d t of None \<Rightarrow> [] | Some ps \<Rightarrow> ps))"

lemma assigned_assign:
  "assigned (assign m t p a) m' t' = (if m' = m \<and> t' = t then assigned a m t @ [p] else assigned a m' t')"
  by (auto simp: assigned_def assign_def Let_def dict_get_set split: option.splits)

definition assignment_ok :: "group_assignment \<Rightarrow> bool" where
  "assignment_ok a \<longleftrightarrow> dict_ok a \<and> (\<forall>m d. dict_get a m = Some d \<longrightarrow> dict_ok d)"

lemma assignment_ok_assign: "assignment_ok a \<Longrightarrow> assignment_ok (assign m t p a)"
  by (auto simp: assignment_ok_def assign_def Let_def dict_get_set split: option.splits)

text \<open>The partitions of one topic that a list of owners gives to one member.\<close>

definition share :: "(pystr \<times> int) list \<Rightarrow> pystr list \<Rightarrow> pystr \<Rightarrow> pystr \<Rightarrow> int list" where
  "share tps owners m t = map (snd \<circ> fst) (filter (\<lambda>((t', p), m'). m' = m \<and> t' = t) (zip tps owners))"

lemma assign_all_owners:
  assumes "\<forall>(t, p)\<in>set tps. \<exists>m\<in>set ms. subscribed md m t" "assignment_ok a"
  shows "\<exists>owners a'. assign_all md ms tps i a = Some a' \<and> assignment_ok a' \<and>
    length owners = length tps \<and>
    (\<forall>k<length tps. owners ! k \<in> set ms \<and> subscribed md (owners ! k) (fst (tps ! k))) \<and>
    (\<forall>m t. assigned a' m t = assigned a m t @ share tps owners m t)"
  using assms
proof (induction tps arbitrary: i a)
  case Nil
  then show ?case by (auto simp: share_def)
next
  case (Cons tp tps)
  obtain t p where tp: "tp = (t, p)" by force
  from Cons.prems(1) obtain m0 where "m0 \<in> set ms" "subscribed md m0 t" by (auto simp: tp)
  from seek_returns [OF this, of i] obtain m i' where sk: "seek md ms t i = Some (m, i')"
    and m: "m \<in> set ms" "subscribed md m t" by blast
  from Cons.IH [of "assign m t p a" i'] Cons.prems assignment_ok_assign obtain owners a'
    where IH: "assign_all md ms tps i' (assign m t p a) = Some a'" "assignment_ok a'"
      "length owners = length tps"
      "\<forall>k<length tps. owners ! k \<in> set ms \<and> subscribed md (owners ! k) (fst (tps ! k))"
      "\<forall>m' t'. assigned a' m' t' = assigned (assign m t p a) m' t' @ share tps owners m' t'"
    by auto
  have "(m # owners) ! k \<in> set ms \<and> subscribed md ((m # owners) ! k) (fst ((tp # tps) ! k))"
    if "k < length (tp # tps)" for k
    using that m IH(4) by (cases k) (auto simp: tp)
  moreover have "assigned a' m' t' = assigned a m' t' @ share (tp # tps) (m # owners) m' t'" for m' t'
    using IH(5) by (auto simp: assigned_assign share_def tp)
  ultimately show ?case
    using IH(1-3) sk by (intro exI [of _ "m # owners"] exI [of _ a']) (auto simp: tp)
qed

lemma subscribed_iff:
  "dict_ok md \<Longrightarrow> subscribed md m t \<longleftrightarrow> (\<exists>x. (m, x) \<in> set md \<and> t \<in> set (jgm_subscriptions x))"
  by (auto simp: subscribed_def dict_get_in split: option.splits)

lemma all_topics_subscribed:
  assumes "dict_ok md"
  shows "t \<in> set (all_topics_of md) \<longleftrightarrow> (\<exists>m\<in>set (dict_keys md). subscribed md m t)"
  by (force simp: all_topics_of_def subscribed_iff [OF assms])

lemma all_topic_partitions_mset:
  "all_topic_partitions ts tp = Inr tps \<Longrightarrow>
   mset tps = mset (concat (map (\<lambda>t. map (Pair t) (the (dict_get tp t))) ts))"
  by (auto simp: all_topic_partitions_def split: if_splits)

lemma all_topic_partitions_set:
  assumes "all_topic_partitions ts tp = Inr tps"
  shows "(t, p) \<in> set tps \<longleftrightarrow> t \<in> set ts \<and> p \<in> set (the (dict_get tp t))"
  using mset_eq_setD [OF all_topic_partitions_mset [OF assms]] by auto

lemma distinct_concat_Pair:
  "distinct ts \<Longrightarrow> \<forall>t\<in>set ts. distinct (f t) \<Longrightarrow> distinct (concat (map (\<lambda>t. map (Pair t) (f t)) ts))"
  by (induction ts) (auto simp: distinct_map inj_on_def)

lemma all_topic_partitions_distinct:
  assumes "all_topic_partitions (all_topics_of md) tp = Inr tps"
    and "\<forall>t ps. dict_get tp t = Some ps \<longrightarrow> distinct ps"
  shows "distinct tps"
proof -
  have "\<forall>t\<in>set (all_topics_of md). distinct (the (dict_get tp t))"
    using assms by (fastforce simp: all_topic_partitions_def split: if_splits)
  from distinct_concat_Pair [OF _ this] have
    "distinct (concat (map (\<lambda>t. map (Pair t) (the (dict_get tp t))) (all_topics_of md)))"
    by (simp add: all_topics_of_def)
  with all_topic_partitions_mset [OF assms(1)] show ?thesis
    using mset_eq_imp_distinct_iff by blast
qed

lemma share_member:
  "length owners = length tps \<Longrightarrow>
   p \<in> set (share tps owners m t) \<longleftrightarrow> (\<exists>k<length tps. tps ! k = (t, p) \<and> owners ! k = m)"
  by (force simp: share_def set_zip image_iff)

lemma share_distinct:
  assumes "distinct tps"
  shows "distinct (share tps owners m t)"
proof -
  let ?zs = "filter (\<lambda>((t', p), m'). m' = m \<and> t' = t) (zip tps owners)"
  have "distinct ?zs" using assms by (simp add: distinct_zipI1)
  moreover have "inj_on (snd \<circ> fst) (set ?zs)" by (auto simp: inj_on_def)
  ultimately show ?thesis by (simp add: share_def distinct_map)
qed

lemma round_robin_owners:
  assumes "dict_ok md" "all_topics_of md \<noteq> []" "all_topic_partitions (all_topics_of md) tp = Inr tps"
  shows "\<exists>a owners. round_robin_assignment md tp = Some (Inr a) \<and> assignment_ok a \<and>
    length owners = length tps \<and>
    (\<forall>k<length tps. owners ! k \<in> set (dict_keys md) \<and> subscribed md (owners ! k) (fst (tps ! k))) \<and>
    (\<forall>m t. assigned a m t = share tps owners m t)"
proof -
  let ?ms = "sort (dict_keys md)"
  have "\<forall>(t, p)\<in>set tps. \<exists>m\<in>set ?ms. subscribed md m t"
    using all_topic_partitions_set [OF assms(3)] all_topics_subscribed [OF assms(1)] by auto
  from assign_all_owners [OF this, of "[]" 0] obtain owners a where
    "assign_all md ?ms tps 0 [] = Some a" "assignment_ok a" "length owners = length tps"
    "\<forall>k<length tps. owners ! k \<in> set ?ms \<and> subscribed md (owners ! k) (fst (tps ! k))"
    "\<forall>m t. assigned a m t = assigned [] m t @ share tps owners m t"
    by (auto simp: assignment_ok_def)
  with assms(2,3) show ?thesis
    by (intro exI [of _ a] exI [of _ owners])
      (simp add: round_robin_assignment_def Let_def assigned_def [of "[]"])
qed

section \<open>Properties\<close>

text \<open>
  C6. Round-robin assignment always returns, and divides the work: when the partitions of every
  subscribed topic are known, each partition of a subscribed topic goes to exactly one member,
  which is subscribed to its topic; nothing else is assigned, and nothing twice.
\<close>

theorem assignment_partitions_topics:
  assumes "dict_ok md" "all_topics_of md \<noteq> []"
    and "\<forall>t\<in>set (all_topics_of md). dict_get tp t \<noteq> None"
    and "\<forall>t ps. dict_get tp t = Some ps \<longrightarrow> distinct ps"
  shows "\<exists>a. round_robin_assignment md tp = Some (Inr a) \<and>
    (\<forall>t\<in>set (all_topics_of md). \<forall>p\<in>set (the (dict_get tp t)). \<exists>!m. p \<in> set (assigned a m t)) \<and>
    (\<forall>m t p. p \<in> set (assigned a m t) \<longrightarrow> subscribed md m t \<and> p \<in> set (the (dict_get tp t))) \<and>
    (\<forall>m t. distinct (assigned a m t))"
proof -
  from assms(3) obtain tps where tps: "all_topic_partitions (all_topics_of md) tp = Inr tps"
    by (simp add: all_topic_partitions_def)
  note set = all_topic_partitions_set [OF tps] and dist = all_topic_partitions_distinct [OF tps assms(4)]
  from round_robin_owners [OF assms(1,2) tps] obtain a owners
    where a: "round_robin_assignment md tp = Some (Inr a)" and len: "length owners = length tps"
      and own: "\<forall>k<length tps. owners ! k \<in> set (dict_keys md) \<and> subscribed md (owners ! k) (fst (tps ! k))"
      and sh: "\<And>m t. assigned a m t = share tps owners m t" by blast
  have ex: "\<exists>!m. p \<in> set (assigned a m t)"
    if "t \<in> set (all_topics_of md)" "p \<in> set (the (dict_get tp t))" for t p
  proof -
    from set that obtain k where k: "k < length tps" "tps ! k = (t, p)" by (metis in_set_conv_nth)
    show ?thesis
    proof (rule ex1I [of _ "owners ! k"])
      show "p \<in> set (assigned a (owners ! k) t)" using k by (auto simp: sh share_member [OF len])
    next
      fix m
      assume "p \<in> set (assigned a m t)"
      then obtain j where j: "j < length tps" "tps ! j = (t, p)" "owners ! j = m"
        by (auto simp: sh share_member [OF len])
      with k dist have "j = k" by (metis nth_eq_iff_index_eq)
      with j show "m = owners ! k" by simp
    qed
  qed
  have sub: "subscribed md m t \<and> p \<in> set (the (dict_get tp t))" if "p \<in> set (assigned a m t)" for m t p
  proof -
    from that obtain k where k: "k < length tps" "tps ! k = (t, p)" "owners ! k = m"
      by (auto simp: sh share_member [OF len])
    then have "(t, p) \<in> set tps" by (metis nth_mem)
    with own k set show ?thesis by auto
  qed
  show ?thesis
    using a ex sub share_distinct [OF dist] by (intro exI [of _ a]) (simp add: sh)
qed

text \<open>Two members, one of them subscribed to both topics.\<close>

definition sample_members :: member_table where
  "sample_members =
     [(str_lit ''m1'', \<lparr>jgm_version = 0, jgm_subscriptions = [str_lit ''a'', str_lit ''b''], jgm_user_data = None\<rparr>),
      (str_lit ''m2'', \<lparr>jgm_version = 0, jgm_subscriptions = [str_lit ''b''], jgm_user_data = None\<rparr>)]"

definition sample_topics :: topic_assignment where
  "sample_topics = [(str_lit ''a'', [0, 1]), (str_lit ''b'', [0])]"

lemma sample_members_topics: "all_topics_of sample_members = [str_lit ''a'', str_lit ''b'']"
  by (simp add: all_topics_of_def sample_members_def str_lit_def)

theorem assignment_partitions_topics_witness:
  "\<exists>a. round_robin_assignment sample_members sample_topics = Some (Inr a) \<and>
     (\<exists>!m. 1 \<in> set (assigned a m (str_lit ''a''))) \<and> 0 \<notin> set (assigned a (str_lit ''m2'') (str_lit ''a''))"
proof -
  have ok: "dict_ok sample_members" by (simp add: dict_ok_def sample_members_def str_lit_def)
  have known: "\<forall>t\<in>set (all_topics_of sample_members). dict_get sample_topics t \<noteq> None"
    by (simp add: sample_members_topics sample_topics_def)
  have dist: "\<forall>t ps. dict_get sample_topics t = Some ps \<longrightarrow> distinct ps"
    by (simp add: sample_topics_def)
  have no: "\<not> subscribed sample_members (str_lit ''m2'') (str_lit ''a'')"
    by (simp add: subscribed_def sample_members_def str_lit_def)
  have a: "the (dict_get sample_topics (str_lit ''a'')) = [0, 1]" by (simp add: sample_topics_def)
  from assignment_partitions_topics [OF ok _ known dist] no a show ?thesis
    by (auto simp: sample_members_topics)
qed

text \<open>
  The assignment asks for more metadata exactly when it has to: it raises
  \<open>_NeedTopicPartitions\<close>, naming all subscribed topics, if and only if the partitions of some
  subscribed topic are unknown.
\<close>

theorem need_topic_partitions_iff:
  assumes "dict_ok md"
  shows "round_robin_assignment md tp = Some (Inl (NeedTopicPartitions ts)) \<longleftrightarrow>
    ts = all_topics_of md \<and> (\<exists>t\<in>set ts. dict_get tp t = None)"
proof (cases "\<exists>t\<in>set (all_topics_of md). dict_get tp t = None")
  case True
  then have "all_topics_of md \<noteq> []" by (metis empty_iff list.set(1))
  with True show ?thesis by (auto simp: round_robin_assignment_def all_topic_partitions_def Let_def)
next
  case False
  then obtain tps where tps: "all_topic_partitions (all_topics_of md) tp = Inr tps"
    by (simp add: all_topic_partitions_def)
  show ?thesis
  proof (cases "all_topics_of md = []")
    case True
    with False show ?thesis by (auto simp: round_robin_assignment_def)
  next
    case ne: False
    from round_robin_owners [OF assms ne tps] False show ?thesis by auto
  qed
qed

theorem need_topic_partitions_iff_witness:
  "round_robin_assignment sample_members [(str_lit ''b'', [0])] =
     Some (Inl (NeedTopicPartitions [str_lit ''a'', str_lit ''b'']))"
proof -
  have ok: "dict_ok sample_members" by (simp add: dict_ok_def sample_members_def str_lit_def)
  show ?thesis
    using need_topic_partitions_iff [OF ok, of "[(str_lit ''b'', [0])]" "[str_lit ''a'', str_lit ''b'']"]
    by (simp add: sample_members_topics str_lit_def)
qed

lemma decode_members_ok: "decode_members ms d = Inr md \<Longrightarrow> dict_ok d \<Longrightarrow> dict_ok md"
  by (induction ms arbitrary: d) (auto simp: rbind_eq_Inr)

lemma encode_assignments_nth:
  "encode_assignments a ms = Inr out \<Longrightarrow> k < length ms \<Longrightarrow>
   length out = length ms \<and> sgm_member_id (out ! k) = jgr_member_id (ms ! k) \<and>
   (\<exists>b. sgm_member_metadata (out ! k) = Some b \<and>
        encode_sync_group_member_assignment 0
          (case dict_get a (jgr_member_id (ms ! k)) of None \<Rightarrow> [] | Some d \<Rightarrow> d) (Some []) = Inr b)"
proof (induction ms arbitrary: out k)
  case (Cons m ms)
  from Cons.prems(1) obtain b rest where
    b: "encode_sync_group_member_assignment 0
        (case dict_get a (jgr_member_id m) of None \<Rightarrow> [] | Some d \<Rightarrow> d) (Some []) = Inr b"
    and rest: "encode_assignments a ms = Inr rest"
    and out: "out = \<lparr>sgm_member_id = jgr_member_id m, sgm_member_metadata = Some b\<rparr> # rest"
    by (auto simp: rbind_eq_Inr)
  show ?case
  proof (cases k)
    case 0
    have "length rest = length ms" using rest by (induction ms arbitrary: rest) (auto simp: rbind_eq_Inr)
    with 0 b out show ?thesis by simp
  next
    case (Suc j)
    with Cons.IH [OF rest, of j] Cons.prems(2) out show ?thesis by simp
  qed
qed simp

lemma generate_assignments_decode:
  assumes "generate_assignments members tp = Some (Inr out)" "k < length members"
  shows "\<exists>md a d. decode_members members [] = Inr md \<and> round_robin_assignment md tp = Some (Inr a) \<and>
    length out = length members \<and> sgm_member_id (out ! k) = jgr_member_id (members ! k) \<and>
    decode_assignment (sgm_member_metadata (out ! k)) = Inr d \<and> dict_ok d \<and>
    (\<forall>t. (case dict_get d t of None \<Rightarrow> [] | Some ps \<Rightarrow> ps) = assigned a (jgr_member_id (members ! k)) t)"
proof -
  from assms(1) obtain md a where md: "decode_members members [] = Inr md"
    and a: "round_robin_assignment md tp = Some (Inr a)" and enc: "encode_assignments a members = Inr out"
    by (auto simp: generate_assignments_def rbind_eq_Inr split: sum.splits)
  let ?d = "case dict_get a (jgr_member_id (members ! k)) of None \<Rightarrow> [] | Some d \<Rightarrow> d"
  have mdok: "dict_ok md" by (rule decode_members_ok [OF md]) simp
  from a obtain tps where "all_topics_of md \<noteq> []" "all_topic_partitions (all_topics_of md) tp = Inr tps"
    by (auto simp: round_robin_assignment_def Let_def split: if_splits sum.splits)
  from round_robin_owners [OF mdok this] a have aok: "assignment_ok a" by auto
  then have dok: "dict_ok ?d" by (auto simp: assignment_ok_def split: option.splits)
  from encode_assignments_nth [OF enc assms(2)] obtain b where out: "length out = length members"
    "sgm_member_id (out ! k) = jgr_member_id (members ! k)" "sgm_member_metadata (out ! k) = Some b"
    and b: "encode_sync_group_member_assignment 0 ?d (Some []) = Inr b" by auto
  have "decode_assignment (Some b) = Inr ?d"
    using assignment_decode [OF b dok] by (simp add: decode_assignment_def)
  with md a out dok show ?thesis
    by (intro exI [of _ md] exI [of _ a] exI [of _ ?d]) (auto simp: assigned_def split: option.splits)
qed

text \<open>
  From leader to member: when the leader's \<open>generate_assignments\<close> succeeds, it has an entry
  for every member in the order of the join response, and what a member decodes from its entry
  is, topic by topic, its share of the round-robin assignment.
\<close>

theorem assignment_reaches_member:
  assumes "generate_assignments members tp = Some (Inr out)" "k < length members"
  shows "\<exists>md a d. decode_members members [] = Inr md \<and> round_robin_assignment md tp = Some (Inr a) \<and>
    length out = length members \<and> sgm_member_id (out ! k) = jgr_member_id (members ! k) \<and>
    decode_assignment (sgm_member_metadata (out ! k)) = Inr d \<and>
    (\<forall>t. (case dict_get d t of None \<Rightarrow> [] | Some ps \<Rightarrow> ps) = assigned a (jgr_member_id (members ! k)) t)"
  using generate_assignments_decode [OF assms] by blast

lemma seek_hit:
  "subscribed md (ms ! (i mod length ms)) t \<Longrightarrow> seek md ms t i = Some (ms ! (i mod length ms), Suc i)"
  by (subst seek.simps) (simp add: Let_def)

lemma sample_generated:
  "\<exists>b out. encode_join_group_protocol_metadata 0 [str_lit ''t''] (Some []) = Inr b \<and>
     generate_assignments [\<lparr>jgr_member_id = str_lit ''m'', jgr_member_metadata = Some b\<rparr>]
       [(str_lit ''t'', [4, 5])] = Some (Inr out)"
proof -
  let ?md = "\<lparr>jgm_version = 0, jgm_subscriptions = [str_lit ''t''], jgm_user_data = Some []\<rparr>"
  have "\<exists>b. encode_join_group_protocol_metadata 0 [str_lit ''t''] (Some []) = Inr b"
    by (simp add: encode_join_group_protocol_metadata_def wire_eval)
  then obtain b where b: "encode_join_group_protocol_metadata 0 [str_lit ''t''] (Some []) = Inr b" by blast
  let ?m = "\<lparr>jgr_member_id = str_lit ''m'', jgr_member_metadata = Some b\<rparr>"
  have d: "decode_members [?m] [] = Inr [(str_lit ''m'', ?md)]"
    using join_metadata_decode [OF b] by (simp add: decode_member_def)
  have tps: "all_topic_partitions [str_lit ''t''] [(str_lit ''t'', [4, 5])] = Inr [(str_lit ''t'', 4), (str_lit ''t'', 5)]"
    by (simp add: all_topic_partitions_def)
  have r: "round_robin_assignment [(str_lit ''m'', ?md)] [(str_lit ''t'', [4, 5])] =
      Some (Inr [(str_lit ''m'', [(str_lit ''t'', [4, 5])])])"
    using tps by (simp add: round_robin_assignment_def all_topics_of_def seek_hit subscribed_def assign_def)
  have "\<exists>out. encode_assignments [(str_lit ''m'', [(str_lit ''t'', [4, 5])])] [?m] = Inr out"
    by (simp add: encode_sync_group_member_assignment_def encode_partition_list_def wire_eval)
  then have "\<exists>out. generate_assignments [?m] [(str_lit ''t'', [4, 5])] = Some (Inr out)"
    by (simp only: generate_assignments_def d r sum.case option.map rbind_Inr) simp
  then obtain out where out: "generate_assignments [?m] [(str_lit ''t'', [4, 5])] = Some (Inr out)" by blast
  with b show ?thesis by blast
qed

theorem assignment_reaches_member_witness:
  "\<exists>b out. encode_join_group_protocol_metadata 0 [str_lit ''t''] (Some []) = Inr b \<and>
     generate_assignments [\<lparr>jgr_member_id = str_lit ''m'', jgr_member_metadata = Some b\<rparr>]
       [(str_lit ''t'', [4, 5])] = Some (Inr out) \<and>
     (\<exists>d. decode_assignment (sgm_member_metadata (out ! 0)) = Inr d)"
proof -
  from sample_generated obtain b out where b: "encode_join_group_protocol_metadata 0 [str_lit ''t''] (Some []) = Inr b"
    and out: "generate_assignments [\<lparr>jgr_member_id = str_lit ''m'', jgr_member_metadata = Some b\<rparr>] [(str_lit ''t'', [4, 5])] = Some (Inr out)" by blast
  from assignment_reaches_member [OF out, of 0] b out show ?thesis by auto
qed

section \<open>Balance\<close>

definition load :: "group_assignment \<Rightarrow> pystr \<Rightarrow> nat" where
  "load a m = (case dict_get a m of None \<Rightarrow> 0 | Some d \<Rightarrow> sum_list (map (length \<circ> snd) d))"

lemma sum_list_dict_set:
  "sum_list (map (length \<circ> snd) (dict_set t ((case dict_get d t of None \<Rightarrow> [] | Some ps \<Rightarrow> ps) @ [p]) d)) =
     Suc (sum_list (map (length \<circ> snd) d))"
  by (induction d) (auto split: option.splits)

lemma load_assign: "load (assign m t p a) m' = load a m' + (if m' = m then 1 else 0)"
  by (cases "dict_get a m") (auto simp: load_def assign_def Let_def dict_get_set sum_list_dict_set)

text \<open>The visits to one position of a cycle of \<open>n\<close> among the first \<open>N\<close>.\<close>

lemma cycle_visits:
  assumes "j < n"
  shows "N div n \<le> card {k. k < N \<and> k mod n = j} \<and> card {k. k < N \<and> k mod n = j} \<le> Suc (N div n)"
proof -
  let ?f = "\<lambda>q. q * n + j"
  let ?Q = "{q. ?f q < N}"
  have inj: "inj_on ?f ?Q" using assms by (auto simp: inj_on_def)
  have img: "{k. k < N \<and> k mod n = j} = ?f ` ?Q"
  proof (intro equalityI subsetI)
    fix k
    assume "k \<in> {k. k < N \<and> k mod n = j}"
    then have "k = ?f (k div n)" "k < N" by (auto simp: mult.commute)
    then show "k \<in> ?f ` ?Q" by (metis (mono_tags, lifting) image_eqI mem_Collect_eq)
  qed (use assms in auto)
  have le: "q \<le> N div n" if "?f q < N" for q
    using that assms div_le_mono [of "?f q" N n] by simp
  have lt: "?f q < N" if "q < N div n" for q
  proof -
    have "Suc q * n \<le> N div n * n" using that by (intro mult_le_mono1) simp
    also have "\<dots> \<le> N" by simp
    finally show ?thesis using assms by simp
  qed
  have "?Q \<subseteq> {..N div n}" using le by auto
  then have "card ?Q \<le> card {..N div n}" by (intro card_mono) auto
  moreover have "card {..<N div n} \<le> card ?Q"
    using \<open>?Q \<subseteq> {..N div n}\<close> lt by (intro card_mono) (auto intro: finite_subset)
  ultimately show ?thesis using card_image [OF inj] by (simp add: img)
qed

lemma assign_all_everyone:
  assumes "\<forall>m\<in>set ms. \<forall>(t, p)\<in>set tps. subscribed md m t" "ms \<noteq> []" "distinct ms" "j < length ms"
  shows "\<exists>a'. assign_all md ms tps i a = Some a' \<and>
    load a' (ms ! j) = load a (ms ! j) + card {k. i \<le> k \<and> k < i + length tps \<and> k mod length ms = j}"
  using assms(1)
proof (induction tps arbitrary: i a)
  case (Cons tp tps)
  obtain t p where tp: "tp = (t, p)" by force
  let ?m = "ms ! (i mod length ms)"
  have il: "i mod length ms < length ms" using assms(2) by simp
  then have "subscribed md ?m t" using Cons.prems tp by auto
  note sk = seek_hit [OF this]
  from Cons.IH [of "Suc i" "assign ?m t p a"] Cons.prems obtain a' where
    a': "assign_all md ms tps (Suc i) (assign ?m t p a) = Some a'"
    "load a' (ms ! j) = load (assign ?m t p a) (ms ! j) +
       card {k. Suc i \<le> k \<and> k < Suc i + length tps \<and> k mod length ms = j}" by auto
  have eq: "ms ! j = ?m \<longleftrightarrow> i mod length ms = j"
    using assms(3,4) il nth_eq_iff_index_eq by metis
  let ?S = "{k. Suc i \<le> k \<and> k < Suc i + length tps \<and> k mod length ms = j}"
  have "{k. i \<le> k \<and> k < i + length (tp # tps) \<and> k mod length ms = j} =
      (if i mod length ms = j then insert i ?S else ?S)"
    by (auto simp: Suc_le_eq le_less)
  moreover have "finite ?S" "i \<notin> ?S" by auto
  ultimately have "card {k. i \<le> k \<and> k < i + length (tp # tps) \<and> k mod length ms = j} =
      (if i mod length ms = j then 1 else 0) + card ?S" by simp
  with a' sk eq show ?case by (simp add: tp load_assign)
qed simp

text \<open>
  C35. The assignment is balanced: when every member subscribes to the same topics, the numbers of
  partitions that any two members get differ by at most one.
\<close>

theorem assignment_balanced:
  assumes "dict_ok md" "all_topics_of md \<noteq> []" "\<forall>t\<in>set (all_topics_of md). dict_get tp t \<noteq> None"
    and "\<forall>m\<in>set (dict_keys md). \<forall>t\<in>set (all_topics_of md). subscribed md m t"
    and "m1 \<in> set (dict_keys md)" "m2 \<in> set (dict_keys md)"
  shows "\<exists>a. round_robin_assignment md tp = Some (Inr a) \<and> load a m1 \<le> load a m2 + 1"
proof -
  let ?ms = "sort (dict_keys md)"
  from assms(3) obtain tps where tps: "all_topic_partitions (all_topics_of md) tp = Inr tps"
    by (simp add: all_topic_partitions_def)
  have sub: "\<forall>m\<in>set ?ms. \<forall>(t, p)\<in>set tps. subscribed md m t"
    using assms(4) all_topic_partitions_set [OF tps] by auto
  have "m1 \<in> set ?ms" using assms(5) by simp
  then have dist: "distinct ?ms" "?ms \<noteq> []"
    using assms(1) by (simp_all only: dict_ok_def distinct_sort) (metis list.set_cases list.simps(3))
  from assms(5,6) obtain j1 j2 where j: "j1 < length ?ms" "?ms ! j1 = m1" "j2 < length ?ms" "?ms ! j2 = m2"
    by (metis in_set_conv_nth set_sort)
  let ?N = "\<lambda>j. card {k. k < length tps \<and> k mod length ?ms = j}"
  from assign_all_everyone [OF sub dist(2,1) j(1), of 0 "[]"] obtain a where
    a: "assign_all md ?ms tps 0 [] = Some a" "load a m1 = ?N j1" by (auto simp: j load_def)
  from assign_all_everyone [OF sub dist(2,1) j(3), of 0 "[]"] a(1) have "load a m2 = ?N j2"
    by (auto simp: j load_def)
  with a cycle_visits [OF j(1), of "length tps"] cycle_visits [OF j(3), of "length tps"]
  have "load a m1 \<le> load a m2 + 1" by linarith
  with a(1) assms(2) tps show ?thesis by (simp add: round_robin_assignment_def Let_def)
qed

theorem assignment_balanced_witness:
  "\<exists>a. round_robin_assignment
        [(str_lit ''m1'', \<lparr>jgm_version = 0, jgm_subscriptions = [str_lit ''a''], jgm_user_data = None\<rparr>),
         (str_lit ''m2'', \<lparr>jgm_version = 0, jgm_subscriptions = [str_lit ''a''], jgm_user_data = None\<rparr>)]
        [(str_lit ''a'', [0, 1, 2])] = Some (Inr a) \<and>
      load a (str_lit ''m1'') \<le> load a (str_lit ''m2'') + 1"
proof -
  let ?md = "[(str_lit ''m1'', \<lparr>jgm_version = 0, jgm_subscriptions = [str_lit ''a''], jgm_user_data = None\<rparr>),
      (str_lit ''m2'', \<lparr>jgm_version = 0, jgm_subscriptions = [str_lit ''a''], jgm_user_data = None\<rparr>)]"
  have "dict_ok ?md" by (simp add: dict_ok_def str_lit_def)
  moreover have "all_topics_of ?md = [str_lit ''a'']" by (simp add: all_topics_of_def)
  ultimately show ?thesis
    using assignment_balanced [of ?md "[(str_lit ''a'', [0, 1, 2])]" "str_lit ''m1''" "str_lit ''m2''"]
    by (simp add: subscribed_def)
qed

end
