(* ===== verification/Group_Coordinator.thy ===== *)
theory Group_Coordinator
  imports Client_Requests Group_Assignment
begin

text \<open>
  \<open>Coordinator\<close> and \<open>ConsumerGroup\<close> in \<open>afkak/_group.py\<close>: a member of a consumer group joins the group, as its leader divides
  the partitions, runs one consumer per assigned partition, sends heartbeats and joins again after errors.

  The state \<open>group\<close> has the attributes of both classes. A run of the generator \<open>_join_and_sync\<close> is a number with the
  place where it waits, so that more than one can be under way; \<open>gr_rejoin_d\<close> is the one in \<open>_rejoin_d\<close>. The calls of
  \<open>join_and_sync\<close> that are scheduled and not kept in \<open>_rejoin_wait_dc\<close> are counted in \<open>gr_timers\<close>.

  The consumers are handles. What a call of a consumer does is given by the environment of the event: whether it raises,
  whether its deferred waits, whether the deferred of the consumer's \<open>start\<close> fails meanwhile and whether the
  consumer is still running afterwards. \<open>Group_Consumers\<close> takes these answers from the model of \<open>Consumer\<close>.
\<close>

section \<open>State\<close>

record group_config =
  gcf_group_id :: pystr
  gcf_topics :: "pystr list"
  gcf_session_timeout_ms :: int
  gcf_initial_backoff_ms :: rat
  gcf_retry_backoff_ms :: rat
  gcf_fatal_backoff_ms :: rat

record managed =
  mc_id :: nat
  mc_topic :: pystr
  mc_partition :: int
  mc_member :: pystr
  mc_generation :: "int option"

text \<open>Where \<open>_join_and_sync\<close> waits; while it runs it is \<open>Active\<close>.\<close>

datatype join_phase =
    FetchingBroker
  | LoadingMetadata
  | Preparing "managed list" "nat list"
  | Joining
  | LoadingPartitions "join_group_response_member list"
  | Syncing
  | Active

datatype group_effect =
    GFired nat "exn option"
  | LookUpCoordinator
  | LoadMetadata "pystr list"
  | SendJoin pystr "join_group_request_protocol list"
  | LoadPartitions "pystr list"
  | SendSync "int option" pystr "sync_group_request_member list"
  | SendHeartbeat "int option" pystr
  | SendLeave pystr
  | ResetGroupMetadata
  | RejoinAfter rat
  | JoinError exn
  | ConsumerStarted managed
  | ConsumerStopped nat
  | ConsumerShutdown nat

record group =
  gr_member_id :: pystr
  gr_leader_id :: "pystr option"
  gr_generation_id :: "int option"
  gr_coordinator_broker :: bool
  gr_start_d :: "nat option"
  gr_start_called :: bool
  gr_rejoin_needed :: bool
  gr_stopping :: bool
  gr_rejoin_wait_dc :: "bool option"
  gr_rejoin_d :: "nat option"
  gr_joins :: "(nat, join_phase) dict"
  gr_heartbeat_looper :: bool
  gr_heartbeat_request :: bool
  gr_timers :: nat
  gr_stops :: "(managed list \<times> nat list \<times> exn option) list"
  gr_leaving :: "exn option option"
  gr_consumers :: "managed list"
  gr_running :: "nat list"
  gr_failed :: "nat list"
  gr_next :: nat
  gr_log :: "group_effect list"

definition group_init :: group where
  "group_init =
     \<lparr>gr_member_id = [], gr_leader_id = None, gr_generation_id = None, gr_coordinator_broker = False, gr_start_d = None,
      gr_start_called = False, gr_rejoin_needed = True, gr_stopping = False, gr_rejoin_wait_dc = None, gr_rejoin_d = None,
      gr_joins = [], gr_heartbeat_looper = False, gr_heartbeat_request = False, gr_timers = 0, gr_stops = [],
      gr_leaving = None, gr_consumers = [], gr_running = [], gr_failed = [], gr_next = 0, gr_log = []\<rparr>"

definition group_create :: "group_config \<Rightarrow> group result" where
  "group_create cfg = (if gcf_topics cfg = [] then Inl ValueError else Inr group_init)"

datatype call_result = CallRaised exn | CallFailed exn | CallDone | CallWaiting

record call_answer =
  an_result :: call_result
  an_error :: "exn option"
  an_running :: bool

record group_env =
  ge_start :: "nat \<Rightarrow> exn + exn option"
  ge_stop :: "nat \<Rightarrow> call_answer"
  ge_shutdown :: "nat \<Rightarrow> call_answer"
  ge_heartbeat :: exn
  ge_join :: exn

definition gr_emit :: "group_effect \<Rightarrow> group \<Rightarrow> group" where
  "gr_emit e s = s\<lparr>gr_log := gr_log s @ [e]\<rparr>"

section \<open>Joining again after an error\<close>

definition schedule_rejoin :: "rat \<Rightarrow> group \<Rightarrow> group" where
  "schedule_rejoin delay s =
     (let s = s\<lparr>gr_rejoin_needed := True\<rparr>
      in if gr_rejoin_wait_dc s = None then gr_emit (RejoinAfter (delay / 1000)) (s\<lparr>gr_rejoin_wait_dc := Some True\<rparr>) else s)"

text \<open>\<open>rejoin_after_error\<close>, with \<open>on_group_leave\<close> and \<open>stop\<close> as arguments.\<close>

definition rejoin_core :: "group_config \<Rightarrow> (group \<Rightarrow> group) \<Rightarrow> (exn \<Rightarrow> group \<Rightarrow> group) \<Rightarrow> exn \<Rightarrow> group \<Rightarrow> group" where
  "rejoin_core cfg leave stop e s =
     (if e = BrokerResponse RebalanceInProgress then schedule_rejoin (gcf_retry_backoff_ms cfg) s
      else if e = BrokerResponse CoordinatorNotAvailable \<or> e = BrokerResponse NotCoordinator then
        schedule_rejoin (gcf_retry_backoff_ms cfg) (gr_emit ResetGroupMetadata s)
      else if e = BrokerResponse IllegalGeneration then schedule_rejoin (gcf_retry_backoff_ms cfg) (leave s)
      else if e = BrokerResponse InvalidGroupId \<or> e = BrokerResponse UnknownMemberId then
        schedule_rejoin (gcf_retry_backoff_ms cfg) ((leave s)\<lparr>gr_member_id := []\<rparr>)
      else if e = BrokerResponse InconsistentGroupProtocol then schedule_rejoin (gcf_fatal_backoff_ms cfg) s
      else if e = BrokerResponse RequestTimedOutError then
        schedule_rejoin (gcf_fatal_backoff_ms cfg) (gr_emit ResetGroupMetadata (leave s))
      else if gr_stopping s \<and> e = TwistedCancelledError then s
      else if is_KafkaError e then schedule_rejoin (gcf_fatal_backoff_ms cfg) s
      else stop e (leave s))"

section \<open>Stopping the consumers\<close>

text \<open>The deferred of the consumer's \<open>start\<close> fails; it does so at most once.\<close>

definition consumer_fails :: "(exn \<Rightarrow> group \<Rightarrow> group) \<Rightarrow> nat \<Rightarrow> exn option \<Rightarrow> group \<Rightarrow> group" where
  "consumer_fails handler c error s =
     (case error of
        None \<Rightarrow> s
      | Some e \<Rightarrow> if c \<in> set (gr_failed s) then s else handler e (s\<lparr>gr_failed := c # gr_failed s\<rparr>))"

definition after_call :: "nat \<Rightarrow> call_answer \<Rightarrow> group \<Rightarrow> group" where
  "after_call c a s = (if an_running a then s else s\<lparr>gr_running := removeAll c (gr_running s)\<rparr>)"

text \<open>\<open>stop\<close> of a consumer that is running; what it raises is logged.\<close>

definition stop_call :: "(exn \<Rightarrow> group \<Rightarrow> group) \<Rightarrow> group_env \<Rightarrow> group \<Rightarrow> managed \<Rightarrow> group" where
  "stop_call handler env s c =
     (if mc_id c \<in> set (gr_running s) then
        let a = ge_stop env (mc_id c)
        in consumer_fails handler (mc_id c) (an_error a) (after_call (mc_id c) a (gr_emit (ConsumerStopped (mc_id c)) s))
      else s)"

definition stop_all :: "(exn \<Rightarrow> group \<Rightarrow> group) \<Rightarrow> group_env \<Rightarrow> managed list \<Rightarrow> group \<Rightarrow> group" where
  "stop_all handler env cs s = foldl (stop_call handler env) s cs"

section \<open>Stopping\<close>

definition join_end :: "nat \<Rightarrow> group \<Rightarrow> group" where
  "join_end k s = s\<lparr>gr_joins := dict_del k (gr_joins s), gr_rejoin_d := None\<rparr>"

text \<open>An exception leaves \<open>_join_and_sync\<close>: it is logged and that is all.\<close>

definition join_fail :: "nat \<Rightarrow> exn \<Rightarrow> group \<Rightarrow> group" where
  "join_fail k e s = gr_emit (JoinError e) (join_end k s)"

definition join_phase_set :: "nat \<Rightarrow> join_phase \<Rightarrow> group \<Rightarrow> group" where
  "join_phase_set k p s = s\<lparr>gr_joins := dict_set k p (gr_joins s)\<rparr>"

definition schedule_join :: "rat \<Rightarrow> group \<Rightarrow> group" where
  "schedule_join delay s = gr_emit (RejoinAfter (delay / 1000)) (s\<lparr>gr_timers := Suc (gr_timers s)\<rparr>)"

definition get_coordinator_failed :: "group_config \<Rightarrow> nat \<Rightarrow> exn \<Rightarrow> group \<Rightarrow> group" where
  "get_coordinator_failed cfg k e s =
     (if e = BrokerResponse CoordinatorNotAvailable \<or> e = BrokerResponse NotCoordinator then
        join_end k (schedule_join (gcf_initial_backoff_ms cfg) s)
      else if is_KafkaError e then join_end k (schedule_join (gcf_fatal_backoff_ms cfg) s)
      else join_fail k e s)"

definition send_join_group_request :: "group_config \<Rightarrow> nat \<Rightarrow> group \<Rightarrow> group" where
  "send_join_group_request cfg k s =
     (case join_group_protocols (gcf_topics cfg) of
        Inl e \<Rightarrow> join_fail k e s
      | Inr protocols \<Rightarrow> gr_emit (SendJoin (gr_member_id s) protocols) (join_phase_set k Joining s))"

text \<open>
  \<open>_rejoin_d\<close> is cancelled. When it waits for the consumers their shutdown fails, they are stopped, and the
  generator goes on.
\<close>

definition cancel_join :: "group_config \<Rightarrow> (exn \<Rightarrow> group \<Rightarrow> group) \<Rightarrow> group_env \<Rightarrow> group \<Rightarrow> group" where
  "cancel_join cfg rejoin env s =
     (case gr_rejoin_d s of
        None \<Rightarrow> s
      | Some k \<Rightarrow>
          let s = s\<lparr>gr_rejoin_d := None\<rparr>; e = ge_join env
          in case dict_get (gr_joins s) k of
               Some FetchingBroker \<Rightarrow> get_coordinator_failed cfg k e s
             | Some LoadingMetadata \<Rightarrow> join_fail k e s
             | Some (Preparing cs pend) \<Rightarrow>
                 send_join_group_request cfg k
                   (stop_all (\<lambda>x s. if x = TwistedCancelledError \<and> gr_consumers s = [] then s else rejoin x s) env cs
                     (join_phase_set k Active s))
             | Some Joining \<Rightarrow> join_end k (rejoin e (join_phase_set k Active s))
             | Some (LoadingPartitions members) \<Rightarrow> join_fail k e s
             | Some Syncing \<Rightarrow> join_end k (rejoin e (join_phase_set k Active s))
             | _ \<Rightarrow> s)"

definition coordinator_finish :: "group_config \<Rightarrow> (exn \<Rightarrow> group \<Rightarrow> group) \<Rightarrow> group_env \<Rightarrow> exn option \<Rightarrow> group \<Rightarrow> group" where
  "coordinator_finish cfg rejoin env errback_result s =
     (let s = (cancel_join cfg rejoin env s)\<lparr>gr_member_id := [], gr_generation_id := None, gr_coordinator_broker := False\<rparr>
      in case gr_start_d s of
           None \<Rightarrow> s
         | Some d \<Rightarrow>
             let s = s\<lparr>gr_start_d := None\<rparr>
             in if gr_start_called s then s else gr_emit (GFired d errback_result) s)"

text \<open>The looping call's \<open>stop\<close> raises when it is not running.\<close>

definition handle_heartbeat_failure :: "(exn \<Rightarrow> group \<Rightarrow> group) \<Rightarrow> exn \<Rightarrow> group \<Rightarrow> group" where
  "handle_heartbeat_failure rejoin e s =
     (let s = s\<lparr>gr_heartbeat_request := False\<rparr>
      in if gr_heartbeat_looper s then rejoin e (s\<lparr>gr_heartbeat_looper := False\<rparr>) else s)"

text \<open>
  \<open>Coordinator.stop\<close> up to the answer to the leave request; the deferred of a refused call fails with \<open>RestopError\<close>. A
  call of \<open>stop\<close> from \<open>rejoin_after_error\<close> in here is refused.
\<close>

definition coordinator_stop :: "group_config \<Rightarrow> (group \<Rightarrow> group) \<Rightarrow> group_env \<Rightarrow> exn option \<Rightarrow> group \<Rightarrow> group" where
  "coordinator_stop cfg leave env errback_result s =
     (if gr_start_d s = None \<or> gr_stopping s then s
      else
        let rejoin = rejoin_core cfg leave (\<lambda>e s. s);
            s = s\<lparr>gr_stopping := True, gr_rejoin_needed := False, gr_rejoin_wait_dc := map_option (\<lambda>_. False) (gr_rejoin_wait_dc s)\<rparr>;
            s = (if gr_heartbeat_request s then handle_heartbeat_failure rejoin (ge_heartbeat env) s else s);
            s = s\<lparr>gr_heartbeat_looper := False\<rparr>
        in if gr_coordinator_broker s \<and> gr_member_id s \<noteq> [] then
             gr_emit (SendLeave (gr_member_id s)) (s\<lparr>gr_leaving := Some errback_result\<rparr>)
           else coordinator_finish cfg rejoin env errback_result s)"

definition rejoin_with :: "group_config \<Rightarrow> (group \<Rightarrow> group) \<Rightarrow> group_env \<Rightarrow> exn \<Rightarrow> group \<Rightarrow> group" where
  "rejoin_with cfg leave env = rejoin_core cfg leave (\<lambda>e. coordinator_stop cfg leave env (Some e))"

text \<open>
  \<open>on_consumer_error\<close> while \<open>self.consumers\<close> is empty, as it is while consumers are being stopped: there is nothing to
  stop in \<open>on_group_leave\<close> then, and \<open>stop\<close> has no consumers to wait for.
\<close>

definition idle_error :: "group_config \<Rightarrow> group_env \<Rightarrow> exn \<Rightarrow> group \<Rightarrow> group" where
  "idle_error cfg env e s = (if e = TwistedCancelledError then s else rejoin_with cfg (\<lambda>s. s) env e s)"

definition stop_consumers :: "group_config \<Rightarrow> group_env \<Rightarrow> group \<Rightarrow> group" where
  "stop_consumers cfg env s =
     (if gr_consumers s = [] then s
      else stop_all (idle_error cfg env) env (gr_consumers s) (s\<lparr>gr_consumers := []\<rparr>))"

definition rejoin_after_error :: "group_config \<Rightarrow> group_env \<Rightarrow> exn \<Rightarrow> group \<Rightarrow> group" where
  "rejoin_after_error cfg env = rejoin_with cfg (stop_consumers cfg env) env"

definition on_consumer_error :: "group_config \<Rightarrow> group_env \<Rightarrow> exn \<Rightarrow> group \<Rightarrow> group" where
  "on_consumer_error cfg env e s =
     (if e = TwistedCancelledError \<and> gr_consumers s = [] then s else rejoin_after_error cfg env e s)"

section \<open>Shutting the consumers down\<close>

text \<open>The loop of \<open>shutdown_consumers\<close>: which deferreds wait, and whether one has failed already.\<close>

fun shutdown_all :: "group_config \<Rightarrow> group_env \<Rightarrow> managed list \<Rightarrow> group \<Rightarrow> group \<times> nat list \<times> bool" where
  "shutdown_all cfg env [] s = (s, [], False)"
| "shutdown_all cfg env (c # cs) s =
     (let a = ge_shutdown env (mc_id c);
          s = consumer_fails (idle_error cfg env) (mc_id c) (an_error a)
                (after_call (mc_id c) a (gr_emit (ConsumerShutdown (mc_id c)) s));
          s = (case an_result a of CallRaised e \<Rightarrow> stop_call (idle_error cfg env) env s c | _ \<Rightarrow> s)
      in case shutdown_all cfg env cs s of (s, pend, failed) \<Rightarrow>
           (s, (if an_result a = CallWaiting then mc_id c # pend else pend),
            (case an_result a of CallFailed e \<Rightarrow> True | _ \<Rightarrow> failed)))"

text \<open>\<open>shutdown_consumers\<close> up to its \<open>yield\<close>: the consumers that it waits for, if any.\<close>

definition shutdown_consumers :: "group_config \<Rightarrow> group_env \<Rightarrow> group \<Rightarrow> group \<times> (managed list \<times> nat list) option" where
  "shutdown_consumers cfg env s =
     (let cs = gr_consumers s
      in if cs = [] then (s, None)
         else (case shutdown_all cfg env cs (s\<lparr>gr_consumers := []\<rparr>) of (s, pend, failed) \<Rightarrow>
                 if failed then (stop_all (idle_error cfg env) env cs s, None)
                 else (s, if pend = [] then None else Some (cs, pend))))"

section \<open>Joining\<close>

definition join_and_sync :: "bool \<Rightarrow> group \<Rightarrow> group" where
  "join_and_sync from_wait_dc s =
     (let s = s\<lparr>gr_timers := gr_timers s + (if gr_rejoin_wait_dc s = Some True \<and> \<not> from_wait_dc then 1 else 0),
            gr_rejoin_wait_dc := None\<rparr>
      in if \<not> gr_rejoin_needed s \<or> gr_rejoin_d s \<noteq> None then s
         else gr_emit LookUpCoordinator (join_phase_set (gr_next s) FetchingBroker
                (s\<lparr>gr_rejoin_d := Some (gr_next s), gr_next := Suc (gr_next s)\<rparr>)))"

definition coordinator_found :: "group_config \<Rightarrow> nat \<Rightarrow> bool result \<Rightarrow> group \<Rightarrow> group" where
  "coordinator_found cfg k r s =
     (case r of
        Inl e \<Rightarrow> get_coordinator_failed cfg k e s
      | Inr known \<Rightarrow>
          if known then gr_emit (LoadMetadata (gcf_topics cfg)) (join_phase_set k LoadingMetadata s)
          else join_end k (schedule_join (gcf_initial_backoff_ms cfg) s))"

definition metadata_loaded :: "group_config \<Rightarrow> group_env \<Rightarrow> nat \<Rightarrow> unit result \<Rightarrow> group \<Rightarrow> group" where
  "metadata_loaded cfg env k r s =
     (case r of
        Inl e \<Rightarrow> join_fail k e s
      | Inr _ \<Rightarrow>
          if gr_stopping s then join_end k s
          else (case shutdown_consumers cfg env (join_phase_set k Active (s\<lparr>gr_coordinator_broker := True\<rparr>)) of
                  (s, None) \<Rightarrow> send_join_group_request cfg k s
                | (s, Some (cs, pend)) \<Rightarrow> join_phase_set k (Preparing cs pend) s))"

definition send_sync_group_request :: "nat \<Rightarrow> sync_group_request_member list \<Rightarrow> group \<Rightarrow> group" where
  "send_sync_group_request k group_assignment s =
     gr_emit (SendSync (gr_generation_id s) (gr_member_id s) group_assignment) (join_phase_set k Syncing s)"

text \<open>The leader's first call of \<open>generate_assignments\<close>, without any partitions, tells it which topics it needs.\<close>

definition first_assignments ::
    "nat \<Rightarrow> join_group_response_member list \<Rightarrow> sync_group_request_member list result \<Rightarrow> group \<Rightarrow> group" where
  "first_assignments k members assignments s =
     (case assignments of
        Inr a \<Rightarrow> send_sync_group_request k a s
      | Inl (NeedTopicPartitions topics) \<Rightarrow>
          gr_emit (LoadPartitions topics) (join_phase_set k (LoadingPartitions members) s)
      | Inl e \<Rightarrow> join_fail k e s)"

text \<open>The answer to the join request; \<open>None\<close> when \<open>generate_assignments\<close> does not return.\<close>

definition join_answered :: "group_config \<Rightarrow> group_env \<Rightarrow> nat \<Rightarrow> join_group_response result \<Rightarrow> group \<Rightarrow> group option" where
  "join_answered cfg env k r s =
     (case r of
        Inl e \<Rightarrow> Some (join_end k (rejoin_after_error cfg env e (join_phase_set k Active s)))
      | Inr resp \<Rightarrow>
          let s = s\<lparr>gr_member_id := jgs_member_id resp, gr_generation_id := Some (jgs_generation_id resp),
                gr_leader_id := Some (jgs_leader_id resp)\<rparr>
          in if gr_stopping s then Some (join_end k s)
             else if jgs_leader_id resp = jgs_member_id resp then
               map_option (\<lambda>a. first_assignments k (jgs_members resp) a s) (generate_assignments (jgs_members resp) [])
             else Some (send_sync_group_request k [] s))"

definition partitions_loaded ::
    "nat \<Rightarrow> join_group_response_member list \<Rightarrow> topic_assignment result \<Rightarrow> group \<Rightarrow> group option" where
  "partitions_loaded k members r s =
     (case r of
        Inl e \<Rightarrow> Some (join_fail k e s)
      | Inr topic_partitions \<Rightarrow>
          map_option (\<lambda>assignments. case assignments of
              Inr a \<Rightarrow> send_sync_group_request k a s
            | Inl e \<Rightarrow> join_fail k e s) (generate_assignments members topic_partitions))"

text \<open>The loops of \<open>on_join_complete\<close>; what the constructor of a consumer raises ends them.\<close>

fun start_consumers :: "group_config \<Rightarrow> group_env \<Rightarrow> (pystr \<times> int) list \<Rightarrow> group \<Rightarrow> group \<times> unit result" where
  "start_consumers cfg env [] s = (s, Inr ())"
| "start_consumers cfg env ((topic, part) # parts) s =
     (case ge_start env (gr_next s) of
        Inl e \<Rightarrow> (s, Inl e)
      | Inr error \<Rightarrow>
          let c = \<lparr>mc_id = gr_next s, mc_topic = topic, mc_partition = part, mc_member = gr_member_id s,
                mc_generation = gr_generation_id s\<rparr>;
              s = gr_emit (ConsumerStarted c) (s\<lparr>gr_next := Suc (gr_next s), gr_consumers := gr_consumers s @ [c],
                gr_running := mc_id c # gr_running s\<rparr>)
          in start_consumers cfg env parts (consumer_fails (on_consumer_error cfg env) (mc_id c) error s))"

definition assigned_partitions :: "topic_assignment \<Rightarrow> (pystr \<times> int) list" where
  "assigned_partitions assignments = concat (map (\<lambda>(topic, partitions). map (Pair topic) partitions) assignments)"

definition sync_answered :: "group_config \<Rightarrow> group_env \<Rightarrow> nat \<Rightarrow> sync_group_response result \<Rightarrow> group \<Rightarrow> group" where
  "sync_answered cfg env k r s =
     (case r of
        Inl e \<Rightarrow> join_end k (rejoin_after_error cfg env e (join_phase_set k Active s))
      | Inr resp \<Rightarrow>
          if gr_stopping s then join_end k s
          else (case decode_assignment (sgs_member_assignment resp) of
                  Inl e \<Rightarrow> join_fail k e s
                | Inr assignment \<Rightarrow>
                    (case start_consumers cfg env (assigned_partitions assignment)
                        (join_phase_set k Active (s\<lparr>gr_heartbeat_looper := True, gr_rejoin_needed := False\<rparr>)) of
                       (s, Inl e) \<Rightarrow> join_fail k e s
                     | (s, Inr _) \<Rightarrow> join_end k s)))"

section \<open>Calls and events\<close>

definition group_start :: "group \<Rightarrow> group" where
  "group_start s =
     (if gr_start_d s \<noteq> None then s
      else join_and_sync False (s\<lparr>gr_start_d := Some (gr_next s), gr_start_called := False, gr_next := Suc (gr_next s)\<rparr>))"

definition group_stop :: "group_config \<Rightarrow> group_env \<Rightarrow> exn option \<Rightarrow> group \<Rightarrow> group" where
  "group_stop cfg env errback_result s =
     (case shutdown_consumers cfg env s of
        (s, None) \<Rightarrow> coordinator_stop cfg (stop_consumers cfg env) env errback_result s
      | (s, Some (cs, pend)) \<Rightarrow> s\<lparr>gr_stops := gr_stops s @ [(cs, pend, errback_result)]\<rparr>)"

definition leave_answered :: "group_config \<Rightarrow> group_env \<Rightarrow> unit result \<Rightarrow> exn option \<Rightarrow> group \<Rightarrow> group" where
  "leave_answered cfg env r errback_result s =
     coordinator_finish cfg (rejoin_after_error cfg env) env errback_result
       (case r of Inl e \<Rightarrow> s\<lparr>gr_leaving := None\<rparr> | Inr _ \<Rightarrow> s\<lparr>gr_leaving := None, gr_member_id := [], gr_generation_id := None\<rparr>)"

definition heartbeat :: "group \<Rightarrow> group" where
  "heartbeat s =
     (if gr_stopping s \<or> gr_rejoin_needed s \<or> gr_heartbeat_request s then s
      else gr_emit (SendHeartbeat (gr_generation_id s) (gr_member_id s)) (s\<lparr>gr_heartbeat_request := True\<rparr>))"

definition heartbeat_answered :: "group_config \<Rightarrow> group_env \<Rightarrow> unit result \<Rightarrow> group \<Rightarrow> group" where
  "heartbeat_answered cfg env r s =
     (case r of
        Inr _ \<Rightarrow> s\<lparr>gr_heartbeat_request := False\<rparr>
      | Inl e \<Rightarrow> handle_heartbeat_failure (rejoin_after_error cfg env) e s)"

text \<open>The deferred of a consumer's shutdown fires, for the \<open>DeferredList\<close> that waits for it.\<close>

definition one_down :: "nat \<Rightarrow> call_result \<Rightarrow> nat list \<Rightarrow> nat list" where
  "one_down c r pend = (case r of CallFailed e \<Rightarrow> [] | _ \<Rightarrow> removeAll c pend)"

definition stop_rest ::
    "group_config \<Rightarrow> group_env \<Rightarrow> managed list \<Rightarrow> call_result \<Rightarrow> group \<Rightarrow> group" where
  "stop_rest cfg env cs r s = (case r of CallFailed e \<Rightarrow> stop_all (on_consumer_error cfg env) env cs s | _ \<Rightarrow> s)"

definition join_waits :: "nat \<Rightarrow> nat \<times> join_phase \<Rightarrow> bool" where
  "join_waits c x = (case x of (k, Preparing cs pend) \<Rightarrow> c \<in> set pend | _ \<Rightarrow> False)"

definition awaited :: "nat \<Rightarrow> group \<Rightarrow> bool" where
  "awaited c s \<longleftrightarrow> list_ex (join_waits c) (gr_joins s) \<or> list_ex (\<lambda>(cs, pend, _). c \<in> set pend) (gr_stops s)"

definition consumer_down :: "group_config \<Rightarrow> group_env \<Rightarrow> nat \<Rightarrow> call_answer \<Rightarrow> group \<Rightarrow> group" where
  "consumer_down cfg env c a s =
     (let s = consumer_fails (on_consumer_error cfg env) c (an_error a) (after_call c a s); r = an_result a
      in case find (join_waits c) (gr_joins s) of
           Some (k, Preparing cs pend) \<Rightarrow>
             if one_down c r pend \<noteq> [] then join_phase_set k (Preparing cs (one_down c r pend)) s
             else send_join_group_request cfg k (stop_rest cfg env cs r (join_phase_set k Active s))
         | _ \<Rightarrow>
             (case find (\<lambda>(cs, pend, _). c \<in> set pend) (gr_stops s) of
                None \<Rightarrow> s
              | Some (cs, pend, errback_result) \<Rightarrow>
                  let others = remove1 (cs, pend, errback_result) (gr_stops s)
                  in if one_down c r pend \<noteq> [] then s\<lparr>gr_stops := (cs, one_down c r pend, errback_result) # others\<rparr>
                     else coordinator_stop cfg (stop_consumers cfg env) env errback_result
                            (stop_rest cfg env cs r (s\<lparr>gr_stops := others\<rparr>))))"

datatype group_event =
    StartGroup
  | StopGroup group_env
  | CancelStart
  | CoordinatorFound nat "bool result"
  | MetadataLoaded nat "unit result" group_env
  | JoinAnswer nat "join_group_response result" group_env
  | PartitionsLoaded nat "topic_assignment result"
  | SyncAnswer nat "sync_group_response result" group_env
  | LeaveAnswer "unit result" group_env
  | HeartbeatTick
  | HeartbeatAnswer "unit result" group_env
  | RejoinTick
  | BackoffTick
  | ConsumerFailure nat exn group_env
  | ConsumerDown nat call_answer group_env

definition group_apply :: "group_config \<Rightarrow> group \<Rightarrow> group_event \<Rightarrow> group option" where
  "group_apply cfg s e =
     (case e of
        StartGroup \<Rightarrow> Some (group_start s)
      | StopGroup env \<Rightarrow> Some (group_stop cfg env None s)
      | CancelStart \<Rightarrow>
          (case gr_start_d s of
             None \<Rightarrow> None
           | Some d \<Rightarrow>
               if gr_start_called s then None else Some (gr_emit (GFired d (Some TwistedCancelledError)) (s\<lparr>gr_start_called := True\<rparr>)))
      | CoordinatorFound k r \<Rightarrow>
          if dict_get (gr_joins s) k = Some FetchingBroker then Some (coordinator_found cfg k r s) else None
      | MetadataLoaded k r env \<Rightarrow>
          if dict_get (gr_joins s) k = Some LoadingMetadata then Some (metadata_loaded cfg env k r s) else None
      | JoinAnswer k r env \<Rightarrow> if dict_get (gr_joins s) k = Some Joining then join_answered cfg env k r s else None
      | PartitionsLoaded k r \<Rightarrow>
          (case dict_get (gr_joins s) k of Some (LoadingPartitions members) \<Rightarrow> partitions_loaded k members r s | _ \<Rightarrow> None)
      | SyncAnswer k r env \<Rightarrow> if dict_get (gr_joins s) k = Some Syncing then Some (sync_answered cfg env k r s) else None
      | LeaveAnswer r env \<Rightarrow>
          (case gr_leaving s of None \<Rightarrow> None | Some errback_result \<Rightarrow> Some (leave_answered cfg env r errback_result s))
      | HeartbeatTick \<Rightarrow> if gr_heartbeat_looper s then Some (heartbeat s) else None
      | HeartbeatAnswer r env \<Rightarrow> if gr_heartbeat_request s then Some (heartbeat_answered cfg env r s) else None
      | RejoinTick \<Rightarrow> if gr_rejoin_wait_dc s = Some True then Some (join_and_sync True s) else None
      | BackoffTick \<Rightarrow> if gr_timers s = 0 then None else Some (join_and_sync False (s\<lparr>gr_timers := gr_timers s - 1\<rparr>))
      | ConsumerFailure c x env \<Rightarrow>
          if c \<in> set (gr_running s) then Some (consumer_fails (on_consumer_error cfg env) c (Some x) s) else None
      | ConsumerDown c a env \<Rightarrow>
          if awaited c s \<and> (case an_result a of CallDone \<Rightarrow> True | CallFailed x \<Rightarrow> True | _ \<Rightarrow> False)
          then Some (consumer_down cfg env c a s) else None)"

definition group_step :: "group_config \<Rightarrow> group \<Rightarrow> group_event \<Rightarrow> group \<Rightarrow> bool" where
  "group_step cfg s e t \<longleftrightarrow> group_apply cfg s e = Some t"

end
