(* ===== verification/Group_Steps.thy ===== *)
theory Group_Steps
  imports Group_Coordinator
begin

text \<open>
  The runs of a member of a consumer group: its consumers belong to its present membership, a join that is needed is not
  forgotten, the deferred of \<open>start\<close> fires once, and the runs in which consumers or joins are left behind.
\<close>

abbreviation group_reach :: "group_config \<Rightarrow> group \<Rightarrow> bool" where
  "group_reach cfg \<equiv> reach (\<lambda>s. s = group_init) (group_step cfg)"

fun group_run :: "group_config \<Rightarrow> group \<Rightarrow> group_event list \<Rightarrow> group option" where
  "group_run cfg s [] = Some s"
| "group_run cfg s (e # es) = (case group_apply cfg s e of None \<Rightarrow> None | Some t \<Rightarrow> group_run cfg t es)"

lemma group_run_reach: "group_reach cfg s \<Longrightarrow> group_run cfg s es = Some t \<Longrightarrow> group_reach cfg t"
proof (induction es arbitrary: s)
  case (Cons e es)
  then obtain u where u: "group_step cfg s e u" "group_run cfg u es = Some t"
    by (auto simp: group_step_def split: option.splits)
  show ?case by (rule Cons.IH [OF reach_step [OF Cons.prems(1) u(1)] u(2)])
qed simp

section \<open>The invariant\<close>

fun is_gfire :: "nat \<Rightarrow> group_effect \<Rightarrow> bool" where
  "is_gfire d (GFired d' r) = (d' = d)"
| "is_gfire d _ = False"

definition gfires :: "nat \<Rightarrow> group_effect list \<Rightarrow> nat" where
  "gfires d es = length (filter (is_gfire d) es)"

definition once_start :: "group \<Rightarrow> bool" where
  "once_start s \<longleftrightarrow> (\<forall>d. gfires d (gr_log s) + (if gr_start_d s = Some d \<and> \<not> gr_start_called s then 1 else 0)
     \<le> (if d < gr_next s then 1 else 0))"

text \<open>A join is not needed, or a call of \<open>join_and_sync\<close> is scheduled, or an exception has ended a join.\<close>

definition poised :: "group \<Rightarrow> bool" where
  "poised s \<longleftrightarrow> (gr_rejoin_needed s \<longrightarrow> gr_rejoin_wait_dc s = Some True \<or> 0 < gr_timers s \<or> (\<exists>e. JoinError e \<in> set (gr_log s)))"

text \<open>While a join is in one of these phases there are no consumers.\<close>

fun exclusive :: "join_phase \<Rightarrow> bool" where
  "exclusive (Preparing cs pend) = True"
| "exclusive Joining = True"
| "exclusive (LoadingPartitions members) = True"
| "exclusive Syncing = True"
| "exclusive _ = False"

fun member :: "join_phase \<Rightarrow> bool" where
  "member (LoadingPartitions members) = True"
| "member Syncing = True"
| "member _ = False"

definition phase_ok :: "join_phase \<Rightarrow> group \<Rightarrow> bool" where
  "phase_ok p s \<longleftrightarrow> (exclusive p \<longrightarrow> gr_consumers s = []) \<and> (member p \<longrightarrow> gr_generation_id s \<noteq> None)"

definition joins_ok :: "group \<Rightarrow> bool" where
  "joins_ok s \<longleftrightarrow> (case gr_rejoin_d s of
       None \<Rightarrow> gr_joins s = []
     | Some k \<Rightarrow> (\<exists>p. gr_joins s = [(k, p)] \<and> phase_ok p s))"

definition consumers_ok :: "group \<Rightarrow> bool" where
  "consumers_ok s \<longleftrightarrow> (\<forall>c\<in>set (gr_consumers s). mc_member c = gr_member_id s \<and> mc_generation c = gr_generation_id s)"

definition unstarted :: "group \<Rightarrow> bool" where
  "unstarted s \<longleftrightarrow> gr_joins s = [] \<and> gr_rejoin_d s = None \<and> gr_consumers s = [] \<and> gr_running s = [] \<and> gr_timers s = 0 \<and>
     gr_rejoin_wait_dc s = None \<and> \<not> gr_heartbeat_looper s \<and> \<not> gr_heartbeat_request s \<and> gr_stops s = [] \<and> gr_leaving s = None"

definition core :: "group \<Rightarrow> bool" where
  "core s \<longleftrightarrow> joins_ok s \<and> consumers_ok s \<and> (\<not> gr_rejoin_needed s \<longrightarrow> gr_generation_id s \<noteq> None) \<and>
     gr_rejoin_wait_dc s \<noteq> Some False \<and> gr_leaving s = None \<and>
     (if gr_start_d s = None then unstarted s else gr_rejoin_d s \<noteq> None \<or> poised s)"

definition group_inv :: "group \<Rightarrow> bool" where
  "group_inv s \<longleftrightarrow> once_start s \<and> (gr_stopping s \<or> core s)"

text \<open>What stopping does, and what the handling of an error does, to the invariant.\<close>

definition ending :: "group \<Rightarrow> group \<Rightarrow> bool" where
  "ending s t \<longleftrightarrow> (once_start s \<longrightarrow> once_start t) \<and> (gr_stopping s \<longrightarrow> gr_stopping t) \<and> (gr_consumers s = [] \<longrightarrow> gr_consumers t = [])"

definition handled :: "group \<Rightarrow> group \<Rightarrow> bool" where
  "handled s t \<longleftrightarrow> ending s t \<and> (\<not> gr_stopping t \<and> gr_start_d s \<noteq> None \<longrightarrow> (core s \<longrightarrow> core t \<and> (poised s \<longrightarrow> poised t)) \<and>
     gr_joins t = gr_joins s \<and> gr_rejoin_d t = gr_rejoin_d s \<and> gr_start_d t = gr_start_d s)"

lemma ending_refl [simp]: "ending s s"
  by (simp add: ending_def)

lemma ending_trans: "ending s t \<Longrightarrow> ending t u \<Longrightarrow> ending s u"
  by (simp add: ending_def)

lemma handled_refl [simp]: "handled s s"
  by (simp add: handled_def)

lemma handled_trans:
  assumes "handled s t" "handled t u"
  shows "handled s u"
proof -
  have "ending s u" using assms ending_trans by (auto simp: handled_def)
  moreover have "\<not> gr_stopping u \<Longrightarrow> \<not> gr_stopping t" using assms(2) by (auto simp: handled_def ending_def)
  ultimately show ?thesis using assms unfolding handled_def by force
qed

lemma handled_ending: "handled s t \<Longrightarrow> ending s t"
  by (simp add: handled_def)

lemma once_start_frame:
  assumes "once_start s" "\<And>d. gfires d (gr_log t) = gfires d (gr_log s)" "gr_next s \<le> gr_next t"
    "gr_start_d t = gr_start_d s" "gr_start_called t = gr_start_called s"
  shows "once_start t"
  unfolding once_start_def
proof
  fix d
  have "gfires d (gr_log s) + (if gr_start_d s = Some d \<and> \<not> gr_start_called s then 1 else 0) \<le> (if d < gr_next s then 1 else 0)"
    using assms(1) by (simp add: once_start_def)
  then show "gfires d (gr_log t) + (if gr_start_d t = Some d \<and> \<not> gr_start_called t then 1 else 0) \<le> (if d < gr_next t then 1 else 0)"
    using assms(2-5) by (auto split: if_splits)
qed

lemma gfires_simps [simp]: "gfires d [] = 0" "gfires d (es @ [e]) = gfires d es + (if is_gfire d e then 1 else 0)"
  by (simp_all add: gfires_def)

text \<open>Effects other than the firing of the deferred.\<close>

fun silent :: "group_effect \<Rightarrow> bool" where
  "silent (GFired d r) = False"
| "silent _ = True"

lemma silent_gfire: "silent e \<Longrightarrow> \<not> is_gfire d e"
  by (cases e) auto

lemma emit_handled: "silent e \<Longrightarrow> handled s (gr_emit e s)"
  unfolding handled_def ending_def gr_emit_def core_def joins_ok_def phase_ok_def consumers_ok_def unstarted_def poised_def
  using once_start_frame [of s "s\<lparr>gr_log := gr_log s @ [e]\<rparr>"] by (auto simp: silent_gfire split: option.split)

lemma field_handled:
  "handled s (s\<lparr>gr_running := r\<rparr>)" "handled s (s\<lparr>gr_failed := f\<rparr>)" "handled s (s\<lparr>gr_consumers := []\<rparr>)"
  "handled s (s\<lparr>gr_heartbeat_looper := l\<rparr>)" "handled s (s\<lparr>gr_heartbeat_request := q\<rparr>)" "gr_consumers s = [] \<Longrightarrow> handled s (s\<lparr>gr_member_id := m\<rparr>)"
  "handled s (s\<lparr>gr_stops := x\<rparr>)"
  unfolding handled_def ending_def core_def joins_ok_def phase_ok_def consumers_ok_def unstarted_def poised_def
  by (auto simp: once_start_def split: option.splits)

lemma schedule_rejoin_handled: "handled s (schedule_rejoin delay s)"
proof -
  have "once_start s \<Longrightarrow> once_start (schedule_rejoin delay s)"
    by (erule once_start_frame) (simp_all add: schedule_rejoin_def gr_emit_def Let_def)
  moreover have "gr_rejoin_wait_dc s \<noteq> Some False \<Longrightarrow> gr_rejoin_wait_dc (schedule_rejoin delay s) = Some True"
    by (cases "gr_rejoin_wait_dc s") (auto simp: schedule_rejoin_def gr_emit_def Let_def)
  ultimately show ?thesis unfolding handled_def ending_def core_def joins_ok_def phase_ok_def consumers_ok_def poised_def unstarted_def
    by (auto simp: schedule_rejoin_def gr_emit_def Let_def split: option.split)
qed

lemmas ending_basic = handled_ending [OF emit_handled] handled_ending [OF schedule_rejoin_handled] field_handled [THEN handled_ending]

section \<open>Stopping\<close>

lemma ending_frame:
  assumes "\<And>d. gfires d (gr_log t) = gfires d (gr_log s)" "gr_next s \<le> gr_next t" "gr_start_d t = gr_start_d s"
    "gr_start_called t = gr_start_called s" "gr_stopping s \<longrightarrow> gr_stopping t" "gr_consumers s = [] \<longrightarrow> gr_consumers t = []"
  shows "ending s t"
  using assms once_start_frame [of s t] by (simp add: ending_def)

lemma rejoin_core_ending:
  assumes "\<And>s. ending s (leave s)" "\<And>e s. ending s (stop e s)"
  shows "ending s (rejoin_core cfg leave stop e s)"
proof -
  have r: "ending u (schedule_rejoin d (v\<lparr>gr_member_id := m\<rparr>))" "ending u (schedule_rejoin d v)"
    "ending u (schedule_rejoin d (gr_emit ResetGroupMetadata v))" if "ending u v" for u v d m
  proof -
    have m: "ending v (v\<lparr>gr_member_id := m\<rparr>)" by (rule ending_frame) simp_all
    have e: "ending v (gr_emit ResetGroupMetadata v)" by (rule ending_basic(1)) simp
    show "ending u (schedule_rejoin d v)" by (rule ending_trans [OF that ending_basic(2)])
    show "ending u (schedule_rejoin d (v\<lparr>gr_member_id := m\<rparr>))" by (rule ending_trans [OF ending_trans [OF that m] ending_basic(2)])
    show "ending u (schedule_rejoin d (gr_emit ResetGroupMetadata v))" by (rule ending_trans [OF ending_trans [OF that e] ending_basic(2)])
  qed
  have "ending s (stop e (leave s))" by (rule ending_trans [OF assms])
  then show ?thesis using assms(1) [of s] r [of s s] r [of s "leave s"] by (simp add: rejoin_core_def)
qed

lemma stop_call_ending:
  assumes "\<And>e s. ending s (handler e s)"
  shows "ending s (stop_call handler env s c)"
proof -
  have e: "ending s (after_call k a (gr_emit (ConsumerStopped j) s))" for k a j s
    by (rule ending_frame) (simp_all add: after_call_def gr_emit_def)
  have "ending s (s\<lparr>gr_failed := f\<rparr>)" for s f by (rule ending_frame) simp_all
  then have "ending s (consumer_fails handler k x s)" for k x s
    using assms ending_trans by (fastforce simp: consumer_fails_def split: option.split)
  then show ?thesis using e ending_trans by (fastforce simp: stop_call_def Let_def)
qed

lemma stop_all_ending: "(\<And>e s. ending s (handler e s)) \<Longrightarrow> ending s (stop_all handler env cs s)"
proof (induction cs arbitrary: s)
  case (Cons c cs)
  show ?case using ending_trans [OF stop_call_ending Cons.IH] Cons.prems by (simp add: stop_all_def)
qed (simp add: stop_all_def)

lemma join_ending:
  "ending s (join_end k s)" "ending s (join_fail k e s)" "ending s (join_phase_set k p s)" "ending s (schedule_join delay s)"
  "ending s (send_join_group_request cfg k s)" "ending s (get_coordinator_failed cfg k e s)"
  by (rule ending_frame; simp add: join_end_def join_fail_def join_phase_set_def schedule_join_def send_join_group_request_def
      get_coordinator_failed_def gr_emit_def split: sum.split)+

lemma cancel_join_ending:
  assumes "\<And>e s. ending s (rejoin e s)"
  shows "ending s (cancel_join cfg rejoin env s)"
proof -
  have d: "ending s (s\<lparr>gr_rejoin_d := None\<rparr>)" by (rule ending_frame) simp_all
  note t = ending_trans [OF d]
  have "ending u (stop_all (\<lambda>x s. if x = TwistedCancelledError \<and> gr_consumers s = [] then s else rejoin x s) env cs u)" for u cs
    by (rule stop_all_ending) (simp add: assms)
  then have "ending s (send_join_group_request cfg k (stop_all (\<lambda>x s. if x = TwistedCancelledError \<and> gr_consumers s = [] then s else rejoin x s) env cs
      (join_phase_set k Active (s\<lparr>gr_rejoin_d := None\<rparr>))))" for k cs
    using ending_trans join_ending t by meson
  moreover have "ending s (join_end k (rejoin e (join_phase_set k Active (s\<lparr>gr_rejoin_d := None\<rparr>))))" for k e
    using ending_trans join_ending t assms by meson
  ultimately show ?thesis
    using t join_ending by (simp add: cancel_join_def Let_def split: option.split join_phase.split)
qed

lemma coordinator_finish_ending:
  assumes "\<And>e s. ending s (rejoin e s)"
  shows "ending s (coordinator_finish cfg rejoin env errb s)"
proof -
  define t where "t = (cancel_join cfg rejoin env s)\<lparr>gr_member_id := [], gr_generation_id := None, gr_coordinator_broker := False\<rparr>"
  have "ending (cancel_join cfg rejoin env s) t" unfolding t_def by (rule ending_frame) simp_all
  then have st: "ending s t" using ending_trans cancel_join_ending assms by blast
  have "once_start (gr_emit (GFired d errb) (t\<lparr>gr_start_d := None\<rparr>))" if "once_start t" "gr_start_d t = Some d" "\<not> gr_start_called t" for d
    using that by (auto simp: once_start_def gr_emit_def split: if_splits dest: spec [of _ d])
  moreover have "once_start (t\<lparr>gr_start_d := None\<rparr>)" if "once_start t"
    unfolding once_start_def
  proof
    fix d
    show "gfires d (gr_log (t\<lparr>gr_start_d := None\<rparr>)) +
        (if gr_start_d (t\<lparr>gr_start_d := None\<rparr>) = Some d \<and> \<not> gr_start_called (t\<lparr>gr_start_d := None\<rparr>) then 1 else 0)
        \<le> (if d < gr_next (t\<lparr>gr_start_d := None\<rparr>) then 1 else 0)"
      using that [unfolded once_start_def, rule_format, of d] by (auto split: if_splits)
  qed
  ultimately have "ending t (coordinator_finish cfg rejoin env errb s)"
    unfolding coordinator_finish_def t_def [symmetric] ending_def Let_def by (auto simp: gr_emit_def split: option.split)
  with st show ?thesis by (rule ending_trans)
qed

lemma coordinator_stop_cases:
  assumes "\<And>s. ending s (leave s)"
  shows "ending s (coordinator_stop cfg leave env errb s)"
    and "coordinator_stop cfg leave env errb s = s \<or> gr_stopping (coordinator_stop cfg leave env errb s)"
    and "gr_start_d s \<noteq> None \<Longrightarrow> gr_stopping (coordinator_stop cfg leave env errb s)"
proof -
  let ?t = "coordinator_stop cfg leave env errb s"
  have "ending s ?t \<and> gr_stopping ?t" if go: "gr_start_d s \<noteq> None" "\<not> gr_stopping s"
  proof -
    define rejoin where "rejoin = rejoin_core cfg leave (\<lambda>e s. s)"
    have rj: "ending u (rejoin x u)" for x u unfolding rejoin_def by (rule rejoin_core_ending [OF assms]) simp
    define a where "a = s\<lparr>gr_stopping := True, gr_rejoin_needed := False, gr_rejoin_wait_dc := map_option (\<lambda>_. False) (gr_rejoin_wait_dc s)\<rparr>"
    define h where "h = (if gr_heartbeat_request a then handle_heartbeat_failure rejoin (ge_heartbeat env) a else a)"
    define l where "l = h\<lparr>gr_heartbeat_looper := False\<rparr>"
    have sa: "ending s a" unfolding a_def by (rule ending_frame) simp_all
    have "ending u (handle_heartbeat_failure rejoin x u)" for x u
      using ending_trans [OF _ rj, of u "u\<lparr>gr_heartbeat_request := False, gr_heartbeat_looper := False\<rparr>"]
      by (simp add: handle_heartbeat_failure_def Let_def ending_frame)
    then have "ending a h" by (simp add: h_def)
    moreover have "ending h l" unfolding l_def by (rule ending_frame) simp_all
    ultimately have al: "ending a l" by (rule ending_trans)
    let ?r = "if gr_coordinator_broker l \<and> gr_member_id l \<noteq> [] then gr_emit (SendLeave (gr_member_id l)) (l\<lparr>gr_leaving := Some errb\<rparr>)
      else coordinator_finish cfg rejoin env errb l"
    have "\<not> (gr_start_d s = None \<or> gr_stopping s)" using go by simp
    then have eq: "?t = ?r" by (simp only: coordinator_stop_def if_False Let_def l_def h_def a_def rejoin_def)
    have "ending l (gr_emit (SendLeave (gr_member_id l)) (l\<lparr>gr_leaving := Some errb\<rparr>))"
      by (rule ending_frame) (simp_all add: gr_emit_def)
    then have "ending l ?t" unfolding eq using coordinator_finish_ending [OF rj] by simp
    with al have at: "ending a ?t" by (rule ending_trans)
    then have "gr_stopping ?t" by (simp add: ending_def a_def)
    with ending_trans [OF sa at] show ?thesis by simp
  qed
  moreover have "?t = s" if "gr_start_d s = None \<or> gr_stopping s" 
    unfolding coordinator_stop_def by (rule if_P [OF that])
  ultimately show "ending s ?t" "?t = s \<or> gr_stopping ?t" "gr_start_d s \<noteq> None \<Longrightarrow> gr_stopping ?t" by (metis ending_refl)+
qed

lemma coordinator_stop_handled:
  assumes "\<And>s. ending s (leave s)"
  shows "handled s (coordinator_stop cfg leave env errb s)"
  using coordinator_stop_cases [where leave = leave and s = s and cfg = cfg and env = env and errb = errb, OF assms]
  by (metis handled_def handled_refl)

section \<open>Handling errors\<close>

lemma rejoin_core_handled:
  assumes "handled s (leave s)" "gr_consumers (leave s) = []" "\<And>e u. handled u (stop e u)"
  shows "handled s (rejoin_core cfg leave stop e s)"
proof -
  have e: "handled u (gr_emit ResetGroupMetadata u)" for u by (rule emit_handled) simp
  have "handled s (schedule_rejoin d ((leave s)\<lparr>gr_member_id := []\<rparr>))" for d
    using handled_trans [OF handled_trans [OF assms(1) field_handled(6)] schedule_rejoin_handled] assms(2) by simp
  moreover have "handled s (schedule_rejoin d (gr_emit ResetGroupMetadata (leave s)))" for d
    by (rule handled_trans [OF handled_trans [OF assms(1) e] schedule_rejoin_handled])
  moreover have "handled s (schedule_rejoin d (gr_emit ResetGroupMetadata s))" for d by (rule handled_trans [OF e schedule_rejoin_handled])
  moreover have "handled s (schedule_rejoin d (leave s))" for d by (rule handled_trans [OF assms(1) schedule_rejoin_handled])
  moreover have "handled s (stop e (leave s))" by (rule handled_trans [OF assms(1,3)])
  ultimately show ?thesis by (simp add: rejoin_core_def schedule_rejoin_handled)
qed

text \<open>After the handling of an error a join is scheduled, or the group stops.\<close>

lemma schedule_rejoin_poised: "gr_rejoin_wait_dc s \<noteq> Some False \<Longrightarrow> poised (schedule_rejoin delay s)"
  by (cases "gr_rejoin_wait_dc s") (auto simp: poised_def schedule_rejoin_def gr_emit_def Let_def)

lemma schedule_rejoin_stopping [simp]: "gr_stopping (schedule_rejoin delay s) = gr_stopping s"
  by (simp add: schedule_rejoin_def gr_emit_def Let_def)

lemma rejoin_core_poised:
  assumes "handled s (leave s)" "\<And>e u. gr_start_d u \<noteq> None \<or> gr_stopping u \<Longrightarrow> gr_stopping (stop e u)" "gr_start_d s \<noteq> None" "core s"
  shows "gr_stopping (rejoin_core cfg leave stop e s) \<or> poised (rejoin_core cfg leave stop e s)"
proof (cases "gr_stopping (leave s)")
  case False
  then have l: "core (leave s)" "gr_start_d (leave s) \<noteq> None" using assms(1,3,4) by (simp_all add: handled_def)
  then have "gr_rejoin_wait_dc (leave s) \<noteq> Some False" "gr_rejoin_wait_dc s \<noteq> Some False" using assms(4) by (simp_all add: core_def)
  then have "poised (schedule_rejoin d (leave s))" "poised (schedule_rejoin d s)" "poised (schedule_rejoin d (gr_emit e' s))"
    "poised (schedule_rejoin d (gr_emit e' (leave s)))" "poised (schedule_rejoin d ((leave s)\<lparr>gr_member_id := []\<rparr>))" for d e'
    by (auto intro!: schedule_rejoin_poised simp: gr_emit_def)
  then show ?thesis using assms(2) [of "leave s"] l(2) by (auto simp: rejoin_core_def simp del: is_KafkaError.simps)
next
  case True
  have "gr_rejoin_wait_dc s \<noteq> Some False" using assms(4) by (simp add: core_def)
  then have "poised (schedule_rejoin d s)" "poised (schedule_rejoin d (gr_emit e' s))" for d e'
    by (auto intro!: schedule_rejoin_poised simp: gr_emit_def)
  moreover have "gr_stopping (stop e (leave s))" by (rule assms(2)) (simp add: True)
  ultimately show ?thesis using True by (auto simp: rejoin_core_def gr_emit_def simp del: is_KafkaError.simps)
qed

lemma coordinator_stop_stops:
  assumes "\<And>s. ending s (leave s)" "gr_start_d u \<noteq> None \<or> gr_stopping u"
  shows "gr_stopping (coordinator_stop cfg leave env errb u)"
  using coordinator_stop_cases [where leave = leave and s = u and cfg = cfg and env = env and errb = errb, OF assms(1)] assms(2)
  by (auto simp: ending_def)

lemma consumer_fails_handled:
  assumes "\<And>e u. gr_consumers u = gr_consumers s \<Longrightarrow> handled u (handler e u)"
  shows "handled s (consumer_fails handler c error s)"
proof (cases error)
  case (Some e)
  have "handled s (handler e (s\<lparr>gr_failed := f\<rparr>))" for f by (rule handled_trans [OF field_handled(2) assms]) simp
  then show ?thesis using Some by (simp add: consumer_fails_def)
qed (simp add: consumer_fails_def)

lemma after_call_handled: "silent x \<Longrightarrow> handled s (after_call c a (gr_emit x s))" "handled s (after_call c a s)"
  using handled_trans [OF emit_handled field_handled(1)] emit_handled field_handled(1) by (simp_all add: after_call_def)

lemma after_call_consumers [simp]: "gr_consumers (gr_emit x s) = gr_consumers s" "gr_consumers (after_call c a s) = gr_consumers s"
  by (simp_all add: after_call_def gr_emit_def)

lemma call_handled:
  assumes "silent x" "\<And>e u. gr_consumers u = gr_consumers s \<Longrightarrow> handled u (handler e u)"
  shows "handled s (consumer_fails handler c error (after_call c a (gr_emit x s)))"
  by (rule handled_trans [OF after_call_handled(1) [OF assms(1)] consumer_fails_handled]) (simp add: assms(2))

text \<open>While the list of consumers is empty, and it stays so.\<close>

lemma idle_error_handled: "gr_consumers s = [] \<Longrightarrow> handled s (idle_error cfg env e s)"
  unfolding idle_error_def rejoin_with_def by (simp add: rejoin_core_handled coordinator_stop_handled)

lemma stop_call_idle:
  assumes "gr_consumers s = []"
  shows "handled s (stop_call (idle_error cfg env) env s c)"
  using assms by (auto simp: stop_call_def Let_def intro!: call_handled idle_error_handled)

lemma handled_idle: "handled s t \<Longrightarrow> gr_consumers s = [] \<Longrightarrow> gr_consumers t = []"
  by (simp add: handled_def ending_def)

lemma stop_all_idle: "gr_consumers s = [] \<Longrightarrow> handled s (stop_all (idle_error cfg env) env cs s)"
proof (induction cs arbitrary: s)
  case (Cons c cs)
  have h: "handled s (stop_call (idle_error cfg env) env s c)" using Cons.prems by (rule stop_call_idle)
  from handled_trans [OF h Cons.IH [OF handled_idle [OF h Cons.prems]]] show ?case by (simp add: stop_all_def)
qed (simp add: stop_all_def)

lemma stop_consumers_handled: "handled s (stop_consumers cfg env s)" "gr_consumers (stop_consumers cfg env s) = []"
proof -
  let ?s = "s\<lparr>gr_consumers := []\<rparr>"
  have h: "handled ?s (stop_all (idle_error cfg env) env cs ?s)" for cs by (rule stop_all_idle) simp
  show "handled s (stop_consumers cfg env s)" using handled_trans [OF field_handled(3) h] by (simp add: stop_consumers_def)
  show "gr_consumers (stop_consumers cfg env s) = []" using handled_idle [OF h] by (simp add: stop_consumers_def)
qed

lemma rejoin_after_error_handled: "handled s (rejoin_after_error cfg env e s)"
  unfolding rejoin_after_error_def rejoin_with_def
  by (rule rejoin_core_handled [OF stop_consumers_handled coordinator_stop_handled])
    (rule handled_ending [OF stop_consumers_handled(1)])

lemma rejoin_after_error_poised:
  assumes "gr_start_d s \<noteq> None" "core s"
  shows "gr_stopping (rejoin_after_error cfg env e s) \<or> poised (rejoin_after_error cfg env e s)"
  unfolding rejoin_after_error_def rejoin_with_def
proof (rule rejoin_core_poised [where leave = "stop_consumers cfg env", OF stop_consumers_handled(1) _ assms])
  show "gr_stopping (coordinator_stop cfg (stop_consumers cfg env) env (Some x) u)" if "gr_start_d u \<noteq> None \<or> gr_stopping u" for x u
    using that by (intro coordinator_stop_stops handled_ending [OF stop_consumers_handled(1)])
qed

lemma on_consumer_error_handled: "handled s (on_consumer_error cfg env e s)"
  by (simp add: on_consumer_error_def rejoin_after_error_handled)

lemma stop_all_handled: "handled s (stop_all (on_consumer_error cfg env) env cs s)"
proof (induction cs arbitrary: s)
  case (Cons c cs)
  have "handled s (stop_call (on_consumer_error cfg env) env s c)"
    by (auto simp: stop_call_def Let_def intro!: call_handled on_consumer_error_handled)
  from handled_trans [OF this Cons.IH] show ?case by (simp add: stop_all_def)
qed (simp add: stop_all_def)

lemma shutdown_all_handled:
  "gr_consumers s = [] \<Longrightarrow> handled s (fst (shutdown_all cfg env cs s))"
proof (induction cs arbitrary: s)
  case (Cons c cs)
  define t where "t = consumer_fails (idle_error cfg env) (mc_id c) (an_error (ge_shutdown env (mc_id c)))
    (after_call (mc_id c) (ge_shutdown env (mc_id c)) (gr_emit (ConsumerShutdown (mc_id c)) s))"
  have t: "handled s t" unfolding t_def by (rule call_handled) (simp_all add: Cons.prems idle_error_handled)
  define u where "u = (case an_result (ge_shutdown env (mc_id c)) of CallRaised e \<Rightarrow> stop_call (idle_error cfg env) env t c | _ \<Rightarrow> t)"
  have "handled s u" unfolding u_def
    using t handled_trans [OF t stop_call_idle [OF handled_idle [OF t Cons.prems]]] by (simp split: call_result.split)
  then have "handled s (fst (shutdown_all cfg env cs u))"
    using handled_trans [OF _ Cons.IH] handled_idle Cons.prems by blast
  then show ?case unfolding shutdown_all.simps Let_def t_def [symmetric] u_def [symmetric] by (simp add: split_beta)
qed simp

lemma shutdown_consumers_handled:
  "handled s (fst (shutdown_consumers cfg env s))" "gr_consumers (fst (shutdown_consumers cfg env s)) = []"
proof -
  let ?s = "s\<lparr>gr_consumers := []\<rparr>" and ?t = "fst (shutdown_all cfg env (gr_consumers s) (s\<lparr>gr_consumers := []\<rparr>))"
  have a: "handled ?s ?t" by (rule shutdown_all_handled) simp
  have t: "gr_consumers ?t = []" using handled_idle [OF a] by simp
  have b: "handled ?t (stop_all (idle_error cfg env) env cs ?t)" for cs by (rule stop_all_idle [OF t])
  show "handled s (fst (shutdown_consumers cfg env s))"
    using handled_trans [OF field_handled(3) a] handled_trans [OF handled_trans [OF field_handled(3) a] b]
    by (simp add: shutdown_consumers_def Let_def split_beta)
  show "gr_consumers (fst (shutdown_consumers cfg env s)) = []"
    using t handled_idle [OF b t] by (simp add: shutdown_consumers_def Let_def split_beta)
qed

section \<open>Every event keeps the invariant\<close>

lemma handled_inv:
  assumes "group_inv s" "handled s t" "gr_start_d s \<noteq> None \<or> gr_stopping s"
  shows "group_inv t"
  using assms unfolding group_inv_def handled_def ending_def by blast

lemma core_task:
  assumes "core s" "dict_get (gr_joins s) k = Some p"
  shows "gr_rejoin_d s = Some k" "gr_joins s = [(k, p)]" "phase_ok p s" "gr_start_d s \<noteq> None"
  using assms by (auto simp: core_def joins_ok_def unstarted_def split: option.splits if_splits)

lemma core_started: "core s \<Longrightarrow> gr_rejoin_d s = Some k \<Longrightarrow> gr_start_d s \<noteq> None"
  by (auto simp: core_def unstarted_def split: if_splits)

lemma phase_inv:
  assumes "once_start s" "gr_stopping s \<or> core s \<and> gr_rejoin_d s = Some k \<and> phase_ok p s"
  shows "group_inv (join_phase_set k p s)"
  using assms by (auto simp: group_inv_def core_def joins_ok_def phase_ok_def consumers_ok_def unstarted_def poised_def once_start_def
      join_phase_set_def)

lemma join_end_inv:
  assumes "once_start s" "gr_stopping s \<or> core s \<and> gr_rejoin_d s = Some k \<and> poised s"
  shows "group_inv (join_end k s)"
proof -
  have "once_start (join_end k s)" using assms(1) by (simp add: once_start_def join_end_def)
  moreover have "core (join_end k s)" if "\<not> gr_stopping s"
  proof -
    have s: "core s" "gr_rejoin_d s = Some k" "poised s" using assms(2) that by simp_all
    then obtain p where "gr_joins s = [(k, p)]" by (auto simp: core_def joins_ok_def)
    then show ?thesis using s core_started [OF s(1,2)]
      by (auto simp: core_def joins_ok_def consumers_ok_def poised_def join_end_def)
  qed
  ultimately show ?thesis by (auto simp: group_inv_def join_end_def)
qed

lemma emit_inv: "group_inv s \<Longrightarrow> gr_start_d s \<noteq> None \<or> gr_stopping s \<Longrightarrow> silent e \<Longrightarrow> group_inv (gr_emit e s)"
  using handled_inv emit_handled by blast

lemma join_fail_inv:
  assumes "once_start s" "gr_stopping s \<or> core s \<and> gr_rejoin_d s = Some k"
  shows "group_inv (join_fail k e s)"
  using assms once_start_frame [of s "join_fail k e s"]
  by (auto simp: group_inv_def core_def joins_ok_def consumers_ok_def unstarted_def poised_def
      join_fail_def join_end_def gr_emit_def split: if_splits)

lemma join_and_sync_inv:
  assumes "once_start s" "gr_stopping s \<or> joins_ok s \<and> consumers_ok s \<and> (\<not> gr_rejoin_needed s \<longrightarrow> gr_generation_id s \<noteq> None) \<and>
    gr_leaving s = None \<and> gr_start_d s \<noteq> None"
  shows "group_inv (join_and_sync b s)"
proof -
  have "once_start (join_and_sync b s)"
    by (rule once_start_frame [OF assms(1)]) (simp_all add: join_and_sync_def join_phase_set_def gr_emit_def Let_def)
  moreover have "gr_stopping (join_and_sync b s) = gr_stopping s"
    by (simp add: join_and_sync_def join_phase_set_def gr_emit_def Let_def)
  moreover have "core (join_and_sync b s)" if "\<not> gr_stopping s"
    using assms(2) that unfolding core_def joins_ok_def phase_ok_def consumers_ok_def poised_def
    by (auto simp: join_and_sync_def join_phase_set_def gr_emit_def Let_def split: option.splits)
  ultimately show ?thesis by (auto simp: group_inv_def)
qed

lemma group_start_inv:
  assumes "group_inv s"
  shows "group_inv (group_start s)"
proof (cases "gr_start_d s")
  case None
  let ?s = "s\<lparr>gr_start_d := Some (gr_next s), gr_start_called := False, gr_next := Suc (gr_next s)\<rparr>"
  have "once_start ?s" unfolding once_start_def
  proof
    fix d
    have "gfires d (gr_log s) \<le> (if d < gr_next s then 1 else 0)"
      using assms None unfolding group_inv_def once_start_def by (metis (no_types, lifting) add_leD1)
    then show "gfires d (gr_log ?s) + (if gr_start_d ?s = Some d \<and> \<not> gr_start_called ?s then 1 else 0) \<le> (if d < gr_next ?s then 1 else 0)"
      by (auto split: if_splits)
  qed
  moreover have "joins_ok ?s \<and> consumers_ok ?s \<and> (\<not> gr_rejoin_needed ?s \<longrightarrow> gr_generation_id ?s \<noteq> None) \<and> gr_leaving ?s = None"
    if "\<not> gr_stopping s"
    using assms that None unfolding group_inv_def core_def joins_ok_def phase_ok_def consumers_ok_def unstarted_def by (auto split: option.splits)
  ultimately show ?thesis using None join_and_sync_inv [of ?s False] by (auto simp: group_start_def)
qed (use assms in \<open>simp add: group_start_def\<close>)

lemma get_coordinator_failed_inv:
  assumes "once_start s" "gr_stopping s \<or> core s \<and> gr_rejoin_d s = Some k"
  shows "group_inv (get_coordinator_failed cfg k e s)" "group_inv (join_end k (schedule_join delay s))"
proof -
  show j: "group_inv (join_end k (schedule_join delay s))" for delay
  proof (rule join_end_inv)
    show "once_start (schedule_join delay s)"
      by (rule once_start_frame [OF assms(1)]) (simp_all add: schedule_join_def gr_emit_def)
    have "core (schedule_join delay s)" "gr_rejoin_d (schedule_join delay s) = Some k" "poised (schedule_join delay s)"
      if "core s" "gr_rejoin_d s = Some k"
      using that core_started [OF that]
      by (auto simp: core_def joins_ok_def phase_ok_def consumers_ok_def poised_def schedule_join_def gr_emit_def)
    then show "gr_stopping (schedule_join delay s) \<or> core (schedule_join delay s) \<and>
        gr_rejoin_d (schedule_join delay s) = Some k \<and> poised (schedule_join delay s)"
      using assms(2) by (auto simp: schedule_join_def gr_emit_def)
  qed
  show "group_inv (get_coordinator_failed cfg k e s)"
    using j join_fail_inv [OF assms] by (simp add: get_coordinator_failed_def)
qed

lemma task_inv:
  assumes "group_inv s" "dict_get (gr_joins s) k = Some p"
  shows "once_start s" "gr_stopping s \<or> core s \<and> gr_rejoin_d s = Some k \<and> gr_joins s = [(k, p)] \<and> phase_ok p s \<and> gr_start_d s \<noteq> None"
  using assms core_task [OF _ assms(2)] by (auto simp: group_inv_def)

lemma phase_emit_inv:
  assumes "once_start s" "gr_stopping s \<or> core s \<and> gr_rejoin_d s = Some k \<and> phase_ok p s" "silent e"
  shows "group_inv (gr_emit e (join_phase_set k p s))"
proof (rule emit_inv [OF phase_inv [OF assms(1,2)] _ assms(3)])
  show "gr_start_d (join_phase_set k p s) \<noteq> None \<or> gr_stopping (join_phase_set k p s)"
    using assms(2) by (auto simp: join_phase_set_def core_def unstarted_def split: if_splits)
qed

lemma coordinator_found_inv:
  assumes "group_inv s" "dict_get (gr_joins s) k = Some FetchingBroker"
  shows "group_inv (coordinator_found cfg k r s)"
  using task_inv [OF assms] get_coordinator_failed_inv [of s k] phase_emit_inv [of s k LoadingMetadata]
  by (auto simp: coordinator_found_def phase_ok_def split: sum.split)

lemma send_join_inv:
  assumes "once_start s" "gr_stopping s \<or> core s \<and> gr_rejoin_d s = Some k \<and> gr_consumers s = []"
  shows "group_inv (send_join_group_request cfg k s)"
  using phase_emit_inv [OF assms(1), of k Joining] join_fail_inv [OF assms(1), of k] assms(2)
  by (auto simp: send_join_group_request_def phase_ok_def split: sum.split)

text \<open>While the generator runs, errors are handled.\<close>

lemma active_inv:
  assumes "once_start s" "gr_stopping s \<or> core s \<and> gr_rejoin_d s = Some k" "handled (join_phase_set k Active s) t"
  shows "once_start t" "gr_stopping t \<or> core t \<and> gr_rejoin_d t = Some k \<and> gr_start_d t \<noteq> None"
proof -
  let ?s = "join_phase_set k Active s"
  have s: "group_inv ?s" using phase_inv [OF assms(1), of k Active] assms(2) by (auto simp: phase_ok_def)
  have run: "gr_start_d ?s \<noteq> None \<or> gr_stopping ?s" "gr_stopping ?s \<or> gr_rejoin_d ?s = Some k"
    using assms(2) by (auto simp: join_phase_set_def core_def unstarted_def split: if_splits)
  from handled_inv [OF s assms(3) run(1)] have t: "group_inv t" .
  then show "once_start t" by (simp add: group_inv_def)
  show "gr_stopping t \<or> core t \<and> gr_rejoin_d t = Some k \<and> gr_start_d t \<noteq> None"
    using t run assms(3) unfolding group_inv_def handled_def ending_def by metis
qed

lemma metadata_loaded_inv:
  assumes "group_inv s" "dict_get (gr_joins s) k = Some LoadingMetadata"
  shows "group_inv (metadata_loaded cfg env k r s)"
proof -
  note s = task_inv [OF assms]
  let ?s = "s\<lparr>gr_coordinator_broker := True\<rparr>"
  have cs: "once_start ?s" "gr_stopping ?s \<or> core ?s \<and> gr_rejoin_d ?s = Some k"
    using s by (auto simp: once_start_def core_def joins_ok_def phase_ok_def consumers_ok_def unstarted_def poised_def)
  obtain t w where t: "shutdown_consumers cfg env (join_phase_set k Active ?s) = (t, w)" by force
  have h: "handled (join_phase_set k Active ?s) t" "gr_consumers t = []"
    using shutdown_consumers_handled [where s = "join_phase_set k Active ?s" and cfg = cfg and env = env] unfolding t by simp_all
  note a = active_inv [OF cs h(1)]
  have "group_inv (send_join_group_request cfg k t)" using send_join_inv a h(2) by blast
  moreover have "group_inv (join_phase_set k (Preparing cs pend) t)" for cs pend
    using phase_inv a h(2) by (auto simp: phase_ok_def)
  moreover have "group_inv (join_end k s)" if "gr_stopping s" using join_end_inv s that by blast
  moreover have "group_inv (join_fail k e s)" for e using join_fail_inv s by blast
  ultimately show ?thesis by (auto simp: metadata_loaded_def t split: sum.split option.split)
qed

lemma failed_request_inv:
  assumes "group_inv s" "dict_get (gr_joins s) k = Some p"
  shows "group_inv (join_end k (rejoin_after_error cfg env e (join_phase_set k Active s)))"
proof (rule join_end_inv)
  have c: "gr_stopping s \<or> core s \<and> gr_rejoin_d s = Some k" using task_inv [OF assms] by blast
  let ?s = "join_phase_set k Active s"
  note a = active_inv [where t = "rejoin_after_error cfg env e ?s", OF task_inv(1) [OF assms] c rejoin_after_error_handled]
  show "once_start (rejoin_after_error cfg env e ?s)" by (rule a(1))
  have "gr_stopping (rejoin_after_error cfg env e ?s) \<or> poised (rejoin_after_error cfg env e ?s)"
  proof (cases "gr_stopping s")
    case False
    have "group_inv ?s" using phase_inv [OF task_inv(1) [OF assms], of k Active] c by (auto simp: phase_ok_def)
    then have "core ?s" using False by (simp add: group_inv_def join_phase_set_def)
    moreover have "gr_start_d ?s \<noteq> None" using task_inv(2) [OF assms] False by (simp add: join_phase_set_def)
    ultimately show ?thesis by (intro rejoin_after_error_poised)
  next
    case True
    then show ?thesis using rejoin_after_error_handled [of ?s cfg env e] by (simp add: handled_def ending_def join_phase_set_def)
  qed
  then show "gr_stopping (rejoin_after_error cfg env e ?s) \<or> core (rejoin_after_error cfg env e ?s) \<and>
      gr_rejoin_d (rejoin_after_error cfg env e ?s) = Some k \<and> poised (rejoin_after_error cfg env e ?s)" using a(2) by blast
qed

lemma send_sync_inv:
  assumes "once_start s" "gr_stopping s \<or> core s \<and> gr_rejoin_d s = Some k \<and> gr_consumers s = [] \<and> gr_generation_id s \<noteq> None"
  shows "group_inv (send_sync_group_request k a s)"
  using phase_emit_inv [OF assms(1), of k Syncing] assms(2) by (auto simp: send_sync_group_request_def phase_ok_def)

lemma join_answered_inv:
  assumes "group_inv s" "dict_get (gr_joins s) k = Some Joining" "join_answered cfg env k r s = Some t"
  shows "group_inv t"
proof (cases r)
  case (Inl e)
  then show ?thesis using assms(3) failed_request_inv [OF assms(1,2)] by (auto simp: join_answered_def)
next
  case (Inr resp)
  note s = task_inv [OF assms(1,2)]
  define u where "u = s\<lparr>gr_member_id := jgs_member_id resp, gr_generation_id := Some (jgs_generation_id resp),
    gr_leader_id := Some (jgs_leader_id resp)\<rparr>"
  have o: "once_start u" using s(1) by (simp add: once_start_def u_def)
  have st: "gr_stopping u = gr_stopping s" by (simp add: u_def)
  have c: "gr_stopping u \<or> core u \<and> gr_rejoin_d u = Some k \<and> gr_consumers u = [] \<and> gr_generation_id u \<noteq> None"
    using s(2) by (auto simp: u_def core_def joins_ok_def phase_ok_def consumers_ok_def unstarted_def poised_def)
  have "group_inv (join_end k u)" if "gr_stopping u" using join_end_inv [OF o] that by blast
  moreover have "group_inv (send_sync_group_request k a u)" for a by (rule send_sync_inv [OF o c])
  moreover have "group_inv (join_fail k e u)" for e using join_fail_inv [OF o] c by blast
  moreover have "group_inv (gr_emit (LoadPartitions ts) (join_phase_set k (LoadingPartitions ms) u))" for ts ms
    using phase_emit_inv [OF o, of k "LoadingPartitions ms"] c by (auto simp: phase_ok_def)
  ultimately have "group_inv (first_assignments k ms a u)" "gr_stopping u \<Longrightarrow> group_inv (join_end k u)" "group_inv (send_sync_group_request k [] u)" for ms a
    by (simp_all add: first_assignments_def split: sum.split exn.split)
  then show ?thesis using assms(3) unfolding join_answered_def Inr sum.case Let_def u_def [symmetric] by (auto split: if_splits)
qed

lemma partitions_loaded_inv:
  assumes "group_inv s" "dict_get (gr_joins s) k = Some (LoadingPartitions ms)" "partitions_loaded k ms r s = Some t"
  shows "group_inv t"
proof -
  note s = task_inv [OF assms(1,2)]
  have "group_inv (send_sync_group_request k a s)" "group_inv (join_fail k e s)" for a e
    using send_sync_inv [OF s(1)] join_fail_inv [OF s(1)] s(2) by (auto simp: phase_ok_def)
  then have "group_inv (case z of Inr a \<Rightarrow> send_sync_group_request k a s | Inl e \<Rightarrow> join_fail k e s)" "group_inv (join_fail k e s)" for z e
    by (simp_all split: sum.split)
  then show ?thesis using assms(3) unfolding partitions_loaded_def by (cases r) auto
qed

text \<open>A join that is complete: its generator starts the consumers.\<close>

definition completing :: "nat \<Rightarrow> group \<Rightarrow> bool" where
  "completing k s \<longleftrightarrow> once_start s \<and> (gr_stopping s \<or> core s \<and> gr_rejoin_d s = Some k \<and> gr_joins s = [(k, Active)] \<and> poised s)"

lemma completing_handled:
  assumes "completing k s" "handled s t"
  shows "completing k t"
proof -
  have "gr_start_d s \<noteq> None \<or> gr_stopping s" using assms(1) core_started by (auto simp: completing_def)
  then show ?thesis using assms unfolding completing_def handled_def ending_def by metis
qed

lemma completing_start:
  fixes topic :: pystr and part :: int
  assumes "completing k s"
  defines "c \<equiv> \<lparr>mc_id = gr_next s, mc_topic = topic, mc_partition = part, mc_member = gr_member_id s, mc_generation = gr_generation_id s\<rparr>"
  shows "completing k (gr_emit (ConsumerStarted c) (s\<lparr>gr_next := Suc (gr_next s), gr_consumers := gr_consumers s @ [c], gr_running := mc_id c # gr_running s\<rparr>))"
    (is "completing k ?t")
proof -
  have "once_start ?t" by (rule once_start_frame [of s]) (use assms in \<open>simp_all add: completing_def gr_emit_def\<close>)
  moreover have "core ?t \<and> gr_rejoin_d ?t = Some k \<and> gr_joins ?t = [(k, Active)] \<and> poised ?t" if "\<not> gr_stopping s"
  proof -
    have s: "core s" "gr_rejoin_d s = Some k" "gr_joins s = [(k, Active)]" "poised s" using assms(1) that by (simp_all add: completing_def)
    then show ?thesis using core_started [OF s(1,2)]
      by (auto simp: core_def joins_ok_def phase_ok_def consumers_ok_def poised_def gr_emit_def c_def)
  qed
  ultimately show ?thesis by (auto simp: completing_def gr_emit_def)
qed

lemma start_consumers_completing: "completing k s \<Longrightarrow> completing k (fst (start_consumers cfg env parts s))"
proof (induction cfg env parts s rule: start_consumers.induct)
  case (2 cfg env topic part parts s)
  have h: "handled u (consumer_fails (on_consumer_error cfg env) c e u)" for u c e
    by (rule consumer_fails_handled [OF on_consumer_error_handled])
  show ?case
  proof (cases "ge_start env (gr_next s)")
    case (Inr e)
    from 2(1) [OF Inr refl refl] completing_handled [OF completing_start [OF 2(2)] h] show ?thesis
      by (simp add: Inr Let_def)
  qed (use 2(2) in simp)
qed simp

lemma sync_answered_inv:
  assumes "group_inv s" "dict_get (gr_joins s) k = Some Syncing"
  shows "group_inv (sync_answered cfg env k r s)"
proof (cases r)
  case (Inl e)
  then show ?thesis using failed_request_inv [OF assms] by (simp add: sync_answered_def)
next
  case (Inr resp)
  note s = task_inv [OF assms]
  define u where "u = join_phase_set k Active (s\<lparr>gr_heartbeat_looper := True, gr_rejoin_needed := False\<rparr>)"
  have "completing k u"
    using s unfolding completing_def core_def joins_ok_def phase_ok_def consumers_ok_def unstarted_def poised_def u_def
    by (auto simp: join_phase_set_def once_start_def split: if_splits)
  then have "completing k (fst (start_consumers cfg env ps u))" for ps by (rule start_consumers_completing)
  then have "group_inv (join_end k (fst (start_consumers cfg env ps u)))" "group_inv (join_fail k e (fst (start_consumers cfg env ps u)))" for ps e
    using join_end_inv join_fail_inv unfolding completing_def by blast+
  moreover have "group_inv (join_fail k e s)" for e using join_fail_inv s by blast
  moreover have "group_inv (join_end k s)" if "gr_stopping s" using join_end_inv s that by blast
  ultimately show ?thesis unfolding sync_answered_def Inr sum.case u_def [symmetric] by (auto simp: split_beta split: sum.split)
qed

lemma group_stop_inv:
  assumes "group_inv s"
  shows "group_inv (group_stop cfg env errb s)"
proof (cases "gr_start_d s \<noteq> None \<or> gr_stopping s")
  case True
  obtain t w where t: "shutdown_consumers cfg env s = (t, w)" by force
  have h: "handled s t" using shutdown_consumers_handled(1) [where s = s and cfg = cfg and env = env] unfolding t by simp
  have inv: "group_inv t" by (rule handled_inv [OF assms h True])
  have run: "gr_start_d t \<noteq> None \<or> gr_stopping t" using h True unfolding handled_def ending_def by metis
  have "group_inv (coordinator_stop cfg (stop_consumers cfg env) env errb t)"
    by (rule handled_inv [OF inv coordinator_stop_handled run]) (rule handled_ending [OF stop_consumers_handled(1)])
  moreover have "group_inv (t\<lparr>gr_stops := x\<rparr>)" for x
    by (rule handled_inv [OF inv field_handled(7) run])
  ultimately show ?thesis by (auto simp: group_stop_def t split: option.split)
next
  case False
  then have "gr_consumers s = []" using assms by (auto simp: group_inv_def core_def unstarted_def)
  then show ?thesis using False assms by (simp add: group_stop_def shutdown_consumers_def coordinator_stop_def)
qed

lemma consumer_down_inv:
  assumes "group_inv s" "awaited c s"
  shows "group_inv (consumer_down cfg env c a s)"
proof -
  define t where "t = consumer_fails (on_consumer_error cfg env) c (an_error a) (after_call c a s)"
  have run: "gr_start_d s \<noteq> None \<or> gr_stopping s"
    using assms by (auto simp: awaited_def group_inv_def core_def unstarted_def split: if_splits)
  have h: "handled s t" unfolding t_def
    by (rule handled_trans [OF after_call_handled(2) consumer_fails_handled]) (rule on_consumer_error_handled)
  have inv: "group_inv t" by (rule handled_inv [OF assms(1) h run])
  have runt: "gr_start_d t \<noteq> None \<or> gr_stopping t" using h run unfolding handled_def ending_def by metis
  have stops: "handled t (t\<lparr>gr_stops := x\<rparr>)" for x by (rule field_handled(7))
  have rest: "handled u (stop_rest cfg env cs (an_result a) u)" for u cs
    by (simp add: stop_rest_def stop_all_handled split: call_result.split)
  have "handled t (coordinator_stop cfg (stop_consumers cfg env) env errb (stop_rest cfg env cs (an_result a) (t\<lparr>gr_stops := x\<rparr>)))" for errb cs x
    by (rule handled_trans [OF handled_trans [OF stops rest] coordinator_stop_handled]) (rule handled_ending [OF stop_consumers_handled(1)])
  then have st: "group_inv (t\<lparr>gr_stops := x\<rparr>)"
    "group_inv (coordinator_stop cfg (stop_consumers cfg env) env errb (stop_rest cfg env cs (an_result a) (t\<lparr>gr_stops := x\<rparr>)))" for errb cs x
    using handled_inv [OF inv _ runt] stops by blast+
  have "group_inv (join_phase_set k (Preparing cs pend') t) \<and>
      group_inv (send_join_group_request cfg k (stop_rest cfg env cs (an_result a) (join_phase_set k Active t)))"
    if f: "find (join_waits c) (gr_joins t) = Some (k, Preparing cs pend)" for k cs pend pend'
  proof -
    have "(k, Preparing cs pend) \<in> set (gr_joins t)" using f by (auto simp: find_Some_iff)
    then have task: "gr_stopping t \<or> core t \<and> gr_rejoin_d t = Some k \<and> gr_consumers t = []"
      using inv by (auto simp: group_inv_def core_def joins_ok_def phase_ok_def split: option.splits)
    have o: "once_start t" using inv by (simp add: group_inv_def)
    let ?u = "stop_rest cfg env cs (an_result a) (join_phase_set k Active t)"
    have "gr_stopping t \<or> core t \<and> gr_rejoin_d t = Some k" using task by blast
    note u = active_inv [OF o this rest]
    have "gr_consumers ?u = []" if "\<not> gr_stopping ?u"
    proof -
      have "\<not> gr_stopping t" using that rest [of "join_phase_set k Active t" cs] by (auto simp: handled_def ending_def join_phase_set_def)
      then show ?thesis using task handled_idle [OF rest, of "join_phase_set k Active t" cs] by (simp add: join_phase_set_def)
    qed
    then have "group_inv (send_join_group_request cfg k ?u)" using send_join_inv [OF u(1)] u(2) by blast
    moreover have "group_inv (join_phase_set k (Preparing cs pend') t)" using phase_inv [OF o] task by (auto simp: phase_ok_def)
    ultimately show ?thesis by simp
  qed
  then show ?thesis using st inv unfolding consumer_down_def Let_def t_def [symmetric]
    by (auto split: option.split join_phase.split)
qed

lemma leave_answered_ending: "ending s (leave_answered cfg env r errb s)"
proof -
  let ?u = "case r of Inl e \<Rightarrow> s\<lparr>gr_leaving := None\<rparr> | Inr _ \<Rightarrow> s\<lparr>gr_leaving := None, gr_member_id := [], gr_generation_id := None\<rparr>"
  have "ending s ?u" by (rule ending_frame) (simp_all split: sum.split)
  then show ?thesis unfolding leave_answered_def
    by (rule ending_trans [OF _ coordinator_finish_ending]) (rule handled_ending [OF rejoin_after_error_handled])
qed

lemma heartbeat_inv:
  assumes "group_inv s" "gr_start_d s \<noteq> None \<or> gr_stopping s"
  shows "group_inv (s\<lparr>gr_heartbeat_request := q\<rparr>)" "group_inv (heartbeat s)" "group_inv (heartbeat_answered cfg env r s)"
proof -
  show f: "group_inv (s\<lparr>gr_heartbeat_request := q\<rparr>)" for q by (rule handled_inv [OF assms(1) field_handled(5) assms(2)])
  have "group_inv (gr_emit (SendHeartbeat g m) (s\<lparr>gr_heartbeat_request := True\<rparr>))" for g m
    by (rule emit_inv [OF f]) (use assms(2) in simp_all)
  then show "group_inv (heartbeat s)" using assms(1) by (simp add: heartbeat_def)
  have "handled s (rejoin_after_error cfg env x (s\<lparr>gr_heartbeat_request := False, gr_heartbeat_looper := False\<rparr>))" for x
    by (rule handled_trans [OF handled_trans [OF field_handled(5) field_handled(4)] rejoin_after_error_handled])
  then show "group_inv (heartbeat_answered cfg env r s)"
    using handled_inv [OF assms(1) _ assms(2)] f by (simp add: heartbeat_answered_def handle_heartbeat_failure_def Let_def split: sum.split)
qed

lemma rejoin_tick_inv:
  assumes "group_inv s" "gr_start_d s \<noteq> None \<or> gr_stopping s"
  shows "group_inv (join_and_sync b (s\<lparr>gr_timers := n\<rparr>))" "group_inv (join_and_sync b s)"
proof -
  have o: "once_start s" and pre: "gr_stopping s \<or> joins_ok s \<and> consumers_ok s \<and> (\<not> gr_rejoin_needed s \<longrightarrow> gr_generation_id s \<noteq> None) \<and>
      gr_leaving s = None \<and> gr_start_d s \<noteq> None" using assms by (auto simp: group_inv_def core_def)
  show "group_inv (join_and_sync b s)" by (rule join_and_sync_inv [OF o pre])
  have "once_start (s\<lparr>gr_timers := n\<rparr>)" "joins_ok (s\<lparr>gr_timers := n\<rparr>) = joins_ok s" "consumers_ok (s\<lparr>gr_timers := n\<rparr>) = consumers_ok s"
    using o by (simp_all add: once_start_def joins_ok_def phase_ok_def consumers_ok_def split: option.split)
  with pre show "group_inv (join_and_sync b (s\<lparr>gr_timers := n\<rparr>))" by (intro join_and_sync_inv) simp_all
qed

lemma group_step_inv:
  assumes "group_inv s" "group_step cfg s e t"
  shows "group_inv t"
proof -
  have ap: "group_apply cfg s e = Some t" using assms(2) by (simp add: group_step_def)
  have run: "gr_start_d s \<noteq> None \<or> gr_stopping s"
    if "gr_heartbeat_looper s \<or> gr_heartbeat_request s \<or> gr_running s \<noteq> [] \<or> gr_timers s \<noteq> 0 \<or> gr_rejoin_wait_dc s \<noteq> None"
    using assms(1) that by (auto simp: group_inv_def core_def unstarted_def split: if_splits)
  have beat: "gr_heartbeat_looper s \<Longrightarrow> group_inv (heartbeat s)" "gr_heartbeat_request s \<Longrightarrow> group_inv (heartbeat_answered cfg env r s)" for env r
    by (rule heartbeat_inv [OF assms(1) run]; simp)+
  have join: "0 < gr_timers s \<Longrightarrow> group_inv (join_and_sync b (s\<lparr>gr_timers := n\<rparr>))" "gr_rejoin_wait_dc s = Some True \<Longrightarrow> group_inv (join_and_sync b s)" for b n
    by (rule rejoin_tick_inv [OF assms(1) run]; simp)+
  have fails: "group_inv (consumer_fails (on_consumer_error cfg env) c x s)" if "c \<in> set (gr_running s)" for env c x
    by (rule handled_inv [OF assms(1) consumer_fails_handled [OF on_consumer_error_handled]]) (use run that in force)
  show ?thesis
  proof (cases e)
    case CancelStart
    then obtain d where d: "gr_start_d s = Some d" "\<not> gr_start_called s"
      and t: "t = gr_emit (GFired d (Some TwistedCancelledError)) (s\<lparr>gr_start_called := True\<rparr>)"
      using ap by (auto simp: group_apply_def split: option.splits if_splits)
    have "once_start t" using assms(1) d by (auto simp: t group_inv_def once_start_def gr_emit_def split: if_splits dest: spec [of _ d])
    moreover have "core s \<Longrightarrow> core t"
      using d by (auto simp: t core_def joins_ok_def phase_ok_def consumers_ok_def poised_def gr_emit_def split: option.split)
    ultimately show ?thesis using assms(1) by (auto simp: group_inv_def t gr_emit_def)
  next
    case (LeaveAnswer r env)
    then obtain errb where l: "gr_leaving s = Some errb" "t = leave_answered cfg env r errb s"
      using ap by (auto simp: group_apply_def split: option.splits)
    have "gr_stopping s" "once_start s" using assms(1) l(1) by (auto simp: group_inv_def core_def)
    with leave_answered_ending [of s cfg env r errb] show ?thesis by (simp add: ending_def group_inv_def l(2))
  qed (use ap assms(1) beat join fails in \<open>auto simp: group_apply_def split: if_splits option.splits join_phase.splits
      intro: group_start_inv group_stop_inv coordinator_found_inv metadata_loaded_inv join_answered_inv partitions_loaded_inv sync_answered_inv
        consumer_down_inv\<close>)
qed

interpretation group: step_machine "\<lambda>s. s = group_init" "group_step cfg" group_inv for cfg
proof
  show "group_inv s" if "s = group_init" for s
    using that by (simp add: group_inv_def once_start_def core_def joins_ok_def consumers_ok_def unstarted_def group_init_def)
qed (rule group_step_inv)

section \<open>What the runs show\<close>

text \<open>
  C27. Consumers belong to the membership: unless the group is stopping, every consumer that it manages carries the present
  member id and generation of the group, at most one join is under way, and while the group shuts down its consumers, joins or
  syncs it manages none; when no join is needed the group has a generation.
\<close>

theorem group_membership:
  assumes "group_reach cfg s" "\<not> gr_stopping s"
  shows "(\<forall>c\<in>set (gr_consumers s). mc_member c = gr_member_id s \<and> mc_generation c = gr_generation_id s) \<and>
    length (gr_joins s) \<le> 1 \<and> (gr_consumers s \<noteq> [] \<longrightarrow> (\<forall>p\<in>set (dict_values (gr_joins s)). \<not> exclusive p)) \<and>
    (\<not> gr_rejoin_needed s \<longrightarrow> gr_generation_id s \<noteq> None)"
proof -
  have c: "core s" using group.reach_invar [OF assms(1)] assms(2) by (simp add: group_inv_def)
  then have "length (gr_joins s) \<le> 1 \<and> (gr_consumers s \<noteq> [] \<longrightarrow> (\<forall>p\<in>set (dict_values (gr_joins s)). \<not> exclusive p))"
    by (auto simp: core_def joins_ok_def phase_ok_def split: option.splits)
  then show ?thesis using c by (simp add: core_def consumers_ok_def)
qed

text \<open>
  C28. A join that is needed is not forgotten: while the group runs and no exception has ended a join, whenever a join is needed
  one is under way or a call of \<open>join_and_sync\<close> is scheduled.
\<close>

theorem rejoin_not_forgotten:
  assumes "group_reach cfg s" "gr_start_d s \<noteq> None" "\<not> gr_stopping s" "gr_rejoin_needed s" "\<forall>e. JoinError e \<notin> set (gr_log s)"
  shows "gr_joins s \<noteq> [] \<or> gr_rejoin_wait_dc s = Some True \<or> 0 < gr_timers s"
proof -
  have "core s" using group.reach_invar [OF assms(1)] assms(3) by (simp add: group_inv_def)
  then show ?thesis using assms by (auto simp: core_def poised_def joins_ok_def split: option.splits)
qed

text \<open>
  The deferred that \<open>start\<close> returned fires at most once, and the one that the group still holds has not fired.
\<close>

theorem group_start_fires_once:
  assumes "group_reach cfg s"
  shows "gfires d (gr_log s) + (if gr_start_d s = Some d \<and> \<not> gr_start_called s then 1 else 0) \<le> 1"
proof -
  have "once_start s" using group.reach_invar [OF assms] by (simp add: group_inv_def)
  from this [unfolded once_start_def, rule_format, of d] show ?thesis by (auto split: if_splits)
qed

lemma start_consumers_all:
  assumes "\<forall>i. ge_start env i = Inr None"
  shows "\<exists>t cs. start_consumers cfg env parts s = (t, Inr ()) \<and> gr_consumers t = gr_consumers s @ cs \<and>
    map (\<lambda>c. (mc_topic c, mc_partition c)) cs = parts \<and> (\<forall>c\<in>set cs. mc_member c = gr_member_id s \<and> mc_generation c = gr_generation_id s) \<and>
    set (gr_running t) = set (gr_running s) \<union> mc_id ` set cs \<and> gr_rejoin_needed t = gr_rejoin_needed s \<and> gr_heartbeat_looper t = gr_heartbeat_looper s \<and>
    gr_joins t = gr_joins s"
proof (induction parts arbitrary: s)
  case (Cons x parts)
  obtain topic part where x: "x = (topic, part)" by force
  define c where "c = \<lparr>mc_id = gr_next s, mc_topic = topic, mc_partition = part, mc_member = gr_member_id s, mc_generation = gr_generation_id s\<rparr>"
  define u where "u = gr_emit (ConsumerStarted c) (s\<lparr>gr_next := Suc (gr_next s), gr_consumers := gr_consumers s @ [c], gr_running := mc_id c # gr_running s\<rparr>)"
  have step: "start_consumers cfg env (x # parts) s = start_consumers cfg env parts u"
    using assms by (simp add: x c_def u_def consumer_fails_def Let_def)
  from Cons.IH [of u] obtain t cs where "start_consumers cfg env parts u = (t, Inr ())" "gr_consumers t = gr_consumers u @ cs"
    "map (\<lambda>c. (mc_topic c, mc_partition c)) cs = parts" "\<forall>c\<in>set cs. mc_member c = gr_member_id u \<and> mc_generation c = gr_generation_id u"
    "set (gr_running t) = set (gr_running u) \<union> mc_id ` set cs" "gr_rejoin_needed t = gr_rejoin_needed u"
    "gr_heartbeat_looper t = gr_heartbeat_looper u" "gr_joins t = gr_joins u" by blast
  then show ?case unfolding step by (intro exI [of _ t] exI [of _ "c # cs"]) (simp add: u_def c_def gr_emit_def x)
qed (simp add: exI [of _ "[]"])

lemma assigned_partitions_topic:
  assumes "dict_ok d"
  shows "map snd (filter (\<lambda>x. fst x = t) (assigned_partitions d)) = (case dict_get d t of None \<Rightarrow> [] | Some ps \<Rightarrow> ps)"
  using assms
proof (induction d)
  case (Cons x d)
  obtain t' ps where x: "x = (t', ps)" by force
  have "filter (\<lambda>x. fst x = t) (map (Pair t') ps) = (if t' = t then map (Pair t') ps else [])" by (induction ps) auto
  moreover have "dict_get d t' = None" using Cons.prems by (auto simp: x dict_ok_def map_of_eq_None_iff)
  moreover have "dict_ok d" using Cons.prems by (simp add: dict_ok_def)
  ultimately show ?case using Cons.IH by (auto simp: x assigned_partitions_def comp_def)
qed (simp add: assigned_partitions_def)

text \<open>
  C26. The consumers follow the leader: when a member that has joined gets, in the sync response, its entry of what the leader
  generated, it runs exactly one consumer for each partition of its share of the round-robin assignment, topic by topic in that order,
  each with the member's id and generation, starts its heartbeats and needs no further join.
\<close>

theorem consumers_follow_leader:
  assumes "generate_assignments members tp = Some (Inr out)" "k < length members"
    and "group_reach cfg s" "\<not> gr_stopping s" "dict_get (gr_joins s) j = Some Syncing"
    and "sgs_member_assignment resp = sgm_member_metadata (out ! k)" "\<forall>i. ge_start env i = Inr None"
  defines "t \<equiv> sync_answered cfg env j (Inr resp) s"
  shows "\<exists>md a. decode_members members [] = Inr md \<and> round_robin_assignment md tp = Some (Inr a) \<and>
    (\<forall>topic. map mc_partition (filter (\<lambda>c. mc_topic c = topic) (gr_consumers t)) = assigned a (jgr_member_id (members ! k)) topic) \<and>
    (\<forall>c\<in>set (gr_consumers t). mc_id c \<in> set (gr_running t) \<and> mc_member c = gr_member_id s \<and> mc_generation c = gr_generation_id s) \<and>
    gr_generation_id s \<noteq> None \<and> gr_heartbeat_looper t \<and> \<not> gr_rejoin_needed t \<and> gr_joins t = []"
proof -
  from generate_assignments_decode [OF assms(1,2)] obtain md a d
    where md: "decode_members members [] = Inr md" "round_robin_assignment md tp = Some (Inr a)"
      and d: "decode_assignment (sgm_member_metadata (out ! k)) = Inr d" "dict_ok d"
        "\<And>t. (case dict_get d t of None \<Rightarrow> [] | Some ps \<Rightarrow> ps) = assigned a (jgr_member_id (members ! k)) t" by blast
  have inv: "group_inv s" by (rule group.reach_invar [OF assms(3)])
  have c: "gr_joins s = [(j, Syncing)]" "gr_consumers s = []" "gr_generation_id s \<noteq> None"
    using task_inv(2) [OF inv assms(5)] assms(4) by (auto simp: phase_ok_def)
  let ?u = "join_phase_set j Active (s\<lparr>gr_heartbeat_looper := True, gr_rejoin_needed := False\<rparr>)"
  from start_consumers_all [OF assms(7), of cfg "assigned_partitions d" ?u] obtain v cs
    where v: "start_consumers cfg env (assigned_partitions d) ?u = (v, Inr ())" "gr_consumers v = cs"
      "map (\<lambda>c. (mc_topic c, mc_partition c)) cs = assigned_partitions d"
      "\<forall>c\<in>set cs. mc_member c = gr_member_id s \<and> mc_generation c = gr_generation_id s \<and> mc_id c \<in> set (gr_running v)"
      "\<not> gr_rejoin_needed v" "gr_heartbeat_looper v" "gr_joins v = [(j, Active)]" using c(1,2) by (auto simp: join_phase_set_def)
  have t: "t = join_end j v" using assms(4,6) d(1) v(1) by (simp add: t_def sync_answered_def)
  have "map mc_partition (filter (\<lambda>c. mc_topic c = topic) cs) = assigned a (jgr_member_id (members ! k)) topic" for topic
  proof -
    have "map mc_partition (filter (\<lambda>c. mc_topic c = topic) cs) =
        map snd (filter (\<lambda>x. fst x = topic) (map (\<lambda>c. (mc_topic c, mc_partition c)) cs))"
      by (simp add: filter_map comp_def)
    then show ?thesis using assigned_partitions_topic [OF d(2), of topic] d(3) [of topic] by (simp add: v(3))
  qed
  then show ?thesis using md v c(3) by (auto simp: t join_end_def)
qed

text \<open>Example: a member of the group g that follows another leader.\<close>

definition sample_group :: group_config where
  "sample_group = \<lparr>gcf_group_id = str_lit ''g'', gcf_topics = [str_lit ''t''], gcf_session_timeout_ms = 30000,
     gcf_initial_backoff_ms = 1000, gcf_retry_backoff_ms = 100, gcf_fatal_backoff_ms = 10000\<rparr>"

text \<open>Consumers stop at once, or keep their shutdown waiting.\<close>

definition sample_calls :: "call_result \<Rightarrow> group_env" where
  "sample_calls r = \<lparr>ge_start = (\<lambda>_. Inr None), ge_stop = (\<lambda>_. \<lparr>an_result = CallDone, an_error = None, an_running = False\<rparr>),
     ge_shutdown = (\<lambda>_. \<lparr>an_result = r, an_error = None, an_running = (r = CallWaiting)\<rparr>),
     ge_heartbeat = TwistedCancelledError, ge_join = TwistedCancelledError\<rparr>"

definition sample_joined :: join_group_response where
  "sample_joined = \<lparr>jgs_error = 0, jgs_generation_id = 5, jgs_group_protocol = str_lit ''consumer'', jgs_leader_id = str_lit ''l'',
     jgs_member_id = str_lit ''m'', jgs_members = []\<rparr>"

text \<open>The assignment of partition 0 of the topic t.\<close>

definition sample_synced :: sync_group_response where
  "sample_synced = \<lparr>sgs_error = 0,
     sgs_member_assignment = Some [0, 0, 0, 0, 0, 1, 0, 1, 116, 0, 0, 0, 1, 0, 0, 0, 0, 0, 0, 0, 0]\<rparr>"

definition sample_protocols :: "join_group_request_protocol list" where
  "sample_protocols = projr (join_group_protocols [str_lit ''t''])"

lemma sample_codec:
  "join_group_protocols [str_lit ''t''] = Inr sample_protocols"
  "decode_assignment (sgs_member_assignment sample_synced) = Inr [(str_lit ''t'', [0])]"
  by (simp add: sample_protocols_def join_group_protocols_def encode_join_group_protocol_metadata_def wire_eval) code_simp

lemma sample_names: "str_lit ''l'' \<noteq> str_lit ''m''" "str_lit ''m'' \<noteq> []"
  by (simp_all add: str_lit_def)

definition sample_join :: "nat \<Rightarrow> call_result \<Rightarrow> group_event list" where
  "sample_join k r = [CoordinatorFound k (Inr True), MetadataLoaded k (Inr ()) (sample_calls r)]"

definition sample_sync :: "nat \<Rightarrow> group_event list" where
  "sample_sync k = [SyncAnswer k (Inr sample_synced) (sample_calls CallDone)]"

abbreviation sample_group_run :: "group_event list \<Rightarrow> group option" where
  "sample_group_run \<equiv> group_run sample_group group_init"

text \<open>The definitions that evaluate these runs.\<close>

lemmas group_eval = group_apply_def group_start_def join_and_sync_def gr_emit_def join_phase_set_def join_end_def join_fail_def
  coordinator_found_def metadata_loaded_def shutdown_consumers_def send_join_group_request_def join_answered_def
  send_sync_group_request_def sync_answered_def assigned_partitions_def consumer_fails_def schedule_join_def
  group_init_def sample_codec sample_names sample_group_def sample_joined_def sample_calls_def sample_join_def sample_sync_def Let_def

definition sample_joining :: "group_event list" where
  "sample_joining = StartGroup # sample_join 1 CallDone @ [JoinAnswer 1 (Inr sample_joined) (sample_calls CallDone)]"

definition sample_syncing :: group where
  "sample_syncing = the (sample_group_run sample_joining)"

lemma sample_syncing_run:
  "sample_group_run sample_joining = Some sample_syncing" "dict_get (gr_joins sample_syncing) 1 = Some Syncing"
  "\<not> gr_stopping sample_syncing" "gr_rejoin_needed sample_syncing" "gr_start_d sample_syncing = Some 0"
  "gr_member_id sample_syncing = str_lit ''m''" "\<forall>e. JoinError e \<notin> set (gr_log sample_syncing)"
  "gr_rejoin_wait_dc sample_syncing = None" "gr_timers sample_syncing = 0"
  by (simp_all add: sample_syncing_def sample_joining_def group_eval)

definition sample_member :: group where
  "sample_member = the (sample_group_run (sample_joining @ sample_sync 1))"

lemma sample_member_run:
  "sample_group_run (sample_joining @ sample_sync 1) = Some sample_member" "\<not> gr_stopping sample_member"
  "gr_generation_id sample_member = Some 5" "map mc_id (gr_consumers sample_member) = [2]" "gr_start_d sample_member = Some 0"
  "\<not> gr_start_called sample_member"
  by (simp_all add: sample_member_def sample_joining_def group_eval)

lemma sample_group_reach: "sample_group_run es = Some s \<Longrightarrow> group_reach sample_group s"
  by (rule group_run_reach [OF reach_init]) simp_all

theorem group_membership_witness:
  "map mc_generation (gr_consumers sample_member) = [Some 5]"
proof -
  obtain c where "gr_consumers sample_member = [c]" using sample_member_run(4) by (cases "gr_consumers sample_member") auto
  with group_membership [OF sample_group_reach [OF sample_member_run(1)] sample_member_run(2)] show ?thesis
    by (simp add: sample_member_run(3))
qed

theorem rejoin_not_forgotten_witness:
  "gr_rejoin_needed sample_syncing \<and> gr_joins sample_syncing \<noteq> []"
  using rejoin_not_forgotten [OF sample_group_reach [OF sample_syncing_run(1)] _ sample_syncing_run(3,4,7)] sample_syncing_run(4,5,8,9) by simp

theorem group_start_fires_once_witness:
  "gfires 0 (gr_log sample_member) = 0"
  using group_start_fires_once [OF sample_group_reach [OF sample_member_run(1)], of 0] sample_member_run(5,6) by simp

theorem consumers_follow_leader_witness:
  "\<exists>resp. \<not> gr_rejoin_needed (sync_answered sample_group (sample_calls CallDone) 1 (Inr resp) sample_syncing)"
proof -
  let ?env = "sample_calls CallDone"
  from sample_generated obtain b out
    where gen: "generate_assignments [\<lparr>jgr_member_id = str_lit ''m'', jgr_member_metadata = Some b\<rparr>] [(str_lit ''t'', [4, 5])] = Some (Inr out)" by blast
  let ?resp = "\<lparr>sgs_error = 0, sgs_member_assignment = sgm_member_metadata (out ! 0)\<rparr>"
  have k: "0 < length [\<lparr>jgr_member_id = str_lit ''m'', jgr_member_metadata = Some b\<rparr>]" by simp
  have resp: "sgs_member_assignment ?resp = sgm_member_metadata (out ! 0)" by simp
  have env: "\<forall>i. ge_start ?env i = Inr None" by (simp add: sample_calls_def)
  have "\<not> gr_rejoin_needed (sync_answered sample_group ?env 1 (Inr ?resp) sample_syncing)"
    using consumers_follow_leader [OF gen k sample_group_reach [OF sample_syncing_run(1)] sample_syncing_run(3,2) resp env] by blast
  then show ?thesis by blast
qed

end
