(* ===== verification/Group_Faults.thy ===== *)
theory Group_Faults
  imports Group_Steps
begin

text \<open>
  Runs of a member of a consumer group that leave something behind: a join that is never tried again, consumers that run
  in a group that has stopped, a join request after the group was left.
\<close>

section \<open>A join that is never tried again\<close>

text \<open>Nothing is under way and nothing is scheduled.\<close>

definition stalled :: "group \<Rightarrow> bool" where
  "stalled s \<longleftrightarrow> gr_joins s = [] \<and> gr_rejoin_d s = None \<and> gr_timers s = 0 \<and> gr_rejoin_wait_dc s = None \<and> \<not> gr_heartbeat_looper s \<and>
     \<not> gr_heartbeat_request s \<and> gr_running s = [] \<and> gr_consumers s = [] \<and> gr_stops s = [] \<and> gr_leaving s = None \<and>
     \<not> gr_coordinator_broker s \<and> (if gr_stopping s then \<not> gr_rejoin_needed s else gr_start_d s \<noteq> None)"

lemma stalled_step:
  assumes "stalled s" "group_apply cfg s e = Some t"
  shows "stalled t \<and> filter silent (gr_log t) = filter silent (gr_log s)"
proof -
  have "stalled (group_start s) \<and> filter silent (gr_log (group_start s)) = filter silent (gr_log s)"
    using assms(1) by (auto simp: stalled_def group_start_def join_and_sync_def Let_def split: if_splits)
  moreover have "stalled (group_stop cfg env None s) \<and> filter silent (gr_log (group_stop cfg env None s)) = filter silent (gr_log s)" for env
  proof (cases "gr_start_d s = None \<or> gr_stopping s")
    case True
    then have "group_stop cfg env None s = s"
      using assms(1) by (simp add: stalled_def group_stop_def shutdown_consumers_def coordinator_stop_def)
    then show ?thesis using assms(1) by simp
  next
    case False
    then obtain d where d: "gr_start_d s = Some d" "\<not> gr_stopping s" by auto
    then show ?thesis using assms(1)
      by (simp add: stalled_def group_stop_def shutdown_consumers_def coordinator_stop_def coordinator_finish_def cancel_join_def gr_emit_def Let_def)
  qed
  moreover have "stalled (gr_emit (GFired d r) (s\<lparr>gr_start_called := True\<rparr>)) \<and>
      filter silent (gr_log (gr_emit (GFired d r) (s\<lparr>gr_start_called := True\<rparr>))) = filter silent (gr_log s)" for d r
    using assms(1) by (simp add: stalled_def gr_emit_def)
  moreover have "gr_joins s = []" "gr_timers s = 0" "gr_rejoin_wait_dc s = None" "\<not> gr_heartbeat_looper s" "\<not> gr_heartbeat_request s"
    "gr_running s = []" "gr_stops s = []" "gr_leaving s = None" using assms(1) by (simp_all add: stalled_def)
  ultimately show ?thesis using assms(2) by (cases e) (auto simp: group_apply_def awaited_def split: option.splits if_splits)
qed

lemma stalled_run: "stalled s \<Longrightarrow> group_run cfg s es = Some t \<Longrightarrow> filter silent (gr_log t) = filter silent (gr_log s)"
proof (induction es arbitrary: s)
  case (Cons e es)
  then obtain u where u: "group_apply cfg s e = Some u" "group_run cfg u es = Some t" by (auto split: option.splits)
  with stalled_step [OF Cons.prems(1) u(1)] Cons.IH [of u] show ?case by simp
qed simp

definition sample_stalled :: group where
  "sample_stalled = the (sample_group_run [StartGroup, CoordinatorFound 1 (Inr True), MetadataLoaded 1 (Inl KafkaUnavailableError) (sample_calls CallDone)])"

lemma sample_stalled_run:
  "sample_group_run [StartGroup, CoordinatorFound 1 (Inr True), MetadataLoaded 1 (Inl KafkaUnavailableError) (sample_calls CallDone)] = Some sample_stalled"
  "stalled sample_stalled" "gr_rejoin_needed sample_stalled" "gr_start_d sample_stalled = Some 0" "\<not> gr_stopping sample_stalled"
  by (simp_all add: sample_stalled_def stalled_def group_eval)

text \<open>
  A failed join may never be tried again: when the metadata of the topics cannot be loaded, even for an error of
  Kafka, the exception ends \<open>_join_and_sync\<close> and is only logged. There is a run in which this happens in the first join, with no consumer
  running and no heartbeats: the group needs a join, nothing is scheduled, and whatever happens afterwards it sends no request any more.
\<close>

theorem metadata_error_strands:
  "(\<exists>cfg s t e env. group_reach cfg s \<and> is_KafkaError e \<and> group_step cfg s (MetadataLoaded 1 (Inl e) env) t \<and>
      gr_rejoin_needed t \<and> gr_start_d t \<noteq> None \<and> \<not> gr_stopping t \<and> stalled t) \<and>
   (\<forall>cfg s es t. stalled s \<longrightarrow> group_run cfg s es = Some t \<longrightarrow> filter silent (gr_log t) = filter silent (gr_log s))"
proof (intro conjI allI impI)
  define s where "s = the (sample_group_run [StartGroup, CoordinatorFound 1 (Inr True)])"
  have "sample_group_run [StartGroup, CoordinatorFound 1 (Inr True)] = Some s" by (simp add: s_def group_eval)
  moreover have "group_step sample_group s (MetadataLoaded 1 (Inl KafkaUnavailableError) (sample_calls CallDone)) sample_stalled"
    by (simp add: s_def group_step_def sample_stalled_def group_eval)
  moreover have "is_KafkaError KafkaUnavailableError" by simp
  ultimately show "\<exists>cfg s t e env. group_reach cfg s \<and> is_KafkaError e \<and> group_step cfg s (MetadataLoaded 1 (Inl e) env) t \<and>
      gr_rejoin_needed t \<and> gr_start_d t \<noteq> None \<and> \<not> gr_stopping t \<and> stalled t"
    using sample_group_reach sample_stalled_run by (metis option.distinct(1))
qed (rule stalled_run)

theorem metadata_error_strands_witness:
  "\<exists>t. group_run sample_group sample_stalled [StopGroup (sample_calls CallDone), StartGroup] = Some t \<and>
     gr_start_d t \<noteq> None \<and> filter silent (gr_log t) = filter silent (gr_log sample_stalled)"
proof -
  define t where "t = the (group_run sample_group sample_stalled [StopGroup (sample_calls CallDone), StartGroup])"
  have "group_run sample_group sample_stalled [StopGroup (sample_calls CallDone), StartGroup] = Some t" "gr_start_d t \<noteq> None"
    by (simp_all add: t_def sample_stalled_def group_eval group_stop_def coordinator_stop_def coordinator_finish_def cancel_join_def)
  with metadata_error_strands sample_stalled_run(2) show ?thesis by blast
qed

section \<open>What a stop leaves behind\<close>

lemmas stop_eval = group_eval group_stop_def coordinator_stop_def coordinator_finish_def cancel_join_def leave_answered_def
  heartbeat_def heartbeat_answered_def handle_heartbeat_failure_def rejoin_after_error_def rejoin_with_def rejoin_core_def
  schedule_rejoin_def after_call_def consumer_down_def awaited_def join_waits_def one_down_def stop_rest_def stop_all_def stop_call_def
  sample_joining_def

text \<open>The group after a stop that a rebalance has overtaken.\<close>

definition sample_left :: group where
  "sample_left = the (sample_group_run (sample_joining @ sample_sync 1 @
     [StopGroup (sample_calls CallWaiting), HeartbeatTick,
      HeartbeatAnswer (Inl (BrokerResponse RebalanceInProgress)) (sample_calls CallDone), RejoinTick] @ sample_join 3 CallDone @
     [JoinAnswer 3 (Inr sample_joined) (sample_calls CallDone)] @ sample_sync 3 @
     [ConsumerDown 2 \<lparr>an_result = CallDone, an_error = None, an_running = False\<rparr> (sample_calls CallDone),
      LeaveAnswer (Inr ()) (sample_calls CallDone)]))"

text \<open>
  A group that has stopped may still run consumers: \<open>stop\<close> waits for the shutdown of the consumers before it
  marks the group as stopping. In the run below a rebalance comes in between: the group joins again, without
  waiting for the old consumers, and starts new ones, for the same partition; then the stop is carried out, the deferred of
  \<open>start\<close> succeeds, and the new consumers are not stopped.
\<close>

theorem stopped_group_consumes:
  "\<exists>cfg s d c. group_reach cfg s \<and> gr_start_d s = None \<and> GFired d None \<in> set (gr_log s) \<and> gr_leaving s = None \<and> gr_stops s = [] \<and>
     c \<in> set (gr_consumers s) \<and> mc_id c \<in> set (gr_running s)"
proof -
  have "sample_group_run (sample_joining @ sample_sync 1 @
     [StopGroup (sample_calls CallWaiting), HeartbeatTick,
      HeartbeatAnswer (Inl (BrokerResponse RebalanceInProgress)) (sample_calls CallDone), RejoinTick] @ sample_join 3 CallDone @
     [JoinAnswer 3 (Inr sample_joined) (sample_calls CallDone)] @ sample_sync 3 @
     [ConsumerDown 2 \<lparr>an_result = CallDone, an_error = None, an_running = False\<rparr> (sample_calls CallDone),
      LeaveAnswer (Inr ()) (sample_calls CallDone)]) = Some sample_left"
    by (simp add: sample_left_def stop_eval)
  moreover have "gr_start_d sample_left = None" "GFired 0 None \<in> set (gr_log sample_left)" "gr_leaving sample_left = None" "gr_stops sample_left = []"
    "map mc_id (gr_consumers sample_left) = [4]" "gr_running sample_left = [4]"
    by (simp_all add: sample_left_def stop_eval)
  moreover from this obtain c where "c \<in> set (gr_consumers sample_left)" "mc_id c \<in> set (gr_running sample_left)"
    by (cases "gr_consumers sample_left") auto
  ultimately show ?thesis using sample_group_reach by blast
qed

text \<open>
  A group that is stopped while it waits for its consumers before a join: when the leave request has been answered,
  \<open>stop\<close> cancels the join, which takes the failed shutdown of the consumers for its end and sends a join request. The broker then
  has a member that nobody runs.
\<close>

definition sample_rejoined :: group where
  "sample_rejoined = the (sample_group_run (sample_joining @ sample_sync 1 @
     [HeartbeatTick, HeartbeatAnswer (Inl (BrokerResponse RebalanceInProgress)) (sample_calls CallDone), RejoinTick] @
     sample_join 3 CallWaiting @ [StopGroup (sample_calls CallDone), LeaveAnswer (Inr ()) (sample_calls CallDone)]))"

theorem joins_after_leaving:
  "\<exists>cfg s xs m ps ys. group_reach cfg s \<and> gr_start_d s = None \<and> gr_log s = xs @ SendJoin m ps # ys \<and> (\<exists>m'. SendLeave m' \<in> set xs)"
proof -
  have "sample_group_run (sample_joining @ sample_sync 1 @
     [HeartbeatTick, HeartbeatAnswer (Inl (BrokerResponse RebalanceInProgress)) (sample_calls CallDone), RejoinTick] @
     sample_join 3 CallWaiting @ [StopGroup (sample_calls CallDone), LeaveAnswer (Inr ()) (sample_calls CallDone)]) = Some sample_rejoined"
    by (simp add: sample_rejoined_def stop_eval)
  moreover have "gr_start_d sample_rejoined = None" "SendJoin [] sample_protocols \<in> set (drop (length (gr_log sample_rejoined) - 2) (gr_log sample_rejoined))"
    "SendLeave (str_lit ''m'') \<in> set (take (length (gr_log sample_rejoined) - 2) (gr_log sample_rejoined))"
    by (simp_all add: sample_rejoined_def stop_eval)
  moreover from split_list [OF this(2)] obtain us ys
    where "drop (length (gr_log sample_rejoined) - 2) (gr_log sample_rejoined) = us @ SendJoin [] sample_protocols # ys" by blast
  moreover from this have "gr_log sample_rejoined = (take (length (gr_log sample_rejoined) - 2) (gr_log sample_rejoined) @ us) @ SendJoin [] sample_protocols # ys"
    by (metis append.assoc append_take_drop_id)
  ultimately show ?thesis using sample_group_reach by (metis UnCI set_append)
qed

text \<open>A group that was stopped accepts \<open>start\<close> and does nothing: \<open>_stopping\<close> stays set and no join is needed.\<close>

theorem stopped_group_restarts_idle:
  "case sample_group_run [StartGroup, StopGroup (sample_calls CallDone), StartGroup] of None \<Rightarrow> False
   | Some s \<Rightarrow> gr_start_d s \<noteq> None \<and> gr_joins s = [] \<and> gr_timers s = 0 \<and> gr_rejoin_wait_dc s = None \<and>
       filter silent (gr_log s) = [LookUpCoordinator, JoinError TwistedCancelledError]"
  by (simp add: stop_eval get_coordinator_failed_def)

end
