(* ===== verification/Consumer_Contract.thy ===== *)
theory Consumer_Contract
  imports Consumer_Steps
begin

text \<open>
  What the owner of a \<open>Consumer\<close> may rely on: when the deferred of \<open>shutdown\<close> fires the consumer has ended, and \<open>stop\<close> always
  ends a consumer that was started once, as \<open>ConsumerGroup\<close> does it. (A consumer that is started again does not keep the second
  promise, see \<open>Consumer_Faults\<close>.)
\<close>

section \<open>While the consumer stays started\<close>

text \<open>The deferreds that the consumer may fire while it stays started, and how often it was started.\<close>

definition others :: "consumer \<Rightarrow> nat set" where
  "others s = (if co_start_called s then {} else set_option (co_start_d s)) \<union> set (concat (map waiter_d (co_commit_ds s)))"

fun is_started :: "consumer_effect \<Rightarrow> bool" where
  "is_started (Started off) = True"
| "is_started _ = False"

definition starts :: "consumer_effect list \<Rightarrow> nat" where
  "starts es = length (filter is_started es)"

lemma starts_simps [simp]: "starts [] = 0" "starts (e # es) = (if is_started e then 1 else 0) + starts es" "starts (es @ fs) = starts es + starts fs"
  by (simp_all add: starts_def)

definition lasting :: "consumer \<Rightarrow> consumer \<Rightarrow> bool" where
  "lasting s t \<longleftrightarrow> starts (co_log t) = starts (co_log s) \<and> (co_start_d s = None \<longrightarrow> co_start_d t = None) \<and>
     (co_start_d t \<noteq> None \<longrightarrow> co_start_d t = co_start_d s \<and> others t \<subseteq> others s \<and>
        (\<forall>d. d \<notin> others s \<longrightarrow> cfires d (co_log t) = cfires d (co_log s)))"

lemma lasting_refl [simp]: "lasting s s"
  by (simp add: lasting_def)

lemma lasting_trans: "lasting s t \<Longrightarrow> lasting t u \<Longrightarrow> lasting s u"
  unfolding lasting_def by (metis subset_iff)

lemma unheard_effects: "list_all unheard es \<Longrightarrow> starts es = 0 \<and> cfires d es = 0"
proof (induction es)
  case (Cons e es)
  then show ?case by (cases e) simp_all
qed simp

lemmas lasting_defs = lasting_def others_def co_fire_def co_emit_def

interpretation lasts: deferred_relation lasting
proof
  fix s t u :: consumer and es ws w d and r :: "int option result" and e b
  show "lasting s s" by simp
  show "lasting s t \<Longrightarrow> lasting t u \<Longrightarrow> lasting s u" by (rule lasting_trans)
  show "lasting s t" if "co_start_d t = co_start_d s" "co_start_called t = co_start_called s" "co_shutdown_d t = co_shutdown_d s"
    "co_commit_ds t = co_commit_ds s" "co_next_d t = co_next_d s" "co_log t = co_log s @ es" "list_all unheard es"
    using that unheard_effects [OF that(7)] by (simp add: lasting_def others_def)
  show "lasting s (co_fire d (Inl e) (s\<lparr>co_start_called := True\<rparr>))" if "co_start_d s = Some d" "\<not> co_start_called s"
    using that by (auto simp: lasting_defs)
  show "lasting s (if co_start_called s then s\<lparr>co_start_d := None\<rparr> else co_fire d r (s\<lparr>co_start_d := None\<rparr>))" if "co_start_d s = Some d"
    by (simp add: lasting_defs)
  show "lasting s (s\<lparr>co_commit_ds := co_commit_ds s @ [w]\<rparr>)" if "waiter_d w = []" using that by (simp add: lasting_defs)
  show "lasting s (s\<lparr>co_commit_ds := ws\<rparr>)" if "co_commit_ds s = ws @ [w]" "waiter_d w = []" using that by (simp add: lasting_defs)
  show "lasting s (co_fire d r (s\<lparr>co_commit_ds := ws\<rparr>))" if "co_commit_ds s = ws @ [w]" "waiter_d w = [d]"
    using that by (auto simp: lasting_defs)
  show "lasting (s\<lparr>co_commit_ds := co_commit_ds s @ ws\<rparr>) (t\<lparr>co_commit_ds := co_commit_ds t @ ws\<rparr>)" if "lasting s t"
  proof -
    have u: "others (v\<lparr>co_commit_ds := co_commit_ds v @ ws\<rparr>) = others v \<union> set (concat (map waiter_d ws))"
      "co_log (v\<lparr>co_commit_ds := co_commit_ds v @ ws\<rparr>) = co_log v" "co_start_d (v\<lparr>co_commit_ds := co_commit_ds v @ ws\<rparr>) = co_start_d v" for v
      by (auto simp: others_def)
    show ?thesis using that unfolding lasting_def u by blast
  qed
  show "lasting s (s\<lparr>co_shutdown_d := None\<rparr>)" by (simp add: lasting_defs)
  show "lasting s (co_fire d r (t\<lparr>co_shuttingdown := b\<rparr>))" if "lasting (s\<lparr>co_shutdown_d := None\<rparr>) t" "co_start_d t = None"
    using that by (simp add: lasting_def co_fire_def co_emit_def)
qed

section \<open>The deferred of a shutdown\<close>

text \<open>The deferred of \<open>shutdown\<close> is none of the others.\<close>

lemma shutdown_d_apart:
  assumes "once_inv s" "co_shutdown_d s = Some d"
  shows "d \<notin> others s" "cfires d (co_log s) = 0" "d < co_next_d s"
proof -
  have w: "cfires d (co_log s) + count_list (held s) d \<le> (if d < co_next_d s then 1 else 0)"
    using assms(1) by (simp add: once_inv_def weight_def)
  moreover have "count_list (held s) d =
      Suc (count_list ((if co_start_called s then [] else case co_start_d s of None \<Rightarrow> [] | Some d \<Rightarrow> [d]) @
        concat (map waiter_d (co_commit_ds s))) d)"
    using assms(2) by (simp add: held_def)
  ultimately have c: "count_list ((if co_start_called s then [] else case co_start_d s of None \<Rightarrow> [] | Some d \<Rightarrow> [d]) @
        concat (map waiter_d (co_commit_ds s))) d = 0" and "cfires d (co_log s) = 0" "d < co_next_d s"
    by (auto split: if_splits)
  then show "cfires d (co_log s) = 0" "d < co_next_d s" by simp_all
  from c show "d \<notin> others s"
    unfolding count_list_0_iff by (auto simp: others_def split: if_splits)
qed

text \<open>A relation weaker than \<open>lasting\<close>, which also the calls that hand out deferreds satisfy.\<close>

definition keeps_pending :: "nat \<Rightarrow> consumer \<Rightarrow> consumer \<Rightarrow> bool" where
  "keeps_pending d s t \<longleftrightarrow> (co_start_d t \<noteq> None \<longrightarrow> cfires d (co_log t) = cfires d (co_log s))"

lemma lasting_pending: "lasting s t \<Longrightarrow> d \<notin> others s \<Longrightarrow> keeps_pending d s t"
  unfolding lasting_def keeps_pending_def by blast

lemma start_pending:
  assumes "d \<notin> others s" "d < co_next_d s"
  shows "keeps_pending d s (fst (co_start cfg off s))"
proof (cases "co_start_d s")
  case None
  let ?s = "co_emit (Started off) (s\<lparr>co_start_d := Some (co_next_d s), co_start_called := False,
     co_next_d := Suc (co_next_d s), co_fetch_offset := off\<rparr>)"
  have "d \<notin> others ?s" using assms by (auto simp: others_def co_emit_def split: if_splits)
  then have "keeps_pending d ?s (fst (do_fetch cfg ?s))" by (rule lasting_pending [OF lasts.do_fetch_rel])
  moreover obtain t r where "do_fetch cfg ?s = (t, r)" by force
  ultimately show ?thesis by (simp add: co_start_def None keeps_pending_def co_emit_def split: sum.split)
qed (simp add: co_start_def keeps_pending_def)

lemma commit_pending:
  assumes "d < co_next_d s"
  shows "cfires d (co_log (co_commit cfg s)) = cfires d (co_log s)"
  using assms by (auto simp: co_commit_def commit_request_def send_commit_request_def co_fire_def co_emit_def Let_def split: prod.split)

lemma shutdown_pending:
  assumes "once_inv s"
  shows "snd (shutdown cfg env s) = Inr () \<Longrightarrow> keeps_pending (co_next_d s) s (fst (shutdown cfg env s))"
    and "co_shutdown_d s \<noteq> None \<Longrightarrow> shutdown cfg env s = (s, Inl RestopError)"
proof -
  have n: "co_next_d s \<notin> others s"
  proof -
    have "count_list (held s) (co_next_d s) = 0"
      using assms [unfolded once_inv_def weight_def, rule_format, of "co_next_d s"] by simp
    then show ?thesis unfolding count_list_0_iff by (auto simp: held_def others_def split: if_splits)
  qed
  define t where "t = s\<lparr>co_shuttingdown := True, co_max_attempts := (if co_max_attempts s = 0 then 2 else co_max_attempts s),
     co_shutdown_d := Some (co_next_d s), co_next_d := Suc (co_next_d s)\<rparr>"
  have "others t = others s" by (simp add: t_def others_def)
  with n have "keeps_pending (co_next_d s) t (fst (commit_and_stop cfg env t))"
    by (intro lasting_pending lasts.commit_and_stop_rel) simp
  then have "keeps_pending (co_next_d s) s (fst (commit_and_stop cfg env t))" by (simp add: keeps_pending_def t_def)
  moreover assume "snd (shutdown cfg env s) = Inr ()"
  ultimately show "keeps_pending (co_next_d s) s (fst (shutdown cfg env s))"
    unfolding shutdown_def Let_def t_def [symmetric] by (auto simp: keeps_pending_def t_def split: option.split)
qed (simp add: shutdown_def)

lemma step_pending:
  assumes "once_inv s" "co_step cfg s e t" "co_shutdown_d s = Some d"
  shows "keeps_pending d s t"
proof -
  note d = shutdown_d_apart [OF assms(1,3)]
  note l = lasting_pending [OF _ d(1)]
  have "keeps_pending d s (co_commit cfg s)" using commit_pending [OF d(3)] by (simp add: keeps_pending_def)
  moreover have "keeps_pending d s (fst (shutdown cfg env s))" for env
    using shutdown_pending(2) [OF assms(1)] assms(3) by (simp add: keeps_pending_def)
  ultimately show ?thesis using assms(2) start_pending [OF d(1,3)]
    by (cases e) (auto simp: co_step_def co_apply_def split: option.splits consumer_request.splits if_splits bool.splits prod.splits
      intro: l lasts.co_stop_rel lasts.handle_offset_error_rel lasts.handle_fetch_error_rel lasts.handle_offset_response_rel
        lasts.fetch_answered_rel lasts.processor_answered_rel lasts.commit_answered_rel lasts.calls_rel lasts.auto_commit_rel)
qed

lemma fired_ended:
  assumes "co_reach cfg b n s" "co_step cfg s e t"
    and "co_shutdown_d s = Some d \<or> d = co_next_d s \<and> (\<exists>env. e = ShutdownConsumer env \<and> snd (shutdown cfg env s) = Inr ())"
    and "0 < cfires d (co_log t)"
  shows "co_start_d t = None"
proof -
  have inv: "once_inv s" using once.reach_invar [OF assms(1)] .
  have none: "cfires d (co_log s) = 0"
    using assms(3) shutdown_d_apart(2) [OF inv] inv [unfolded once_inv_def weight_def, rule_format, of d] by auto
  have "keeps_pending d s t"
    using assms(3) step_pending [OF inv assms(2)] shutdown_pending(1) [OF inv] assms(2)
    by (auto simp: co_step_def co_apply_def)
  with none assms(4) show ?thesis by (auto simp: keeps_pending_def)
qed

text \<open>
  C22. When the deferred that \<open>shutdown\<close> returned fires, with a result or with an error, the consumer has ended: in every run, in
  the call of \<open>shutdown\<close> itself and in every later step up to the one in which the deferred fires, if the deferred has fired
  after the step then \<open>_start_d\<close> is \<open>None\<close>.
\<close>

theorem shutdown_means_stopped:
  assumes "co_reach cfg b n s" "co_step cfg s e t"
    and "co_shutdown_d s = Some d \<or> d = co_next_d s \<and> (\<exists>env. e = ShutdownConsumer env \<and> snd (shutdown cfg env s) = Inr ())"
    and "0 < cfires d (co_log t)"
  shows "co_start_d t = None"
  by (rule fired_ended [OF assms])

text \<open>
  Example: messages 5 and 6 are processed and committed, then message 7 is processed, and the shutdown commits its offset, and fires when the
  answer arrives.
\<close>

definition sample_closing :: consumer where
  "sample_closing = the (sample_run 2 [StartConsumer 5, sample_fetched [4, 5, 6] (Inr ()), ProcessorAnswer (Inr ()) sample_env,
     CommitAnswer (Inr ()) sample_env, RetryTimer, sample_fetched [7] (Inr ()), ProcessorAnswer (Inr ()) sample_env, ShutdownConsumer sample_env])"

definition sample_closed :: consumer where
  "sample_closed = commit_answered (sample_consumer 2) sample_env (Inr ()) sample_closing"

lemma sample_closing_run:
  "sample_run 2 [StartConsumer 5, sample_fetched [4, 5, 6] (Inr ()), ProcessorAnswer (Inr ()) sample_env,
     CommitAnswer (Inr ()) sample_env, RetryTimer, sample_fetched [7] (Inr ()), ProcessorAnswer (Inr ()) sample_env,
     ShutdownConsumer sample_env] = Some sample_closing"
  by code_simp

theorem shutdown_means_stopped_witness:
  "co_start_d sample_closing = Some 0 \<and> co_shutdown_d sample_closing = Some 1 \<and> cfires 1 (co_log sample_closing) = 0 \<and>
   0 < cfires 1 (co_log sample_closed) \<and> co_start_d sample_closed = None"
proof -
  have step: "co_step (sample_consumer 2) sample_closing (CommitAnswer (Inr ()) sample_env) sample_closed"
    unfolding co_step_def by code_simp
  have *: "co_start_d sample_closing = Some 0 \<and> co_shutdown_d sample_closing = Some 1 \<and> cfires 1 (co_log sample_closing) = 0 \<and>
    0 < cfires 1 (co_log sample_closed)" by code_simp
  with shutdown_means_stopped [OF sample_consumer_reach [OF sample_closing_run] step, of 1] show ?thesis by simp
qed

section \<open>Stopping\<close>

text \<open>No delayed call that has been cancelled is kept, and no fetch is scheduled while a request is under way.\<close>

definition calls_ok :: "consumer \<Rightarrow> bool" where
  "calls_ok s \<longleftrightarrow> co_retry_call s \<noteq> Some False \<and> (\<forall>x. co_commit_call s \<noteq> Some (False, x)) \<and>
     (co_retry_call s \<noteq> None \<longrightarrow> co_request s = None)"

definition sound :: "consumer \<Rightarrow> bool" where
  "sound s \<longleftrightarrow> (co_start_d s \<noteq> None \<longrightarrow> calls_ok s)"

text \<open>What the methods that handle messages and commits do to the delayed calls.\<close>

definition calm :: "consumer \<Rightarrow> consumer \<Rightarrow> bool" where
  "calm s t \<longleftrightarrow> co_start_d t = co_start_d s \<and> co_request t = co_request s \<and> co_retry_call t = co_retry_call s \<and>
     ((\<exists>x. co_commit_call t = Some (False, x)) \<longrightarrow> (\<exists>x. co_commit_call s = Some (False, x)))"

lemma calm_refl [simp]: "calm s s"
  by (simp add: calm_def)

lemma calm_trans: "calm s t \<Longrightarrow> calm t u \<Longrightarrow> calm s u"
  by (simp add: calm_def)

lemma calm_sound: "calm s t \<Longrightarrow> sound s \<Longrightarrow> sound t"
  unfolding calm_def sound_def calls_ok_def by metis

lemma calm_field:
  "co_start_d t = co_start_d s \<Longrightarrow> co_request t = co_request s \<Longrightarrow> co_retry_call t = co_retry_call s \<Longrightarrow> co_commit_call t = co_commit_call s \<Longrightarrow> calm s t"
  by (simp add: calm_def)

lemma co_fire_calm: "calm s (co_fire d r s)"
  by (rule calm_field) (simp_all add: co_fire_def co_emit_def)

lemma start_errback_calm: "calm s (fst (start_errback e s))"
  by (rule calm_field) (simp_all add: start_errback_def co_fire_def co_emit_def split: option.split)

lemma send_commit_request_calm: "calm s (fst (send_commit_request delay attempt s))"
  by (simp add: send_commit_request_def calm_def co_emit_def Let_def split: option.split bool.split)

lemma commit_request_calm: "calm s (fst (commit_request cfg w w' s))"
proof -
  have "calm s (s\<lparr>co_commit_ds := ws\<rparr>)" for ws by (rule calm_field) simp_all
  moreover obtain t r where "send_commit_request (cc_retry_init_delay cfg) 1 (s\<lparr>co_commit_ds := [w]\<rparr>) = (t, r)" by force
  ultimately show ?thesis
    using calm_trans [OF _ send_commit_request_calm, of s "s\<lparr>co_commit_ds := [w]\<rparr>" "cc_retry_init_delay cfg" 1]
    by (simp add: commit_request_def split: sum.split)
qed

lemma handle_auto_commit_error_calm: "calm s (handle_auto_commit_error e s)"
  by (simp add: handle_auto_commit_error_def start_errback_calm)

lemma auto_commit_calm: "calm s (fst (auto_commit cfg by_count s))"
proof -
  obtain t r where c: "commit_request cfg AutoCommit AutoCommit s = (t, r)" by force
  then have t: "calm s t" using commit_request_calm [of s cfg AutoCommit AutoCommit] by simp
  then have "calm s (handle_auto_commit_error e t)" for e using calm_trans handle_auto_commit_error_calm by blast
  moreover have "calm s (s\<lparr>co_commit_ds := ws\<rparr>)" for ws by (rule calm_field) simp_all
  ultimately show ?thesis using t by (auto simp: auto_commit_def c split: option.split commit_outcome.split sum.split)
qed

lemma processor_done_calm: "calm s (fst (processor_done cfg r off s))"
proof -
  have "calm s (co_emit (Processed off) (s\<lparr>co_last_processed := Some off\<rparr>))" by (rule calm_field) (simp_all add: co_emit_def)
  then have u: "calm s (fst (update_processed_offset cfg off s))"
    unfolding update_processed_offset_def using calm_trans auto_commit_calm by blast
  have h: "calm t (fst (handle_processor_error e t))" for e t by (simp add: handle_processor_error_def start_errback_calm)
  obtain t q where t: "update_processed_offset cfg off s = (t, q)" by force
  with u have "calm s (fst (handle_processor_error e t))" for e using calm_trans h by (metis fst_conv)
  then show ?thesis using u h by (simp add: processor_done_def t split: sum.split)
qed

lemma process_next_kept:
  assumes "\<And>t. Q t \<Longrightarrow> Q (finish t)" "\<And>t u. calm t u \<Longrightarrow> Q t \<Longrightarrow> Q u" "Q s"
  shows "Q (process_next cfg late finish rest s)"
proof -
  let ?s = "co_emit (CallProcessor (take (block_size cfg rest) rest)) (s\<lparr>co_processor := None\<rparr>)"
  have s: "calm s ?s" "calm s (?s\<lparr>co_processor := q\<rparr>)" for q by (rule calm_field; simp add: co_emit_def)+
  have "Q (finish (fst (processor_done cfg late off ?s)))" for off
    by (rule assms(1), rule assms(2) [OF processor_done_calm], rule assms(2) [OF s(1) assms(3)])
  then show ?thesis using assms(1,3) assms(2) [OF s(2) assms(3)] by (simp add: process_next_def Let_def)
qed

lemma retry_fetch_sound: "sound s \<Longrightarrow> co_request s = None \<Longrightarrow> sound (retry_fetch cfg after s)"
  by (auto simp: retry_fetch_def sound_def calls_ok_def co_emit_def Let_def split: option.split)

lemma request_sound: "sound s \<Longrightarrow> sound (s\<lparr>co_request := None\<rparr>)" "sound s \<Longrightarrow> sound (s\<lparr>co_request := None, co_fetch_offset := off\<rparr>)"
  by (simp_all add: sound_def calls_ok_def)

lemma handle_error_sound:
  assumes "sound s"
  shows "sound (fst (handle_offset_error cfg e s))" "sound (fst (handle_fetch_error cfg e s))"
  using request_sound [OF assms] retry_fetch_sound [OF request_sound(1) [OF assms]] retry_fetch_sound [OF request_sound(2) [OF assms]]
    calm_sound [OF start_errback_calm request_sound(1) [OF assms]] calm_sound [OF start_errback_calm request_sound(2) [OF assms]]
  by (simp_all add: handle_offset_error_def handle_fetch_error_def Let_def)

lemma do_fetch_sound:
  assumes "co_start_d s \<noteq> None \<Longrightarrow> \<forall>x. co_commit_call s \<noteq> Some (False, x)" "co_request s = None"
  shows "sound (fst (do_fetch cfg s))"
proof -
  let ?s = "s\<lparr>co_retry_call := None\<rparr>"
  define u where "u = (if has_group cfg then (?s, Inr ()) else start_errback InvalidConsumerGroupError ?s)"
  have "calm ?s (fst u)" by (simp add: u_def start_errback_calm)
  then have "sound (fst u)" "sound (co_emit x ((fst u)\<lparr>co_request := q\<rparr>))" for x q
    using assms by (auto simp: calm_def sound_def calls_ok_def co_emit_def)
  moreover have "sound (co_emit x (?s\<lparr>co_request := q\<rparr>))" for x q using assms by (auto simp: sound_def calls_ok_def co_emit_def)
  ultimately show ?thesis
    using assms(2) unfolding do_fetch_def Let_def u_def [symmetric] by (cases u) (auto split: sum.split)
qed

lemma handle_offset_response_sound:
  assumes "sound s"
  shows "sound (fst (handle_offset_response cfg rs s))"
proof -
  have c: "co_start_d s \<noteq> None \<Longrightarrow> \<forall>x. co_commit_call s \<noteq> Some (False, x)" using assms by (simp add: sound_def calls_ok_def)
  let ?s = "s\<lparr>co_request := None, co_retry_delay := cc_retry_init_delay cfg, co_fetch_attempt_count := 1\<rparr>"
  have "sound ?s" using assms by (simp add: sound_def calls_ok_def)
  moreover have "sound (fst (do_fetch cfg (?s\<lparr>co_fetch_offset := off\<rparr>)))"
    "sound (fst (do_fetch cfg (?s\<lparr>co_fetch_offset := off, co_last_committed := l\<rparr>)))" for off l
    by (rule do_fetch_sound; use c in simp)+
  ultimately show ?thesis by (simp add: handle_offset_response_def Let_def split: list.split offset_answer.split)
qed

lemma handle_fetch_now_sound:
  assumes "sound s"
  shows "sound (fst (handle_fetch_now cfg late rs s))"
proof -
  obtain taken off ended where x: "take_responses (cc_partition cfg) (co_fetch_offset s) rs = (taken, off, ended)"
    by (metis surj_pair)
  let ?s = "s\<lparr>co_retry_delay := cc_retry_init_delay cfg, co_fetch_attempt_count := 1, co_request := None, co_fetch_offset := off\<rparr>"
  define Q where "Q t \<longleftrightarrow> sound t \<and> co_request t = None" for t
  have calm: "Q v" if "calm u v" "Q u" for u v using that calm_sound [OF that(1)] by (simp add: Q_def calm_def)
  have s: "Q ?s" using assms by (simp add: Q_def sound_def calls_ok_def)
  obtain t fe where e: "end_of_messages cfg ended ?s = (t, fe)" by force
  have "calm ?s (?s\<lparr>co_buffer_size := n\<rparr>)" for n by (rule calm_field) simp_all
  then have "calm ?s t" using end_of_messages_cases [OF e] start_errback_calm calm_refl by blast
  then have t: "Q t" by (rule calm [OF _ s])
  have b: "calm u (u\<lparr>co_msg_block_d := v\<rparr>)" for u v by (rule calm_field) simp_all
  define u where "u = (if taken = [] then t
    else process_next cfg late (\<lambda>s. s\<lparr>co_msg_block_d := False\<rparr>) (map (sourced cfg) taken) (t\<lparr>co_msg_block_d := True\<rparr>))"
  have "Q u" unfolding u_def using t process_next_kept [where Q = Q, OF calm [OF b] calm calm [OF b t]] by simp
  then show ?thesis using retry_fetch_sound unfolding handle_fetch_now_def x e prod.case Let_def u_def [symmetric]
    by (simp add: Q_def split: fetch_end.split)
qed

lemma fetch_answered_sound:
  assumes "sound s" "co_request s = Some AskMessages"
  shows "sound (fetch_answered cfg late rs s)"
proof -
  obtain t r where t: "handle_fetch_now cfg late rs s = (t, r)" by force
  then have "sound t" using handle_fetch_now_sound [OF assms(1), of cfg late rs] by simp
  moreover from this have "sound (fst (handle_fetch_error cfg e t))" for e by (rule handle_error_sound)
  moreover have "sound (s\<lparr>co_retry_delay := cc_retry_init_delay cfg, co_fetch_attempt_count := 1, co_request := q\<rparr>)" for q
    using assms by (auto simp: sound_def calls_ok_def)
  ultimately show ?thesis by (simp add: fetch_answered_def t split: sum.split)
qed

lemma end_block_sound:
  assumes "sound s"
  shows "sound (end_block cfg late s)"
proof -
  have s: "sound (s\<lparr>co_msg_block_d := False\<rparr>)" using assms by (simp add: sound_def calls_ok_def)
  then show ?thesis using handle_fetch_now_sound [OF s] assms
    by (simp add: end_block_def Let_def split: option.split consumer_request.split)
qed

lemma resume_sound:
  assumes "sound s"
  shows "sound (resume cfg late r s)"
proof (cases "co_processor s")
  case (Some p)
  obtain off rest w where p: "p = (off, rest, w)" by (metis surj_pair)
  have "calm s (s\<lparr>co_processor := None\<rparr>)" by (rule calm_field) simp_all
  then have s: "sound (s\<lparr>co_processor := None\<rparr>)" by (rule calm_sound [OF _ assms])
  obtain t q where t: "processor_done cfg r off (s\<lparr>co_processor := None\<rparr>) = (t, q)" by force
  have "sound t" using calm_sound [OF processor_done_calm s, of cfg r off] by (simp add: t)
  then show ?thesis
    using process_next_kept [where Q = sound, OF end_block_sound calm_sound] by (simp add: resume_def Some p t split: sum.split)
qed (use assms in \<open>simp add: resume_def\<close>)

lemma stop_head_sound:
  assumes "sound s"
  shows "sound (stop_head cfg env s)"
proof -
  let ?s = "s\<lparr>co_stopping := True\<rparr>"
  have s: "sound ?s" using assms by (simp add: sound_def calls_ok_def)
  define t where "t = (case co_request ?s of
      Some AskOffset \<Rightarrow> fst (handle_offset_error cfg (se_request env) ?s)
    | Some AskCommitted \<Rightarrow> fst (handle_offset_error cfg (se_request env) ?s)
    | Some AskMessages \<Rightarrow> fst (handle_fetch_error cfg (se_request env) ?s)
    | _ \<Rightarrow> ?s)"
  have "sound t" unfolding t_def using s handle_error_sound [OF s] by (simp split: option.split consumer_request.split)
  then have "sound (t\<lparr>co_msg_block_d := False, co_request := q\<rparr>)" if "co_request t = None \<longrightarrow> q = None" for q
    using that by (auto simp: sound_def calls_ok_def)
  then show ?thesis unfolding stop_head_def Let_def t_def by (auto split: option.split)
qed

text \<open>The consumer has ended, or no delayed call of a commit that was cancelled is kept.\<close>

definition stoppable :: "consumer \<Rightarrow> bool" where
  "stoppable s \<longleftrightarrow> (co_start_d s \<noteq> None \<longrightarrow> (\<forall>x. co_commit_call s \<noteq> Some (False, x)))"

lemma stop_finish_ends:
  assumes "stoppable s"
  shows "co_start_d (fst (stop_finish cfg env s)) = None"
proof -
  define t where "t = cancel_commit_req cfg env s"
  have "co_start_d t = co_start_d s" "co_commit_call t = co_commit_call s \<or> (\<exists>x. co_commit_call t = Some (True, x))"
    by (auto simp: t_def cancel_commit_req_def schedule_commit_def co_emit_def Let_def split: option.split)
  with assms have "co_start_d t = None \<or> (\<nexists>x. co_commit_call t = Some (False, x))" by (auto simp: stoppable_def)
  then show ?thesis
    by (cases rule: stop_finish_cases [OF t_def]) (auto simp: stop_close_def co_fire_def co_emit_def)
qed

lemma cancel_commits_stoppable: "stoppable s \<Longrightarrow> stoppable (cancel_commits cfg env ws s)"
proof (induction ws arbitrary: s)
  case (Cons w ws)
  let ?s = "s\<lparr>co_commit_ds := rev ws\<rparr>"
  have step: "stoppable (cancel_commits cfg env ws t)" if "co_start_d t = co_start_d s" "co_commit_call t = co_commit_call s" for t
    using Cons.prems that by (intro Cons.IH) (simp add: stoppable_def)
  have "stoppable (cancel_commits cfg env ws (handle_auto_commit_error e ?s))" for e
    by (rule step) (simp_all add: handle_auto_commit_error_def start_errback_def co_fire_def co_emit_def split: option.split)
  moreover have "co_start_d (fst (stop_finish cfg env (cancel_commits cfg env ws (?s\<lparr>co_shutdown_d := None, co_retry_call := c\<rparr>)))) = None" for c
    by (rule stop_finish_ends, rule step) simp_all
  then have "co_start_d v = None"
    if "stop_finish cfg env (cancel_commits cfg env ws (?s\<lparr>co_shutdown_d := None, co_retry_call := c\<rparr>)) = (v, r)" for c v r
    using that by (metis fst_conv)
  ultimately show ?case using step
    by (cases w) (auto simp: Let_def stoppable_def co_fire_def co_emit_def split: prod.split sum.split option.split)
qed (simp add: stoppable_def)

lemma stop_tail_ends:
  assumes "sound s"
  shows "co_start_d (fst (stop_tail cfg env s)) = None"
proof (cases "co_retry_call s = Some False")
  case True
  then show ?thesis using assms by (auto simp: stop_tail_def sound_def calls_ok_def)
next
  case False
  have "stoppable (s\<lparr>co_retry_call := c\<rparr>)" for c using assms by (simp add: sound_def stoppable_def calls_ok_def)
  then show ?thesis using False stop_finish_ends [OF cancel_commits_stoppable] by (simp add: stop_tail_def Let_def)
qed

lemma stop_inner_ends: "sound s \<Longrightarrow> co_start_d (fst (stop_inner cfg env s)) = None"
  by (simp add: stop_inner_def stop_tail_ends resume_sound stop_head_sound)

lemma shutdown_end_ends:
  assumes "sound s"
  shows "co_start_d (fst (shutdown_end cfg env failure s)) = None"
proof -
  have "sound (s\<lparr>co_shutdown_d := None\<rparr>)" using assms by (simp add: sound_def calls_ok_def)
  from stop_inner_ends [OF this, of cfg env] show ?thesis
    by (cases "stop_inner cfg env (s\<lparr>co_shutdown_d := None\<rparr>)")
      (simp add: shutdown_end_def Let_def co_fire_def co_emit_def split: sum.split option.split)
qed

lemma ended_sound: "co_start_d s = None \<Longrightarrow> sound s"
  by (simp add: sound_def)

lemma commit_and_stop_sound:
  assumes "sound s"
  shows "sound (fst (commit_and_stop cfg env s))"
proof -
  obtain t r where c: "commit_request cfg ShutdownCommit ShutdownRetry s = (t, r)" by force
  then have t: "sound t" using calm_sound [OF commit_request_calm assms, of cfg ShutdownCommit ShutdownRetry] by simp
  with assms show ?thesis
    by (auto simp: commit_and_stop_def c ended_sound shutdown_end_ends split: commit_outcome.split sum.split)
qed

lemma processor_answered_sound: "sound s \<Longrightarrow> sound (processor_answered cfg env r s)"
  by (simp add: processor_answered_def Let_def resume_sound commit_and_stop_sound)

lemma co_stop_ends: "sound s \<Longrightarrow> co_start_d (fst (co_stop cfg env s)) = None"
  by (simp add: co_stop_def stop_tail_ends processor_answered_sound stop_head_sound)

lemma shutdown_sound:
  assumes "sound s"
  shows "sound (fst (shutdown cfg env s))"
proof -
  define t where "t = s\<lparr>co_shuttingdown := True, co_max_attempts := (if co_max_attempts s = 0 then 2 else co_max_attempts s),
     co_shutdown_d := Some (co_next_d s), co_next_d := Suc (co_next_d s)\<rparr>"
  have t: "calm s t" "calm s (t\<lparr>co_processor := q\<rparr>)" for q unfolding t_def by (rule calm_field; simp)+
  then have "sound t" "sound (t\<lparr>co_processor := q\<rparr>)" for q using assms calm_sound by blast+
  with assms show ?thesis unfolding shutdown_def Let_def t_def [symmetric]
    by (simp add: commit_and_stop_sound split: option.split)
qed

lemma waiter_done_sound: "sound s \<Longrightarrow> sound (waiter_done cfg env r s w)"
  using calm_sound [OF handle_auto_commit_error_calm] calm_sound [OF auto_commit_calm] calm_sound [OF co_fire_calm]
  by (simp add: waiter_done_def ended_sound shutdown_end_ends commit_and_stop_sound split: commit_waiter.split sum.split)

lemma deliver_commit_result_sound:
  assumes "sound s"
  shows "sound (deliver_commit_result cfg env r s)"
proof -
  have fold: "sound v \<Longrightarrow> sound (foldl (waiter_done cfg env r) v ws)" for v ws
    by (induction ws arbitrary: v) (simp_all add: waiter_done_sound)
  have "sound (s\<lparr>co_commit_ds := []\<rparr>)" using assms by (simp add: sound_def calls_ok_def)
  then show ?thesis unfolding deliver_commit_result_def by (rule fold)
qed

lemma commit_answered_sound:
  assumes "sound s"
  shows "sound (commit_answered cfg env r s)"
proof -
  have "sound (s\<lparr>co_commit_req := None\<rparr>)" "sound (s\<lparr>co_commit_req := None, co_last_committed := off\<rparr>)"
    "sound (schedule_commit cfg delay attempt (s\<lparr>co_commit_req := None\<rparr>))" for off delay attempt
    using assms by (simp_all add: sound_def calls_ok_def schedule_commit_def co_emit_def Let_def)
  with assms show ?thesis
    by (simp add: commit_answered_def Let_def deliver_commit_result_sound split: option.split sum.split)
qed

lemma co_commit_calm: "calm s (co_commit cfg s)"
proof -
  let ?s = "s\<lparr>co_next_d := Suc (co_next_d s)\<rparr>"
  obtain t r where t: "commit_request cfg (UserCommit (co_next_d s)) (InProgress (Suc (co_next_d s))) ?s = (t, r)" by force
  have "calm s t" using commit_request_calm [of ?s cfg "UserCommit (co_next_d s)" "InProgress (Suc (co_next_d s))"] by (simp add: t calm_def)
  then show ?thesis by (auto simp: co_commit_def Let_def t calm_def co_fire_def co_emit_def split: commit_outcome.split)
qed

lemma retry_sound: "sound s \<Longrightarrow> co_retry_call s = Some True \<Longrightarrow> sound (fst (do_fetch cfg (s\<lparr>co_retry_call := Some False\<rparr>)))"
  using do_fetch_sound [of "s\<lparr>co_retry_call := Some False\<rparr>" cfg]
  by (cases "co_start_d s") (simp_all add: sound_def calls_ok_def lasts.do_fetch_rel [unfolded lasting_def])

lemma recommit_sound: "sound s \<Longrightarrow> sound (fst (send_commit_request delay attempt (s\<lparr>co_commit_call := Some (False, delay, attempt)\<rparr>)))"
  by (simp add: sound_def calls_ok_def send_commit_request_def co_emit_def Let_def)

section \<open>A consumer that is started once\<close>

definition fresh :: "consumer \<Rightarrow> bool" where
  "fresh s \<longleftrightarrow> co_start_d s = None \<and> co_request s = None \<and> co_retry_call s = None \<and> co_commit_call s = None \<and> co_last_processed s = None \<and>
     co_processor s = None \<and> co_commit_req s = None"

definition single :: "consumer \<Rightarrow> bool" where
  "single s \<longleftrightarrow> (case starts (co_log s) of 0 \<Rightarrow> fresh s | Suc n \<Rightarrow> n = 0 \<longrightarrow> sound s)"

lemma fresh_sound: "fresh s \<Longrightarrow> sound s"
  by (simp add: fresh_def sound_def)

lemma single_sound: "single s \<Longrightarrow> starts (co_log s) \<le> 1 \<Longrightarrow> sound s"
  by (auto simp: single_def fresh_sound split: nat.splits)

lemma single_kept:
  assumes "single s" "lasting s t" "fresh s \<Longrightarrow> fresh t" "sound s \<Longrightarrow> sound t"
  shows "single t"
  using assms by (simp add: single_def lasting_def split: nat.splits)

lemma start_single:
  assumes "single s"
  shows "single (fst (co_start cfg off s))"
proof (cases "co_start_d s")
  case None
  let ?s = "co_emit (Started off) (s\<lparr>co_start_d := Some (co_next_d s), co_start_called := False,
     co_next_d := Suc (co_next_d s), co_fetch_offset := off\<rparr>)"
  obtain t r where t: "do_fetch cfg ?s = (t, r)" by force
  have n: "starts (co_log t) = Suc (starts (co_log s))"
    using lasts.do_fetch_rel [of ?s cfg] unfolding t fst_conv lasting_def by (simp add: co_emit_def)
  have "sound t" if "fresh s"
    using that do_fetch_sound [of ?s cfg] unfolding t fst_conv by (simp add: fresh_def co_emit_def)
  then have "sound t" "sound (t\<lparr>co_commit_looper := l\<rparr>)" if "starts (co_log s) = 0" for l
    using that assms by (simp_all add: single_def sound_def calls_ok_def)
  then show ?thesis using n by (simp add: co_start_def None t single_def split: sum.split nat.split)
qed (use assms in \<open>simp add: co_start_def\<close>)

lemma commit_single:
  assumes "single s"
  shows "single (co_commit cfg s)"
proof -
  have "starts (co_log (co_commit cfg s)) = starts (co_log s)"
    by (auto simp: co_commit_def commit_request_def send_commit_request_def co_fire_def co_emit_def Let_def split: prod.split)
  moreover have "fresh s \<Longrightarrow> fresh (co_commit cfg s)"
    by (simp add: co_commit_def commit_request_def fresh_def co_fire_def co_emit_def Let_def)
  ultimately show ?thesis using assms calm_sound [OF co_commit_calm] by (simp add: single_def split: nat.splits)
qed

lemma shutdown_single:
  assumes "single s"
  shows "single (fst (shutdown cfg env s))"
proof -
  define t where "t = s\<lparr>co_shuttingdown := True, co_max_attempts := (if co_max_attempts s = 0 then 2 else co_max_attempts s),
     co_shutdown_d := Some (co_next_d s), co_next_d := Suc (co_next_d s)\<rparr>"
  have "starts (co_log (fst (commit_and_stop cfg env t))) = starts (co_log s)"
    using lasts.commit_and_stop_rel [of t cfg env] by (simp add: lasting_def t_def)
  then have "starts (co_log (fst (shutdown cfg env s))) = starts (co_log s)"
    unfolding shutdown_def Let_def t_def [symmetric] by (simp add: t_def split: option.split)
  moreover have "fresh s \<Longrightarrow> fresh (fst (shutdown cfg env s))" by (simp add: shutdown_def fresh_def)
  ultimately show ?thesis using assms shutdown_sound [of s cfg env] by (simp add: single_def split: nat.splits)
qed

lemma stop_single: "single s \<Longrightarrow> single (fst (co_stop cfg env s))"
  by (erule single_kept [OF _ lasts.co_stop_rel]) (simp_all add: co_stop_def fresh_def ended_sound co_stop_ends [unfolded co_stop_def])

lemma auto_single: "single s \<Longrightarrow> single (fst (auto_commit cfg False s))"
  by (erule single_kept [OF _ lasts.auto_commit_rel _ calm_sound [OF auto_commit_calm]]) (simp_all add: fresh_def auto_commit_def)

interpretation once_started: consumer_invariant cfg single b n for cfg b n
proof
  show "single (consumer_init cfg b n)" by (simp add: single_def fresh_def consumer_init_def)
qed (auto intro: start_single commit_single shutdown_single stop_single auto_single
    elim: single_kept [OF _ lasts.handle_offset_error_rel _ handle_error_sound(1)] single_kept [OF _ lasts.handle_fetch_error_rel _ handle_error_sound(2)]
      single_kept [OF _ lasts.handle_offset_response_rel _ handle_offset_response_sound] single_kept [OF _ lasts.fetch_answered_rel _ fetch_answered_sound]
      single_kept [OF _ lasts.processor_answered_rel _ processor_answered_sound] single_kept [OF _ lasts.commit_answered_rel _ commit_answered_sound]
      single_kept [OF _ lasts.calls_rel(1) _ retry_sound] single_kept [OF _ lasts.calls_rel(2) _ recommit_sound] simp: fresh_def)

lemma once_started_stop:
  assumes "co_reach cfg b n s" "starts (co_log s) \<le> 1"
  shows "co_start_d (fst (co_stop cfg env s)) = None"
  using single_sound [OF once_started.reach_invar [OF assms(1)] assms(2)] by (rule co_stop_ends)

text \<open>
  C23. \<open>stop\<close> ends a consumer that was started at most once: in every state that such a consumer reaches, whatever it is doing
  (a request or a commit under way or scheduled, messages being processed, a shutdown that waits) and whatever becomes of
  the operations that are cancelled, \<open>_start_d\<close> is \<open>None\<close> after the call.
\<close>

theorem stop_ends_consumer:
  assumes "co_reach cfg b n s" "starts (co_log s) \<le> 1"
  shows "co_start_d (fst (co_stop cfg env s)) = None"
  by (rule once_started_stop [OF assms])

theorem stop_ends_consumer_witness:
  "co_start_d sample_closing = Some 0 \<and> co_commit_req sample_closing \<noteq> None \<and>
   co_start_d (fst (co_stop (sample_consumer 2) sample_env sample_closing)) = None"
proof -
  have "co_start_d sample_closing = Some 0 \<and> co_commit_req sample_closing \<noteq> None \<and> starts (co_log sample_closing) \<le> 1" by code_simp
  with stop_ends_consumer [OF sample_consumer_reach [OF sample_closing_run], of sample_env] show ?thesis by simp
qed

end
