(* ===== verification/Group_Consumers.thy ===== *)
theory Group_Consumers
  imports Group_Faults Consumer_Contract
begin

text \<open>
  The consumer group together with its consumers. \<open>Group_Coordinator\<close> takes from its environment what the calls of the consumers
  do; here the answers are those of the model of \<open>Consumer\<close>, and it follows that no consumer of an earlier generation is left
  running.
\<close>

section \<open>What the consumers answer\<close>

text \<open>What a deferred has come to, by the log of the consumer.\<close>

definition deferred_result :: "nat \<Rightarrow> consumer \<Rightarrow> call_result" where
  "deferred_result d t =
     (case find (is_cfire d) (co_log t) of
        Some (CFired _ (Inl e)) \<Rightarrow> CallFailed e
      | Some _ \<Rightarrow> CallDone
      | None \<Rightarrow> CallWaiting)"

text \<open>Whether the deferred of \<open>start\<close>, held in the state \<open>s\<close>, has failed in \<open>t\<close>.\<close>

definition start_failure :: "consumer \<Rightarrow> consumer \<Rightarrow> exn option" where
  "start_failure s t =
     (case co_start_d s of
        None \<Rightarrow> None
      | Some d \<Rightarrow> if co_start_called s then None else (case deferred_result d t of CallFailed e \<Rightarrow> Some e | _ \<Rightarrow> None))"

definition answer :: "call_result \<Rightarrow> consumer \<Rightarrow> consumer \<Rightarrow> call_answer" where
  "answer r s t = \<lparr>an_result = r, an_error = start_failure s t, an_running = (co_start_d t \<noteq> None)\<rparr>"

definition stop_answer :: "consumer_config \<Rightarrow> stop_env \<Rightarrow> consumer \<Rightarrow> call_answer" where
  "stop_answer cfg env s =
     (case co_stop cfg env s of (t, r) \<Rightarrow> answer (case r of Inl e \<Rightarrow> CallRaised e | Inr _ \<Rightarrow> CallDone) s t)"

definition shutdown_answer :: "consumer_config \<Rightarrow> stop_env \<Rightarrow> consumer \<Rightarrow> call_answer" where
  "shutdown_answer cfg env s =
     (case shutdown cfg env s of (t, r) \<Rightarrow>
        answer (case r of Inl e \<Rightarrow> CallRaised e | Inr _ \<Rightarrow> deferred_result (co_next_d s) t) s t)"

text \<open>A later step of the consumer, in which the deferred \<open>d\<close> of \<open>shutdown\<close> may fire.\<close>

definition down_answer :: "nat \<Rightarrow> consumer \<Rightarrow> consumer \<Rightarrow> call_answer" where
  "down_answer d s t = answer (deferred_result d t) s t"

text \<open>
  The answers that consumers give which the group has started: each is that of some consumer in a state that it reaches
  after one call of \<open>start\<close>.
\<close>

definition owned :: "consumer_config \<Rightarrow> consumer \<Rightarrow> bool" where
  "owned cfg s \<longleftrightarrow> (\<exists>b n. co_reach cfg b n s) \<and> starts (co_log s) = 1"

definition lawful :: "group_env \<Rightarrow> bool" where
  "lawful env \<longleftrightarrow> (\<forall>c. (\<exists>cfg cenv s. owned cfg s \<and> ge_stop env c = stop_answer cfg cenv s) \<and>
     (\<exists>cfg cenv s. owned cfg s \<and> ge_shutdown env c = shutdown_answer cfg cenv s))"

definition lawful_down :: "call_answer \<Rightarrow> bool" where
  "lawful_down a \<longleftrightarrow> (\<exists>cfg s e t d. owned cfg s \<and> co_step cfg s e t \<and> co_shutdown_d s = Some d \<and> a = down_answer d s t)"

fun event_ok :: "(group_env \<Rightarrow> bool) \<Rightarrow> (call_answer \<Rightarrow> bool) \<Rightarrow> group_event \<Rightarrow> bool" where
  "event_ok ok down (StopGroup env) = ok env"
| "event_ok ok down (MetadataLoaded k r env) = ok env"
| "event_ok ok down (JoinAnswer k r env) = ok env"
| "event_ok ok down (SyncAnswer k r env) = ok env"
| "event_ok ok down (LeaveAnswer r env) = ok env"
| "event_ok ok down (HeartbeatAnswer r env) = ok env"
| "event_ok ok down (ConsumerFailure c x env) = ok env"
| "event_ok ok down (ConsumerDown c a env) = (ok env \<and> down a)"
| "event_ok ok down _ = True"

definition owning_step :: "(group_env \<Rightarrow> bool) \<Rightarrow> (call_answer \<Rightarrow> bool) \<Rightarrow> group_config \<Rightarrow> group \<Rightarrow> group_event \<Rightarrow> group \<Rightarrow> bool" where
  "owning_step ok down cfg s e t \<longleftrightarrow> event_ok ok down e \<and> group_step cfg s e t"

section \<open>The consumers that the group has dropped\<close>

definition ids :: "group \<Rightarrow> nat set" where
  "ids s = mc_id ` set (gr_consumers s)"

text \<open>Unless the group begins to stop, no consumer that it drops is left running.\<close>

definition settled :: "group \<Rightarrow> group \<Rightarrow> bool" where
  "settled s t \<longleftrightarrow> (gr_stopping s \<longrightarrow> gr_stopping t) \<and>
     (\<not> gr_stopping t \<longrightarrow> set (gr_running t) \<subseteq> set (gr_running s) \<and> gr_joins t = gr_joins s \<and> gr_stops t = gr_stops s \<and>
        set (gr_running t) \<inter> ids s \<subseteq> ids t)"

definition gone :: "managed list \<Rightarrow> group \<Rightarrow> bool" where
  "gone cs t \<longleftrightarrow> gr_stopping t \<or> set (gr_running t) \<inter> mc_id ` set cs = {}"

lemma settled_refl [simp]: "settled s s"
  by (simp add: settled_def)

lemma settled_trans: "settled s t \<Longrightarrow> settled t u \<Longrightarrow> settled s u"
  unfolding settled_def by auto

lemma settled_frame:
  "gr_stopping t = gr_stopping s \<Longrightarrow> set (gr_running t) \<subseteq> set (gr_running s) \<Longrightarrow> gr_joins t = gr_joins s \<Longrightarrow> gr_stops t = gr_stops s \<Longrightarrow>
   gr_consumers t = gr_consumers s \<Longrightarrow> settled s t"
  by (auto simp: settled_def ids_def)

lemma gone_settled: "gone cs s \<Longrightarrow> settled s t \<Longrightarrow> gone cs t"
  unfolding gone_def settled_def by blast

lemma settled_basic:
  "settled s (gr_emit x s)" "settled s (after_call c a s)" "settled s (s\<lparr>gr_failed := f\<rparr>)" "settled s (s\<lparr>gr_member_id := m\<rparr>)"
  "settled s (schedule_rejoin delay s)"
  by (rule settled_frame; auto simp: gr_emit_def after_call_def schedule_rejoin_def Let_def)+

lemma rejoin_core_settled:
  assumes "settled s (leave s)" "\<And>e u. settled u (stop e u)"
  shows "settled s (rejoin_core cfg leave stop e s)"
proof -
  note t = settled_trans [OF assms(1)]
  have r: "settled u (schedule_rejoin d (v\<lparr>gr_member_id := m\<rparr>))" "settled u (schedule_rejoin d (gr_emit x v))" "settled u (schedule_rejoin d v)"
    if "settled u v" for u v d m x
    using settled_trans [OF that settled_trans [OF settled_basic(4,5)]] settled_trans [OF that settled_trans [OF settled_basic(1,5)]]
      settled_trans [OF that settled_basic(5)] by simp_all
  have "settled s (stop e (leave s))" by (rule t [OF assms(2)])
  then show ?thesis using r [OF assms(1)] r [OF settled_refl] by (simp add: rejoin_core_def)
qed

lemma coordinator_stop_settled:
  assumes "\<And>s. ending s (leave s)"
  shows "settled s (coordinator_stop cfg leave env errb s)"
  using coordinator_stop_cases [where leave = leave and s = s and cfg = cfg and env = env and errb = errb, OF assms]
  by (metis settled_def settled_refl)

lemma idle_error_settled: "settled s (idle_error cfg env e s)"
  unfolding idle_error_def rejoin_with_def by (simp add: rejoin_core_settled coordinator_stop_settled)

lemma consumer_fails_settled: "(\<And>e u. settled u (handler e u)) \<Longrightarrow> settled s (consumer_fails handler c error s)"
  using settled_trans settled_basic(3) by (fastforce simp: consumer_fails_def split: option.split)

text \<open>
  What the group relies on: a consumer that it has stopped, or whose shutdown has come to its end, does not run any more.
\<close>

locale owned_consumers =
  fixes ok :: "group_env \<Rightarrow> bool" and down :: "call_answer \<Rightarrow> bool"
  assumes stop_ends: "ok env \<Longrightarrow> \<not> an_running (ge_stop env c)"
    and shutdown_ends: "ok env \<Longrightarrow> an_result (ge_shutdown env c) = CallDone \<or> an_result (ge_shutdown env c) = CallFailed e \<Longrightarrow>
      \<not> an_running (ge_shutdown env c)"
    and down_ends: "down a \<Longrightarrow> an_result a = CallDone \<or> an_result a = CallFailed e \<Longrightarrow> \<not> an_running a"
begin

lemma stop_call_settled:
  assumes "ok env" "\<And>e u. settled u (handler e u)"
  shows "settled s (stop_call handler env s c)" "gone [c] (stop_call handler env s c)"
proof -
  let ?a = "ge_stop env (mc_id c)" and ?t = "after_call (mc_id c) (ge_stop env (mc_id c)) (gr_emit (ConsumerStopped (mc_id c)) s)"
  have f: "settled ?t (consumer_fails handler (mc_id c) (an_error ?a) ?t)" by (rule consumer_fails_settled [OF assms(2)])
  have "settled s ?t" by (rule settled_trans [OF settled_basic(1) settled_basic(2)])
  from settled_trans [OF this f] show "settled s (stop_call handler env s c)" by (simp add: stop_call_def Let_def)
  have "gone [c] ?t" using stop_ends [OF assms(1)] by (simp add: gone_def after_call_def gr_emit_def)
  from gone_settled [OF this f] show "gone [c] (stop_call handler env s c)" by (simp add: stop_call_def Let_def gone_def)
qed

lemma stop_all_settled:
  assumes "ok env" "\<And>e u. settled u (handler e u)"
  shows "settled s (stop_all handler env cs s) \<and> gone cs (stop_all handler env cs s)"
proof (induction cs arbitrary: s)
  case (Cons c cs)
  let ?s = "stop_call handler env s c"
  note c = stop_call_settled [OF assms, where s = s and c = c]
  have IH: "settled ?s (stop_all handler env cs ?s)" "gone cs (stop_all handler env cs ?s)" using Cons.IH [of ?s] by simp_all
  from settled_trans [OF c(1) IH(1)] gone_settled [OF c(2) IH(1)] IH(2) show ?case by (auto simp: stop_all_def gone_def)
qed (simp add: stop_all_def gone_def)

text \<open>The consumers that are stopped are those that leave the list.\<close>

lemma settled_drop:
  assumes "settled (s\<lparr>gr_consumers := []\<rparr>) t" "gone (gr_consumers s) t"
  shows "settled s t"
  using assms by (auto simp: settled_def gone_def ids_def)

lemma stop_consumers_settled:
  assumes "ok env"
  shows "settled s (stop_consumers cfg env s)"
  using settled_drop stop_all_settled [OF assms idle_error_settled] by (simp add: stop_consumers_def)

lemma rejoin_after_error_settled:
  assumes "ok env"
  shows "settled s (rejoin_after_error cfg env e s)"
  unfolding rejoin_after_error_def rejoin_with_def
  by (rule rejoin_core_settled [OF stop_consumers_settled [OF assms] coordinator_stop_settled])
    (rule handled_ending [OF stop_consumers_handled(1)])

lemma on_consumer_error_settled: "ok env \<Longrightarrow> settled s (on_consumer_error cfg env e s)"
  by (simp add: on_consumer_error_def rejoin_after_error_settled)

text \<open>A consumer that is still running after the loop of \<open>shutdown_consumers\<close> is waited for.\<close>

lemma shutdown_all_waits:
  assumes "ok env"
  shows "shutdown_all cfg env cs s = (t, pend, failed) \<Longrightarrow>
    settled s t \<and> set pend \<subseteq> mc_id ` set cs \<and> (\<not> gr_stopping t \<longrightarrow> set (gr_running t) \<inter> mc_id ` set cs \<subseteq> set pend)"
proof (induction cs arbitrary: s t pend failed)
  case (Cons c cs)
  let ?a = "ge_shutdown env (mc_id c)"
  define u where "u = consumer_fails (idle_error cfg env) (mc_id c) (an_error ?a) (after_call (mc_id c) ?a (gr_emit (ConsumerShutdown (mc_id c)) s))"
  define v where "v = (case an_result ?a of CallRaised e \<Rightarrow> stop_call (idle_error cfg env) env u c | _ \<Rightarrow> u)"
  note f = consumer_fails_settled [OF idle_error_settled]
  have su: "settled s u" unfolding u_def by (rule settled_trans [OF settled_trans [OF settled_basic(1) settled_basic(2)] f])
  have sv: "settled s v" unfolding v_def
    using su settled_trans [OF su stop_call_settled(1) [OF assms idle_error_settled]] by (simp split: call_result.split)
  have "gone [c] u" if "\<not> an_running ?a"
    unfolding u_def by (rule gone_settled [OF _ f]) (simp add: that gone_def after_call_def gr_emit_def)
  then have gv: "gone [c] v" if "an_result ?a \<noteq> CallWaiting"
    using that shutdown_ends [OF assms] stop_call_settled(2) [OF assms idle_error_settled] by (auto simp: v_def split: call_result.splits)
  obtain pend' failed' where r: "shutdown_all cfg env cs v = (t, pend', failed')"
    and pend: "pend = (if an_result ?a = CallWaiting then mc_id c # pend' else pend')"
    using Cons.prems unfolding shutdown_all.simps Let_def u_def [symmetric] v_def [symmetric] by (auto split: prod.splits)
  note IH = Cons.IH [OF r]
  have "settled v t" using IH by simp
  then have "gone [c] t" if "an_result ?a \<noteq> CallWaiting" using gone_settled gv that by blast
  with IH settled_trans [OF sv] show ?case by (auto simp: pend gone_def)
qed simp

lemma shutdown_consumers_waits:
  assumes "ok env" "shutdown_consumers cfg env s = (t, w)"
  shows "settled s t \<and> gone (gr_consumers s) t \<and> w = None \<or>
    (\<exists>pend. w = Some (gr_consumers s, pend) \<and> settled (s\<lparr>gr_consumers := []\<rparr>) t \<and> set pend \<subseteq> ids s \<and>
      (\<not> gr_stopping t \<longrightarrow> set (gr_running t) \<inter> ids s \<subseteq> set pend))"
proof (cases "gr_consumers s = []")
  case False
  let ?s = "s\<lparr>gr_consumers := []\<rparr>"
  obtain u pend failed where u: "shutdown_all cfg env (gr_consumers s) ?s = (u, pend, failed)" by (metis surj_pair)
  note a = shutdown_all_waits [OF assms(1) u]
  have us: "settled u (stop_all (idle_error cfg env) env (gr_consumers s) u)" and g: "gone (gr_consumers s) (stop_all (idle_error cfg env) env (gr_consumers s) u)"
    using stop_all_settled [OF assms(1) idle_error_settled, where cs = "gr_consumers s" and s = u] by simp_all
  have f: "settled s (stop_all (idle_error cfg env) env (gr_consumers s) u)"
    by (rule settled_drop [OF settled_trans [OF _ us] g]) (use a in simp)
  have n: "settled s u \<and> gone (gr_consumers s) u" if "pend = []" using a that settled_drop by (auto simp: gone_def)
  have tw: "t = (if failed then stop_all (idle_error cfg env) env (gr_consumers s) u else u)"
    "w = (if failed \<or> pend = [] then None else Some (gr_consumers s, pend))"
    using assms(2) False by (auto simp: shutdown_consumers_def Let_def u split: if_splits)
  show ?thesis
  proof (cases "failed \<or> pend = []")
    case True
    then show ?thesis unfolding tw using f g n by (cases failed) simp_all
  next
    case False
    then show ?thesis unfolding tw using a unfolding ids_def by (intro disjI2 exI [of _ pend]) simp
  qed
qed (use assms(2) in \<open>simp add: shutdown_consumers_def gone_def\<close>)

end

section \<open>The invariant\<close>

text \<open>
  Unless the group is stopping, each running consumer is in its list or its shutdown is waited for; and only consumers are waited
  for which are stopped when a shutdown fails.
\<close>

definition accounted :: "group \<Rightarrow> bool" where
  "accounted s \<longleftrightarrow> gr_stopping s \<or> (\<forall>c\<in>set (gr_running s). c \<in> ids s \<or> awaited c s) \<and>
     (\<forall>k cs pend. (k, Preparing cs pend) \<in> set (gr_joins s) \<longrightarrow> set pend \<subseteq> mc_id ` set cs) \<and>
     (\<forall>cs pend errb. (cs, pend, errb) \<in> set (gr_stops s) \<longrightarrow> set pend \<subseteq> mc_id ` set cs)"

lemma awaited_cases:
  "awaited c s \<longleftrightarrow> (\<exists>k cs pend. (k, Preparing cs pend) \<in> set (gr_joins s) \<and> c \<in> set pend) \<or>
     (\<exists>cs pend errb. (cs, pend, errb) \<in> set (gr_stops s) \<and> c \<in> set pend)"
  unfolding awaited_def list_ex_iff join_waits_def by (force split: join_phase.splits)

lemma accounted_settled:
  assumes "accounted s" "settled s t"
  shows "accounted t"
proof (cases "gr_stopping t")
  case False
  with assms(2) have t: "\<not> gr_stopping s" "set (gr_running t) \<subseteq> set (gr_running s)" "gr_joins t = gr_joins s" "gr_stops t = gr_stops s"
    "set (gr_running t) \<inter> ids s \<subseteq> ids t" by (auto simp: settled_def)
  have "awaited c t = awaited c s" for c by (simp add: awaited_def t)
  with assms(1) t show ?thesis unfolding accounted_def by auto
qed (simp add: accounted_def)

text \<open>Some consumers are not waited for any more, when they have ended.\<close>

lemma accounted_release:
  assumes "accounted s" "gr_stopping u = gr_stopping s" "gr_running u = gr_running s" "gr_consumers u = gr_consumers s"
    and "\<And>c. awaited c s \<Longrightarrow> awaited c u \<or> c \<in> P"
    and "\<And>k cs pend. \<not> gr_stopping s \<Longrightarrow> (k, Preparing cs pend) \<in> set (gr_joins u) \<Longrightarrow> set pend \<subseteq> mc_id ` set cs"
    and "\<And>cs pend errb. \<not> gr_stopping s \<Longrightarrow> (cs, pend, errb) \<in> set (gr_stops u) \<Longrightarrow> set pend \<subseteq> mc_id ` set cs"
    and "settled u v" "gr_stopping v \<or> set (gr_running v) \<inter> P = {}"
  shows "accounted v"
proof (cases "gr_stopping v")
  case False
  with assms(8) have v: "\<not> gr_stopping u" "set (gr_running v) \<subseteq> set (gr_running u)" "gr_joins v = gr_joins u" "gr_stops v = gr_stops u"
    "set (gr_running v) \<inter> ids u \<subseteq> ids v" by (auto simp: settled_def)
  have aw: "awaited c v = awaited c u" for c by (simp add: awaited_def v)
  have ids: "ids u = ids s" by (simp add: ids_def assms(4))
  have "c \<in> ids v \<or> awaited c v" if "c \<in> set (gr_running v)" for c
  proof -
    have "c \<in> ids s \<or> awaited c s" using that assms(1-3) v(1,2) by (auto simp: accounted_def)
    moreover have "c \<notin> P" using that assms(9) False by auto
    ultimately show ?thesis using assms(5) [of c] v(5) that ids aw by auto
  qed
  then show ?thesis using assms(2,6,7) v unfolding accounted_def by simp
qed (simp add: accounted_def)

text \<open>A join goes on to a phase in which it waits for no consumer.\<close>

lemma accounted_phase:
  assumes "accounted s" "gr_stopping s \<or> gr_joins s = [(k, p)] \<and> (\<forall>cs pend. p \<noteq> Preparing cs pend)"
    and "gr_stopping t = gr_stopping s" "set (gr_running t) \<subseteq> set (gr_running s)" "gr_stops t = gr_stops s" "gr_consumers t = gr_consumers s"
    and "gr_joins t = dict_set k q (gr_joins s) \<or> gr_joins t = dict_del k (gr_joins s)" "\<forall>cs pend. q \<noteq> Preparing cs pend"
  shows "accounted t"
proof (cases "gr_stopping s")
  case False
  then have j: "gr_joins s = [(k, p)]" "\<forall>cs pend. p \<noteq> Preparing cs pend" using assms(2) by simp_all
  then have "awaited c t = awaited c s" for c using assms(5,7,8) by (auto simp: awaited_cases)
  then show ?thesis using assms False j unfolding accounted_def ids_def by auto
qed (use assms(3) in \<open>simp add: accounted_def\<close>)

fun waits :: "join_phase \<Rightarrow> bool" where
  "waits (Preparing cs pend) = True"
| "waits _ = False"

lemma waits_iff: "\<not> waits p \<longleftrightarrow> (\<forall>cs pend. p \<noteq> Preparing cs pend)"
  by (cases p) auto

lemma phase_steps:
  assumes "accounted s" "gr_stopping s \<or> gr_joins s = [(k, p)] \<and> \<not> waits p"
  shows "accounted (join_end k s)" "accounted (join_fail k e s)" "\<not> waits q \<Longrightarrow> accounted (join_phase_set k q s)"
    "\<not> waits q \<Longrightarrow> accounted (gr_emit x (join_phase_set k q s))" "accounted (join_end k (schedule_join delay s))"
    "accounted (send_join_group_request cfg k s)" "accounted (send_sync_group_request k a s)" "accounted (get_coordinator_failed cfg k e s)"
proof -
  have j: "gr_stopping s \<or> gr_joins s = [(k, p)] \<and> (\<forall>cs pend. p \<noteq> Preparing cs pend)" using assms(2) by (simp add: waits_iff)
  show "\<not> waits q \<Longrightarrow> accounted (join_phase_set k q s)" "\<not> waits q \<Longrightarrow> accounted (gr_emit x (join_phase_set k q s))"
    by (rule accounted_phase [where q = q, OF assms(1) j]; simp add: join_phase_set_def gr_emit_def waits_iff)+
  show "accounted (join_end k s)" "accounted (join_fail k e s)" "accounted (join_end k (schedule_join delay s))" for e delay
    by (rule accounted_phase [where q = Joining, OF assms(1) j]; simp add: join_end_def join_fail_def schedule_join_def gr_emit_def)+
  then show "accounted (get_coordinator_failed cfg k e s)" by (simp add: get_coordinator_failed_def)
  show "accounted (send_sync_group_request k a s)"
    by (rule accounted_phase [where q = Syncing, OF assms(1) j]) (simp_all add: send_sync_group_request_def join_phase_set_def gr_emit_def)
  show "accounted (send_join_group_request cfg k s)"
    by (rule accounted_phase [where q = Joining, OF assms(1) j])
      (simp_all add: send_join_group_request_def join_phase_set_def join_fail_def join_end_def gr_emit_def split: sum.split)
qed

lemma join_and_sync_accounted:
  assumes "accounted s" "gr_stopping s \<or> joins_ok s"
  shows "accounted (join_and_sync b s)"
proof -
  let ?s = "s\<lparr>gr_timers := gr_timers s + (if gr_rejoin_wait_dc s = Some True \<and> \<not> b then 1 else 0), gr_rejoin_wait_dc := None\<rparr>"
  have s: "accounted ?s" by (rule accounted_settled [OF assms(1) settled_frame]) simp_all
  moreover have "gr_stopping s \<or> gr_joins s = []" if "gr_rejoin_d s = None" using that assms(2) by (auto simp: joins_ok_def)
  ultimately show ?thesis
    unfolding join_and_sync_def Let_def
    by (auto simp: accounted_def awaited_cases ids_def join_phase_set_def gr_emit_def)
qed

lemma group_start_accounted:
  assumes "accounted s" "group_inv s"
  shows "accounted (group_start s)"
proof -
  let ?s = "s\<lparr>gr_start_d := Some (gr_next s), gr_start_called := False, gr_next := Suc (gr_next s)\<rparr>"
  have "accounted ?s" by (rule accounted_settled [OF assms(1) settled_frame]) simp_all
  moreover have "gr_stopping ?s \<or> joins_ok ?s" using assms(2) by (auto simp: group_inv_def core_def joins_ok_def phase_ok_def split: option.splits)
  ultimately show ?thesis using assms(1) by (simp add: group_start_def join_and_sync_accounted)
qed

lemma task_joins:
  "group_inv s \<Longrightarrow> dict_get (gr_joins s) k = Some p \<Longrightarrow> gr_stopping s \<or> gr_joins s = [(k, p)]"
  using task_inv by blast

lemma join_answered_fields:
  assumes "accounted s" "gr_stopping s \<or> gr_joins s = [(k, p)] \<and> \<not> waits p" "join_answered cfg env k (Inr resp) s = Some t"
  shows "accounted t"
proof -
  define u where "u = s\<lparr>gr_member_id := jgs_member_id resp, gr_generation_id := Some (jgs_generation_id resp), gr_leader_id := Some (jgs_leader_id resp)\<rparr>"
  have "accounted u" unfolding u_def by (rule accounted_settled [OF assms(1) settled_frame]) simp_all
  moreover have "gr_stopping u \<or> gr_joins u = [(k, p)] \<and> \<not> waits p" using assms(2) by (simp add: u_def)
  ultimately have "accounted (join_end k u)" "accounted (send_sync_group_request k a u)" "accounted (first_assignments k ms z u)" for a ms z
    using phase_steps [of u k p] by (simp_all add: first_assignments_def split: sum.split exn.split)
  then show ?thesis using assms(3) unfolding join_answered_def sum.case Let_def u_def [symmetric] by (auto split: if_splits)
qed

lemma coordinator_found_accounted:
  assumes "accounted s" "gr_stopping s \<or> gr_joins s = [(k, FetchingBroker)]"
  shows "accounted (coordinator_found cfg k r s)"
  using phase_steps [where p = FetchingBroker and k = k, OF assms(1)] assms(2) by (auto simp: coordinator_found_def split: sum.split)

lemma partitions_loaded_accounted:
  assumes "accounted s" "gr_stopping s \<or> gr_joins s = [(k, LoadingPartitions ms)]" "partitions_loaded k ms r s = Some t"
  shows "accounted t"
proof -
  have "accounted (send_sync_group_request k a s)" "accounted (join_fail k e s)" for a e
    using phase_steps(2,7) [where p = "LoadingPartitions ms" and k = k, OF assms(1)] assms(2) by auto
  then have "accounted (case z of Inr a \<Rightarrow> send_sync_group_request k a s | Inl e \<Rightarrow> join_fail k e s)" "accounted (join_fail k e s)" for z e
    by (simp_all split: sum.split)
  then show ?thesis using assms(3) unfolding partitions_loaded_def by (cases r) auto
qed

lemma stop_rest_ending: "ending s (stop_rest cfg env cs r s)"
  by (simp add: stop_rest_def handled_ending [OF stop_all_handled] split: call_result.split)

lemma consumer_down_ending:
  "ending (consumer_fails (on_consumer_error cfg env) c (an_error a) (after_call c a s)) (consumer_down cfg env c a s)"
proof -
  define t where "t = consumer_fails (on_consumer_error cfg env) c (an_error a) (after_call c a s)"
  have j: "ending t (send_join_group_request cfg k (stop_rest cfg env cs r (join_phase_set k Active t)))" for k cs r
    by (rule ending_trans [OF ending_trans [OF join_ending(3) stop_rest_ending] join_ending(5)])
  have g: "ending t (t\<lparr>gr_stops := x\<rparr>)" for x by (rule handled_ending [OF field_handled(7)])
  have "ending u (coordinator_stop cfg (stop_consumers cfg env) env errb u)" for errb u
    by (rule coordinator_stop_cases(1)) (rule handled_ending [OF stop_consumers_handled(1)])
  then have "ending t (coordinator_stop cfg (stop_consumers cfg env) env errb (stop_rest cfg env cs r (t\<lparr>gr_stops := x\<rparr>)))" for errb cs r x
    by (rule ending_trans [OF ending_trans [OF g stop_rest_ending]])
  then show ?thesis using j g join_ending(3)
    unfolding consumer_down_def Let_def t_def [symmetric] by (simp split: option.split prod.split join_phase.split)
qed

context owned_consumers
begin

lemma metadata_loaded_accounted:
  assumes "ok env" "accounted s" "gr_stopping s \<or> gr_joins s = [(k, LoadingMetadata)]"
  shows "accounted (metadata_loaded cfg env k r s)"
proof -
  let ?b = "s\<lparr>gr_coordinator_broker := True\<rparr>"
  have j: "gr_stopping s \<or> gr_joins s = [(k, LoadingMetadata)] \<and> \<not> waits LoadingMetadata" using assms(3) by simp
  note steps = phase_steps [OF assms(2) j]
  define u where "u = join_phase_set k Active ?b"
  have "accounted ?b" by (rule accounted_settled [OF assms(2) settled_frame]) simp_all
  then have u: "accounted u" unfolding u_def using phase_steps(3) [of ?b k LoadingMetadata Active] j by simp
  have uj: "gr_joins u = [(k, Active)]" if "\<not> gr_stopping u" using that assms(3) by (simp add: u_def join_phase_set_def)
  obtain t w where t: "shutdown_consumers cfg env u = (t, w)" by force
  from shutdown_consumers_waits [OF assms(1) t] consider "settled u t" "w = None"
    | pend where "w = Some (gr_consumers u, pend)" "settled (u\<lparr>gr_consumers := []\<rparr>) t" "set pend \<subseteq> ids u"
        "\<not> gr_stopping t \<longrightarrow> set (gr_running t) \<inter> ids u \<subseteq> set pend" by blast
  then have "accounted (case w of None \<Rightarrow> send_join_group_request cfg k t | Some (cs, pend) \<Rightarrow> join_phase_set k (Preparing cs pend) t)"
  proof cases
    case 1
    have "gr_stopping t \<or> gr_joins t = [(k, Active)] \<and> \<not> waits Active" using 1(1) uj by (auto simp: settled_def)
    from phase_steps(6) [OF accounted_settled [OF u 1(1)] this] show ?thesis by (simp add: 1(2))
  next
    case (2 pend)
    let ?t = "join_phase_set k (Preparing (gr_consumers u) pend) t"
    have "accounted ?t"
    proof (cases "gr_stopping t")
      case False
      then have s: "\<not> gr_stopping u" "set (gr_running t) \<subseteq> set (gr_running u)" "gr_joins t = [(k, Active)]" "gr_stops t = gr_stops u"
        using 2(2) uj by (auto simp: settled_def)
      then have jt: "gr_joins ?t = [(k, Preparing (gr_consumers u) pend)]" "gr_stops ?t = gr_stops u" "gr_running ?t = gr_running t"
        by (simp_all add: join_phase_set_def)
      have "awaited c ?t" if "c \<in> set (gr_running t)" for c
      proof (cases "c \<in> ids u")
        case True
        then have "c \<in> set pend" using 2(4) False that by auto
        then show ?thesis unfolding awaited_cases jt by auto
      next
        case c: False
        then have "awaited c u" using u s(1,2) that by (auto simp: accounted_def)
        then show ?thesis unfolding awaited_cases jt uj [OF s(1)] by auto
      qed
      then show ?thesis using 2(3) u s(1) unfolding accounted_def jt ids_def by auto
    qed (simp add: accounted_def join_phase_set_def)
    then show ?thesis by (simp add: 2(1))
  qed
  then show ?thesis using steps
    unfolding metadata_loaded_def u_def [symmetric] t by (auto split: sum.split option.split)
qed

lemma start_consumers_accounted:
  assumes "ok env"
  shows "accounted s \<Longrightarrow> gr_stopping s \<or> gr_joins s = [(k, Active)] \<Longrightarrow>
    accounted (fst (start_consumers cfg env parts s)) \<and>
    (gr_stopping (fst (start_consumers cfg env parts s)) \<or> gr_joins (fst (start_consumers cfg env parts s)) = [(k, Active)])"
proof (induction parts arbitrary: s)
  case (Cons x parts)
  obtain topic part where x: "x = (topic, part)" by force
  show ?case
  proof (cases "ge_start env (gr_next s)")
    case (Inr e)
    define c where "c = \<lparr>mc_id = gr_next s, mc_topic = topic, mc_partition = part, mc_member = gr_member_id s, mc_generation = gr_generation_id s\<rparr>"
    define u where "u = gr_emit (ConsumerStarted c) (s\<lparr>gr_next := Suc (gr_next s), gr_consumers := gr_consumers s @ [c], gr_running := mc_id c # gr_running s\<rparr>)"
    define v where "v = consumer_fails (on_consumer_error cfg env) (mc_id c) e u"
    have "awaited i u = awaited i s" for i by (simp add: u_def awaited_def gr_emit_def)
    then have u: "accounted u" "gr_stopping u \<or> gr_joins u = [(k, Active)]"
      using Cons.prems by (auto simp: accounted_def u_def ids_def gr_emit_def)
    have "settled u v" unfolding v_def by (rule consumer_fails_settled) (rule on_consumer_error_settled [OF assms])
    with u have "accounted v" "gr_stopping v \<or> gr_joins v = [(k, Active)]" using accounted_settled by (auto simp: settled_def)
    from Cons.IH [OF this] show ?thesis by (simp add: x Inr Let_def c_def u_def v_def)
  qed (use Cons.prems in \<open>simp add: x\<close>)
qed simp

lemma failed_request_accounted:
  assumes "ok env" "accounted s" "gr_stopping s \<or> gr_joins s = [(k, p)] \<and> \<not> waits p"
  shows "accounted (join_end k (rejoin_after_error cfg env e (join_phase_set k Active s)))"
proof (rule phase_steps(1) [where p = Active])
  let ?s = "join_phase_set k Active s"
  have s: "settled ?s (rejoin_after_error cfg env e ?s)" by (rule rejoin_after_error_settled [OF assms(1)])
  have a: "accounted ?s" using phase_steps(3) [OF assms(2,3)] by simp
  show "accounted (rejoin_after_error cfg env e ?s)" by (rule accounted_settled [OF a s])
  have "gr_stopping ?s \<or> gr_joins ?s = [(k, Active)]" using assms(3) by (auto simp: join_phase_set_def)
  then show "gr_stopping (rejoin_after_error cfg env e ?s) \<or> gr_joins (rejoin_after_error cfg env e ?s) = [(k, Active)] \<and> \<not> waits Active"
    using s by (auto simp: settled_def)
qed

lemma sync_answered_accounted:
  assumes "ok env" "accounted s" "gr_stopping s \<or> gr_joins s = [(k, Syncing)]"
  shows "accounted (sync_answered cfg env k r s)"
proof -
  have j: "gr_stopping s \<or> gr_joins s = [(k, Syncing)] \<and> \<not> waits Syncing" using assms(3) by simp
  let ?b = "s\<lparr>gr_heartbeat_looper := True, gr_rejoin_needed := False\<rparr>"
  define u where "u = join_phase_set k Active ?b"
  have "accounted ?b" by (rule accounted_settled [OF assms(2) settled_frame]) simp_all
  then have u: "accounted u" "gr_stopping u \<or> gr_joins u = [(k, Active)]"
    unfolding u_def using phase_steps(3) [of ?b k Syncing Active] j by (auto simp: join_phase_set_def)
  have "accounted (join_end k (fst (start_consumers cfg env ps u)))" "accounted (join_fail k e (fst (start_consumers cfg env ps u)))" for ps e
    using phase_steps(1,2) [of "fst (start_consumers cfg env ps u)" k Active] start_consumers_accounted [OF assms(1) u, of cfg ps] by auto
  then show ?thesis
    using phase_steps(1,2) [OF assms(2) j] failed_request_accounted [OF assms(1,2) j]
    unfolding sync_answered_def u_def [symmetric] by (auto simp: split_beta split: sum.split)
qed

lemma group_stop_accounted:
  assumes "ok env" "accounted s"
  shows "accounted (group_stop cfg env errb s)"
proof -
  obtain t w where t: "shutdown_consumers cfg env s = (t, w)" by force
  from shutdown_consumers_waits [OF assms(1) t] consider "settled s t" "w = None"
    | pend where "w = Some (gr_consumers s, pend)" "settled (s\<lparr>gr_consumers := []\<rparr>) t" "set pend \<subseteq> ids s"
        "\<not> gr_stopping t \<longrightarrow> set (gr_running t) \<inter> ids s \<subseteq> set pend" by blast
  then show ?thesis
  proof cases
    case 1
    have "settled t (coordinator_stop cfg (stop_consumers cfg env) env errb t)"
      by (rule coordinator_stop_settled) (rule handled_ending [OF stop_consumers_handled(1)])
    with accounted_settled [OF accounted_settled [OF assms(2) 1(1)]] show ?thesis by (simp add: group_stop_def t 1(2))
  next
    case (2 pend)
    let ?t = "t\<lparr>gr_stops := gr_stops t @ [(gr_consumers s, pend, errb)]\<rparr>"
    have "accounted ?t"
    proof (cases "gr_stopping t")
      case False
      then have st: "\<not> gr_stopping s" "set (gr_running t) \<subseteq> set (gr_running s)" "gr_joins t = gr_joins s" "gr_stops t = gr_stops s"
        using 2(2) by (auto simp: settled_def)
      have "awaited c ?t" if "c \<in> set (gr_running t)" for c
      proof -
        have "awaited c s \<Longrightarrow> awaited c ?t" unfolding awaited_cases by (simp add: st(3,4)) blast
        moreover have "c \<in> set pend \<Longrightarrow> awaited c ?t" unfolding awaited_cases by (simp add: st(3,4)) blast
        ultimately show ?thesis using that 2(4) False assms(2) st(1,2) unfolding accounted_def by blast
      qed
      then show ?thesis using 2(3) assms(2) st(1) unfolding accounted_def by (auto simp: st(3,4) ids_def)
    qed (simp add: accounted_def)
    then show ?thesis by (simp add: group_stop_def t 2(1))
  qed
qed

text \<open>The last shutdown that is waited for ends, or one fails: then the consumers are stopped.\<close>

lemma stop_rest_ends:
  assumes "ok env" "r = CallDone \<or> r = CallFailed e" "set pend \<subseteq> mc_id ` set cs" "one_down c r pend = []" "gr_stopping u \<or> c \<notin> set (gr_running u)"
  shows "settled u (stop_rest cfg env cs r u)" "gr_stopping (stop_rest cfg env cs r u) \<or> set (gr_running (stop_rest cfg env cs r u)) \<inter> set pend = {}"
proof -
  have a: "settled u (stop_all (on_consumer_error cfg env) env cs u) \<and> gone cs (stop_all (on_consumer_error cfg env) env cs u)"
    by (rule stop_all_settled [OF assms(1)]) (rule on_consumer_error_settled [OF assms(1)])
  show "settled u (stop_rest cfg env cs r u)" using a by (simp add: stop_rest_def split: call_result.split)
  have "set pend - {c} = {}" if "r = CallDone" using arg_cong [OF assms(4), of set] that by (simp add: one_down_def)
  with a assms(2,3,5) show "gr_stopping (stop_rest cfg env cs r u) \<or> set (gr_running (stop_rest cfg env cs r u)) \<inter> set pend = {}"
    by (auto simp: stop_rest_def gone_def)
qed

lemma accounted_pend:
  assumes "accounted t" "\<not> gr_stopping t"
  shows "(k, Preparing cs pend) \<in> set (gr_joins t) \<Longrightarrow> set pend \<subseteq> mc_id ` set cs"
    and "(cs, pend, errb) \<in> set (gr_stops t) \<Longrightarrow> set pend \<subseteq> mc_id ` set cs"
  using assms unfolding accounted_def by blast+

lemma one_down_set:
  "set (one_down c r pend) \<subseteq> set pend" "one_down c r pend \<noteq> [] \<Longrightarrow> x \<in> set pend \<Longrightarrow> x \<noteq> c \<Longrightarrow> x \<in> set (one_down c r pend)"
  by (auto simp: one_down_def split: call_result.splits)

lemma join_down:
  assumes "ok env" "r = CallDone \<or> r = CallFailed x" "accounted t" "\<not> gr_stopping t" "c \<notin> set (gr_running t)" "gr_joins t = [(k, Preparing cs pend)]"
  shows "accounted (if one_down c r pend \<noteq> [] then join_phase_set k (Preparing cs (one_down c r pend)) t
      else send_join_group_request cfg k (stop_rest cfg env cs r (join_phase_set k Active t)))"
proof (cases "one_down c r pend = []")
  case False
  let ?u = "join_phase_set k (Preparing cs (one_down c r pend)) t"
  have "accounted ?u"
  proof (rule accounted_release [where u = ?u and P = "{c}", OF assms(3)])
    show "awaited i ?u \<or> i \<in> {c}" if "awaited i t" for i
      using that one_down_set(2) [OF False, of i] assms(6) unfolding awaited_cases join_phase_set_def by auto
  qed (use assms(5,6) accounted_pend [OF assms(3,4)] one_down_set(1) [of c r pend] in \<open>auto simp: join_phase_set_def\<close>)
  with False show ?thesis by simp
next
  case True
  let ?u = "join_phase_set k Active t"
  have "gr_stopping ?u \<or> c \<notin> set (gr_running ?u)" "set pend \<subseteq> mc_id ` set cs"
    using assms(5,6) accounted_pend(1) [OF assms(3,4)] by (auto simp: join_phase_set_def)
  note rest = stop_rest_ends [where cfg = cfg, OF assms(1,2) this(2) True this(1)]
  have "accounted (stop_rest cfg env cs r ?u)"
  proof (rule accounted_release [where u = ?u and P = "set pend", OF assms(3)])
    show "awaited i ?u \<or> i \<in> set pend" if "awaited i t" for i
      using that assms(6) unfolding awaited_cases join_phase_set_def by auto
  qed (use assms(6) accounted_pend [OF assms(3,4)] rest in \<open>auto simp: join_phase_set_def\<close>)
  moreover have "gr_joins ?u = [(k, Active)]" using assms(6) by (simp add: join_phase_set_def)
  then have "gr_stopping (stop_rest cfg env cs r ?u) \<or> gr_joins (stop_rest cfg env cs r ?u) = [(k, Active)] \<and> \<not> waits Active"
    using rest(1) by (auto simp: settled_def)
  ultimately have "accounted (send_join_group_request cfg k (stop_rest cfg env cs r ?u))" by (rule phase_steps(6))
  then show ?thesis using True by simp
qed

lemma awaited_replaced:
  assumes "awaited i t" "gr_joins u = gr_joins t" "\<And>e. e \<in> set (gr_stops t) \<Longrightarrow> e \<in> set (gr_stops u) \<or> e = (cs, pend, errb)"
  shows "awaited i u \<or> i \<in> set pend"
proof -
  from assms(1) consider k q p where "(k, Preparing q p) \<in> set (gr_joins t)" "i \<in> set p"
    | q p b where "(q, p, b) \<in> set (gr_stops t)" "i \<in> set p" unfolding awaited_cases by blast
  then show ?thesis
  proof cases
    case 1
    then show ?thesis unfolding awaited_cases assms(2) by blast
  next
    case 2
    from assms(3) [OF 2(1)] 2(2) show ?thesis unfolding awaited_cases by auto
  qed
qed

lemma stop_down:
  assumes "ok env" "r = CallDone \<or> r = CallFailed x" "accounted t" "\<not> gr_stopping t" "c \<notin> set (gr_running t)" "(cs, pend, errb) \<in> set (gr_stops t)"
  defines "rest \<equiv> remove1 (cs, pend, errb) (gr_stops t)"
  shows "accounted (if one_down c r pend \<noteq> [] then t\<lparr>gr_stops := (cs, one_down c r pend, errb) # rest\<rparr>
      else coordinator_stop cfg (stop_consumers cfg env) env errb (stop_rest cfg env cs r (t\<lparr>gr_stops := rest\<rparr>)))"
proof -
  have keep: "e \<in> set rest \<or> e = (cs, pend, errb)" if "e \<in> set (gr_stops t)" for e using that by (auto simp: rest_def in_set_remove1)
  have sub: "set rest \<subseteq> set (gr_stops t)" unfolding rest_def by (rule set_remove1_subset)
  note pend = accounted_pend [OF assms(3,4)]
  show ?thesis
  proof (cases "one_down c r pend = []")
    case False
    let ?u = "t\<lparr>gr_stops := (cs, one_down c r pend, errb) # rest\<rparr>"
    have "accounted ?u"
    proof (rule accounted_release [where u = ?u and P = "{c}", OF assms(3)])
      show "awaited i ?u \<or> i \<in> {c}" if "awaited i t" for i
      proof -
        have "awaited i ?u \<or> i \<in> set pend" by (rule awaited_replaced [OF that]) (use keep in auto)
        moreover have "awaited i ?u" if "i \<in> set (one_down c r pend)" using that by (simp add: awaited_def)
        ultimately show ?thesis using one_down_set(2) [OF False, of i] by blast
      qed
      show "set p \<subseteq> mc_id ` set q" if "(q, p, e) \<in> set (gr_stops ?u)" for q p e
        using that pend(2) [OF assms(6)] pend(2) [of q p e] sub one_down_set(1) [of c r pend] by auto
    qed (use assms(5) pend(1) in simp_all)
    with False show ?thesis by simp
  next
    case True
    let ?u = "t\<lparr>gr_stops := rest\<rparr>"
    have "gr_stopping ?u \<or> c \<notin> set (gr_running ?u)" using assms(5) by simp
    note ends = stop_rest_ends [where cfg = cfg, OF assms(1,2) pend(2) [OF assms(6)] True this]
    have "accounted (stop_rest cfg env cs r ?u)"
    proof (rule accounted_release [where u = ?u and P = "set pend", OF assms(3)])
      show "awaited i ?u \<or> i \<in> set pend" if "awaited i t" for i
        by (rule awaited_replaced [OF that]) (use keep in auto)
      show "set p \<subseteq> mc_id ` set q" if "(q, p, e) \<in> set (gr_stops ?u)" for q p e using that pend(2) [of q p e] sub by auto
    qed (use pend(1) ends in simp_all)
    moreover have "settled v (coordinator_stop cfg (stop_consumers cfg env) env errb v)" for v
      by (rule coordinator_stop_settled) (rule handled_ending [OF stop_consumers_handled(1)])
    ultimately show ?thesis using True accounted_settled by simp
  qed
qed

lemma consumer_down_accounted:
  assumes "ok env" "down a" "an_result a = CallDone \<or> an_result a = CallFailed x" "accounted s" "group_inv s"
  shows "accounted (consumer_down cfg env c a s)"
proof -
  define t where "t = consumer_fails (on_consumer_error cfg env) c (an_error a) (after_call c a s)"
  have f: "settled (after_call c a s) t"
    unfolding t_def by (rule consumer_fails_settled) (rule on_consumer_error_settled [OF assms(1)])
  have st: "settled s t" by (rule settled_trans [OF settled_basic(2) f])
  have t: "accounted t" by (rule accounted_settled [OF assms(4) st])
  show ?thesis
  proof (cases "gr_stopping t")
    case False
    have c: "c \<notin> set (gr_running t)" using f False down_ends [OF assms(2,3)] by (auto simp: settled_def after_call_def)
    have joins: "gr_joins t = [(k, p)]" if "find (join_waits c) (gr_joins t) = Some (k, p)" for k p
    proof -
      have "(k, p) \<in> set (gr_joins t)" using that by (auto simp: find_Some_iff)
      then show ?thesis using st False assms(5) by (auto simp: settled_def group_inv_def core_def joins_ok_def split: option.splits)
    qed
    have stops: "(cs, pend, errb) \<in> set (gr_stops t)" if "find (\<lambda>(cs, pend, _). c \<in> set pend) (gr_stops t) = Some (cs, pend, errb)" for cs pend errb
      using that by (metis find_Some_iff nth_mem)
    have "accounted (case find (\<lambda>(cs, pend, _). c \<in> set pend) (gr_stops t) of None \<Rightarrow> t
        | Some (cs, pend, errb) \<Rightarrow> let others = remove1 (cs, pend, errb) (gr_stops t)
            in if one_down c (an_result a) pend \<noteq> [] then t\<lparr>gr_stops := (cs, one_down c (an_result a) pend, errb) # others\<rparr>
               else coordinator_stop cfg (stop_consumers cfg env) env errb (stop_rest cfg env cs (an_result a) (t\<lparr>gr_stops := others\<rparr>)))"
      using t stop_down [OF assms(1,3) t False c stops] by (simp add: Let_def split: option.split prod.split)
    moreover have "accounted (if one_down c (an_result a) pend \<noteq> [] then join_phase_set k (Preparing cs (one_down c (an_result a) pend)) t
        else send_join_group_request cfg k (stop_rest cfg env cs (an_result a) (join_phase_set k Active t)))"
      if "find (join_waits c) (gr_joins t) = Some (k, Preparing cs pend)" for k cs pend
      by (rule join_down [OF assms(1,3) t False c joins [OF that]])
    ultimately show ?thesis unfolding consumer_down_def Let_def t_def [symmetric]
      by (auto simp del: if_split split: option.split join_phase.split)
  next
    case True
    then show ?thesis using consumer_down_ending [where cfg = cfg and env = env and a = a and c = c and s = s, folded t_def]
      by (simp add: accounted_def ending_def)
  qed
qed

lemma join_answered_accounted:
  assumes "ok env" "accounted s" "gr_stopping s \<or> gr_joins s = [(k, Joining)]" "join_answered cfg env k r s = Some t"
  shows "accounted t"
proof (cases r)
  case (Inl x)
  then show ?thesis using assms(3,4) failed_request_accounted [OF assms(1,2), of k Joining] by (auto simp: join_answered_def)
next
  case (Inr resp)
  then show ?thesis using assms(3,4) join_answered_fields [OF assms(2), of k Joining cfg env resp t] by simp
qed

lemma heartbeat_answered_accounted:
  assumes "ok env" "accounted s"
  shows "accounted (heartbeat_answered cfg env r s)"
proof -
  have f: "settled s (s\<lparr>gr_heartbeat_request := q\<rparr>)" "settled s (s\<lparr>gr_heartbeat_request := q, gr_heartbeat_looper := q\<rparr>)" for q
    by (rule settled_frame; simp)+
  have "settled s (rejoin_after_error cfg env x (s\<lparr>gr_heartbeat_request := False, gr_heartbeat_looper := False\<rparr>))" for x
    by (rule settled_trans [OF f(2) rejoin_after_error_settled [OF assms(1)]])
  then show ?thesis using accounted_settled [OF assms(2)] f(1)
    by (simp add: heartbeat_answered_def handle_heartbeat_failure_def Let_def split: sum.split)
qed

lemma step_accounted:
  assumes "accounted s" "group_inv s" "owning_step ok down cfg s e t"
  shows "accounted t"
proof -
  have ap: "group_apply cfg s e = Some t" and ev: "event_ok ok down e" using assms(3) by (simp_all add: owning_step_def group_step_def)
  note keep = accounted_settled [OF assms(1)]
  note joins = task_joins [OF assms(2)]
  have ji: "gr_stopping s \<or> joins_ok s" using assms(2) by (auto simp: group_inv_def core_def)
  have timers: "accounted (join_and_sync b (s\<lparr>gr_timers := n\<rparr>))" for b n
  proof (rule join_and_sync_accounted)
    show "accounted (s\<lparr>gr_timers := n\<rparr>)" by (rule keep [OF settled_frame]) simp_all
    show "gr_stopping (s\<lparr>gr_timers := n\<rparr>) \<or> joins_ok (s\<lparr>gr_timers := n\<rparr>)"
      using ji by (auto simp: joins_ok_def phase_ok_def split: option.splits)
  qed
  have fails: "accounted (consumer_fails (on_consumer_error cfg env) c x s)" if "ok env" for c x env
    by (rule keep, rule consumer_fails_settled) (rule on_consumer_error_settled [OF that])
  show ?thesis
  proof (cases e)
    case CancelStart
    then show ?thesis using ap by (auto simp: group_apply_def gr_emit_def split: option.splits if_splits intro!: keep settled_frame)
  next
    case (LeaveAnswer r env)
    then obtain errb where l: "gr_leaving s = Some errb" "t = leave_answered cfg env r errb s"
      using ap by (auto simp: group_apply_def split: option.splits)
    have "gr_stopping s" using assms(2) l(1) by (auto simp: group_inv_def core_def)
    then show ?thesis using leave_answered_ending [of s cfg env r errb] by (simp add: accounted_def ending_def l(2))
  next
    case HeartbeatTick
    have "settled s (gr_emit x (s\<lparr>gr_heartbeat_request := True\<rparr>))" for x by (rule settled_frame) (simp_all add: gr_emit_def)
    then show ?thesis using HeartbeatTick ap keep assms(1) by (auto simp: group_apply_def heartbeat_def split: if_splits)
  qed (use ap ev joins ji timers fails assms(1,2) in \<open>auto simp: group_apply_def split: if_splits option.splits join_phase.splits call_result.splits
      intro: group_start_accounted group_stop_accounted coordinator_found_accounted metadata_loaded_accounted join_answered_accounted
        partitions_loaded_accounted sync_answered_accounted heartbeat_answered_accounted join_and_sync_accounted consumer_down_accounted\<close>)
qed

end

sublocale owned_consumers \<subseteq> owning: step_machine "\<lambda>s. s = group_init" "owning_step ok down cfg" "\<lambda>s. group_inv s \<and> accounted s" for cfg
proof
  show "group_inv s \<and> accounted s" if "s = group_init" for s
    using that group.invar_init by (simp add: accounted_def group_init_def)
  show "group_inv t \<and> accounted t" if "group_inv s \<and> accounted s" "owning_step ok down cfg s e t" for s e t
    using that step_accounted group_step_inv by (auto simp: owning_step_def)
qed

section \<open>The consumers keep the laws\<close>

lemma deferred_result_fired: "deferred_result d t \<noteq> CallWaiting \<Longrightarrow> 0 < cfires d (co_log t)"
proof -
  assume "deferred_result d t \<noteq> CallWaiting"
  then have "find (is_cfire d) (co_log t) \<noteq> None" by (metis deferred_result_def option.case(1))
  then show ?thesis by (auto simp: cfires_def find_None_iff filter_empty_conv)
qed

interpretation members: owned_consumers lawful lawful_down
proof
  fix env :: group_env and c a e
  show "\<not> an_running (ge_stop env c)" if law: "lawful env"
  proof -
    from law obtain cfg cenv s where s: "owned cfg s" "ge_stop env c = stop_answer cfg cenv s" unfolding lawful_def by blast
    then have "co_start_d (fst (co_stop cfg cenv s)) = None" using once_started_stop by (auto simp: owned_def)
    then show ?thesis by (simp add: s(2) stop_answer_def answer_def split_beta)
  qed
  show "\<not> an_running (ge_shutdown env c)" if law: "lawful env" and r: "an_result (ge_shutdown env c) = CallDone \<or> an_result (ge_shutdown env c) = CallFailed e"
  proof -
    from law obtain cfg cenv s where s: "owned cfg s" "ge_shutdown env c = shutdown_answer cfg cenv s" unfolding lawful_def by blast
    obtain t q where t: "shutdown cfg cenv s = (t, q)" by force
    have q: "q = Inr ()" "deferred_result (co_next_d s) t \<noteq> CallWaiting"
      using r by (auto simp: s(2) shutdown_answer_def answer_def t split: sum.splits)
    have step: "co_step cfg s (ShutdownConsumer cenv) t" by (simp add: co_step_def co_apply_def t)
    obtain b n where "co_reach cfg b n s" using s(1) by (auto simp: owned_def)
    from fired_ended [OF this step _ deferred_result_fired [OF q(2)]] have "co_start_d t = None" by (simp add: t q(1))
    then show ?thesis by (simp add: s(2) shutdown_answer_def answer_def t)
  qed
  show "\<not> an_running a" if law: "lawful_down a" and r: "an_result a = CallDone \<or> an_result a = CallFailed e"
  proof -
    from law obtain cfg s x t d where s: "owned cfg s" "co_step cfg s x t" "co_shutdown_d s = Some d" "a = down_answer d s t"
      unfolding lawful_down_def by blast
    have "deferred_result d t \<noteq> CallWaiting" using r by (auto simp: s(4) down_answer_def answer_def)
    moreover obtain b n where "co_reach cfg b n s" using s(1) by (auto simp: owned_def)
    ultimately have "co_start_d t = None" using fired_ended [OF _ s(2)] s(3) deferred_result_fired by blast
    then show ?thesis by (simp add: s(4) down_answer_def answer_def)
  qed
qed

text \<open>
  C5. No consumer is left behind: in every run of a group whose consumers answer as \<open>Consumer\<close> does, unless the group is
  stopping, each consumer that runs is one of those that the group manages, and then it has the present member id and generation,
  or the group waits for its shutdown. While a join or sync request is under way and no \<open>stop\<close> waits for consumers, no
  consumer runs, so that a member never consumes for two generations.
\<close>

theorem no_stray_consumers:
  assumes "reach (\<lambda>s. s = group_init) (owning_step lawful lawful_down cfg) s" "\<not> gr_stopping s"
  shows "(\<forall>c\<in>set (gr_running s). awaited c s \<or>
      (\<exists>m\<in>set (gr_consumers s). mc_id m = c \<and> mc_member m = gr_member_id s \<and> mc_generation m = gr_generation_id s)) \<and>
    ((\<exists>p\<in>set (dict_values (gr_joins s)). exclusive p \<and> \<not> waits p) \<longrightarrow> gr_stops s = [] \<longrightarrow> gr_running s = [])"
proof -
  have inv: "core s" "accounted s" using members.owning.reach_invar [OF assms(1)] assms(2) by (simp_all add: group_inv_def)
  have run: "c \<in> ids s \<or> awaited c s" if "c \<in> set (gr_running s)" for c using inv(2) assms(2) that by (auto simp: accounted_def)
  have "gr_running s = []" if p: "p \<in> set (dict_values (gr_joins s))" "exclusive p" "\<not> waits p" "gr_stops s = []" for p
  proof -
    obtain k where "gr_joins s = [(k, p)]" "gr_consumers s = []"
      using inv(1) p(1,2) by (auto simp: core_def joins_ok_def phase_ok_def split: option.splits)
    then have "\<not> awaited c s" "ids s = {}" for c using p(3,4) by (auto simp: awaited_cases ids_def)
    then show ?thesis using run by (metis empty_iff list.set_intros(1) neq_Nil_conv)
  qed
  with run inv(1) show ?thesis by (auto simp: core_def consumers_ok_def ids_def)
qed

text \<open>Example: the calls of consumers that have nothing to commit, and of consumers that have.\<close>

definition sample_idle :: consumer where
  "sample_idle = the (sample_run 2 [StartConsumer 5])"

definition sample_busy :: consumer where
  "sample_busy = the (sample_run 2 [StartConsumer 5, sample_fetched [4, 5, 6] (Inr ()), ProcessorAnswer (Inr ()) sample_env,
     CommitAnswer (Inr ()) sample_env, RetryTimer, sample_fetched [7] (Inr ()), ProcessorAnswer (Inr ()) sample_env])"

lemma sample_owned: "owned (sample_consumer 2) sample_idle" "owned (sample_consumer 2) sample_busy" "owned (sample_consumer 2) sample_closing"
proof -
  have "sample_run 2 [StartConsumer 5] = Some sample_idle" "starts (co_log sample_idle) = 1" by code_simp+
  then show "owned (sample_consumer 2) sample_idle" using sample_consumer_reach unfolding owned_def by blast
  have "sample_run 2 [StartConsumer 5, sample_fetched [4, 5, 6] (Inr ()), ProcessorAnswer (Inr ()) sample_env,
     CommitAnswer (Inr ()) sample_env, RetryTimer, sample_fetched [7] (Inr ()), ProcessorAnswer (Inr ()) sample_env] = Some sample_busy"
    "starts (co_log sample_busy) = 1" by code_simp+
  then show "owned (sample_consumer 2) sample_busy" using sample_consumer_reach unfolding owned_def by blast
  have "starts (co_log sample_closing) = 1" by code_simp
  then show "owned (sample_consumer 2) sample_closing" using sample_consumer_reach [OF sample_closing_run] unfolding owned_def by blast
qed

definition sample_ended :: call_answer where
  "sample_ended = \<lparr>an_result = CallDone, an_error = None, an_running = False\<rparr>"

lemma sample_lawful: "lawful (sample_calls CallDone)" "lawful (sample_calls CallWaiting)" "lawful_down sample_ended"
proof -
  have stop: "stop_answer (sample_consumer 2) sample_env sample_idle = sample_ended" by code_simp
  have "shutdown_answer (sample_consumer 2) sample_env sample_idle = sample_ended" by code_simp
  then show "lawful (sample_calls CallDone)"
    unfolding lawful_def sample_calls_def using stop sample_owned(1) by (auto simp: sample_ended_def) metis+
  have "shutdown_answer (sample_consumer 2) sample_env sample_busy = \<lparr>an_result = CallWaiting, an_error = None, an_running = True\<rparr>" by code_simp
  then show "lawful (sample_calls CallWaiting)"
    unfolding lawful_def sample_calls_def using stop sample_owned(1,2) by (auto simp: sample_ended_def) metis+
  have "co_step (sample_consumer 2) sample_closing (CommitAnswer (Inr ()) sample_env) sample_closed" unfolding co_step_def by code_simp
  moreover have "co_shutdown_d sample_closing = Some 1" "down_answer 1 sample_closing sample_closed = sample_ended" by code_simp+
  ultimately show "lawful_down sample_ended" unfolding lawful_down_def using sample_owned(3) by metis
qed

lemma owning_run:
  "reach (\<lambda>s. s = group_init) (owning_step ok down cfg) s \<Longrightarrow> list_all (event_ok ok down) es \<Longrightarrow> group_run cfg s es = Some t \<Longrightarrow>
   reach (\<lambda>s. s = group_init) (owning_step ok down cfg) t"
proof (induction es arbitrary: s)
  case (Cons e es)
  then obtain u where u: "owning_step ok down cfg s e u" "group_run cfg u es = Some t"
    by (auto simp: owning_step_def group_step_def split: option.splits)
  show ?case by (rule Cons.IH [OF reach_step [OF Cons.prems(1) u(1)] _ u(2)]) (use Cons.prems(2) in simp)
qed simp

text \<open>A rebalance: the member waits for its consumer, which commits its offset first, and then joins again.\<close>

definition sample_rebalance :: "group_event list" where
  "sample_rebalance = sample_joining @ sample_sync 1 @
     [HeartbeatTick, HeartbeatAnswer (Inl (BrokerResponse RebalanceInProgress)) (sample_calls CallDone), RejoinTick] @ sample_join 3 CallWaiting"

definition sample_leaving :: group where
  "sample_leaving = the (sample_group_run sample_rebalance)"

definition sample_again :: group where
  "sample_again = the (sample_group_run (sample_rebalance @ [ConsumerDown 2 sample_ended (sample_calls CallDone)]))"

theorem no_stray_consumers_witness:
  "gr_running sample_leaving = [2] \<and> gr_consumers sample_leaving = [] \<and> awaited 2 sample_leaving \<and>
   dict_values (gr_joins sample_again) = [Joining] \<and> gr_running sample_again = []"
proof -
  have run: "sample_group_run sample_rebalance = Some sample_leaving"
    "sample_group_run (sample_rebalance @ [ConsumerDown 2 sample_ended (sample_calls CallDone)]) = Some sample_again"
    "gr_running sample_leaving = [2]" "gr_consumers sample_leaving = []" "\<not> gr_stopping sample_leaving"
    "dict_values (gr_joins sample_again) = [Joining]" "\<not> gr_stopping sample_again" "gr_stops sample_again = []"
    by (simp_all add: sample_leaving_def sample_again_def sample_rebalance_def sample_ended_def stop_eval)
  have ok: "list_all (event_ok lawful lawful_down) sample_rebalance" "event_ok lawful lawful_down (ConsumerDown 2 sample_ended (sample_calls CallDone))"
    by (simp_all add: sample_rebalance_def sample_joining_def sample_join_def sample_sync_def sample_lawful)
  have start: "reach (\<lambda>s. s = group_init) (owning_step lawful lawful_down sample_group) group_init" by (rule reach_init) simp
  have "awaited 2 sample_leaving"
    using no_stray_consumers [OF owning_run [OF start ok(1) run(1)] run(5)] run(3,4) by simp
  moreover have "gr_running sample_again = []"
    using no_stray_consumers [OF owning_run [OF start _ run(2)] run(7)] ok run(6,8) by simp
  ultimately show ?thesis using run by simp
qed

end
