(* ===== verification/Spec2Isabelle.thy ===== *)
theory Spec2Isabelle
  imports Bootstrap_Protocol Produce_Path Fetch_Path Consumer_Faults Group_Consumers
begin

text \<open>
  A model of the Kafka client library afkak (\<open>src/afkak\<close>) and the properties that make its parts
  correct.

  \<^bold>\<open>The program.\<close> Bytes travel between the application and the brokers of a cluster through these parts:
  \<^item> \<open>_util.py\<close> and \<open>kafkacodec.py\<close> translate between records and the wire format, \<open>codec.py\<close> compresses message sets;
  \<^item> \<open>_protocol.py\<close> and \<open>brokerclient.py\<close> own one connection each, number the requests on it and match
    responses to requests by correlation id;
  \<^item> \<open>client.py\<close> caches the metadata of the cluster, keeps one broker client per node, finds the leader of a
    partition or the coordinator of a group, and splits a list of payloads over the brokers;
  \<^item> \<open>partitioner.py\<close> and \<open>producer.py\<close> choose partitions for messages, collect them in batches and retry;
  \<^item> \<open>consumer.py\<close> fetches messages of one partition, calls a processor and commits offsets;
  \<^item> \<open>_group.py\<close> joins a consumer group, divides partitions among its members and runs the consumers of its share.

  \<^bold>\<open>The theories\<close>, in the order of the code they model:
  \<^item> \<open>Prelude\<close>: results (\<open>error + value\<close>), dictionaries as association lists in insertion order, runs of step
    relations, and the locale \<open>step_machine\<close> (an invariant of a step relation holds in its reachable states).
  \<^item> \<open>Common\<close>: constants, exceptions and error codes of \<open>common.py\<close>; \<open>Wire\<close>: \<open>struct\<close>, the counted reads and writes of
    \<open>_util.py\<close>, ASCII and UTF-8, grouping of payloads.
  \<^item> \<open>Compression\<close>: \<open>codec.py\<close>; \<open>Checksum\<close>: CRC-32; \<open>Message_Set\<close>: messages and message sets of \<open>kafkacodec.py\<close>;
    \<open>Broker_Log\<close>: the entries of a broker's log, plain messages and gzip or Snappy wrappers with the offsets of the broker, and how a set of
    them decodes, complete or cut.
  \<^item> \<open>Requests\<close> and \<open>Responses\<close>: the \<open>encode_*\<close> and \<open>decode_*\<close> methods of \<open>KafkaCodec\<close>, with the reader and the
    writer of a broker as their specification.
  \<^item> \<open>Partitioner\<close>: Murmur2, round robin and hashing; \<open>Group_Assignment\<close>: \<open>_ConsumerProtocol\<close> of \<open>_group.py\<close>.
  \<^item> \<open>Broker_Client\<close> and \<open>Bootstrap_Protocol\<close>: the two kinds of connection, as step relations whose
    steps are the methods and callbacks of the classes.
  \<^item> \<open>Hosts\<close> and \<open>Client\<close>: host lists, the metadata cache and the table of broker clients; \<open>Client_Requests\<close>: how
    requests are sent, timed out, retried on other hosts and split over brokers.
  \<^item> \<open>Producer\<close> and \<open>Producer_Steps\<close>: the producer as a step relation, and the properties of its runs; \<open>Produce_Path\<close>: the way of
    a batch through the client and the codec to the brokers.
  \<^item> \<open>Consumer\<close>: the consumer as a step relation; \<open>Consumer_Steps\<close>: the locales for invariants of its runs (\<open>consumer_invariant\<close>)
    and for what its methods do to deferreds (\<open>deferred_relation\<close>), and that no deferred fires twice; \<open>Consumer_Order\<close>: order of
    messages, commits and buffer sizes; \<open>Consumer_Contract\<close>: what \<open>stop\<close> and \<open>shutdown\<close> promise; \<open>Consumer_Faults\<close>: runs it does not
    recover from; \<open>Fetch_Path\<close>: the way of a fetch from the consumer to the broker and of the messages back to the processor.
  \<^item> \<open>Group_Coordinator\<close>: \<open>Coordinator\<close> and \<open>ConsumerGroup\<close> as a step relation; \<open>Group_Steps\<close>: its invariant and the properties of its
    runs; \<open>Group_Faults\<close>: runs that leave joins or consumers behind; \<open>Group_Consumers\<close>: the group with consumers that answer as
    \<open>Consumer\<close> does, over the locale \<open>owned_consumers\<close> of what the group relies on.
  \<^item> This theory: properties that span the codec and a connection.

  \<^bold>\<open>How code is represented.\<close> A class is a record of its attributes (\<open>bc_\<close>, \<open>bp_\<close>, \<open>kc_\<close>, \<open>pr_\<close>, \<open>co_\<close>, \<open>gr_\<close> name the class); a method is a
  function from state to state, or to a result when it may raise. Deferreds are numbers, and what an object
  does to the outside (bytes written, deferreds fired, timers started) is a log in its state. Python's
  integers are \<open>int\<close>, dictionaries keep their order, 32-bit arithmetic wraps explicitly. A generator function with
  \<open>yield\<close>s is a function whose argument gives what the reactor does at each yield (\<open>client_env\<close>), or a
  relation with one step per resumption (\<open>pr_step\<close>, \<open>co_step\<close>, \<open>group_step\<close>, \<open>bc_step\<close>, \<open>bp_step\<close>).

  \<^bold>\<open>What is proved.\<close>
  \<^item> Codec: what is decoded is what was encoded, for message sets under every codec, requests as a broker reads
    them, and responses as a broker writes them, with plain and compressed messages; damaged and truncated input is detected.
  \<^item> Connections: each deferred fires exactly once, with the response to its own request; after a reconnect
    the waiting requests are sent again in order; closing settles everything, in every state that follows.
  \<^item> Client: the metadata cache says what the last response said, and broker clients follow it; payloads go to the broker that the cache names
    when the lookup for the payload ends (\<open>lookups\<close>, \<open>routed_to\<close>), responses come back in the order of the payloads, failures are reported for exactly the payloads
    concerned; a broker-agnostic request returns the bytes of an answer when one bootstrap host answers.
  \<^item> Producer: no caller is told twice, and none is forgotten in orderly runs (\<open>orderly\<close>: the message sets of a batch can be built, and an answer
    of the client accounts for the payloads of its request; the step relation itself has the other runs too); a batch becomes one message set per partition in
    the order of submission, and the leader of the partition reads from its request exactly the messages that were
    submitted; sends and lookup rounds of a batch are bounded together; stopping settles everything.
  \<^item> Consumer: messages reach the processor in the order of their offsets, none is lost and none comes twice; what is
    committed has been processed; no deferred fires twice; fetch sizes stay within their bounds. From \<open>_do_fetch\<close> through the client to the broker
    and back to the processor: the leader is asked for the fetch offset with the buffer size, exactly
    the messages from the fetch offset on arrive, a response that was cut is asked for again, a large message in the end
    with enough room. \<open>stop\<close> ends a consumer that was started once, and one whose shutdown has fired has ended.
  \<^item> Partitioning and assignment: Murmur2 is the reference function, round robin is fair, an assignment
    gives each partition to exactly one subscribed member and is balanced.
  \<^item> Group: a member runs the consumers of its share with its present member id and generation, none while it joins, and a
    join that is needed is under way or scheduled. With the consumers composed, and unless the group is stopping: no consumer of an earlier generation is left
    running unless its shutdown is waited for, and none runs while a join or sync request is under way and no stop waits.
  \<^item> Where the code does not do what it promises, a theorem shows a run or a case in which it does not
    (\<open>restarted_consumer_hangs\<close>, \<open>shutdown_never_fires\<close>, \<open>metadata_error_strands\<close>, \<open>stopped_group_consumes\<close>, \<open>acknowledged_payload_resent\<close>, \<open>exhausted_error_is_a_result\<close>, \<open>snapshot_misses_topic\<close>,
    \<open>round_robin_unsorted_stuck\<close>, \<open>negative_length_moves_back\<close> and others).

  \<^bold>\<open>Loops.\<close> No fuel is used. Loops that end are recursive functions with termination proofs; loops that need not
  end are partial functions into \<open>option\<close> (\<open>seek\<close>, \<open>decode_message_set_from\<close>, \<open>snappy_blocks\<close>, \<open>load_attempts\<close>), and
  the properties prove that they return.

  \<^bold>\<open>Parameters\<close> stand for code outside the repository: the compressors (\<open>codec_env\<close>), the endpoint, clock and
  transport of a connection (\<open>broker_env\<close>), the reactor's answers (\<open>client_env\<close>, \<open>lookup_env\<close>), what cancelled operations end with (\<open>stop_env\<close>), the text codec of bytes
  topics and the framing of Twisted's \<open>Int32StringReceiver\<close>. What a property needs of them is a hypothesis of it.

  \<^bold>\<open>Not modelled.\<close> Log output, \<open>__repr__\<close> texts, deprecated aliases and the type checks that the types of the
  model make; \<open>close_dlist\<close> of the client; callbacks that call back into the object they come from before it
  has returned, such as a processor that calls \<open>stop\<close> or \<open>start\<close> of its consumer from within its call; the \<open>LoopingCall\<close> of the automatic
  commits is a flag, so that a second failure after \<open>_commit_timer_failed\<close> has restarted it without callbacks is not told from the first. The group's consumers are handles whose answers are parameters (\<open>group_env\<close>); \<open>Group_Consumers\<close> takes for each
  call any answer that some consumer gives which was started once, so that it covers every run of the group with its
  consumers, and also runs in which a consumer's answers do not belong to one history.
\<close>

section \<open>From the codec to the connection and back\<close>

text \<open>The correlation id of a response is that of a request when the bytes are the same.\<close>

lemma request_key_slice: "encode_request cid c r = Inr req \<Longrightarrow> struct_pack ''>i'' [c] = Inr (py_slice req 4 8)"
  using encode_request_header [of cid c r req] header_correlation_slice by fastforce

lemma matching_key:
  assumes "struct_pack ''>i'' [c] = Inr k" "py_slice data 0 4 = k"
  shows "get_response_correlation_id data = Inr c"
proof -
  have "length (py_slice data 0 4) = 4" using struct_pack_i [OF assms(1)] assms(2) by simp
  then have "4 \<le> length data" by (simp add: py_slice_nonneg)
  then show ?thesis using assms by (simp add: response_correlation_slice)
qed

lemma correlation_matches:
  assumes "encode_request cid c r = Inr req" "get_response_correlation_id resp = Inr c'"
  shows "py_slice resp 0 4 = py_slice req 4 8 \<longleftrightarrow> c' = c"
proof -
  have k: "struct_pack ''>i'' [c] = Inr (py_slice req 4 8)" by (rule request_key_slice [OF assms(1)])
  have k': "struct_pack ''>i'' [c'] = Inr (py_slice resp 0 4)" using assms(2) by (simp add: response_correlation_slice)
  show ?thesis
  proof
    show "c' = c" if "py_slice resp 0 4 = py_slice req 4 8" using that k k' by (simp add: struct_pack_iff_unpack)
    show "py_slice resp 0 4 = py_slice req 4 8" if "c' = c" using that k k' by simp
  qed
qed

text \<open>
  C31. Over a bootstrap connection a request finds its response, whatever comes before it: when a request that the codec
  encoded with correlation id \<open>c\<close> was accepted, then in every later state in which it is still open (and it is right
  after the call) the response whose id is \<open>c\<close> fires the deferred of this request with the response's bytes, and a response with another
  id leaves it open. Nothing but its response, its cancellation or the loss of the connection ends it.
\<close>

theorem bootstrap_correlates:
  assumes "bp_reach f s" "bp_failed s = None" "encode_request cid c r = Inr req"
    and "bp_request f req s = Inr (d, s1)" "reach (\<lambda>x. x = s1) (bp_step f) t" "d \<in> set (bp_open t)"
    and "get_response_correlation_id resp = Inr c'"
  shows "d \<in> set (bp_open s1) \<and>
    (\<exists>u. bp_stringReceived resp t = Inr u \<and>
       (if c' = c then bp_log u = bp_log t @ [BFired d (Inr resp)] else d \<in> set (bp_open u) \<and> bfires d (bp_log u) = 0)) \<and>
    (\<forall>e u. bp_step f t e u \<and> d \<notin> set (bp_open u) \<longrightarrow>
       e = BCancel d \<or> (\<exists>x. e = BLost x) \<or> (\<exists>data. e = BReceived data \<and> get_response_correlation_id data = Inr c))"
proof -
  have inv: "bp_inv s" by (rule boot.reach_invar [OF assms(1)])
  note rp = request_pending [OF inv assms(2,4)]
  have "bp_inv s1" using bp_inv_request [OF inv assms(4)] .
  from own_key [OF assms(5) this rp(2,3)] have t: "bp_inv t"
    "\<forall>pend k. bp_pending t = Some pend \<longrightarrow> (k, d) \<in> set pend \<longrightarrow> k = py_slice req 4 8" by blast+
  from open_key [OF t assms(6)] obtain pend where p: "bp_pending t = Some pend" "dict_get pend (py_slice req 4 8) = Some d"
    "d \<notin> set (bp_cancelled t)" by blast
  note same = correlation_matches [OF assms(3,7)]
  have "\<exists>u. bp_stringReceived resp t = Inr u" using p(1) by (simp add: bp_stringReceived_def Let_def split: option.split)
  then obtain u where u: "bp_stringReceived resp t = Inr u" by blast
  have "if c' = c then bp_log u = bp_log t @ [BFired d (Inr resp)] else d \<in> set (bp_open u) \<and> bfires d (bp_log u) = 0"
  proof (cases "c' = c")
    case True
    with same p u show ?thesis by (auto simp: bp_stringReceived_def bp_emit_def Let_def bp_fire_def)
  next
    case False
    then have "d \<in> set (bp_open u)" using other_response_pending [OF p _ u] same by blast
    moreover have "bp_inv u" using bp_inv_received [OF t(1) u] .
    ultimately show ?thesis using False by (simp add: bp_inv_def)
  qed
  moreover have "get_response_correlation_id data = Inr c" if "py_slice data 0 4 = py_slice req 4 8" for data
    by (rule matching_key [OF request_key_slice [OF assms(3)] that])
  ultimately show ?thesis using rp(1) u stays_pending [OF _ assms(6) _ p] by blast
qed

theorem bootstrap_correlates_witness:
  "\<exists>d s1 t u. bp_request (\<lambda>_. None) [0, 12, 0, 0, 0, 0, 1, 0, 0, 1, 65, 0, 1, 103, 0, 0, 0, 5, 0, 1, 109]
       bp_connectionMade = Inr (d, s1) \<and>
     bp_stringReceived [0, 0, 0, 9, 0, 0] s1 = Inr t \<and> bp_stringReceived [0, 0, 1, 0, 0, 0] t = Inr u \<and>
     bp_log u = bp_log t @ [BFired d (Inr [0, 0, 1, 0, 0, 0])]"
proof -
  let ?req = "[0, 12, 0, 0, 0, 0, 1, 0, 0, 1, 65, 0, 1, 103, 0, 0, 0, 5, 0, 1, 109]"
  let ?r = "Heartbeat \<lparr>hbq_group = str_lit ''g'', hbq_generation_id = 5, hbq_member_id = str_lit ''m''\<rparr>"
  have e: "encode_request [65] 256 ?r = Inr ?req"
    by (simp add: encode_heartbeat_request_def HEARTBEAT_KEY_def wire_eval)
  have r: "bp_reach (\<lambda>_. None) bp_connectionMade" by (rule reach_init) simp
  have f: "bp_failed bp_connectionMade = None" by (simp add: bp_connectionMade_def)
  obtain d s1 where q: "bp_request (\<lambda>_. None) ?req bp_connectionMade = Inr (d, s1)"
    by (simp add: bp_request_def bp_connectionMade_def)
  have r1: "reach (\<lambda>x. x = s1) (bp_step (\<lambda>_. None)) s1" by (rule reach_init) simp
  have own: "get_response_correlation_id [0, 0, 1, 0, 0, 0] = Inr 256" and other: "get_response_correlation_id [0, 0, 0, 9, 0, 0] = Inr 9"
    by code_simp+
  have o: "d \<in> set (bp_open s1)" by (rule request_pending(1) [OF boot.reach_invar [OF r] f q])
  from bootstrap_correlates [OF r f e q r1 o other] obtain t where t: "bp_stringReceived [0, 0, 0, 9, 0, 0] s1 = Inr t"
    "d \<in> set (bp_open t)" by auto
  have rt: "reach (\<lambda>x. x = s1) (bp_step (\<lambda>_. None)) t" by (rule reach_step [OF r1 bp_step_received [OF t(1)]])
  from bootstrap_correlates [OF r f e q rt t(2) own] q t(1) show ?thesis by auto
qed

end
